(* ===== verification/Prelude.thy ===== *)
theory Prelude
  imports Main "HOL-Library.Word" "HOL-Library.AList"
begin

text \<open>
  Shared vocabulary of the development.

  \<^item> \<^bold>\<open>Go maps.\<close> A Go \<open>map[K]V\<close> is an association list with distinct keys: the list is the
    map together with the order in which a \<open>range\<close> loop visits it. Go leaves that order open,
    so a theorem about every list covers every order.
  \<^item> \<^bold>\<open>Bytes.\<close> A Go \<open>string\<close> is a byte sequence, here a HOL \<open>string\<close> (a character is eight
    bits); a \<open>[]byte\<close> that is computed with is a list of \<open>8 word\<close>.
  \<^item> \<^bold>\<open>Interfaces.\<close> \<open>go_map\<close> is the contract of Go's built-in map operations and \<open>codec\<close> that of
    an encoder with its decoder; both are interpreted on every pair of operations that
    provides them.
\<close>

named_theorems gomap_simps \<open>how the map operations act on a lookup\<close>
named_theorems wire_simps \<open>how byte fields are written and read back\<close>

section \<open>Bytes\<close>

type_synonym byte = "8 word"
type_synonym bytes = "8 word list"

definition byte_of :: "char \<Rightarrow> byte" where
  "byte_of c = of_nat (of_char c)"

definition char_of_byte :: "byte \<Rightarrow> char" where
  "char_of_byte b = char_of (unat b)"

abbreviation str_bytes :: "string \<Rightarrow> bytes" where
  "str_bytes s \<equiv> map byte_of s"

abbreviation bytes_str :: "bytes \<Rightarrow> string" where
  "bytes_str b \<equiv> map char_of_byte b"

lemma of_char_lt_256: "(of_char c :: nat) < 256"
  using of_char_mod_256 [of c, where 'a = nat] by (metis mod_less_divisor zero_less_numeral)

lemma char_of_byte_of [simp]: "char_of_byte (byte_of c) = c"
proof -
  have "unat (of_nat (of_char c) :: byte) = of_char c"
    using of_char_lt_256 [of c] by (simp add: unat_of_nat take_bit_nat_eq_self)
  then show ?thesis by (simp add: char_of_byte_def byte_of_def)
qed

lemma byte_of_char_of_byte [simp]: "byte_of (char_of_byte b) = b"
proof -
  have "unat b < 2 ^ LENGTH(8)" by (rule unsigned_less)
  then have "unat b < 256" by simp
  then have "(of_char (char_of (unat b) :: char) :: nat) = unat b" by simp
  then show ?thesis by (simp add: char_of_byte_def byte_of_def)
qed

lemma bytes_str_str_bytes [simp]: "bytes_str (str_bytes s) = s"
  by (simp add: comp_def)

lemma str_bytes_bytes_str [simp]: "str_bytes (bytes_str b) = b"
  by (simp add: comp_def)

lemma map_char_of_byte_comp [simp]: "map (char_of_byte \<circ> byte_of) s = s"
  by (simp add: comp_def)

lemma map_byte_of_comp [simp]: "map (byte_of \<circ> char_of_byte) b = b"
  by (simp add: comp_def)

lemma inj_byte_of: "inj byte_of"
  by (rule inj_on_inverseI [where g = char_of_byte]) simp

lemma byte_of_eq_iff [simp]: "byte_of c = byte_of d \<longleftrightarrow> c = d"
  using inj_byte_of by (simp add: inj_eq)

lemma str_bytes_eq_iff [simp]: "str_bytes s = str_bytes t \<longleftrightarrow> s = t"
  using inj_byte_of by (simp add: inj_map_eq_map)

section \<open>Lists split at a separator\<close>

lemma append_sep_unique:
  assumes "c \<notin> set a" and "c \<notin> set b" and "a @ c # x = b @ c # y"
  shows "a = b \<and> x = y"
  using assms
proof (induction a arbitrary: b)
  case Nil
  then show ?case by (cases b) auto
next
  case (Cons d a)
  then obtain b' where b: "b = d # b'" by (cases b) auto
  with Cons.prems have "a @ c # x = b' @ c # y" and "c \<notin> set b'" by auto
  with Cons b show ?case by auto
qed

lemma append_eq_lengthD: "a @ x = b @ y \<Longrightarrow> length a = length b \<Longrightarrow> a = b \<and> x = y"
  by simp

section \<open>Go maps\<close>

type_synonym ('k, 'v) gomap = "('k \<times> 'v) list"

definition mget :: "('k, 'v) gomap \<Rightarrow> 'k \<Rightarrow> 'v option" where
  "mget m k = map_of m k"

definition mput :: "'k \<Rightarrow> 'v \<Rightarrow> ('k, 'v) gomap \<Rightarrow> ('k, 'v) gomap" where
  "mput k v m = AList.update k v m"

definition mdel :: "'k \<Rightarrow> ('k, 'v) gomap \<Rightarrow> ('k, 'v) gomap" where
  "mdel k m = filter (\<lambda>p. fst p \<noteq> k) m"

definition mkeys :: "('k, 'v) gomap \<Rightarrow> 'k list" where
  "mkeys m = map fst m"

definition mwf :: "('k, 'v) gomap \<Rightarrow> bool" where
  "mwf m \<longleftrightarrow> distinct (mkeys m)"

text \<open>
  The contract of a Go map: what a lookup returns after each operation, which keys a
  \<open>range\<close> loop visits, and that every operation keeps the keys distinct.
\<close>

locale go_map =
  fixes empty :: "'m"
    and get :: "'m \<Rightarrow> 'k \<Rightarrow> 'v option"
    and put :: "'k \<Rightarrow> 'v \<Rightarrow> 'm \<Rightarrow> 'm"
    and del :: "'k \<Rightarrow> 'm \<Rightarrow> 'm"
    and keys :: "'m \<Rightarrow> 'k list"
    and wf :: "'m \<Rightarrow> bool"
  assumes get_empty: "get empty k = None"
    and get_put: "get (put k v m) k' = (if k' = k then Some v else get m k')"
    and get_del: "get (del k m) k' = (if k' = k then None else get m k')"
    and keys_get: "set (keys m) = {k. get m k \<noteq> None}"
    and wf_empty: "wf empty"
    and wf_put: "wf m \<Longrightarrow> wf (put k v m)"
    and wf_del: "wf m \<Longrightarrow> wf (del k m)"
    and wf_keys: "wf m \<Longrightarrow> distinct (keys m)"
begin

lemma keys_put: "set (keys (put k v m)) = insert k (set (keys m))"
  by (auto simp: keys_get get_put)

lemma keys_del: "set (keys (del k m)) = set (keys m) - {k}"
  by (auto simp: keys_get get_del)

lemma get_None_keys: "get m k = None \<longleftrightarrow> k \<notin> set (keys m)"
  by (simp add: keys_get)

lemma get_Some_keys: "get m k = Some v \<Longrightarrow> k \<in> set (keys m)"
  by (simp add: keys_get)

lemma length_keys: "wf m \<Longrightarrow> length (keys m) = card {k. get m k \<noteq> None}"
  using distinct_card [OF wf_keys] keys_get by metis

lemma length_keys_put_same:
  "wf m \<Longrightarrow> get m k \<noteq> None \<Longrightarrow> length (keys (put k v m)) = length (keys m)"
  by (metis distinct_card get_None_keys insert_absorb keys_put wf_keys wf_put)

end

interpretation gm: go_map "[]" mget mput mdel mkeys mwf
proof unfold_locales
  fix k k' :: 'k and v :: 'v and m :: "('k, 'v) gomap"
  show "mget [] k = (None :: 'v option)" by (simp add: mget_def)
  show "mget (mput k v m) k' = (if k' = k then Some v else mget m k')"
    by (simp add: mget_def mput_def update_conv')
  show "mget (mdel k m) k' = (if k' = k then None else mget m k')"
    by (induction m) (auto simp: mget_def mdel_def)
  show "set (mkeys m) = {k. mget m k \<noteq> None}"
    by (auto simp: mkeys_def mget_def map_of_eq_None_iff)
  show "mwf ([] :: ('k, 'v) gomap)" by (simp add: mwf_def mkeys_def)
  show "mwf (mput k v m)" if "mwf m"
    using that by (simp add: mwf_def mkeys_def mput_def distinct_update)
  show "mwf (mdel k m)" if "mwf m"
    using that by (auto simp: mwf_def mkeys_def mdel_def distinct_map intro: inj_on_subset)
  show "distinct (mkeys m)" if "mwf m"
    using that by (simp add: mwf_def)
qed

lemmas gm_laws [gomap_simps, simp] = gm.get_empty gm.get_put gm.get_del gm.keys_put gm.keys_del
lemmas gm_wf [simp, intro] = gm.wf_empty gm.wf_put gm.wf_del

lemma mkeys_Nil [simp]: "mkeys [] = []"
  by (simp add: mkeys_def)

lemma mget_in_set: "mget m k = Some v \<Longrightarrow> (k, v) \<in> set m"
  by (simp add: mget_def map_of_SomeD)

lemma in_set_mget: "mwf m \<Longrightarrow> (k, v) \<in> set m \<Longrightarrow> mget m k = Some v"
  by (simp add: mget_def mwf_def mkeys_def)

section \<open>Encoders and decoders\<close>

text \<open>
  An encoder \<open>enc\<close> with its decoder \<open>dec\<close>: decoding what was encoded returns the value, for
  the values \<open>ok\<close> the format can carry. The client gets injectivity and framing for free.
\<close>

locale codec =
  fixes enc :: "'a \<Rightarrow> 'w"
    and dec :: "'w \<Rightarrow> 'a option"
    and ok :: "'a \<Rightarrow> bool"
  assumes dec_enc: "ok x \<Longrightarrow> dec (enc x) = Some x"
begin

lemma enc_inj: "ok x \<Longrightarrow> ok y \<Longrightarrow> enc x = enc y \<Longrightarrow> x = y"
  using dec_enc by (metis option.inject)

lemma enc_inj_on: "inj_on enc {x. ok x}"
  by (rule inj_onI) (auto intro: enc_inj)

lemma dec_enc_list: "list_all ok xs \<Longrightarrow> map (dec \<circ> enc) xs = map Some xs"
  by (induction xs) (auto simp: dec_enc)

end

section \<open>Errors\<close>

text \<open>The result of a Go function that returns \<open>(T, error)\<close>: \<open>Inl\<close> carries the error.\<close>

type_synonym ('e, 'a) result = "'e + 'a"

definition is_ok :: "('e, 'a) result \<Rightarrow> bool" where
  "is_ok r = (case r of Inl _ \<Rightarrow> False | Inr _ \<Rightarrow> True)"

definition ok_of :: "('e, 'a) result \<Rightarrow> 'a option" where
  "ok_of r = (case r of Inl _ \<Rightarrow> None | Inr x \<Rightarrow> Some x)"

lemma ok_of_simps [simp]: "ok_of (Inl e) = None" "ok_of (Inr x) = Some x"
  by (simp_all add: ok_of_def)

lemma is_ok_simps [simp]: "is_ok (Inl e) = False" "is_ok (Inr x) = True"
  by (simp_all add: is_ok_def)

lemma ok_of_eq_Some [simp]: "ok_of r = Some x \<longleftrightarrow> r = Inr x"
  by (cases r) auto

end
