(* ===== verification/GoStrings.thy ===== *)
theory GoStrings
  imports Prelude
begin

text \<open>
  The parts of Go's \<open>strings\<close>, \<open>strconv\<close>, \<open>bufio\<close> and \<open>unicode/utf8\<close> packages that gsnet
  relies on, as functions on byte strings.

  White space is Unicode's: \<open>space_encs\<close> lists the UTF-8 encodings of the code points for
  which \<open>unicode.IsSpace\<close> holds. In UTF-8 no encoding occurs inside another one, so trimming
  and field splitting can look for these encodings byte by byte.

  Case folding (\<open>EqualFold\<close>, \<open>ToLower\<close>) is exact whenever one side is ASCII, which is the
  case for every key gsnet compares with a constant; two different non-ASCII runes are never
  folded together.
\<close>

section \<open>White space\<close>

definition ascii :: "char \<Rightarrow> bool" where
  "ascii c \<longleftrightarrow> (of_char c :: nat) < 128"

definition NL :: char where "NL = CHR 0x0A"
definition CR :: char where "CR = CHR 0x0D"
definition SP :: char where "SP = CHR '' ''"

definition space_encs :: "string list" where
  "space_encs =
    [[CHR 0x20], [CHR 0x09], [CHR 0x0A], [CHR 0x0B], [CHR 0x0C], [CHR 0x0D],
     [CHR 0xC2, CHR 0x85], [CHR 0xC2, CHR 0xA0], [CHR 0xE1, CHR 0x9A, CHR 0x80],
     [CHR 0xE2, CHR 0x80, CHR 0x80], [CHR 0xE2, CHR 0x80, CHR 0x81],
     [CHR 0xE2, CHR 0x80, CHR 0x82], [CHR 0xE2, CHR 0x80, CHR 0x83],
     [CHR 0xE2, CHR 0x80, CHR 0x84], [CHR 0xE2, CHR 0x80, CHR 0x85],
     [CHR 0xE2, CHR 0x80, CHR 0x86], [CHR 0xE2, CHR 0x80, CHR 0x87],
     [CHR 0xE2, CHR 0x80, CHR 0x88], [CHR 0xE2, CHR 0x80, CHR 0x89],
     [CHR 0xE2, CHR 0x80, CHR 0x8A], [CHR 0xE2, CHR 0x80, CHR 0xA8],
     [CHR 0xE2, CHR 0x80, CHR 0xA9], [CHR 0xE2, CHR 0x80, CHR 0xAF],
     [CHR 0xE2, CHR 0x81, CHR 0x9F], [CHR 0xE3, CHR 0x80, CHR 0x80]]"

text \<open>The length of the first encoding of \<open>encs\<close> that \<open>s\<close> starts with, 0 if there is none.\<close>

definition lead_len :: "string list \<Rightarrow> string \<Rightarrow> nat" where
  "lead_len encs s =
     (case find (\<lambda>e. take (length e) s = e) encs of None \<Rightarrow> 0 | Some e \<Rightarrow> length e)"

abbreviation space_len :: "string \<Rightarrow> nat" where
  "space_len s \<equiv> lead_len space_encs s"

definition space_encs_rev :: "string list" where
  "space_encs_rev = map rev space_encs"

lemma lead_len_le: "lead_len encs s \<le> length s"
proof (cases "find (\<lambda>e. take (length e) s = e) encs")
  case (Some e)
  then have "take (length e) s = e" by (auto simp: find_Some_iff)
  then have "length e \<le> length s" by (metis length_take min.cobounded1)
  with Some show ?thesis by (simp add: lead_len_def)
qed (simp add: lead_len_def)

lemma lead_len_Nil [simp]: "lead_len encs [] = 0"
  using lead_len_le [of encs "[]"] by simp

function trim_with :: "string list \<Rightarrow> string \<Rightarrow> string" where
  "trim_with encs s =
     (if lead_len encs s = 0 then s else trim_with encs (drop (lead_len encs s) s))"
  by pat_completeness auto
termination
proof (relation "measure (\<lambda>(encs, s). length s)")
  fix encs s
  assume "lead_len encs s \<noteq> 0"
  then have "s \<noteq> []" by auto
  then show "((encs, drop (lead_len encs s) s), encs, s) \<in> measure (\<lambda>(encs, s). length s)"
    using \<open>lead_len encs s \<noteq> 0\<close> by simp
qed simp

declare trim_with.simps [simp del]

text \<open>\<open>strings.TrimSpace\<close>.\<close>

definition TrimSpace :: "string \<Rightarrow> string" where
  "TrimSpace s = rev (trim_with space_encs_rev (rev (trim_with space_encs s)))"

text \<open>\<open>strings.Fields\<close>: \<open>cur\<close> is the field being read, reversed.\<close>

function fields_from :: "string \<Rightarrow> string \<Rightarrow> string list" where
  "fields_from cur [] = (if cur = [] then [] else [rev cur])"
| "fields_from cur (c # s) =
     (if space_len (c # s) = 0 then fields_from (c # cur) s
      else (if cur = [] then [] else [rev cur]) @ fields_from [] (drop (space_len (c # s)) (c # s)))"
  by pat_completeness auto
termination
  by (relation "measure (\<lambda>(cur, s). length s)") auto

definition Fields :: "string \<Rightarrow> string list" where
  "Fields s = fields_from [] s"

section \<open>Prefixes, separators, lines\<close>

definition HasPrefix :: "string \<Rightarrow> string \<Rightarrow> bool" where
  "HasPrefix s p \<longleftrightarrow> take (length p) s = p"

definition TrimPrefix :: "string \<Rightarrow> string \<Rightarrow> string" where
  "TrimPrefix s p = (if HasPrefix s p then drop (length p) s else s)"

definition HasSuffix :: "string \<Rightarrow> string \<Rightarrow> bool" where
  "HasSuffix s p \<longleftrightarrow> HasPrefix (rev s) (rev p)"

text \<open>\<open>strings.TrimRight\<close> with a cutset of ASCII characters.\<close>

definition TrimRight :: "string \<Rightarrow> string \<Rightarrow> string" where
  "TrimRight s cutset = rev (dropWhile (\<lambda>c. c \<in> set cutset) (rev s))"

text \<open>The two sides of the first (\<open>IndexByte\<close>, \<open>Cut\<close>) and last (\<open>LastIndexByte\<close>) separator.\<close>

definition cut_first :: "char \<Rightarrow> string \<Rightarrow> (string \<times> string) option" where
  "cut_first c s =
     (if c \<in> set s then Some (takeWhile (\<lambda>d. d \<noteq> c) s, tl (dropWhile (\<lambda>d. d \<noteq> c) s)) else None)"

definition cut_last :: "char \<Rightarrow> string \<Rightarrow> (string \<times> string) option" where
  "cut_last c s = map_option (\<lambda>(a, b). (rev b, rev a)) (cut_first c (rev s))"

text \<open>\<open>strings.Split\<close> on a single character; never empty.\<close>

fun split_on :: "char \<Rightarrow> string \<Rightarrow> string list" where
  "split_on c [] = [[]]"
| "split_on c (d # s) =
     (if d = c then [] # split_on c s
      else (case split_on c s of [] \<Rightarrow> [[d]] | p # ps \<Rightarrow> (d # p) # ps))"

text \<open>
  \<open>bufio.Scanner\<close> with its default split function: lines without their terminator and without
  one trailing carriage return. A line of 65536 bytes or more does not fit the token buffer:
  the scanner stops there and reports \<open>bufio.ErrTooLong\<close> (the second component).
\<close>

definition MaxScanTokenSize :: nat where
  "MaxScanTokenSize = 65536"

function raw_lines :: "string \<Rightarrow> string list" where
  "raw_lines s =
     (if s = [] then []
      else takeWhile (\<lambda>c. c \<noteq> NL) s # raw_lines (tl (dropWhile (\<lambda>c. c \<noteq> NL) s)))"
  by pat_completeness auto
termination
proof (relation "measure length")
  fix s :: string
  assume "s \<noteq> []"
  have "length (dropWhile (\<lambda>c. c \<noteq> NL) s) \<le> length s" by (rule length_dropWhile_le)
  moreover have "0 < length s" using \<open>s \<noteq> []\<close> by simp
  ultimately have "length (dropWhile (\<lambda>c. c \<noteq> NL) s) - Suc 0 < length s" by linarith
  then show "(tl (dropWhile (\<lambda>c. c \<noteq> NL) s), s) \<in> measure length" by simp
qed simp

declare raw_lines.simps [simp del]

definition dropCR :: "string \<Rightarrow> string" where
  "dropCR l = (if l \<noteq> [] \<and> last l = CR then butlast l else l)"

definition scan_lines :: "string \<Rightarrow> string list \<times> bool" where
  "scan_lines s =
     (let ls = raw_lines s; fits = (\<lambda>l. length l < MaxScanTokenSize)
      in (map dropCR (takeWhile fits ls), \<exists>l \<in> set ls. \<not> fits l))"

section \<open>Case folding\<close>

definition lower_char :: "char \<Rightarrow> char" where
  "lower_char c =
     (if 65 \<le> (of_char c :: nat) \<and> (of_char c :: nat) \<le> 90 then char_of ((of_char c :: nat) + 32)
      else c)"

text \<open>
  \<open>strings.ToLower\<close>. Outside ASCII only the two runes whose lower case is an ASCII letter are
  mapped: U+0130 (to \<open>i\<close>) and U+212A (to \<open>k\<close>).
\<close>

fun ToLower :: "string \<Rightarrow> string" where
  "ToLower [] = []"
| "ToLower (c # s) =
     (if take 2 (c # s) = [CHR 0xC4, CHR 0xB0] then CHR ''i'' # ToLower (drop 1 s)
      else if take 3 (c # s) = [CHR 0xE2, CHR 0x84, CHR 0xAA] then CHR ''k'' # ToLower (drop 2 s)
      else lower_char c # ToLower s)"

text \<open>
  The representative under which \<open>strings.EqualFold\<close> compares: the ASCII letters have two
  non-ASCII runes in their folding orbits, U+017F (with \<open>s\<close>) and U+212A (with \<open>k\<close>).
\<close>

fun fold_str :: "string \<Rightarrow> string" where
  "fold_str [] = []"
| "fold_str (c # s) =
     (if take 2 (c # s) = [CHR 0xC5, CHR 0xBF] then CHR ''s'' # fold_str (drop 1 s)
      else if take 3 (c # s) = [CHR 0xE2, CHR 0x84, CHR 0xAA] then CHR ''k'' # fold_str (drop 2 s)
      else lower_char c # fold_str s)"

definition EqualFold :: "string \<Rightarrow> string \<Rightarrow> bool" where
  "EqualFold s t \<longleftrightarrow> fold_str s = fold_str t"

section \<open>Numbers\<close>

definition digit_char :: "nat \<Rightarrow> char" where
  "digit_char d = char_of (48 + d)"

definition is_digit :: "char \<Rightarrow> bool" where
  "is_digit c \<longleftrightarrow> 48 \<le> (of_char c :: nat) \<and> (of_char c :: nat) \<le> 57"

fun nat_str :: "nat \<Rightarrow> string" where
  "nat_str n = (if n < 10 then [digit_char n] else nat_str (n div 10) @ [digit_char (n mod 10)])"

declare nat_str.simps [simp del]

text \<open>\<open>strconv.Itoa\<close> and the \<open>%d\<close> verb.\<close>

definition Itoa :: "int \<Rightarrow> string" where
  "Itoa v = (if v < 0 then CHR ''-'' # nat_str (nat (- v)) else nat_str (nat v))"

fun parse_digits :: "nat \<Rightarrow> string \<Rightarrow> nat option" where
  "parse_digits acc [] = Some acc"
| "parse_digits acc (c # s) =
     (if is_digit c then parse_digits (10 * acc + (of_char c - 48)) s else None)"

definition int64_range :: "int \<Rightarrow> bool" where
  "int64_range v \<longleftrightarrow> - (2 ^ 63) \<le> v \<and> v < 2 ^ 63"

text \<open>\<open>strconv.Atoi\<close> on a 64-bit platform: an optional sign, decimal digits, in range.\<close>

definition Atoi :: "string \<Rightarrow> int option" where
  "Atoi s =
     (let neg = (take 1 s = ''-'');
          ds = (if take 1 s = ''-'' \<or> take 1 s = ''+'' then drop 1 s else s)
      in if ds = [] then None
         else (case parse_digits 0 ds of
                 None \<Rightarrow> None
               | Some n \<Rightarrow>
                   let v = (if neg then - int n else int n)
                   in if int64_range v then Some v else None))"

section \<open>UTF-8\<close>

text \<open>
  The width of the first rune of a non-empty string as \<open>utf8.DecodeRuneInString\<close> reports it:
  one byte for ASCII and for every invalid sequence, else the length of the encoding.
\<close>

definition in_range :: "nat \<Rightarrow> nat \<Rightarrow> char \<Rightarrow> bool" where
  "in_range lo hi c \<longleftrightarrow> lo \<le> (of_char c :: nat) \<and> (of_char c :: nat) \<le> hi"

abbreviation cont :: "char \<Rightarrow> bool" where
  "cont c \<equiv> in_range 0x80 0xBF c"

definition second_ok :: "char \<Rightarrow> char \<Rightarrow> bool" where
  "second_ok c d =
     (let n = (of_char c :: nat)
      in if n = 0xE0 then in_range 0xA0 0xBF d
         else if n = 0xED then in_range 0x80 0x9F d
         else if n = 0xF0 then in_range 0x90 0xBF d
         else if n = 0xF4 then in_range 0x80 0x8F d
         else cont d)"

fun rune_width :: "string \<Rightarrow> nat" where
  "rune_width [] = 0"
| "rune_width (c # s) =
     (if in_range 0xC2 0xDF c then (case s of d # _ \<Rightarrow> if second_ok c d then 2 else 1 | _ \<Rightarrow> 1)
      else if in_range 0xE0 0xEF c then
        (case s of d # e # _ \<Rightarrow> if second_ok c d \<and> cont e then 3 else 1 | _ \<Rightarrow> 1)
      else if in_range 0xF0 0xF4 c then
        (case s of d # e # f # _ \<Rightarrow> if second_ok c d \<and> cont e \<and> cont f then 4 else 1 | _ \<Rightarrow> 1)
      else 1)"

section \<open>Facts about white space\<close>

lemma space_encs_bytes:
  "\<forall>e \<in> set space_encs. e \<noteq> [] \<and> (length e = 1 \<or> (\<forall>c \<in> set e. \<not> ascii c))"
  by (simp add: space_encs_def ascii_def)

lemma space_encs_rev_bytes:
  "\<forall>e \<in> set space_encs_rev. e \<noteq> [] \<and> (length e = 1 \<or> (\<forall>c \<in> set e. \<not> ascii c))"
  using space_encs_bytes by (auto simp: space_encs_rev_def)

lemma lead_len_0_iff:
  assumes "\<forall>e \<in> set encs. e \<noteq> []"
  shows "lead_len encs s = 0 \<longleftrightarrow> (\<forall>e \<in> set encs. take (length e) s \<noteq> e)"
proof (cases "find (\<lambda>e. take (length e) s = e) encs")
  case None
  moreover from None have "\<forall>e \<in> set encs. take (length e) s \<noteq> e" by (auto simp: find_None_iff)
  ultimately show ?thesis by (simp add: lead_len_def)
next
  case (Some e)
  then have "e \<in> set encs" and "take (length e) s = e" by (auto simp: find_Some_iff)
  with Some assms show ?thesis by (auto simp: lead_len_def)
qed

text \<open>
  A clean start stays clean when an ASCII character follows: no encoding of a space can
  straddle the boundary.
\<close>

lemma lead_len_append:
  assumes encs: "\<forall>e \<in> set encs. e \<noteq> [] \<and> (length e = 1 \<or> (\<forall>c \<in> set e. \<not> ascii c))"
    and s: "lead_len encs s = 0" "s \<noteq> []" and r: "r \<noteq> [] \<Longrightarrow> ascii (hd r)"
  shows "lead_len encs (s @ r) = 0"
proof -
  have ne: "\<forall>e \<in> set encs. e \<noteq> []" using encs by auto
  have "take (length e) (s @ r) \<noteq> e" if e: "e \<in> set encs" for e
  proof
    assume eq: "take (length e) (s @ r) = e"
    show False
    proof (cases "length e \<le> length s")
      case True
      with eq have "take (length e) s = e" by simp
      with s(1) e show False by (auto simp: lead_len_0_iff [OF ne])
    next
      case False
      then have long: "length s < length e" by simp
      with s(2) have "length e \<noteq> 1" by (cases s) auto
      with encs e have nonasc: "\<forall>c \<in> set e. \<not> ascii c" by auto
      have app: "e = s @ take (length e - length s) r" using eq long by simp
      with long have "r \<noteq> []" by auto
      with app long have "hd r \<in> set e"
        by (metis hd_in_set hd_take in_set_conv_decomp append.right_neutral list.set_sel(1)
            take_eq_Nil2 zero_less_diff not_less_zero set_append Un_iff)
      with nonasc r \<open>r \<noteq> []\<close> show False by auto
    qed
  qed
  then show ?thesis by (simp add: lead_len_0_iff [OF ne])
qed

lemmas space_len_append = lead_len_append [OF space_encs_bytes]
lemmas space_len_rev_append = lead_len_append [OF space_encs_rev_bytes]

lemma space_len_SP [simp]: "space_len (SP # s) = 1"
  by (simp add: lead_len_def space_encs_def SP_def)

lemma space_len_rev_SP [simp]: "lead_len space_encs_rev (SP # s) = 1"
  by (simp add: lead_len_def space_encs_rev_def space_encs_def SP_def)

lemma trim_with_clean: "lead_len encs s = 0 \<Longrightarrow> trim_with encs s = s"
  by (simp add: trim_with.simps)

lemma trim_with_starts_clean: "lead_len encs (trim_with encs s) = 0"
  by (induction encs s rule: trim_with.induct) (metis trim_with.simps)

text \<open>A string that starts and ends with something else than white space.\<close>

definition clean :: "string \<Rightarrow> bool" where
  "clean s \<longleftrightarrow> s \<noteq> [] \<and> space_len s = 0 \<and> lead_len space_encs_rev (rev s) = 0"

lemma TrimSpace_clean: "clean s \<Longrightarrow> TrimSpace s = s"
  by (simp add: clean_def TrimSpace_def trim_with_clean)

lemma TrimSpace_Nil [simp]: "TrimSpace [] = []"
  by (simp add: TrimSpace_def trim_with_clean)

lemma TrimSpace_SP_left:
  assumes "clean s" shows "TrimSpace (SP # s) = s"
proof -
  have "trim_with space_encs (SP # s) = s"
    using assms by (simp add: trim_with.simps [of _ "SP # s"] trim_with_clean clean_def)
  with assms show ?thesis by (simp add: TrimSpace_def trim_with_clean clean_def)
qed

lemma TrimSpace_SP_right:
  assumes "clean s" shows "TrimSpace (s @ [SP]) = s"
proof -
  have "space_len (s @ [SP]) = 0"
    using assms by (intro space_len_append) (auto simp: clean_def ascii_def SP_def)
  then have "trim_with space_encs (s @ [SP]) = s @ [SP]" by (rule trim_with_clean)
  moreover have "trim_with space_encs_rev (SP # rev s) = rev s"
    using assms by (simp add: trim_with.simps [of _ "SP # rev s"] trim_with_clean clean_def)
  ultimately show ?thesis by (simp add: TrimSpace_def)
qed

lemma clean_append:
  assumes "clean a" and "clean b" and "ascii (hd m)" and "ascii (last m)" and "m \<noteq> []"
  shows "clean (a @ m @ b)"
proof -
  have "space_len (a @ m @ b) = 0"
    using assms by (intro space_len_append) (auto simp: clean_def hd_append)
  moreover have "lead_len space_encs_rev (rev b @ rev m @ rev a) = 0"
    using assms by (intro space_len_rev_append) (auto simp: clean_def hd_append hd_rev)
  ultimately show ?thesis using assms by (simp add: clean_def)
qed

lemma ascii_cleanI:
  assumes "s \<noteq> []" and "ascii (hd s)" and "ascii (last s)"
    and "[hd s] \<notin> set space_encs" and "[last s] \<notin> set space_encs"
  shows "clean s"
proof -
  have start: "lead_len encs s = 0"
    if encs: "\<forall>e \<in> set encs. e \<noteq> [] \<and> (length e = 1 \<or> (\<forall>c \<in> set e. \<not> ascii c))"
      and "[hd s] \<notin> set encs" and "ascii (hd s)" and "s \<noteq> []" for encs and s :: string
  proof -
    have ne: "\<forall>e \<in> set encs. e \<noteq> []" using encs by auto
    have "take (length e) s \<noteq> e" if e: "e \<in> set encs" for e
    proof
      assume eq: "take (length e) s = e"
      obtain d e' where de: "e = d # e'" using ne e by (cases e) auto
      with eq \<open>s \<noteq> []\<close> have hd: "d = hd s" by (cases s) auto
      with de encs e \<open>ascii (hd s)\<close> have "length e = 1" by auto
      with de hd have "e = [hd s]" by simp
      with e \<open>[hd s] \<notin> set encs\<close> show False by simp
    qed
    then show ?thesis by (simp add: lead_len_0_iff [OF ne])
  qed
  have "[last s] \<notin> set space_encs_rev"
    using assms(5) by (auto simp: space_encs_rev_def dest: arg_cong [where f = rev])
  with assms start [OF space_encs_rev_bytes, of "rev s"] start [OF space_encs_bytes, of s]
  show ?thesis by (simp add: clean_def hd_rev)
qed

lemma clean_ends:
  assumes "clean s" shows "[hd s] \<notin> set space_encs" and "[last s] \<notin> set space_encs"
proof -
  have ne: "\<forall>e \<in> set space_encs. e \<noteq> []" "\<forall>e \<in> set space_encs_rev. e \<noteq> []"
    using space_encs_bytes space_encs_rev_bytes by auto
  have "take 1 s = [hd s]" using assms by (cases s) (auto simp: clean_def)
  with assms show "[hd s] \<notin> set space_encs"
    by (force simp: clean_def lead_len_0_iff [OF ne(1)])
  have "take 1 (rev s) = [last s]" using assms by (cases s rule: rev_cases) (auto simp: clean_def)
  with assms have "[last s] \<notin> set space_encs_rev"
    by (force simp: clean_def lead_len_0_iff [OF ne(2)])
  then show "[last s] \<notin> set space_encs"
    by (force simp: space_encs_rev_def)
qed

lemma clean_last_CR: "clean s \<Longrightarrow> last s \<noteq> CR"
  using clean_ends(2) [of s] by (auto simp: space_encs_def CR_def)

section \<open>Facts about fields\<close>

text \<open>No white space anywhere inside.\<close>

fun nospace :: "string \<Rightarrow> bool" where
  "nospace [] = True"
| "nospace (c # s) = (space_len (c # s) = 0 \<and> nospace s)"

lemma fields_from_nospace:
  "nospace t \<Longrightarrow> fields_from cur (t @ SP # rest) =
     (if cur = [] \<and> t = [] then [] else [rev cur @ t]) @ fields_from [] rest"
proof (induction t arbitrary: cur)
  case Nil
  then show ?case by simp
next
  case (Cons c t)
  then have "space_len ((c # t) @ SP # rest) = 0"
    by (intro space_len_append) (auto simp: ascii_def SP_def)
  with Cons show ?case by simp
qed

lemma fields_from_last:
  "nospace t \<Longrightarrow> fields_from cur t = (if cur = [] \<and> t = [] then [] else [rev cur @ t])"
  by (induction t arbitrary: cur) auto

fun join_sp :: "string list \<Rightarrow> string" where
  "join_sp [] = []"
| "join_sp [t] = t"
| "join_sp (t # u # ts) = t @ SP # join_sp (u # ts)"

definition token :: "string \<Rightarrow> bool" where
  "token t \<longleftrightarrow> t \<noteq> [] \<and> nospace t"

text \<open>Splitting the space-separated join of tokens gives the tokens back.\<close>

lemma Fields_join_sp: "list_all token ts \<Longrightarrow> Fields (join_sp ts) = ts"
  unfolding Fields_def
  by (induction ts rule: join_sp.induct)
    (auto simp: fields_from_nospace fields_from_last token_def)

lemma nospace_suffix: "nospace (a @ b) \<Longrightarrow> nospace b"
  by (induction a) auto

lemma nospace_no_enc:
  assumes "nospace (a @ e @ b)" and "e \<in> set space_encs" shows False
proof -
  have ne: "\<forall>e \<in> set space_encs. e \<noteq> []" using space_encs_bytes by auto
  have n: "nospace (e @ b)" using nospace_suffix [OF assms(1)] .
  obtain c t where ct: "e @ b = c # t" using ne assms(2) by (cases e) auto
  with n have "space_len (e @ b) = 0" by simp
  then have "take (length e) (e @ b) \<noteq> e" using assms(2) unfolding lead_len_0_iff [OF ne] by blast
  then show False by simp
qed

lemma token_clean: "token t \<Longrightarrow> clean t"
proof -
  assume t: "token t"
  have ne: "\<forall>e \<in> set space_encs. e \<noteq> []" "\<forall>e \<in> set space_encs_rev. e \<noteq> []"
    using space_encs_bytes space_encs_rev_bytes by auto
  have "take (length e) (rev t) \<noteq> e" if e: "e \<in> set space_encs_rev" for e
  proof
    assume eq: "take (length e) (rev t) = e"
    obtain f where f: "f \<in> set space_encs" "e = rev f" using e by (auto simp: space_encs_rev_def)
    from eq have "rev t = e @ drop (length e) (rev t)" by (metis append_take_drop_id)
    then have "t = rev (drop (length e) (rev t)) @ f @ []" using f(2) by (metis append.right_neutral rev_append rev_rev_ident)
    with t f(1) show False using nospace_no_enc unfolding token_def by metis
  qed
  then have "lead_len space_encs_rev (rev t) = 0" by (simp add: lead_len_0_iff [OF ne(2)])
  moreover have "space_len t = 0" using t by (cases t) (auto simp: token_def)
  ultimately show ?thesis using t by (simp add: clean_def token_def)
qed

lemma join_sp_clean: "list_all token ts \<Longrightarrow> ts \<noteq> [] \<Longrightarrow> clean (join_sp ts)"
proof (induction ts rule: join_sp.induct)
  case (3 t u ts)
  then have "clean t" "clean (join_sp (u # ts))" by (simp_all add: token_clean)
  from clean_append [OF this, of "[SP]"] show ?case by (simp add: ascii_def SP_def)
qed (simp_all add: token_clean)

lemma token_no_NL: "token t \<Longrightarrow> NL \<notin> set t"
proof
  assume t: "token t" "NL \<in> set t"
  then obtain a b where "t = a @ [NL] @ b" by (metis append_Cons append_Nil in_set_conv_decomp)
  moreover have "[NL] \<in> set space_encs" by (simp add: space_encs_def NL_def)
  ultimately show False using t(1) nospace_no_enc unfolding token_def by metis
qed

lemma join_sp_no_NL: "list_all token ts \<Longrightarrow> NL \<notin> set (join_sp ts)"
  by (induction ts rule: join_sp.induct) (auto dest: token_no_NL simp: SP_def NL_def)

lemma join_sp_Cons: "join_sp (t # ts) = t @ concat (map (\<lambda>a. SP # a) ts)"
  by (induction ts arbitrary: t) auto

lemma TrimSpace_line: "list_all token ts \<Longrightarrow> ts \<noteq> [] \<Longrightarrow> Fields (TrimSpace (join_sp ts)) = ts"
  by (simp add: TrimSpace_clean join_sp_clean Fields_join_sp)

section \<open>Facts about separators and lines\<close>

lemma cut_first_append [simp]: "c \<notin> set a \<Longrightarrow> cut_first c (a @ c # b) = Some (a, b)"
  by (auto simp: cut_first_def takeWhile_append dropWhile_append)

lemma cut_first_None: "c \<notin> set a \<Longrightarrow> cut_first c a = None"
  by (simp add: cut_first_def)

lemma cut_last_append [simp]: "c \<notin> set b \<Longrightarrow> cut_last c (a @ c # b) = Some (a, b)"
  using cut_first_append [of c "rev b" "rev a"] by (simp add: cut_last_def)

lemma raw_lines_Nil [simp]: "raw_lines [] = []"
  by (simp add: raw_lines.simps)

lemma raw_lines_cons:
  "NL \<notin> set l \<Longrightarrow> raw_lines (l @ NL # rest) = l # raw_lines rest"
proof -
  assume l: "NL \<notin> set l"
  then have "takeWhile (\<lambda>c. c \<noteq> NL) (l @ NL # rest) = l"
    and "dropWhile (\<lambda>c. c \<noteq> NL) (l @ NL # rest) = NL # rest"
    by (auto simp: takeWhile_append dropWhile_append)
  then show ?thesis by (subst raw_lines.simps) simp
qed

lemma raw_lines_single:
  assumes "NL \<notin> set l" and "l \<noteq> []"
  shows "raw_lines l = [l]"
proof -
  have tk: "takeWhile (\<lambda>c. c \<noteq> NL) l = l" and dr: "dropWhile (\<lambda>c. c \<noteq> NL) l = []"
    using assms(1) by (auto simp: takeWhile_eq_all_conv)
  have "raw_lines l = takeWhile (\<lambda>c. c \<noteq> NL) l # raw_lines (tl (dropWhile (\<lambda>c. c \<noteq> NL) l))"
    using assms(2) by (subst raw_lines.simps) simp
  then show ?thesis unfolding tk dr by simp
qed

lemma dropCR_id: "l = [] \<or> last l \<noteq> CR \<Longrightarrow> dropCR l = l"
  by (auto simp: dropCR_def)

text \<open>Lines written one per row are the lines scanned back.\<close>

definition plain_line :: "string \<Rightarrow> bool" where
  "plain_line l \<longleftrightarrow> NL \<notin> set l \<and> length l < MaxScanTokenSize \<and> (l = [] \<or> last l \<noteq> CR)"

lemma raw_lines_concat:
  "\<forall>l \<in> set ls. NL \<notin> set l \<Longrightarrow> raw_lines (concat (map (\<lambda>l. l @ [NL]) ls)) = ls"
  by (induction ls) (auto simp: raw_lines_cons)

lemma scan_lines_concat:
  assumes "list_all plain_line ls"
  shows "scan_lines (concat (map (\<lambda>l. l @ [NL]) ls)) = (ls, False)"
proof -
  have "\<forall>l \<in> set ls. NL \<notin> set l" and len: "\<forall>l \<in> set ls. length l < MaxScanTokenSize"
    and cr: "\<forall>l \<in> set ls. l = [] \<or> last l \<noteq> CR"
    using assms by (auto simp: list_all_iff plain_line_def)
  then have rl: "raw_lines (concat (map (\<lambda>l. l @ [NL]) ls)) = ls" by (simp add: raw_lines_concat)
  have dr: "map dropCR ls = ls"
    using cr by (intro map_idI) (auto intro: dropCR_id)
  have tk: "takeWhile (\<lambda>l. length l < MaxScanTokenSize) ls = ls"
    using len by (simp add: takeWhile_eq_all_conv)
  show ?thesis unfolding scan_lines_def Let_def rl tk dr using len by auto
qed

text \<open>
  The lines \<open>ReadString\<close> returns: each ends with a newline (dropped here, since the caller trims it);
  an unterminated rest is an error and never seen.
\<close>

function complete_lines :: "string \<Rightarrow> string list" where
  "complete_lines s =
     (case cut_first NL s of None \<Rightarrow> [] | Some (l, r) \<Rightarrow> l # complete_lines r)"
  by pat_completeness auto
termination
proof (relation "measure length")
  fix s l r and x :: "string \<times> string"
  assume "cut_first NL s = Some x" "(l, r) = x"
  then have r: "r = tl (dropWhile (\<lambda>d. d \<noteq> NL) s)" and "NL \<in> set s"
    by (auto simp: cut_first_def split: if_splits)
  then have "dropWhile (\<lambda>d. d \<noteq> NL) s \<noteq> []" by (auto simp: dropWhile_eq_Nil_conv)
  then have "length r < length (dropWhile (\<lambda>d. d \<noteq> NL) s)" using r by simp
  then show "(r, s) \<in> measure length" using length_dropWhile_le [of "\<lambda>d. d \<noteq> NL" s] by simp
qed simp

declare complete_lines.simps [simp del]

lemma complete_lines_line: "NL \<notin> set l \<Longrightarrow> complete_lines (l @ NL # r) = l # complete_lines r"
  by (subst complete_lines.simps) simp

lemma complete_lines_Nil [simp]: "complete_lines [] = []"
  by (subst complete_lines.simps) (simp add: cut_first_def)

section \<open>Facts about numbers\<close>

lemma digit_char_digit [simp]: "d < 10 \<Longrightarrow> is_digit (digit_char d)"
  by (simp add: digit_char_def is_digit_def)

lemma digit_char_value [simp]: "d < 10 \<Longrightarrow> (of_char (digit_char d) :: nat) = 48 + d"
  by (simp add: digit_char_def)

lemma nat_str_digits: "c \<in> set (nat_str n) \<Longrightarrow> is_digit c"
proof (induction n rule: nat_str.induct)
  case (1 n)
  show ?case
  proof (cases "n < 10")
    case True
    with 1 show ?thesis by (simp add: nat_str.simps [of n])
  next
    case False
    with 1 show ?thesis by (auto simp: nat_str.simps [of n])
  qed
qed

lemma nat_str_nonempty [simp]: "nat_str n \<noteq> []"
  by (subst nat_str.simps) simp

lemma parse_digits_append:
  "parse_digits acc (s @ t) =
     (case parse_digits acc s of None \<Rightarrow> None | Some a \<Rightarrow> parse_digits a t)"
  by (induction s arbitrary: acc) auto

lemma parse_digits_nat_str: "parse_digits 0 (nat_str n) = Some n"
proof (induction n rule: nat_str.induct)
  case (1 n)
  show ?case
  proof (cases "n < 10")
    case True
    then show ?thesis by (simp add: nat_str.simps [of n])
  next
    case False
    with 1 show ?thesis by (simp add: nat_str.simps [of n] parse_digits_append)
  qed
qed

lemma nat_str_no_sign: "take 1 (nat_str n) \<noteq> ''-''" "take 1 (nat_str n) \<noteq> ''+''"
  using nat_str_digits [of "hd (nat_str n)" n] by (cases "nat_str n"; auto simp: is_digit_def)+

lemma Atoi_nat_str: "int n < 2 ^ 63 \<Longrightarrow> Atoi (nat_str n) = Some (int n)"
  using nat_str_no_sign [of n] by (simp add: Atoi_def Let_def parse_digits_nat_str int64_range_def)

lemma Atoi_Itoa: "int64_range v \<Longrightarrow> Atoi (Itoa v) = Some v"
  using nat_str_no_sign [of "nat v"]
  by (auto simp: Atoi_def Itoa_def Let_def parse_digits_nat_str int64_range_def)

lemma nat_str_hd_zero: "hd (nat_str n) = CHR ''0'' \<Longrightarrow> n = 0"
proof (induction n rule: nat_str.induct)
  case (1 n)
  show ?case
  proof (cases "n < 10")
    case True
    with 1 have "digit_char n = CHR ''0''" by (simp add: nat_str.simps [of n])
    then have "(of_char (digit_char n) :: nat) = 48" by simp
    with True show ?thesis by simp
  next
    case False
    with 1 show ?thesis by (auto simp: nat_str.simps [of n] hd_append)
  qed
qed

lemma Itoa_nonempty [simp]: "Itoa v \<noteq> []"
  by (simp add: Itoa_def)

lemma Itoa_chars: "c \<in> set (Itoa v) \<Longrightarrow> is_digit c \<or> c = CHR ''-''"
  by (auto simp: Itoa_def split: if_splits dest: nat_str_digits)

lemma is_digit_ascii: "is_digit c \<Longrightarrow> ascii c \<and> [c] \<notin> set space_encs"
  by (auto simp: is_digit_def ascii_def space_encs_def)

lemma nospace_ascii:
  assumes "\<And>c. c \<in> set s \<Longrightarrow> ascii c \<and> [c] \<notin> set space_encs"
  shows "nospace s"
  using assms
proof (induction s)
  case (Cons c s)
  have "space_len ([c] @ s) = 0"
  proof (rule space_len_append)
    have ne: "\<forall>e \<in> set space_encs. e \<noteq> []" using space_encs_bytes by auto
    have "take (length e) [c] \<noteq> e" if e: "e \<in> set space_encs" for e
      using Cons.prems [of c] e ne by (cases e) auto
    then show "space_len [c] = 0" by (simp add: lead_len_0_iff [OF ne])
    show "ascii (hd s)" if "s \<noteq> []" using that Cons.prems [of "hd s"] by simp
  qed simp
  with Cons show ?case by simp
qed simp

lemma token_ascii:
  "s \<noteq> [] \<Longrightarrow> list_all (\<lambda>c. ascii c \<and> [c] \<notin> set space_encs) s \<Longrightarrow> token s"
  by (auto simp: token_def list_all_iff intro!: nospace_ascii)

lemma Itoa_token: "token (Itoa v)"
  unfolding token_def
proof
  show "nospace (Itoa v)"
  proof (rule nospace_ascii)
    fix c assume "c \<in> set (Itoa v)"
    then consider "is_digit c" | "c = CHR ''-''" using Itoa_chars by blast
    then show "ascii c \<and> [c] \<notin> set space_encs"
      by cases (auto simp: is_digit_ascii, auto simp: ascii_def space_encs_def)
  qed
qed simp

section \<open>Facts about UTF-8\<close>

lemma rune_width_bounds: "s \<noteq> [] \<Longrightarrow> 1 \<le> rune_width s \<and> rune_width s \<le> length s"
  by (cases s) (auto split: list.splits)

lemma rune_width_ascii: "ascii c \<Longrightarrow> rune_width (c # s) = 1"
  by (simp add: ascii_def in_range_def)

end
