(* ===== verification/Nodename.thy ===== *)
theory Nodename
  imports GoStrings
begin

text \<open>
  Package \<open>nodename\<close>: which node names are valid and how a \<open>$VAR\<close> name is expanded. The
  environment and the host name are arguments. A \<open>range\<close> loop over a string visits runes: a
  name rune is one ASCII byte, every other rune is skipped by its \<open>rune_width\<close>.
\<close>

datatype name_error =
    EmptyName                       \<comment> \<open>\<open>node name must not be empty\<close>\<close>
  | InvalidCharacter string nat     \<comment> \<open>the name and the byte position of the first bad rune\<close>
  | NoHostname                      \<comment> \<open>variable unset and \<open>os.Hostname\<close> failed\<close>

definition isNameRune :: "char \<Rightarrow> bool" where
  "isNameRune r \<longleftrightarrow>
     (let n = (of_char r :: nat)
      in (97 \<le> n \<and> n \<le> 122) \<or> (65 \<le> n \<and> n \<le> 90) \<or> (48 \<le> n \<and> n \<le> 57) \<or> r = CHR ''_'')"

fun validate_from :: "string \<Rightarrow> nat \<Rightarrow> string \<Rightarrow> name_error option" where
  "validate_from name i [] = None"
| "validate_from name i (r # rs) =
     (if isNameRune r then validate_from name (Suc i) rs else Some (InvalidCharacter name i))"

definition Validate :: "string \<Rightarrow> name_error option" where
  "Validate name = (if name = [] then Some EmptyName else validate_from name 0 name)"

function sanitize :: "string \<Rightarrow> string" where
  "sanitize s =
     (if s = [] then []
      else if isNameRune (hd s) then hd s # sanitize (tl s)
      else CHR ''_'' # sanitize (drop (rune_width s) s))"
  by pat_completeness auto
termination
proof (relation "measure length")
  fix s :: string
  assume "s \<noteq> []"
  then show "(tl s, s) \<in> measure length" by simp
  show "(drop (rune_width s) s, s) \<in> measure length"
    using \<open>s \<noteq> []\<close> rune_width_bounds [of s] by simp
qed simp

declare sanitize.simps [simp del]

definition Expand ::
  "(string \<Rightarrow> string option) \<Rightarrow> string option \<Rightarrow> string \<Rightarrow> (name_error, string) result" where
  "Expand lookupEnv hostname spec =
     (if \<not> HasPrefix spec ''$'' then Inr spec
      else (case lookupEnv (drop 1 spec) of
              Some val \<Rightarrow> Inr (sanitize val)
            | None \<Rightarrow> (case hostname of
                         None \<Rightarrow> Inl NoHostname
                       | Some h \<Rightarrow> Inr (sanitize h))))"

lemma isNameRune_ascii: "isNameRune c \<Longrightarrow> ascii c \<and> [c] \<notin> set space_encs"
  by (auto simp: isNameRune_def ascii_def space_encs_def Let_def)

lemma isNameRune_underscore [simp]: "isNameRune CHR ''_''"
  by (simp add: isNameRune_def)

lemma validate_from_None: "validate_from name i s = None \<longleftrightarrow> (\<forall>c \<in> set s. isNameRune c)"
  by (induction s arbitrary: i) auto

lemma Validate_None: "Validate name = None \<longleftrightarrow> name \<noteq> [] \<and> (\<forall>c \<in> set name. isNameRune c)"
  by (simp add: Validate_def validate_from_None)

lemma validate_from_Some:
  "validate_from name i s = Some e \<Longrightarrow>
     \<exists>k < length s. e = InvalidCharacter name (i + k) \<and> \<not> isNameRune (s ! k) \<and>
       (\<forall>j < k. isNameRune (s ! j))"
proof (induction s arbitrary: i)
  case (Cons c s)
  show ?case
  proof (cases "isNameRune c")
    case True
    with Cons.prems have "validate_from name (Suc i) s = Some e" by simp
    then obtain k where "k < length s" "e = InvalidCharacter name (Suc i + k)"
      "\<not> isNameRune (s ! k)" "\<forall>j < k. isNameRune (s ! j)"
      using Cons.IH by blast
    with True show ?thesis by (intro exI [of _ "Suc k"]) (auto simp: less_Suc_eq_0_disj)
  next
    case False
    with Cons.prems show ?thesis by (intro exI [of _ 0]) auto
  qed
qed simp

lemma sanitize_chars: "c \<in> set (sanitize s) \<Longrightarrow> isNameRune c"
proof (induction s rule: sanitize.induct)
  case (1 s)
  then show ?case by (subst (asm) (3) sanitize.simps) (auto split: if_splits)
qed

lemma sanitize_id: "(\<forall>c \<in> set s. isNameRune c) \<Longrightarrow> sanitize s = s"
  by (induction s) (simp_all add: sanitize.simps)

lemma sanitize_length: "length (sanitize s) \<le> length s"
proof (induction s rule: sanitize.induct)
  case (1 s)
  show ?case
  proof (cases "s = []")
    case True
    then show ?thesis by (simp add: sanitize.simps)
  next
    case False
    then have "rune_width s \<ge> 1" using rune_width_bounds by blast
    with 1 False show ?thesis
      by (subst sanitize.simps) (auto simp: Suc_le_eq intro: le_less_trans)
  qed
qed

lemma sanitize_nonempty: "s \<noteq> [] \<Longrightarrow> sanitize s \<noteq> []"
  by (subst sanitize.simps) simp

text \<open>
  What \<open>Validate\<close> accepts. A name is accepted exactly when it is non-empty and every byte
  is a letter, a digit or an underscore; otherwise the error names the first offending
  position.
\<close>

lemma Validate_spec:
  "(Validate name = None \<longleftrightarrow> name \<noteq> [] \<and> set name \<subseteq> {c. isNameRune c}) \<and>
   (Validate name = Some (InvalidCharacter nm i) \<longrightarrow>
      nm = name \<and> i < length name \<and> \<not> isNameRune (name ! i) \<and> (\<forall>j < i. isNameRune (name ! j)))"
proof (intro conjI impI)
  show "Validate name = None \<longleftrightarrow> name \<noteq> [] \<and> set name \<subseteq> {c. isNameRune c}"
    by (auto simp: Validate_None)
  assume v: "Validate name = Some (InvalidCharacter nm i)"
  then have "validate_from name 0 name = Some (InvalidCharacter nm i)"
    by (auto simp: Validate_def split: if_splits)
  from validate_from_Some [OF this] show "nm = name" and "i < length name"
    and "\<not> isNameRune (name ! i)" and "\<forall>j < i. isNameRune (name ! j)"
    by auto
qed

text \<open>
  Expanding a \<open>$VAR\<close> name from a non-empty variable, or from a non-empty host name when the
  variable is unset, always yields a valid node name no longer than the value.
\<close>

lemma Expand_valid:
  assumes "HasPrefix spec ''$''"
    and "lookupEnv (drop 1 spec) = Some v \<or> lookupEnv (drop 1 spec) = None \<and> hostname = Some v"
    and "v \<noteq> []"
  shows "\<exists>n. Expand lookupEnv hostname spec = Inr n \<and> Validate n = None \<and> length n \<le> length v"
  using assms sanitize_length [of v] sanitize_nonempty [of v] sanitize_chars [of _ v]
  by (auto simp: Expand_def Validate_None)

end
