(* ===== verification/Graph.thy ===== *)
theory Graph
  imports GoStrings
begin

text \<open>
  Package \<open>graph\<close>: the in-memory topology. \<open>nodes\<close> maps a name to its data (the set of subnets,
  a map to unit), \<open>adj\<close> maps a node to the map of its outgoing half edges. The read/write lock
  makes every method one atomic operation, so each is a function on the state.

  The locale \<open>topology\<close> is what the gossip plane and the control handler rely on: how edge
  lookups change and that \<open>Edges\<close> lists exactly the half edges. It is interpreted on the
  operations below.
\<close>

record edge =
  e_From :: string
  e_To :: string
  e_Weight :: int

record nodeData =
  subnets :: "(string, unit) gomap"

record graph =
  g_nodes :: "(string, nodeData) gomap"
  g_adj :: "(string, (string, edge) gomap) gomap"

definition New :: graph where
  "New = \<lparr>g_nodes = [], g_adj = []\<rparr>"

definition ensureNode :: "string \<Rightarrow> graph \<Rightarrow> graph" where
  "ensureNode name g =
     (case mget (g_nodes g) name of
        Some n \<Rightarrow> g
      | None \<Rightarrow> g\<lparr>g_nodes := mput name \<lparr>subnets = []\<rparr> (g_nodes g),
                   g_adj := mput name [] (g_adj g)\<rparr>)"

definition AddNode :: "string \<Rightarrow> graph \<Rightarrow> graph" where
  "AddNode name g = ensureNode name g"

definition HasNode :: "graph \<Rightarrow> string \<Rightarrow> bool" where
  "HasNode g name = (mget (g_nodes g) name \<noteq> None)"

definition Nodes :: "graph \<Rightarrow> string list" where
  "Nodes g = mkeys (g_nodes g)"

text \<open>
  \<open>g.adj[f][t] = e\<close>. Writing to a missing inner map is a nil-map panic in Go;
  \<open>AddEdge_no_nil_map\<close> below shows that it cannot happen, so the model leaves the graph
  alone there.
\<close>

definition adj_write :: "string \<Rightarrow> string \<Rightarrow> edge \<Rightarrow> graph \<Rightarrow> graph" where
  "adj_write f t e g =
     (case mget (g_adj g) f of
        Some m \<Rightarrow> g\<lparr>g_adj := mput f (mput t e m) (g_adj g)\<rparr>
      | None \<Rightarrow> g)"

definition rev_edge :: "edge \<Rightarrow> edge" where
  "rev_edge e = \<lparr>e_From = e_To e, e_To = e_From e, e_Weight = e_Weight e\<rparr>"

definition AddEdge :: "edge \<Rightarrow> graph \<Rightarrow> graph" where
  "AddEdge e g =
     (let g = ensureNode (e_From e) g;
          g = ensureNode (e_To e) g;
          g = adj_write (e_From e) (e_To e) e g
      in adj_write (e_To e) (e_From e) (rev_edge e) g)"

definition adj_delete :: "string \<Rightarrow> string \<Rightarrow> graph \<Rightarrow> graph" where
  "adj_delete f t g =
     (case mget (g_adj g) f of
        Some m \<Rightarrow> g\<lparr>g_adj := mput f (mdel t m) (g_adj g)\<rparr>
      | None \<Rightarrow> g)"

definition DelEdge :: "string \<Rightarrow> string \<Rightarrow> graph \<Rightarrow> graph" where
  "DelEdge from to g = adj_delete to from (adj_delete from to g)"

definition adj_get :: "graph \<Rightarrow> string \<Rightarrow> string \<Rightarrow> edge option" where
  "adj_get g f t = (case mget (g_adj g) f of Some m \<Rightarrow> mget m t | None \<Rightarrow> None)"

definition HasEdge :: "graph \<Rightarrow> string \<Rightarrow> string \<Rightarrow> bool" where
  "HasEdge g from to = (adj_get g from to \<noteq> None)"

definition Edges :: "graph \<Rightarrow> edge list" where
  "Edges g = concat (map (\<lambda>(f, m). map snd m) (g_adj g))"

section \<open>Breadth-first search\<close>

text \<open>
  The inner loop over \<open>g.adj[n]\<close>: unseen neighbours are marked visited and queued.
\<close>

fun bfs_scan :: "string list \<Rightarrow> string list \<Rightarrow> string list \<Rightarrow> string list \<times> string list" where
  "bfs_scan [] visited queue = (visited, queue)"
| "bfs_scan (next # ns) visited queue =
     (if next \<in> set visited then bfs_scan ns visited queue
      else bfs_scan ns (visited @ [next]) (queue @ [next]))"

definition succs :: "graph \<Rightarrow> string \<Rightarrow> string list" where
  "succs g n = (case mget (g_adj g) n of Some m \<Rightarrow> mkeys m | None \<Rightarrow> [])"

definition targets :: "graph \<Rightarrow> string set" where
  "targets g = (\<Union>(f, m) \<in> set (g_adj g). set (mkeys m))"

lemma succs_targets: "set (succs g n) \<subseteq> targets g"
proof (cases "mget (g_adj g) n")
  case (Some m)
  then have "(n, m) \<in> set (g_adj g)" by (rule mget_in_set)
  with Some show ?thesis by (force simp: succs_def targets_def)
qed (simp add: succs_def)

lemma finite_targets [simp]: "finite (targets g)"
  by (auto simp: targets_def)

lemma bfs_scan_eq:
  "bfs_scan ns vis q = (vis', q') \<Longrightarrow>
     \<exists>new. vis' = vis @ new \<and> q' = q @ new \<and> set new = set ns - set vis \<and> distinct new"
proof (induction ns arbitrary: vis q)
  case (Cons n ns)
  show ?case
  proof (cases "n \<in> set vis")
    case True
    with Cons show ?thesis by auto
  next
    case False
    with Cons.prems have "bfs_scan ns (vis @ [n]) (q @ [n]) = (vis', q')" by simp
    from Cons.IH [OF this] obtain new where
      "vis' = vis @ n # new" "q' = q @ n # new" "set new = set ns - set (vis @ [n])" "distinct new"
      by auto
    with False show ?thesis by (intro exI [of _ "n # new"]) auto
  qed
qed simp

function bfs_loop :: "graph \<Rightarrow> string list \<Rightarrow> string list \<Rightarrow> string list" where
  "bfs_loop g [] visited = visited"
| "bfs_loop g (n # queue) visited =
     (let r = bfs_scan (succs g n) visited queue in bfs_loop g (snd r) (fst r))"
  by pat_completeness auto
termination
proof (relation "inv_image (finite_psubset <*lex*> less_than)
                  (\<lambda>(g, q, vis). (targets g - set vis, length q))")
  fix g n q vis and r :: "string list \<times> string list"
  assume r: "r = bfs_scan (succs g n) vis q"
  obtain vis' q' where r': "r = (vis', q')" by (cases r)
  with r obtain new where new: "vis' = vis @ new" "q' = q @ new" "set new = set (succs g n) - set vis"
    using bfs_scan_eq [of "succs g n" vis q vis' q'] by auto
  show "((g, snd r, fst r), g, n # q, vis)
      \<in> inv_image (finite_psubset <*lex*> less_than) (\<lambda>(g, q, vis). (targets g - set vis, length q))"
  proof (cases "new = []")
    case True
    with new r' show ?thesis by simp
  next
    case False
    then obtain x where "x \<in> set new" by (cases new) auto
    with new succs_targets [of g n] have "targets g - set vis' \<subset> targets g - set vis" by auto
    then show ?thesis by (simp add: r' finite_psubset_def)
  qed
qed auto

definition Reachable :: "graph \<Rightarrow> string \<Rightarrow> string list" where
  "Reachable g start =
     (case mget (g_nodes g) start of None \<Rightarrow> [] | Some _ \<Rightarrow> bfs_loop g [start] [start])"

section \<open>Subnets\<close>

definition AddSubnet :: "string \<Rightarrow> string \<Rightarrow> graph \<Rightarrow> graph" where
  "AddSubnet owner subnet g =
     (let g = ensureNode owner g
      in case mget (g_nodes g) owner of
           Some n \<Rightarrow> g\<lparr>g_nodes := mput owner (n\<lparr>subnets := mput subnet () (subnets n)\<rparr>) (g_nodes g)\<rparr>
         | None \<Rightarrow> g)"

definition DelSubnet :: "string \<Rightarrow> string \<Rightarrow> graph \<Rightarrow> graph" where
  "DelSubnet owner subnet g =
     (case mget (g_nodes g) owner of
        Some n \<Rightarrow> g\<lparr>g_nodes := mput owner (n\<lparr>subnets := mdel subnet (subnets n)\<rparr>) (g_nodes g)\<rparr>
      | None \<Rightarrow> g)"

definition NodeSubnets :: "graph \<Rightarrow> string \<Rightarrow> string list" where
  "NodeSubnets g name =
     (case mget (g_nodes g) name of None \<Rightarrow> [] | Some n \<Rightarrow> mkeys (subnets n))"

definition SubnetOwner :: "graph \<Rightarrow> string \<Rightarrow> string option" where
  "SubnetOwner g subnet =
     map_option fst (find (\<lambda>(name, n). mget (subnets n) subnet \<noteq> None) (g_nodes g))"

definition AllSubnets :: "graph \<Rightarrow> (string, string) gomap" where
  "AllSubnets g =
     fold (\<lambda>(name, n) out. fold (\<lambda>s out. mput s name out) (mkeys (subnets n)) out) (g_nodes g) []"

section \<open>The loop over the edges of one node\<close>

text \<open>
  Both the gossip plane (on a node deletion) and the control handler (on a purge) take a
  snapshot of the edge list and delete every edge that touches a node.
\<close>

definition clear_edges :: "string \<Rightarrow> graph \<Rightarrow> graph" where
  "clear_edges n g =
     fold (\<lambda>e g. if e_From e = n \<or> e_To e = n then DelEdge (e_From e) (e_To e) g else g) (Edges g) g"

section \<open>Invariant\<close>

definition graph_inv :: "graph \<Rightarrow> bool" where
  "graph_inv g \<longleftrightarrow>
     mwf (g_nodes g) \<and> mwf (g_adj g) \<and> set (mkeys (g_nodes g)) = set (mkeys (g_adj g)) \<and>
     (\<forall>f m. mget (g_adj g) f = Some m \<longrightarrow> mwf m) \<and>
     (\<forall>n d. mget (g_nodes g) n = Some d \<longrightarrow> mwf (subnets d)) \<and>
     (\<forall>f t e. adj_get g f t = Some e \<longrightarrow>
        e_From e = f \<and> e_To e = t \<and> adj_get g t f = Some (rev_edge e))"

text \<open>\<open>a\<close> and \<open>b\<close> are, in some order, the two ends \<open>f\<close> and \<open>t\<close>.\<close>

definition joins :: "string \<Rightarrow> string \<Rightarrow> string \<Rightarrow> string \<Rightarrow> bool" where
  "joins f t a b \<longleftrightarrow> a = f \<and> b = t \<or> a = t \<and> b = f"

lemma joins_swap: "joins f t b a = joins f t a b"
  by (auto simp: joins_def)

lemma joins_self [simp]: "joins f t f t" "joins f t t f"
  by (simp_all add: joins_def)

lemma rev_edge_simps [simp]:
  "e_From (rev_edge e) = e_To e" "e_To (rev_edge e) = e_From e" "e_Weight (rev_edge e) = e_Weight e"
  "rev_edge (rev_edge e) = e"
  by (simp_all add: rev_edge_def)

lemma rev_edge_loop: "e_From e = e_To e \<Longrightarrow> rev_edge e = e"
  by (cases e) (simp add: rev_edge_def)

lemma inv_adj_None: "graph_inv g \<Longrightarrow> mget (g_nodes g) n = None \<longleftrightarrow> mget (g_adj g) n = None"
  by (simp add: graph_inv_def gm.get_None_keys)

subsection \<open>How the primitive steps act on lookups\<close>

lemma ensureNode_nodes:
  "mget (g_nodes (ensureNode n g)) k =
     (if k = n \<and> mget (g_nodes g) n = None then Some \<lparr>subnets = []\<rparr> else mget (g_nodes g) k)"
  by (auto simp: ensureNode_def split: option.splits)

lemma ensureNode_adj:
  "mget (g_adj (ensureNode n g)) k =
     (if k = n \<and> mget (g_nodes g) n = None then Some [] else mget (g_adj g) k)"
  by (auto simp: ensureNode_def split: option.splits)

lemma ensureNode_adj_get:
  assumes "graph_inv g" shows "adj_get (ensureNode n g) a b = adj_get g a b"
  using inv_adj_None [OF assms, of n] by (auto simp: adj_get_def ensureNode_adj)

lemma ensureNode_present: "graph_inv g \<Longrightarrow> mget (g_adj (ensureNode n g)) n \<noteq> None"
  using inv_adj_None [of g n] by (auto simp: ensureNode_adj)

lemma adj_write_nodes [simp]: "g_nodes (adj_write f t e g) = g_nodes g"
  by (simp add: adj_write_def split: option.splits)

lemma adj_write_adj:
  "mget (g_adj g) f = Some m \<Longrightarrow>
     mget (g_adj (adj_write f t e g)) k = (if k = f then Some (mput t e m) else mget (g_adj g) k)"
  by (simp add: adj_write_def)

lemma adj_write_get:
  "mget (g_adj g) f \<noteq> None \<Longrightarrow>
     adj_get (adj_write f t e g) a b = (if a = f \<and> b = t then Some e else adj_get g a b)"
  by (auto simp: adj_get_def adj_write_def)

lemma adj_delete_nodes [simp]: "g_nodes (adj_delete f t g) = g_nodes g"
  by (simp add: adj_delete_def split: option.splits)

lemma adj_delete_get:
  "adj_get (adj_delete f t g) a b = (if a = f \<and> b = t then None else adj_get g a b)"
  by (auto simp: adj_get_def adj_delete_def split: option.splits)

lemma DelEdge_get:
  "adj_get (DelEdge f t g) a b = (if joins f t a b then None else adj_get g a b)"
  unfolding DelEdge_def adj_delete_get joins_def by argo

lemma DelEdge_nodes [simp]: "g_nodes (DelEdge f t g) = g_nodes g"
  by (simp add: DelEdge_def)

subsection \<open>Every operation keeps the invariant\<close>

lemma inv_New: "graph_inv New"
  by (simp add: graph_inv_def New_def mkeys_def adj_get_def)

lemma inv_ensureNode:
  assumes g: "graph_inv g" shows "graph_inv (ensureNode n g)"
proof (cases "mget (g_nodes g) n")
  case None
  then have "ensureNode n g = g\<lparr>g_nodes := mput n \<lparr>subnets = []\<rparr> (g_nodes g),
                                 g_adj := mput n [] (g_adj g)\<rparr>" (is "_ = ?g")
    by (simp add: ensureNode_def)
  moreover have "adj_get ?g a b = adj_get g a b" for a b
    using ensureNode_adj_get [OF g, of n] calculation by simp
  ultimately show ?thesis using g by (auto simp: graph_inv_def)
next
  case (Some d)
  then show ?thesis using g by (simp add: ensureNode_def)
qed

text \<open>A half edge written or deleted keeps everything but the symmetry of the half edges.\<close>

definition shape_inv :: "graph \<Rightarrow> bool" where
  "shape_inv g \<longleftrightarrow>
     mwf (g_nodes g) \<and> mwf (g_adj g) \<and> set (mkeys (g_nodes g)) = set (mkeys (g_adj g)) \<and>
     (\<forall>f m. mget (g_adj g) f = Some m \<longrightarrow> mwf m) \<and>
     (\<forall>n d. mget (g_nodes g) n = Some d \<longrightarrow> mwf (subnets d))"

lemma graph_inv_shape:
  "graph_inv g \<longleftrightarrow> shape_inv g \<and>
     (\<forall>f t e. adj_get g f t = Some e \<longrightarrow>
        e_From e = f \<and> e_To e = t \<and> adj_get g t f = Some (rev_edge e))"
  by (auto simp: graph_inv_def shape_inv_def)

lemma shape_adj_write:
  assumes "shape_inv g" shows "shape_inv (adj_write f t e g)"
proof (cases "mget (g_adj g) f")
  case (Some m)
  moreover from Some have "f \<in> set (mkeys (g_adj g))" by (rule gm.get_Some_keys)
  ultimately show ?thesis using assms by (auto simp: shape_inv_def adj_write_def)
qed (use assms in \<open>simp add: adj_write_def\<close>)

lemma shape_adj_delete:
  assumes "shape_inv g" shows "shape_inv (adj_delete f t g)"
proof (cases "mget (g_adj g) f")
  case (Some m)
  moreover from Some have "f \<in> set (mkeys (g_adj g))" by (rule gm.get_Some_keys)
  ultimately show ?thesis using assms by (auto simp: shape_inv_def adj_delete_def)
qed (use assms in \<open>simp add: adj_delete_def\<close>)

lemma AddEdge_no_nil_map:
  assumes "graph_inv g"
  shows "mget (g_adj (ensureNode (e_To e) (ensureNode (e_From e) g))) (e_From e) \<noteq> None"
    and "mget (g_adj (ensureNode (e_To e) (ensureNode (e_From e) g))) (e_To e) \<noteq> None"
  using ensureNode_present [OF assms, of "e_From e"]
    ensureNode_present [OF inv_ensureNode [OF assms], of "e_To e" "e_From e"]
  by (auto simp: ensureNode_adj)

lemma AddEdge_get:
  assumes "graph_inv g"
  shows "adj_get (AddEdge e g) a b =
    (if joins (e_From e) (e_To e) a b then Some \<lparr>e_From = a, e_To = b, e_Weight = e_Weight e\<rparr>
     else adj_get g a b)"
proof -
  let ?g = "ensureNode (e_To e) (ensureNode (e_From e) g)"
  let ?h = "adj_write (e_From e) (e_To e) e ?g"
  have h: "adj_get ?h a b = (if a = e_From e \<and> b = e_To e then Some e else adj_get g a b)"
    using AddEdge_no_nil_map [OF assms, of e]
    by (simp add: adj_write_get ensureNode_adj_get inv_ensureNode assms)
  have "mget (g_adj ?h) (e_To e) \<noteq> None"
    using AddEdge_no_nil_map [OF assms, of e] by (auto simp: adj_write_adj)
  then have eq: "adj_get (AddEdge e g) a b =
      (if a = e_To e \<and> b = e_From e then Some (rev_edge e) else adj_get ?h a b)"
    by (simp add: AddEdge_def Let_def adj_write_get)
  show ?thesis
  proof (cases "a = e_To e \<and> b = e_From e")
    case True
    with eq have "adj_get (AddEdge e g) a b = Some (rev_edge e)" by argo
    with True show ?thesis by (simp add: rev_edge_def)
  next
    case False
    then have "adj_get (AddEdge e g) a b = adj_get ?h a b" unfolding eq by argo
    also have "\<dots> = (if joins (e_From e) (e_To e) a b then Some e else adj_get g a b)"
      unfolding h joins_def using False by argo
    finally have "adj_get (AddEdge e g) a b =
        (if joins (e_From e) (e_To e) a b then Some e else adj_get g a b)" .
    moreover have "e = \<lparr>e_From = a, e_To = b, e_Weight = e_Weight e\<rparr>" if "joins (e_From e) (e_To e) a b"
    proof -
      have "a = e_From e" and "b = e_To e" using that False unfolding joins_def by blast+
      then show ?thesis by simp
    qed
    ultimately show ?thesis by presburger
  qed
qed

lemma inv_AddEdge:
  assumes "graph_inv g" shows "graph_inv (AddEdge e g)"
proof -
  have "shape_inv (ensureNode (e_To e) (ensureNode (e_From e) g))"
    using inv_ensureNode [OF inv_ensureNode [OF assms]] by (simp add: graph_inv_shape)
  then have "shape_inv (AddEdge e g)" by (simp add: AddEdge_def Let_def shape_adj_write)
  moreover have "adj_get g f t = Some d \<Longrightarrow>
      e_From d = f \<and> e_To d = t \<and> adj_get g t f = Some (rev_edge d)" for f t d
    using assms by (simp add: graph_inv_def)
  ultimately show ?thesis
    by (simp add: graph_inv_shape AddEdge_get [OF assms] joins_swap rev_edge_def)
qed

lemma inv_DelEdge:
  assumes "graph_inv g" shows "graph_inv (DelEdge f t g)"
proof -
  have "shape_inv (DelEdge f t g)"
    using assms by (simp add: DelEdge_def graph_inv_shape shape_adj_delete)
  then show ?thesis
    using assms by (auto simp: graph_inv_shape DelEdge_get joins_swap)
qed

lemma subnet_write_inv:
  assumes "graph_inv g" and "mget (g_nodes g) n = Some d" and "mwf ss"
  shows "graph_inv (g\<lparr>g_nodes := mput n (d\<lparr>subnets := ss\<rparr>) (g_nodes g)\<rparr>)"
proof -
  have "n \<in> set (mkeys (g_nodes g))" using assms(2) by (rule gm.get_Some_keys)
  moreover have "adj_get (g\<lparr>g_nodes := x\<rparr>) a b = adj_get g a b" for x a b
    by (simp add: adj_get_def)
  ultimately show ?thesis using assms by (auto simp: graph_inv_def)
qed

lemma inv_AddSubnet:
  assumes "graph_inv g" shows "graph_inv (AddSubnet owner s g)"
proof (cases "mget (g_nodes (ensureNode owner g)) owner")
  case (Some d)
  have inv: "graph_inv (ensureNode owner g)" by (rule inv_ensureNode [OF assms])
  then have "mwf (mput s () (subnets d))" using Some by (auto simp: graph_inv_def)
  from subnet_write_inv [OF inv Some this] Some show ?thesis by (simp add: AddSubnet_def Let_def)
qed (use assms in \<open>simp add: AddSubnet_def Let_def inv_ensureNode\<close>)

lemma inv_DelSubnet:
  assumes "graph_inv g" shows "graph_inv (DelSubnet owner s g)"
proof (cases "mget (g_nodes g) owner")
  case (Some d)
  then have "mwf (mdel s (subnets d))" using assms by (auto simp: graph_inv_def)
  from subnet_write_inv [OF assms Some this] Some show ?thesis by (simp add: DelSubnet_def)
qed (use assms in \<open>simp add: DelSubnet_def\<close>)

lemmas graph_inv_ops = inv_New inv_ensureNode inv_AddEdge inv_DelEdge inv_AddSubnet inv_DelSubnet

section \<open>The interface of the topology\<close>

locale topology =
  fixes del_edge :: "string \<Rightarrow> string \<Rightarrow> 'g \<Rightarrow> 'g"
    and lookup :: "'g \<Rightarrow> string \<Rightarrow> string \<Rightarrow> edge option"
    and edges :: "'g \<Rightarrow> edge list"
    and inv :: "'g \<Rightarrow> bool"
  assumes lookup_del: "lookup (del_edge f t g) a b = (if joins f t a b then None else lookup g a b)"
    and edges_lookup: "inv g \<Longrightarrow> e \<in> set (edges g) \<longleftrightarrow> lookup g (e_From e) (e_To e) = Some e"
    and lookup_ends: "inv g \<Longrightarrow> lookup g a b = Some e \<Longrightarrow> e_From e = a \<and> e_To e = b"
    and inv_del: "inv g \<Longrightarrow> inv (del_edge f t g)"
begin

text \<open>The loop that deletes the edges of a snapshot that satisfy \<open>P\<close>.\<close>

definition del_loop :: "(edge \<Rightarrow> bool) \<Rightarrow> edge list \<Rightarrow> 'g \<Rightarrow> 'g" where
  "del_loop P es g = fold (\<lambda>e g. if P e then del_edge (e_From e) (e_To e) g else g) es g"

lemma del_loop_lookup:
  "lookup (del_loop P es g) a b =
     (if \<exists>e \<in> set es. P e \<and> joins (e_From e) (e_To e) a b then None else lookup g a b)"
  unfolding del_loop_def by (induction es arbitrary: g) (auto simp: lookup_del)

lemma del_loop_inv: "inv g \<Longrightarrow> inv (del_loop P es g)"
  unfolding del_loop_def by (induction es arbitrary: g) (auto simp: inv_del)

text \<open>Run on the graph's own edge list, the loop deletes exactly the edges in question.\<close>

lemma del_loop_snapshot:
  assumes "inv g" and P: "\<And>e. P e = Q (e_From e) (e_To e)" and sym: "\<And>a b. Q a b = Q b a"
    and both: "\<And>a b. lookup g a b \<noteq> None \<Longrightarrow> lookup g b a \<noteq> None"
  shows "lookup (del_loop P (edges g) g) a b = (if Q a b then None else lookup g a b)"
proof (cases "Q a b \<and> lookup g a b \<noteq> None")
  case True
  then obtain e where e: "lookup g a b = Some e" by auto
  with lookup_ends [OF assms(1)] have ends: "e_From e = a" "e_To e = b" by auto
  with e have "e \<in> set (edges g)" by (simp add: edges_lookup [OF assms(1)])
  moreover have "P e" using True ends by (simp add: P)
  ultimately show ?thesis using True ends by (auto simp: del_loop_lookup)
next
  case False
  moreover have "Q a b" if "e \<in> set (edges g)" "P e" "joins (e_From e) (e_To e) a b" for e
    using that sym by (auto simp: P joins_def)
  ultimately show ?thesis by (auto simp: del_loop_lookup)
qed

end

lemma in_Edges:
  assumes "graph_inv g"
  shows "e \<in> set (Edges g) \<longleftrightarrow> adj_get g (e_From e) (e_To e) = Some e"
proof
  assume "e \<in> set (Edges g)"
  then obtain f m t where fm: "(f, m) \<in> set (g_adj g)" and t: "(t, e) \<in> set m"
    by (auto simp: Edges_def)
  have "mwf (g_adj g)" using assms by (simp add: graph_inv_def)
  with fm have m: "mget (g_adj g) f = Some m" by (simp add: in_set_mget)
  with assms have "mwf m" by (auto simp: graph_inv_def)
  with m t have "adj_get g f t = Some e" by (simp add: adj_get_def in_set_mget)
  moreover from this assms have "e_From e = f \<and> e_To e = t" by (auto simp: graph_inv_def)
  ultimately show "adj_get g (e_From e) (e_To e) = Some e" by simp
next
  assume "adj_get g (e_From e) (e_To e) = Some e"
  then show "e \<in> set (Edges g)"
    by (force simp: adj_get_def Edges_def split: option.splits dest!: mget_in_set)
qed

interpretation topo: topology DelEdge adj_get Edges graph_inv
  by unfold_locales (auto simp: DelEdge_get in_Edges inv_DelEdge, auto simp: graph_inv_def)

lemma inv_both: "graph_inv g \<Longrightarrow> adj_get g a b \<noteq> None \<Longrightarrow> adj_get g b a \<noteq> None"
  by (auto simp: graph_inv_def)

lemma clear_edges_loop: "clear_edges n g = topo.del_loop (\<lambda>e. e_From e = n \<or> e_To e = n) (Edges g) g"
  by (simp add: clear_edges_def topo.del_loop_def)

lemma clear_edges_get:
  assumes "graph_inv g"
  shows "adj_get (clear_edges n g) a b = (if a = n \<or> b = n then None else adj_get g a b)"
  unfolding clear_edges_loop
  by (rule topo.del_loop_snapshot [OF assms]) (use inv_both [OF assms] in blast)+

lemma inv_clear_edges: "graph_inv g \<Longrightarrow> graph_inv (clear_edges n g)"
  unfolding clear_edges_loop by (rule topo.del_loop_inv)

lemma clear_edges_nodes [simp]: "g_nodes (clear_edges n g) = g_nodes g"
proof -
  have "g_nodes (fold (\<lambda>e g. if e_From e = n \<or> e_To e = n then DelEdge (e_From e) (e_To e) g else g)
          es g) = g_nodes g" for es
    by (induction es arbitrary: g) auto
  then show ?thesis by (simp add: clear_edges_def)
qed

section \<open>Breadth-first search computes reachability\<close>

definition edge_rel :: "graph \<Rightarrow> (string \<times> string) set" where
  "edge_rel g = {(a, b). HasEdge g a b}"

lemma succs_HasEdge: "b \<in> set (succs g a) \<longleftrightarrow> HasEdge g a b"
  by (cases "mget (g_adj g) a") (simp_all add: succs_def HasEdge_def adj_get_def gm.keys_get)

lemma bfs_loop_extends: "set vis \<subseteq> set (bfs_loop g q vis)"
proof (induction g q vis rule: bfs_loop.induct)
  case (2 g n q vis)
  obtain vis' q' where r: "bfs_scan (succs g n) vis q = (vis', q')" by (cases "bfs_scan (succs g n) vis q")
  then obtain new where "vis' = vis @ new" using bfs_scan_eq by blast
  then have "set vis \<subseteq> set vis'" by simp
  moreover have "set vis' \<subseteq> set (bfs_loop g q' vis')" using 2 r by simp
  ultimately show ?case using r by (simp add: Let_def)
qed simp

lemma bfs_loop_sound:
  assumes "\<And>a b. a \<in> R \<Longrightarrow> HasEdge g a b \<Longrightarrow> b \<in> R"
  shows "set q \<subseteq> R \<Longrightarrow> set vis \<subseteq> R \<Longrightarrow> set (bfs_loop g q vis) \<subseteq> R"
  using assms
proof (induction g q vis rule: bfs_loop.induct)
  case (2 g n q vis)
  obtain vis' q' where r: "bfs_scan (succs g n) vis q = (vis', q')" by (cases "bfs_scan (succs g n) vis q")
  then obtain new where "vis' = vis @ new" "q' = q @ new" "set new = set (succs g n) - set vis"
    using bfs_scan_eq by blast
  with 2 have "set q' \<subseteq> R" and "set vis' \<subseteq> R" by (auto simp: succs_HasEdge)
  with 2 r show ?case by (simp add: Let_def)
qed simp

lemma bfs_loop_closed:
  assumes "set q \<subseteq> set vis" and "\<forall>n \<in> set vis - set q. set (succs g n) \<subseteq> set vis"
  shows "\<forall>n \<in> set (bfs_loop g q vis). set (succs g n) \<subseteq> set (bfs_loop g q vis)"
  using assms
proof (induction g q vis rule: bfs_loop.induct)
  case (2 g n q vis)
  obtain vis' q' where r: "bfs_scan (succs g n) vis q = (vis', q')" by (cases "bfs_scan (succs g n) vis q")
  then obtain new where new: "vis' = vis @ new" "q' = q @ new" "set new = set (succs g n) - set vis"
    using bfs_scan_eq by blast
  have "set q' \<subseteq> set vis'" using new 2(2) by auto
  moreover have "\<forall>m \<in> set vis' - set q'. set (succs g m) \<subseteq> set vis'"
    using new 2(3) by auto
  ultimately show ?case using 2(1) r by (simp add: Let_def)
qed auto

lemma bfs_loop_distinct: "distinct vis \<Longrightarrow> distinct (bfs_loop g q vis)"
proof (induction g q vis rule: bfs_loop.induct)
  case (2 g n q vis)
  obtain vis' q' where r: "bfs_scan (succs g n) vis q = (vis', q')" by (cases "bfs_scan (succs g n) vis q")
  from bfs_scan_eq [OF r] 2(2) have "distinct vis'" by auto
  with 2 r show ?case by (simp add: Let_def)
qed simp

lemma Reachable_set:
  "set (Reachable g start) = {x. HasNode g start \<and> (start, x) \<in> (edge_rel g)\<^sup>*}"
proof (cases "mget (g_nodes g) start")
  case None
  then show ?thesis by (simp add: Reachable_def HasNode_def)
next
  case (Some d)
  let ?V = "set (bfs_loop g [start] [start])"
  have "?V \<subseteq> {x. (start, x) \<in> (edge_rel g)\<^sup>*}"
    by (rule bfs_loop_sound) (auto simp: edge_rel_def intro: rtrancl_into_rtrancl)
  moreover have "x \<in> ?V" if "(start, x) \<in> (edge_rel g)\<^sup>*" for x
    using that
  proof induction
    case base
    then show ?case using bfs_loop_extends [of "[start]" g "[start]"] by simp
  next
    case (step y z)
    then show ?case
      using bfs_loop_closed [of "[start]" "[start]" g] by (auto simp: edge_rel_def succs_HasEdge [symmetric])
  qed
  ultimately show ?thesis using Some by (auto simp: Reachable_def HasNode_def)
qed

section \<open>Properties\<close>

text \<open>A call sequence on a graph, for properties of everything the operations can build.\<close>

datatype graph_op =
    OpAddNode string | OpAddEdge edge | OpDelEdge string string
  | OpAddSubnet string string | OpDelSubnet string string

fun run_op :: "graph_op \<Rightarrow> graph \<Rightarrow> graph" where
  "run_op (OpAddNode n) g = AddNode n g"
| "run_op (OpAddEdge e) g = AddEdge e g"
| "run_op (OpDelEdge f t) g = DelEdge f t g"
| "run_op (OpAddSubnet n s) g = AddSubnet n s g"
| "run_op (OpDelSubnet n s) g = DelSubnet n s g"

lemma run_op_inv: "graph_inv g \<Longrightarrow> graph_inv (run_op x g)"
  by (cases x) (simp_all add: AddNode_def graph_inv_ops)

lemma run_ops_inv: "graph_inv (fold run_op xs New)"
proof -
  have "graph_inv g \<Longrightarrow> graph_inv (fold run_op xs g)" for g
    by (induction xs arbitrary: g) (auto simp: run_op_inv)
  then show ?thesis by (simp add: inv_New)
qed

text \<open>
  C6: whatever sequence of operations built a graph, the half edges are symmetric with equal
  weights, every endpoint of an edge is a node, and \<open>AddEdge\<close> never writes to a nil map.
\<close>

theorem graph_symmetric:
  assumes "g = fold run_op ops New"
  shows "HasEdge g a b = HasEdge g b a \<and>
    (adj_get g a b = Some e \<longrightarrow> adj_get g b a = Some (rev_edge e) \<and> HasNode g a \<and> HasNode g b) \<and>
    mget (g_adj (ensureNode (e_To d) (ensureNode (e_From d) g))) (e_From d) \<noteq> None \<and>
    mget (g_adj (ensureNode (e_To d) (ensureNode (e_From d) g))) (e_To d) \<noteq> None"
proof -
  have inv: "graph_inv g" using assms run_ops_inv by simp
  then have sym: "adj_get g a b = Some e \<Longrightarrow> adj_get g b a = Some (rev_edge e)" for a b e
    by (auto simp: graph_inv_def)
  moreover have "HasNode g a" if "adj_get g a b = Some e" for a b e
    using that inv_adj_None [OF inv, of a] by (auto simp: adj_get_def HasNode_def split: option.splits)
  ultimately show ?thesis
    using AddEdge_no_nil_map [OF inv, of d] by (auto simp: HasEdge_def dest: sym)
qed

abbreviation edge_ab :: edge where
  "edge_ab \<equiv> \<lparr>e_From = ''a'', e_To = ''b'', e_Weight = 5\<rparr>"

theorem graph_symmetric_witness:
  "HasEdge (fold run_op [OpAddEdge edge_ab] New) ''a'' ''b'' =
   HasEdge (fold run_op [OpAddEdge edge_ab] New) ''b'' ''a'' \<and>
   adj_get (fold run_op [OpAddEdge edge_ab] New) ''b'' ''a'' = Some (rev_edge edge_ab)"
proof -
  have "adj_get (fold run_op [OpAddEdge edge_ab] New) ''a'' ''b'' = Some edge_ab"
    by (simp add: AddEdge_get [OF inv_New])
  then show ?thesis using graph_symmetric [OF refl, of "[OpAddEdge edge_ab]" "''a''" "''b''" edge_ab] by blast
qed

text \<open>
  C5: \<open>Reachable\<close> is exactly the set of nodes connected to the start by edges (empty if the
  start is not a node), without repetition, in whatever order the maps are iterated.
\<close>

theorem Reachable_correct:
  "set (Reachable g start) = (if HasNode g start then {x. (start, x) \<in> {(a, b). HasEdge g a b}\<^sup>*} else {})
   \<and> distinct (Reachable g start)"
  by (auto simp: Reachable_set edge_rel_def)
    (simp add: Reachable_def bfs_loop_distinct del: bfs_loop.simps split: option.split)

text \<open>
  How \<open>AddEdge\<close> and \<open>DelEdge\<close> change the graph: the undirected edge between the two ends is
  stored with the given weight, or removed, and every other edge is untouched.
\<close>

lemma edge_update_spec:
  assumes "graph_inv g"
  shows "map_option e_Weight (adj_get (AddEdge e g) a b) =
           (if joins (e_From e) (e_To e) a b then Some (e_Weight e) else map_option e_Weight (adj_get g a b))
    \<and> map_option e_Weight (adj_get (DelEdge f t g) a b) =
           (if joins f t a b then None else map_option e_Weight (adj_get g a b))
    \<and> set (Nodes (AddEdge e g)) = {e_From e, e_To e} \<union> set (Nodes g)
    \<and> Nodes (DelEdge f t g) = Nodes g"
proof (intro conjI)
  have "set (mkeys (g_nodes (ensureNode n h))) = insert n (set (mkeys (g_nodes h)))" for n h
    by (auto simp: ensureNode_def split: option.splits dest: gm.get_Some_keys)
  then show "set (Nodes (AddEdge e g)) = {e_From e, e_To e} \<union> set (Nodes g)"
    by (auto simp: Nodes_def AddEdge_def Let_def)
qed (auto simp: AddEdge_get [OF assms] DelEdge_get Nodes_def)

lemma NodeSubnets_Add:
  "set (NodeSubnets (AddSubnet owner s g) n) =
     (if n = owner then insert s (set (NodeSubnets g n)) else set (NodeSubnets g n))"
proof (cases "mget (g_nodes g) owner")
  case None
  then show ?thesis
    by (auto simp: NodeSubnets_def AddSubnet_def Let_def ensureNode_def)
next
  case (Some d)
  then show ?thesis by (auto simp: NodeSubnets_def AddSubnet_def Let_def ensureNode_def)
qed

lemma NodeSubnets_Del:
  "set (NodeSubnets (DelSubnet owner s g) n) =
     (if n = owner then set (NodeSubnets g n) - {s} else set (NodeSubnets g n))"
  by (auto simp: NodeSubnets_def DelSubnet_def split: option.splits)

lemma SubnetOwner_Some:
  assumes "mwf (g_nodes g)" and "SubnetOwner g s = Some n"
  shows "s \<in> set (NodeSubnets g n)"
proof -
  obtain d where "(n, d) \<in> set (g_nodes g)" and s: "mget (subnets d) s \<noteq> None"
    using assms(2) by (auto simp: SubnetOwner_def find_Some_iff dest: nth_mem)
  with assms(1) have "mget (g_nodes g) n = Some d" by (simp add: in_set_mget)
  with s show ?thesis by (simp add: NodeSubnets_def gm.get_None_keys)
qed

lemma SubnetOwner_None:
  assumes "SubnetOwner g s = None" shows "s \<notin> set (NodeSubnets g n)"
proof (cases "mget (g_nodes g) n")
  case (Some d)
  then have "(n, d) \<in> set (g_nodes g)" by (rule mget_in_set)
  with assms Some show ?thesis
    by (auto simp: SubnetOwner_def find_None_iff NodeSubnets_def gm.get_None_keys)
qed (simp add: NodeSubnets_def)

lemma fold_mput_const:
  "mget (fold (\<lambda>s out. mput s name out) ss out) k =
     (if k \<in> set ss then Some name else mget out k)"
  by (induction ss arbitrary: out) auto

lemma AllSubnets_get:
  "mget (fold (\<lambda>(name, n) out. fold (\<lambda>s out. mput s name out) (mkeys (subnets n)) out) ns out) k = Some v
     \<Longrightarrow> mget out k = Some v \<or> (\<exists>n. (v, n) \<in> set ns \<and> k \<in> set (mkeys (subnets n)))"
  by (induction ns arbitrary: out) (fastforce simp: fold_mput_const split: if_splits)+

lemma AllSubnets_dom:
  assumes "mget out k \<noteq> None \<or> (\<exists>p \<in> set ns. k \<in> set (mkeys (subnets (snd p))))"
  shows "mget (fold (\<lambda>(name, n) out. fold (\<lambda>s out. mput s name out) (mkeys (subnets n)) out) ns out) k \<noteq> None"
  using assms
proof (induction ns arbitrary: out)
  case (Cons p ns)
  obtain v n where p: "p = (v, n)" by (cases p)
  let ?out = "fold (\<lambda>s out. mput s v out) (mkeys (subnets n)) out"
  have "mget ?out k \<noteq> None \<or> (\<exists>p \<in> set ns. k \<in> set (mkeys (subnets (snd p))))"
    using Cons.prems p by (auto simp: fold_mput_const)
  from Cons.IH [OF this] show ?case by (simp add: p)
qed simp

text \<open>
  Subnets. Adding and deleting change only the named owner's set; \<open>SubnetOwner\<close> returns an
  owner whenever there is one, and \<open>AllSubnets\<close> assigns every announced subnet one of its owners.
\<close>

theorem subnet_ops_spec:
  assumes "graph_inv g"
  shows "set (NodeSubnets (AddSubnet owner s g) n) =
           (if n = owner then insert s (set (NodeSubnets g n)) else set (NodeSubnets g n)) \<and>
         set (NodeSubnets (DelSubnet owner s g) n) =
           (if n = owner then set (NodeSubnets g n) - {s} else set (NodeSubnets g n)) \<and>
         (case SubnetOwner g s of
            Some w \<Rightarrow> s \<in> set (NodeSubnets g w) | None \<Rightarrow> \<forall>w. s \<notin> set (NodeSubnets g w)) \<and>
         (case mget (AllSubnets g) s of
            Some w \<Rightarrow> s \<in> set (NodeSubnets g w) | None \<Rightarrow> \<forall>w. s \<notin> set (NodeSubnets g w))"
proof (intro conjI)
  have wf: "mwf (g_nodes g)" using assms by (simp add: graph_inv_def)
  show "case SubnetOwner g s of
          Some w \<Rightarrow> s \<in> set (NodeSubnets g w) | None \<Rightarrow> \<forall>w. s \<notin> set (NodeSubnets g w)"
    using SubnetOwner_Some [OF wf] SubnetOwner_None by (auto split: option.splits)
  show "case mget (AllSubnets g) s of
          Some w \<Rightarrow> s \<in> set (NodeSubnets g w) | None \<Rightarrow> \<forall>w. s \<notin> set (NodeSubnets g w)"
  proof (cases "mget (AllSubnets g) s")
    case (Some w)
    then obtain d where "(w, d) \<in> set (g_nodes g)" and "s \<in> set (mkeys (subnets d))"
      by (auto simp: AllSubnets_def dest!: AllSubnets_get)
    with Some show ?thesis by (auto simp: NodeSubnets_def in_set_mget [OF wf])
  next
    case None
    then have none: "\<forall>p \<in> set (g_nodes g). s \<notin> set (mkeys (subnets (snd p)))"
      using AllSubnets_dom [of "[]" s "g_nodes g"] by (auto simp: AllSubnets_def)
    have "s \<notin> set (NodeSubnets g w)" for w
      by (cases "mget (g_nodes g) w") (use none mget_in_set in \<open>force simp: NodeSubnets_def\<close>)+
    with None show ?thesis by simp
  qed
qed (simp_all add: NodeSubnets_Add NodeSubnets_Del)

theorem subnet_ops_spec_witness:
  "set (NodeSubnets (AddSubnet ''alice'' ''10.0.0.0/8'' New) ''alice'') = {''10.0.0.0/8''} \<and>
   set (NodeSubnets (DelSubnet ''alice'' ''10.0.0.0/8'' New) ''alice'') = {}"
  using subnet_ops_spec [OF inv_New, of "''alice''" "''10.0.0.0/8''" "''alice''"]
  by (simp add: NodeSubnets_def New_def)

end
