(* ===== verification/Config.thy ===== *)
theory Config
  imports GoStrings
begin

text \<open>
  Package \<open>config\<close> without its file access: parsing \<open>Key = Value\<close> lines, looking keys up case
  insensitively, and rendering entries back. Errors carry the offending line.
\<close>

record entry =
  Key :: string
  Value :: string

type_synonym entries = "entry list"

datatype config_error =
    MissingValue string
  | EmptyKey string
  | EmptyValue string
  | LineTooLong

definition canonical :: "(string \<times> string) list" where
  "canonical =
    [(''address'', ''Address''),
     (''addressfamily'', ''AddressFamily''),
     (''autoconnect'', ''AutoConnect''),
     (''bindtoaddress'', ''BindToAddress''),
     (''bindtointerface'', ''BindToInterface''),
     (''broadcast'', ''Broadcast''),
     (''broadcastsubnet'', ''BroadcastSubnet''),
     (''cipher'', ''Cipher''),
     (''clampmss'', ''ClampMSS''),
     (''compression'', ''Compression''),
     (''connectto'', ''ConnectTo''),
     (''decrementttl'', ''DecrementTTL''),
     (''device'', ''Device''),
     (''devicestandby'', ''DeviceStandby''),
     (''devicetype'', ''DeviceType''),
     (''digest'', ''Digest''),
     (''directonly'', ''DirectOnly''),
     (''ed25519publickey'', ''Ed25519PublicKey''),
     (''ed25519privatekey'', ''Ed25519PrivateKey''),
     (''forwarding'', ''Forwarding''),
     (''fwmark'', ''FWMark''),
     (''hostnames'', ''Hostnames''),
     (''ifconfig'', ''Ifconfig''),
     (''iffonequeue'', ''IffOneQueue''),
     (''indirectdata'', ''IndirectData''),
     (''interface'', ''Interface''),
     (''invitationexpire'', ''InvitationExpire''),
     (''keyexpire'', ''KeyExpire''),
     (''listenaddress'', ''ListenAddress''),
     (''localdiscovery'', ''LocalDiscovery''),
     (''loglevel'', ''LogLevel''),
     (''maclength'', ''MACLength''),
     (''macexpire'', ''MACExpire''),
     (''maxconnectionburst'', ''MaxConnectionBurst''),
     (''maxtimeout'', ''MaxTimeout''),
     (''mode'', ''Mode''),
     (''mtuinfointerval'', ''MTUInfoInterval''),
     (''name'', ''Name''),
     (''netname'', ''Netname''),
     (''pmtu'', ''PMTU''),
     (''pmtudiscovery'', ''PMTUDiscovery''),
     (''pinginterval'', ''PingInterval''),
     (''pingtimeout'', ''PingTimeout''),
     (''port'', ''Port''),
     (''priorityinheritance'', ''PriorityInheritance''),
     (''processpriority'', ''ProcessPriority''),
     (''proxy'', ''Proxy''),
     (''replaywindow'', ''ReplayWindow''),
     (''route'', ''Route''),
     (''sandbox'', ''Sandbox''),
     (''scriptsextension'', ''ScriptsExtension''),
     (''scriptsinterpreter'', ''ScriptsInterpreter''),
     (''strictsubnets'', ''StrictSubnets''),
     (''subnet'', ''Subnet''),
     (''tcponly'', ''TCPOnly''),
     (''tunnelserver'', ''TunnelServer''),
     (''udpdiscovery'', ''UDPDiscovery''),
     (''udpdiscoveryinterval'', ''UDPDiscoveryInterval''),
     (''udpdiscoverykeepaliveinterval'', ''UDPDiscoveryKeepaliveInterval''),
     (''udpdiscoverytimeout'', ''UDPDiscoveryTimeout''),
     (''udpinfointerval'', ''UDPInfoInterval''),
     (''udprcvbuf'', ''UDPRcvBuf''),
     (''udpsndbuf'', ''UDPSndBuf''),
     (''upnp'', ''UPnP''),
     (''upnpdiscoverwait'', ''UPnPDiscoverWait''),
     (''upnprefreshperiod'', ''UPnPRefreshPeriod''),
     (''weight'', ''Weight''),
     (''wgpublickey'', ''WGPublicKey''),
     (''wgprivatekey'', ''WGPrivateKey''),
     (''wgendpoint'', ''WGEndpoint'')]"

definition canonicalKey :: "string \<Rightarrow> string" where
  "canonicalKey k = (case map_of canonical (ToLower k) of Some c \<Rightarrow> c | None \<Rightarrow> k)"

definition parseLine :: "string \<Rightarrow> (config_error, entry) result" where
  "parseLine s =
     (let finish = (\<lambda>key value.
            if key = [] then Inl (EmptyKey s)
            else if value = [] then Inl (EmptyValue s)
            else Inr \<lparr>Key = canonicalKey key, Value = value\<rparr>)
      in case cut_first (CHR ''='') s of
           Some (a, b) \<Rightarrow> finish (TrimSpace a) (TrimSpace b)
         | None \<Rightarrow>
             let fields = Fields s
             in if length fields < 2 then Inl (MissingValue s)
                else finish (hd fields) (TrimSpace (drop (length (hd fields)) s)))"

fun parse_lines :: "string list \<Rightarrow> (config_error, entries) result" where
  "parse_lines [] = Inr []"
| "parse_lines (l # ls) =
     (let line = TrimSpace l
      in if line = [] \<or> HasPrefix line ''#'' then parse_lines ls
         else (case parseLine line of
                 Inl err \<Rightarrow> Inl err
               | Inr e \<Rightarrow> (case parse_lines ls of Inl err \<Rightarrow> Inl err | Inr es \<Rightarrow> Inr (e # es))))"

definition Parse :: "string \<Rightarrow> (config_error, entries) result" where
  "Parse r =
     (case scan_lines r of
        (ls, tooLong) \<Rightarrow>
          (case parse_lines ls of
             Inl err \<Rightarrow> Inl err
           | Inr out \<Rightarrow> if tooLong then Inl LineTooLong else Inr out))"

fun GetFirst :: "entries \<Rightarrow> string \<Rightarrow> string option" where
  "GetFirst [] key = None"
| "GetFirst (e # es) key = (if EqualFold (Key e) key then Some (Value e) else GetFirst es key)"

fun GetAll :: "entries \<Rightarrow> string \<Rightarrow> string list" where
  "GetAll [] key = []"
| "GetAll (e # es) key = (if EqualFold (Key e) key then Value e # GetAll es key else GetAll es key)"

definition render_entry :: "entry \<Rightarrow> string" where
  "render_entry e = Key e @ '' = '' @ Value e"

definition Render :: "entries \<Rightarrow> string" where
  "Render es = concat (map (\<lambda>e. render_entry e @ [NL]) es)"

section \<open>Trimming\<close>

lemma lead_len_take:
  assumes "\<forall>e \<in> set encs. e \<noteq> []" and "lead_len encs s = 0"
  shows "lead_len encs (take n s) = 0"
proof -
  have "take (length e) (take n s) \<noteq> e" if "e \<in> set encs" for e
  proof
    assume eq: "take (length e) (take n s) = e"
    then have "take (min (length e) n) s = e" by (simp add: min.commute)
    moreover from this have "length e \<le> min (length e) n" by (metis length_take min.cobounded2)
    ultimately have "take (length e) s = e" by (simp add: min_def split: if_splits)
    with assms that show False by (auto simp: lead_len_0_iff)
  qed
  then show ?thesis using assms(1) by (simp add: lead_len_0_iff)
qed

lemma trim_with_suffix: "\<exists>n. trim_with encs s = drop n s"
proof (induction encs s rule: trim_with.induct)
  case (1 encs s)
  show ?case
  proof (cases "lead_len encs s = 0")
    case True
    then show ?thesis by (intro exI [of _ 0]) (simp add: trim_with_clean)
  next
    case False
    with 1 obtain n where "trim_with encs (drop (lead_len encs s) s) = drop n (drop (lead_len encs s) s)"
      by blast
    with False have "trim_with encs s = drop (n + lead_len encs s) s"
      by (subst trim_with.simps) simp
    then show ?thesis by blast
  qed
qed

text \<open>What \<open>TrimSpace\<close> returns is empty or clean, hence trimming twice changes nothing.\<close>

lemma TrimSpace_result: "TrimSpace s = [] \<or> clean (TrimSpace s)"
proof -
  let ?l = "trim_with space_encs s"
  obtain n where n: "trim_with space_encs_rev (rev ?l) = drop n (rev ?l)"
    using trim_with_suffix by blast
  then have eq: "TrimSpace s = take (length ?l - n) ?l" by (simp add: TrimSpace_def rev_drop)
  have ne: "\<forall>e \<in> set space_encs. e \<noteq> []" using space_encs_bytes by auto
  have "space_len (TrimSpace s) = 0"
    unfolding eq by (rule lead_len_take [OF ne trim_with_starts_clean])
  moreover have "lead_len space_encs_rev (rev (TrimSpace s)) = 0"
    by (simp add: TrimSpace_def trim_with_starts_clean)
  ultimately show ?thesis by (auto simp: clean_def)
qed

lemma TrimSpace_idem [simp]: "TrimSpace (TrimSpace s) = TrimSpace s"
  using TrimSpace_result [of s] TrimSpace_clean [of "TrimSpace s"] by auto

section \<open>Keys\<close>

lemma ascii_lower_fold: "\<forall>c \<in> set s. ascii c \<Longrightarrow> ToLower s = map lower_char s \<and> fold_str s = map lower_char s"
  by (induction s) (auto simp: ascii_def)

lemma canonical_table:
  "list_all (\<lambda>(l, c). list_all ascii c \<and> map lower_char c = l) canonical"
  by (simp add: canonical_def ascii_def lower_char_def char_of_def bit_Suc_0_iff)

lemma canonical_lower: "(l, c) \<in> set canonical \<Longrightarrow> ToLower c = l \<and> fold_str c = l"
  using canonical_table ascii_lower_fold [of c] by (fastforce simp: list_all_iff)

lemma canonical_distinct: "distinct (map fst canonical)"
  by (simp add: canonical_def)

lemma canonicalKey_cases:
  obtains "canonicalKey k = k" | c where "(ToLower k, c) \<in> set canonical" "canonicalKey k = c"
  by (cases "map_of canonical (ToLower k)") (auto simp: canonicalKey_def dest: map_of_SomeD)

lemma canonicalKey_idem: "canonicalKey (canonicalKey k) = canonicalKey k"
proof (cases rule: canonicalKey_cases [of k])
  case 1
  then show ?thesis by simp
next
  case (2 c)
  then have "ToLower c = ToLower k" using canonical_lower by auto
  moreover have "map_of canonical (ToLower k) = Some c"
    using 2 canonical_distinct by (simp add: map_of_eq_Some_iff)
  ultimately show ?thesis using 2 by (simp add: canonicalKey_def)
qed

text \<open>The keys of the table are the canonical form of themselves, and no two of them match.\<close>

abbreviation known_keys :: "string list" where "known_keys \<equiv> map snd canonical"

lemma canonicalKey_known: "c \<in> set known_keys \<Longrightarrow> canonicalKey c = c"
proof -
  assume "c \<in> set known_keys"
  then obtain l where m: "(l, c) \<in> set canonical" by auto
  with canonical_distinct have "map_of canonical l = Some c" by (simp add: map_of_eq_Some_iff)
  with canonical_lower [OF m] show ?thesis by (simp add: canonicalKey_def)
qed

lemma EqualFold_known: "a \<in> set known_keys \<Longrightarrow> b \<in> set known_keys \<Longrightarrow> EqualFold a b \<longleftrightarrow> a = b"
proof -
  assume "a \<in> set known_keys" "b \<in> set known_keys"
  then obtain l m where k: "(l, a) \<in> set canonical" "(m, b) \<in> set canonical" by auto
  with canonical_distinct have "l = m \<longrightarrow> a = b" by (metis eq_key_imp_eq_value)
  with canonical_lower [OF k(1)] canonical_lower [OF k(2)] show ?thesis by (auto simp: EqualFold_def)
qed

lemma canonicalKey_EqualFold:
  assumes "\<forall>c \<in> set k. ascii c" shows "EqualFold (canonicalKey k) k"
proof (cases rule: canonicalKey_cases [of k])
  case 1
  then show ?thesis by (simp add: EqualFold_def)
next
  case (2 c)
  then have "fold_str c = ToLower k" using canonical_lower by auto
  with 2 ascii_lower_fold [OF assms] show ?thesis by (simp add: EqualFold_def)
qed

lemma GetFirst_GetAll: "GetFirst es k = (case GetAll es k of [] \<Rightarrow> None | v # _ \<Rightarrow> Some v)"
  by (induction es) auto

lemma GetAll_append: "GetAll (es @ fs) k = GetAll es k @ GetAll fs k"
  by (induction es) auto

lemma GetAll_cong: "EqualFold k k' \<Longrightarrow> GetAll es k = GetAll es k'"
  by (induction es) (auto simp: EqualFold_def)

section \<open>Parsing what was rendered\<close>

text \<open>Entries that the file format can carry.\<close>

definition entry_ok :: "entry \<Rightarrow> bool" where
  "entry_ok e \<longleftrightarrow>
     clean (Key e) \<and> clean (Value e) \<and> CHR ''='' \<notin> set (Key e) \<and> hd (Key e) \<noteq> CHR ''#'' \<and>
     NL \<notin> set (Key e) \<and> NL \<notin> set (Value e) \<and> canonicalKey (Key e) = Key e \<and>
     length (Key e) + length (Value e) + 3 < MaxScanTokenSize"

lemma clean_render: "entry_ok e \<Longrightarrow> clean (render_entry e)"
  unfolding entry_ok_def render_entry_def
  by (rule clean_append) (auto simp: ascii_def)

lemma plain_render: "entry_ok e \<Longrightarrow> plain_line (render_entry e)"
  using clean_last_CR [OF clean_render [of e]]
  by (auto simp: plain_line_def entry_ok_def render_entry_def NL_def MaxScanTokenSize_def)

lemma parseLine_render:
  assumes "entry_ok e" shows "parseLine (render_entry e) = Inr e"
proof -
  have "render_entry e = (Key e @ [SP]) @ CHR ''='' # (SP # Value e)"
    by (simp add: render_entry_def SP_def)
  moreover have "CHR ''='' \<notin> set (Key e @ [SP])" using assms by (auto simp: entry_ok_def SP_def)
  ultimately have "cut_first (CHR ''='') (render_entry e) = Some (Key e @ [SP], SP # Value e)"
    by (metis cut_first_append)
  then show ?thesis
    using assms by (auto simp: parseLine_def entry_ok_def TrimSpace_SP_left TrimSpace_SP_right clean_def)
qed

lemma parse_lines_render:
  "list_all entry_ok es \<Longrightarrow> parse_lines (map render_entry es) = Inr es"
proof (induction es)
  case (Cons e es)
  then have e: "entry_ok e" and es: "list_all entry_ok es" by auto
  have "\<not> HasPrefix (render_entry e) ''#''" and "render_entry e \<noteq> []"
    using e by (auto simp: HasPrefix_def render_entry_def entry_ok_def clean_def take_Suc neq_Nil_conv)
  with Cons.IH [OF es] e show ?case
    by (simp add: TrimSpace_clean clean_render parseLine_render)
qed simp

lemma Parse_Render: "list_all entry_ok es \<Longrightarrow> Parse (Render es) = Inr es"
proof -
  assume ok: "list_all entry_ok es"
  then have "list_all plain_line (map render_entry es)"
    by (auto simp: list_all_iff plain_render)
  then have "scan_lines (Render es) = (map render_entry es, False)"
    using scan_lines_concat [of "map render_entry es"] by (simp add: Render_def comp_def)
  then show ?thesis using ok by (simp add: Parse_def parse_lines_render)
qed

text \<open>The configuration format is a codec on the entries it can carry.\<close>

interpretation conf: codec Render "\<lambda>s. ok_of (Parse s)" "list_all entry_ok"
  by unfold_locales (simp add: Parse_Render)

section \<open>Properties\<close>

text \<open>
  Parsing a rendered configuration gives the entries back, in order, for all entries the
  line format can carry; hence rendering is injective on them.
\<close>

theorem config_roundtrip:
  assumes "list_all entry_ok es"
  shows "Parse (Render es) = Inr es \<and> (list_all entry_ok fs \<longrightarrow> Render es = Render fs \<longrightarrow> es = fs)"
  using assms conf.dec_enc [OF assms] conf.enc_inj [of es fs] by auto

theorem config_roundtrip_witness:
  "Parse (Render [\<lparr>Key = ''Name'', Value = ''alice''\<rparr>, \<lparr>Key = ''ConnectTo'', Value = ''bob''\<rparr>]) =
     Inr [\<lparr>Key = ''Name'', Value = ''alice''\<rparr>, \<lparr>Key = ''ConnectTo'', Value = ''bob''\<rparr>]"
proof -
  have c: "clean ''Name''" "clean ''alice''" "clean ''ConnectTo''" "clean ''bob''"
    by (rule ascii_cleanI; simp add: ascii_def space_encs_def)+
  have k: "canonicalKey ''Name'' = ''Name''" "canonicalKey ''ConnectTo'' = ''ConnectTo''"
    by (simp_all add: canonicalKey_known canonical_def)
  have "list_all entry_ok [\<lparr>Key = ''Name'', Value = ''alice''\<rparr>, \<lparr>Key = ''ConnectTo'', Value = ''bob''\<rparr>]"
    using c k by (simp add: entry_ok_def NL_def MaxScanTokenSize_def)
  from config_roundtrip [OF this] show ?thesis by blast
qed

lemma fields_from_nonempty: "t \<in> set (fields_from cur s) \<Longrightarrow> t \<noteq> []"
  by (induction cur s rule: fields_from.induct) (auto split: if_splits)

lemma parseLine_ok:
  assumes "parseLine s = Inr e"
  shows "Key e \<noteq> [] \<and> Value e \<noteq> [] \<and> TrimSpace (Value e) = Value e \<and> canonicalKey (Key e) = Key e"
proof -
  obtain k v where e: "e = \<lparr>Key = canonicalKey k, Value = TrimSpace v\<rparr>" and "k \<noteq> []" "TrimSpace v \<noteq> []"
    using assms by (auto simp: parseLine_def Let_def split: option.splits if_splits)
  moreover have "canonicalKey k \<noteq> []"
  proof (cases rule: canonicalKey_cases [of k])
    case (2 c)
    have "list_all (\<lambda>(l, c). c \<noteq> []) canonical" by (simp add: canonical_def)
    with 2 show ?thesis by (auto simp: list_all_iff)
  qed (use \<open>k \<noteq> []\<close> in simp)
  ultimately show ?thesis by (simp add: canonicalKey_idem)
qed

lemma parse_lines_ok:
  "parse_lines ls = Inr es \<Longrightarrow> e \<in> set es \<Longrightarrow>
     Key e \<noteq> [] \<and> Value e \<noteq> [] \<and> TrimSpace (Value e) = Value e \<and> canonicalKey (Key e) = Key e"
proof (induction ls arbitrary: es)
  case (Cons l ls)
  then show ?case
    by (auto simp: Let_def split: if_splits sum.splits dest: parseLine_ok)
qed simp

text \<open>
  What a successful parse guarantees: every entry has a non-empty key and a non-empty value
  without surrounding white space, and keys are canonical.
\<close>

lemma Parse_entries_wf:
  assumes "Parse r = Inr es" and "e \<in> set es"
  shows "Key e \<noteq> [] \<and> Value e \<noteq> [] \<and> TrimSpace (Value e) = Value e \<and> canonicalKey (Key e) = Key e"
proof -
  obtain ls t where "scan_lines r = (ls, t)" by (cases "scan_lines r")
  with assms(1) have "parse_lines ls = Inr es" by (auto simp: Parse_def split: sum.splits if_splits)
  then show ?thesis using assms(2) by (rule parse_lines_ok)
qed

text \<open>
  Keys are case-insensitive: however an ASCII key is spelled, the entry parsed from its line is
  found under every spelling that differs only in case.
\<close>

lemma key_case_insensitive:
  assumes "\<forall>c \<in> set k. ascii c" and "EqualFold k k'"
  shows "GetFirst (\<lparr>Key = canonicalKey k, Value = v\<rparr> # es) k' = Some v \<and>
         GetAll (es @ [\<lparr>Key = canonicalKey k, Value = v\<rparr>]) k' = GetAll es k' @ [v]"
proof -
  have "EqualFold (canonicalKey k) k'"
    using canonicalKey_EqualFold [OF assms(1)] assms(2) by (simp add: EqualFold_def)
  then show ?thesis by (simp add: GetAll_append)
qed

end
