(* ===== verification/Base64.thy ===== *)
theory Base64
  imports GoStrings
begin

text \<open>
  The base64 encodings gsnet uses: \<open>StdEncoding\<close> (padded, for keys on the wire and in host files)
  and \<open>RawURLEncoding\<close> (unpadded, for key hashes and cookies). As in Go, decoding skips carriage
  returns and line feeds and does not check the unused bits of the last group.
\<close>

definition std_alphabet :: string where
  "std_alphabet = ''ABCDEFGHIJKLMNOPQRSTUVWXYZabcdefghijklmnopqrstuvwxyz0123456789+/''"

definition url_alphabet :: string where
  "url_alphabet = ''ABCDEFGHIJKLMNOPQRSTUVWXYZabcdefghijklmnopqrstuvwxyz0123456789-_''"

text \<open>The four six-bit groups of three bytes, and the three bytes of four groups.\<close>

definition sextets :: "nat \<Rightarrow> nat \<Rightarrow> nat \<Rightarrow> nat list" where
  "sextets a b c = [a div 4, (a mod 4) * 16 + b div 16, (b mod 16) * 4 + c div 64, c mod 64]"

definition octets :: "nat \<Rightarrow> nat \<Rightarrow> nat \<Rightarrow> nat \<Rightarrow> nat list" where
  "octets w x y z = [(w * 4 + x div 16) mod 256, (x mod 16) * 16 + y div 4, (y mod 4) * 64 + z]"

fun groups :: "bytes \<Rightarrow> nat list" where
  "groups (a # b # c # rest) = sextets (unat a) (unat b) (unat c) @ groups rest"
| "groups [a, b] = take 3 (sextets (unat a) (unat b) 0)"
| "groups [a] = take 2 (sextets (unat a) 0 0)"
| "groups [] = []"

definition RawURLEncode :: "bytes \<Rightarrow> string" where
  "RawURLEncode b = map (\<lambda>i. url_alphabet ! i) (groups b)"

fun std_enc :: "bytes \<Rightarrow> string" where
  "std_enc (a # b # c # rest) =
     map (\<lambda>i. std_alphabet ! i) (sextets (unat a) (unat b) (unat c)) @ std_enc rest"
| "std_enc [a, b] = map (\<lambda>i. std_alphabet ! i) (take 3 (sextets (unat a) (unat b) 0)) @ ''=''"
| "std_enc [a] = map (\<lambda>i. std_alphabet ! i) (take 2 (sextets (unat a) 0 0)) @ ''==''"
| "std_enc [] = []"

text \<open>\<open>base64.StdEncoding.EncodeToString\<close>.\<close>

definition StdEncode :: "bytes \<Rightarrow> string" where
  "StdEncode b = std_enc b"

definition std_index :: "char \<Rightarrow> nat option" where
  "std_index c =
     (let n = (of_char c :: nat)
      in if 65 \<le> n \<and> n \<le> 90 then Some (n - 65)
         else if 97 \<le> n \<and> n \<le> 122 then Some (n - 71)
         else if 48 \<le> n \<and> n \<le> 57 then Some (n + 4)
         else if c = CHR ''+'' then Some 62
         else if c = CHR ''/'' then Some 63
         else None)"

fun std_dec :: "string \<Rightarrow> bytes option" where
  "std_dec [] = Some []"
| "std_dec (p # q # r # s # rest) =
     (case (std_index p, std_index q) of
        (Some w, Some x) \<Rightarrow>
          (if r = CHR ''='' then
             (if s = CHR ''='' \<and> rest = [] then Some (map of_nat (take 1 (octets w x 0 0))) else None)
           else (case std_index r of
                   None \<Rightarrow> None
                 | Some y \<Rightarrow>
                     if s = CHR ''='' then
                       (if rest = [] then Some (map of_nat (take 2 (octets w x y 0))) else None)
                     else (case std_index s of
                             None \<Rightarrow> None
                           | Some z \<Rightarrow> map_option ((@) (map of_nat (octets w x y z))) (std_dec rest))))
      | _ \<Rightarrow> None)"
| "std_dec _ = None"

text \<open>\<open>base64.StdEncoding.DecodeString\<close>.\<close>

definition StdDecode :: "string \<Rightarrow> bytes option" where
  "StdDecode s = std_dec (filter (\<lambda>c. c \<noteq> NL \<and> c \<noteq> CR) s)"

lemma std_index_alphabet:
  assumes "i < 64" shows "std_index (std_alphabet ! i) = Some i"
proof -
  have "map std_index std_alphabet = map Some [0..<64]"
    by (simp add: std_alphabet_def std_index_def upt_conv_Cons)
  then have "map std_index std_alphabet ! i = map Some [0..<64] ! i" by simp
  moreover have "length std_alphabet = 64" by (simp add: std_alphabet_def)
  ultimately show ?thesis using assms by simp
qed

lemma std_alphabet_no_pad:
  assumes "i < 64"
  shows "std_alphabet ! i \<noteq> CHR ''=''" "std_alphabet ! i \<noteq> NL" "std_alphabet ! i \<noteq> CR"
  using std_index_alphabet [OF assms] by (auto simp: std_index_def NL_def CR_def)

lemma byte_lt: "unat (b :: byte) < 256"
proof -
  have "unat b < 2 ^ LENGTH(8)" by (rule unsigned_less)
  then show ?thesis by simp
qed

lemma of_nat_unat_byte [simp]: "(of_nat (unat b) :: byte) = b"
  by simp

lemma octets_sextets:
  fixes a b c :: nat
  assumes "a < 256" "b < 256" "c < 256"
  shows "octets (a div 4) ((a mod 4) * 16 + b div 16) ((b mod 16) * 4 + c div 64) (c mod 64) = [a, b, c]"
  using assms unfolding octets_def by (auto; presburger)

lemma sextet_bounds:
  fixes a b c :: nat
  assumes "a < 256" "b < 256" "c < 256"
  shows "a div 4 < 64" "(a mod 4) * 16 + b div 16 < 64" "(b mod 16) * 4 + c div 64 < 64" "c mod 64 < 64"
  using assms by (auto; presburger)+

lemma std_enc_chars: "c \<in> set (std_enc b) \<Longrightarrow> c \<noteq> NL \<and> c \<noteq> CR"
proof (induction b rule: std_enc.induct)
  case (1 x y z rest)
  note bd = sextet_bounds [OF byte_lt [of x] byte_lt [of y] byte_lt [of z]]
  show ?case using 1 std_alphabet_no_pad [OF bd(1)] std_alphabet_no_pad [OF bd(2)]
      std_alphabet_no_pad [OF bd(3)] std_alphabet_no_pad [OF bd(4)]
    by (auto simp: sextets_def)
next
  case (2 x y)
  note bd = sextet_bounds [OF byte_lt [of x] byte_lt [of y], of 0]
  show ?case using 2 std_alphabet_no_pad [OF bd(1)] std_alphabet_no_pad [OF bd(2)]
      std_alphabet_no_pad [OF bd(3)]
    by (auto simp: sextets_def NL_def CR_def)
next
  case (3 x)
  note bd = sextet_bounds [OF byte_lt [of x], of 0 0]
  show ?case using 3 std_alphabet_no_pad [OF bd(1)] std_alphabet_no_pad [OF bd(2)]
    by (auto simp: sextets_def NL_def CR_def)
qed simp

lemma std_dec_enc: "std_dec (std_enc b) = Some b"
proof (induction b rule: std_enc.induct)
  case (1 x y z rest)
  note lt = byte_lt [of x] byte_lt [of y] byte_lt [of z]
  note bd = sextet_bounds [OF lt]
  show ?case using 1 std_alphabet_no_pad [OF bd(3)] std_alphabet_no_pad [OF bd(4)]
    by (simp add: sextets_def std_index_alphabet bd octets_sextets [OF lt])
next
  case (2 x y)
  note lt = byte_lt [of x] byte_lt [of y]
  note bd = sextet_bounds [OF lt, of 0]
  have "octets (unat x div 4) ((unat x mod 4) * 16 + unat y div 16) ((unat y mod 16) * 4) 0 =
      [unat x, unat y, 0]"
    using octets_sextets [OF lt, of 0] by simp
  then show ?case using 2 std_alphabet_no_pad [OF bd(3)] bd
    by (simp add: sextets_def std_index_alphabet)
next
  case (3 x)
  note bd = sextet_bounds [OF byte_lt [of x], of 0 0]
  have "octets (unat x div 4) ((unat x mod 4) * 16) 0 0 = [unat x, 0, 0]"
    using octets_sextets [OF byte_lt [of x], of 0 0] by simp
  then show ?case using 3 bd by (simp add: sextets_def std_index_alphabet)
qed simp

lemma StdDecode_StdEncode: "StdDecode (StdEncode b) = Some b"
proof -
  have "filter (\<lambda>c. c \<noteq> NL \<and> c \<noteq> CR) (std_enc b) = std_enc b"
    using std_enc_chars by (auto simp: filter_id_conv)
  then show ?thesis by (simp add: StdDecode_def StdEncode_def std_dec_enc)
qed

interpretation b64: codec StdEncode StdDecode "\<lambda>_. True"
  by unfold_locales (rule StdDecode_StdEncode)

lemma length_groups: "length (groups b) = (length b * 4 + 2) div 3"
  by (induction b rule: groups.induct) (auto simp: sextets_def)

lemma length_RawURLEncode: "length (RawURLEncode b) = (length b * 4 + 2) div 3"
  by (simp add: RawURLEncode_def length_groups)

lemma std_enc_alphabet: "set (StdEncode b) \<subseteq> set (CHR ''='' # std_alphabet)"
  unfolding StdEncode_def
proof (induction b rule: std_enc.induct)
  have mem: "i < 64 \<Longrightarrow> std_alphabet ! i \<in> set std_alphabet" for i
    by (rule nth_mem) (simp add: std_alphabet_def)
  {
    case (1 x y z rest)
    then show ?case using mem sextet_bounds [OF byte_lt [of x] byte_lt [of y] byte_lt [of z]]
      by (auto simp: sextets_def)
  next
    case (2 x y)
    then show ?case using mem sextet_bounds [OF byte_lt [of x] byte_lt [of y], of 0] by (auto simp: sextets_def)
  next
    case (3 x)
    then show ?case using mem sextet_bounds [OF byte_lt [of x], of 0 0] by (auto simp: sextets_def)
  }
qed simp

lemma std_enc_plain:
  assumes "c \<in> set (StdEncode b)" shows "ascii c \<and> [c] \<notin> set space_encs"
proof -
  have "\<forall>c \<in> set (CHR ''='' # std_alphabet). ascii c \<and> [c] \<notin> set space_encs"
    by (simp add: std_alphabet_def ascii_def space_encs_def)
  with assms std_enc_alphabet [of b] show ?thesis by blast
qed

lemma std_enc_ascii: "list_all ascii (StdEncode b)"
  using std_enc_plain by (simp add: list_all_iff)

lemma std_enc_token: "b \<noteq> [] \<Longrightarrow> token (StdEncode b)"
  unfolding token_def
proof
  show "nospace (StdEncode b)" by (rule nospace_ascii) (rule std_enc_plain)
  assume "b \<noteq> []"
  then show "StdEncode b \<noteq> []" by (cases b rule: std_enc.cases) (auto simp: StdEncode_def sextets_def)
qed

lemma length_StdEncode: "length (StdEncode b) = 4 * ((length b + 2) div 3)"
  unfolding StdEncode_def
  by (induction b rule: std_enc.induct) (simp_all add: sextets_def, presburger?)

end
