(* ===== verification/Keys.thy ===== *)
theory Keys
  imports Base64
begin

text \<open>
  Package \<open>keys\<close>. The cryptographic primitives (Ed25519, SHA-256, PEM/PKCS#8, WireGuard keys) are
  not modelled: \<open>crypto\<close> bundles them as parameters, and \<open>ed25519_correct\<close>, \<open>pem_correct\<close> and
  \<open>wg_correct\<close> state what their documentation promises. A public key is its raw bytes; the zero
  value of \<open>Ed25519Public\<close> is the empty list.
\<close>

datatype parsed_key = Ed25519Key bytes | OtherKey

record crypto =
  ed_public :: "bytes \<Rightarrow> bytes"                          \<comment> \<open>\<open>PrivateKey.Public\<close>\<close>
  ed_sign :: "bytes \<Rightarrow> bytes \<Rightarrow> bytes"                   \<comment> \<open>\<open>ed25519.Sign\<close>\<close>
  ed_verify :: "bytes \<Rightarrow> bytes \<Rightarrow> bytes \<Rightarrow> bool"         \<comment> \<open>\<open>ed25519.Verify\<close>\<close>
  sha256 :: "bytes \<Rightarrow> bytes"                             \<comment> \<open>\<open>sha256.Sum256\<close>\<close>
  pem_encode :: "string \<Rightarrow> bytes \<Rightarrow> string"               \<comment> \<open>\<open>pem.EncodeToMemory\<close>: block type, DER\<close>
  pem_decode :: "string \<Rightarrow> bytes option"                 \<comment> \<open>\<open>pem.Decode\<close>: the DER of the first block\<close>
  pkcs8_marshal :: "bytes \<Rightarrow> bytes"
  pkcs8_parse :: "bytes \<Rightarrow> parsed_key option"
  pkix_marshal :: "bytes \<Rightarrow> bytes"
  pkix_parse :: "bytes \<Rightarrow> parsed_key option"
  wg_public :: "bytes \<Rightarrow> bytes"                          \<comment> \<open>\<open>wgtypes.Key.PublicKey\<close>\<close>
  wg_string :: "bytes \<Rightarrow> string"                         \<comment> \<open>\<open>wgtypes.Key.String\<close>\<close>
  wg_parse :: "string \<Rightarrow> bytes option"                   \<comment> \<open>\<open>wgtypes.ParseKey\<close>\<close>

definition PublicKeySize :: nat where
  "PublicKeySize = 32"

text \<open>A signature made with a key verifies under the public half, which has 32 bytes.\<close>

definition ed25519_correct :: "crypto \<Rightarrow> bool" where
  "ed25519_correct c \<longleftrightarrow>
     (\<forall>priv msg. length (ed_public c priv) = PublicKeySize \<and>
        ed_verify c (ed_public c priv) msg (ed_sign c priv msg))"

definition sha256_length :: "crypto \<Rightarrow> bool" where
  "sha256_length c \<longleftrightarrow> (\<forall>b. length (sha256 c b) = 32)"

text \<open>PEM returns the DER it wrapped, PKCS#8 and PKIX return the key they marshalled.\<close>

definition pem_correct :: "crypto \<Rightarrow> bool" where
  "pem_correct c \<longleftrightarrow>
     (\<forall>t der. pem_decode c (pem_encode c t der) = Some der) \<and>
     (\<forall>k. pkcs8_parse c (pkcs8_marshal c k) = Some (Ed25519Key k)) \<and>
     (\<forall>k. pkix_parse c (pkix_marshal c k) = Some (Ed25519Key k))"

text \<open>WireGuard keys have 32 bytes and survive their textual form, which is base64: 44 characters, no spaces.\<close>

definition wg_correct :: "crypto \<Rightarrow> bool" where
  "wg_correct c \<longleftrightarrow>
     (\<forall>k. length k = 32 \<longrightarrow> wg_parse c (wg_string c k) = Some k \<and> token (wg_string c k) \<and> length (wg_string c k) = 44) \<and>
     (\<forall>k. length (wg_public c k) = 32)"

datatype key_error = BadBase64 | WrongLength nat | NoPEMBlock | BadDER | NotEd25519 | BadWGKey

definition Ed_Public :: "crypto \<Rightarrow> bytes \<Rightarrow> bytes" where
  "Ed_Public c priv = ed_public c priv"

definition Sign :: "crypto \<Rightarrow> bytes \<Rightarrow> bytes \<Rightarrow> bytes" where
  "Sign c priv msg = ed_sign c priv msg"

definition Verify :: "crypto \<Rightarrow> bytes \<Rightarrow> bytes \<Rightarrow> bytes \<Rightarrow> bool" where
  "Verify c pub msg sig = (if length pub \<noteq> PublicKeySize then False else ed_verify c pub msg sig)"

definition Hash :: "crypto \<Rightarrow> bytes \<Rightarrow> string" where
  "Hash c pub = RawURLEncode (sha256 c pub)"

definition Ed_String :: "bytes \<Rightarrow> string" where
  "Ed_String pub = StdEncode pub"

definition ParseEd25519PublicBase64 :: "string \<Rightarrow> (key_error, bytes) result" where
  "ParseEd25519PublicBase64 s =
     (case StdDecode s of
        None \<Rightarrow> Inl BadBase64
      | Some b \<Rightarrow> if length b \<noteq> PublicKeySize then Inl (WrongLength (length b)) else Inr b)"

definition ParseEd25519PublicBase64ish :: "bytes \<Rightarrow> (key_error, bytes) result" where
  "ParseEd25519PublicBase64ish b =
     (if length b = PublicKeySize then Inr b else ParseEd25519PublicBase64 (bytes_str b))"

definition Private_MarshalPEM :: "crypto \<Rightarrow> bytes \<Rightarrow> string" where
  "Private_MarshalPEM c priv = pem_encode c ''PRIVATE KEY'' (pkcs8_marshal c priv)"

definition Public_MarshalPEM :: "crypto \<Rightarrow> bytes \<Rightarrow> string" where
  "Public_MarshalPEM c pub = pem_encode c ''PUBLIC KEY'' (pkix_marshal c pub)"

definition ParseEd25519PrivatePEM :: "crypto \<Rightarrow> string \<Rightarrow> (key_error, bytes) result" where
  "ParseEd25519PrivatePEM c b =
     (case pem_decode c b of
        None \<Rightarrow> Inl NoPEMBlock
      | Some der \<Rightarrow> (case pkcs8_parse c der of
            None \<Rightarrow> Inl BadDER
          | Some OtherKey \<Rightarrow> Inl NotEd25519
          | Some (Ed25519Key k) \<Rightarrow> Inr k))"

definition ParseEd25519PublicPEM :: "crypto \<Rightarrow> string \<Rightarrow> (key_error, bytes) result" where
  "ParseEd25519PublicPEM c b =
     (case pem_decode c b of
        None \<Rightarrow> Inl NoPEMBlock
      | Some der \<Rightarrow> (case pkix_parse c der of
            None \<Rightarrow> Inl BadDER
          | Some OtherKey \<Rightarrow> Inl NotEd25519
          | Some (Ed25519Key k) \<Rightarrow> Inr k))"

definition WG_Public :: "crypto \<Rightarrow> bytes \<Rightarrow> bytes" where
  "WG_Public c priv = wg_public c priv"

definition WG_String :: "crypto \<Rightarrow> bytes \<Rightarrow> string" where
  "WG_String c k = wg_string c k"

definition ParseWireGuardPrivate :: "crypto \<Rightarrow> string \<Rightarrow> (key_error, bytes) result" where
  "ParseWireGuardPrivate c s = (case wg_parse c s of None \<Rightarrow> Inl BadWGKey | Some k \<Rightarrow> Inr k)"

definition ParseWireGuardPublic :: "crypto \<Rightarrow> string \<Rightarrow> (key_error, bytes) result" where
  "ParseWireGuardPublic c s = (case wg_parse c s of None \<Rightarrow> Inl BadWGKey | Some k \<Rightarrow> Inr k)"

lemma private_pem_roundtrip:
  "pem_correct c \<Longrightarrow> ParseEd25519PrivatePEM c (Private_MarshalPEM c k) = Inr k"
  by (simp add: pem_correct_def ParseEd25519PrivatePEM_def Private_MarshalPEM_def)

lemma public_pem_roundtrip:
  "pem_correct c \<Longrightarrow> ParseEd25519PublicPEM c (Public_MarshalPEM c k) = Inr k"
  by (simp add: pem_correct_def ParseEd25519PublicPEM_def Public_MarshalPEM_def)

lemma wg_roundtrip:
  "wg_correct c \<Longrightarrow> length k = 32 \<Longrightarrow> ParseWireGuardPrivate c (WG_String c k) = Inr k"
  "wg_correct c \<Longrightarrow> length k = 32 \<Longrightarrow> ParseWireGuardPublic c (WG_String c k) = Inr k"
  by (simp_all add: wg_correct_def ParseWireGuardPrivate_def ParseWireGuardPublic_def WG_String_def)

lemma Verify_Sign: "ed25519_correct c \<Longrightarrow> Verify c (Ed_Public c priv) msg (Sign c priv msg)"
  by (simp add: ed25519_correct_def Verify_def Sign_def Ed_Public_def)

lemma parsed_public_length:
  "ParseEd25519PublicBase64 s = Inr b \<Longrightarrow> length b = PublicKeySize"
  "ParseEd25519PublicBase64ish x = Inr b \<Longrightarrow> length b = PublicKeySize"
  by (auto simp: ParseEd25519PublicBase64_def ParseEd25519PublicBase64ish_def
      split: option.splits if_splits)

lemma public_base64_roundtrip:
  "length pub = PublicKeySize \<Longrightarrow> ParseEd25519PublicBase64 (Ed_String pub) = Inr pub"
  by (simp add: ParseEd25519PublicBase64_def Ed_String_def StdDecode_StdEncode)

interpretation edpub: codec Ed_String "\<lambda>s. ok_of (ParseEd25519PublicBase64 s)" "\<lambda>b. length b = PublicKeySize"
  by unfold_locales (simp add: public_base64_roundtrip)

lemma Hash_length: "sha256_length c \<Longrightarrow> length (Hash c pub) = 43"
  by (simp add: Hash_def length_RawURLEncode sha256_length_def)

text \<open>
  Public keys survive their textual form, and both accepted forms of a key in a Hello (raw
  bytes, base64 text) yield the same key; a key that parses always has 32 bytes, and its
  fingerprint always has the 43 characters the invitation URL format relies on.
\<close>

theorem public_key_forms:
  assumes "length pub = PublicKeySize" and "sha256_length c"
  shows "ParseEd25519PublicBase64 (Ed_String pub) = Inr pub \<and>
    ParseEd25519PublicBase64ish pub = Inr pub \<and>
    ParseEd25519PublicBase64ish (str_bytes (Ed_String pub)) = Inr pub \<and> length (Hash c pub) = 43"
proof -
  have "length (StdEncode pub) \<noteq> PublicKeySize"
    using assms(1) by (simp add: length_StdEncode PublicKeySize_def)
  then show ?thesis
    using assms by (simp add: ParseEd25519PublicBase64ish_def Ed_String_def [symmetric]
        public_base64_roundtrip Hash_length)
qed

text \<open>A concrete instance of the primitives, for the witnesses: tags instead of cryptography.\<close>

definition toy_pub :: "bytes \<Rightarrow> bytes" where
  "toy_pub priv = take 32 (priv @ replicate 32 0)"

definition toy_crypto :: crypto where
  "toy_crypto = \<lparr>ed_public = toy_pub, ed_sign = (\<lambda>priv msg. toy_pub priv @ msg),
     ed_verify = (\<lambda>pub msg sig. sig = pub @ msg), sha256 = (\<lambda>b. take 32 (b @ replicate 32 0)),
     pem_encode = (\<lambda>t der. bytes_str der), pem_decode = (\<lambda>s. Some (str_bytes s)),
     pkcs8_marshal = (\<lambda>k. k), pkcs8_parse = (\<lambda>b. Some (Ed25519Key b)),
     pkix_marshal = (\<lambda>k. k), pkix_parse = (\<lambda>b. Some (Ed25519Key b)),
     wg_public = (\<lambda>b. take 32 (b @ replicate 32 7)), wg_string = StdEncode,
     wg_parse = (\<lambda>s. case StdDecode s of None \<Rightarrow> None
                    | Some k \<Rightarrow> if length k = 32 then Some k else None)\<rparr>"

lemma toy_correct:
  "ed25519_correct toy_crypto" "sha256_length toy_crypto" "pem_correct toy_crypto" "wg_correct toy_crypto"
proof -
  have "token (StdEncode k)" if "length k = 32" for k :: bytes
    using that by (intro std_enc_token) auto
  then show "wg_correct toy_crypto"
    by (simp add: wg_correct_def toy_crypto_def StdDecode_StdEncode length_StdEncode min_def)
qed (auto simp: ed25519_correct_def sha256_length_def pem_correct_def toy_crypto_def toy_pub_def
    PublicKeySize_def min_def)

theorem public_key_forms_witness:
  "ParseEd25519PublicBase64 (Ed_String (replicate 32 1)) = Inr (replicate 32 1) \<and>
   length (Hash toy_crypto (replicate 32 1)) = 43"
  using public_key_forms [of "replicate 32 1" toy_crypto] toy_correct by (simp add: PublicKeySize_def)

end
