(* ===== verification/Netip.thy ===== *)
theory Netip
  imports GoStrings
begin

unbundle bit_operations_syntax

text \<open>
  The part of Go's \<open>net/netip\<close> that gsnet computes with: addresses, prefixes and address-port
  pairs, their parsers, containment and masking, and the textual forms.
\<close>

datatype addr = NoAddr | Addr4 "32 word" | Addr6 "128 word" string

record prefix =
  pfx_ip :: addr
  pfx_bits :: int     \<comment> \<open>-1 when invalid\<close>

record addr_port =
  ap_addr :: addr
  ap_port :: "16 word"

definition NoPrefix :: prefix where
  "NoPrefix = \<lparr>pfx_ip = NoAddr, pfx_bits = -1\<rparr>"

definition NoAddrPort :: addr_port where
  "NoAddrPort = \<lparr>ap_addr = NoAddr, ap_port = 0\<rparr>"

definition IsValid :: "addr \<Rightarrow> bool" where
  "IsValid a \<longleftrightarrow> a \<noteq> NoAddr"

fun BitLen :: "addr \<Rightarrow> int" where
  "BitLen NoAddr = 0"
| "BitLen (Addr4 _) = 32"
| "BitLen (Addr6 _ _) = 128"

fun withoutZone :: "addr \<Rightarrow> addr" where
  "withoutZone (Addr6 w _) = Addr6 w []"
| "withoutZone a = a"

fun zone_of :: "addr \<Rightarrow> string" where
  "zone_of (Addr6 _ z) = z"
| "zone_of _ = []"

definition Is4 :: "addr \<Rightarrow> bool" where
  "Is4 a = (case a of Addr4 _ \<Rightarrow> True | _ \<Rightarrow> False)"

definition Is6 :: "addr \<Rightarrow> bool" where
  "Is6 a = (case a of Addr6 _ _ \<Rightarrow> True | _ \<Rightarrow> False)"

definition PrefixFrom :: "addr \<Rightarrow> int \<Rightarrow> prefix" where
  "PrefixFrom ip bits =
     \<lparr>pfx_ip = withoutZone ip,
      pfx_bits = (if ip \<noteq> NoAddr \<and> 0 \<le> bits \<and> bits \<le> BitLen ip then bits else -1)\<rparr>"

definition prefix_valid :: "prefix \<Rightarrow> bool" where
  "prefix_valid p \<longleftrightarrow> 0 \<le> pfx_bits p"

definition low_bits :: "nat \<Rightarrow> nat \<Rightarrow> 'a::len word" where
  "low_bits len b = mask (len - b)"

definition Contains :: "prefix \<Rightarrow> addr \<Rightarrow> bool" where
  "Contains p ip =
     (if \<not> prefix_valid p \<or> zone_of ip \<noteq> [] then False
      else (case (pfx_ip p, ip) of
              (Addr4 x, Addr4 y) \<Rightarrow> (x XOR y) AND NOT (low_bits 32 (nat (pfx_bits p))) = 0
            | (Addr6 x _, Addr6 y _) \<Rightarrow> (x XOR y) AND NOT (low_bits 128 (nat (pfx_bits p))) = 0
            | _ \<Rightarrow> False))"

definition Masked :: "prefix \<Rightarrow> prefix" where
  "Masked p =
     (if pfx_bits p < 0 then NoPrefix
      else (case pfx_ip p of
              NoAddr \<Rightarrow> NoPrefix
            | Addr4 x \<Rightarrow> if 32 < pfx_bits p then NoPrefix
                         else PrefixFrom (Addr4 (x AND NOT (low_bits 32 (nat (pfx_bits p))))) (pfx_bits p)
            | Addr6 x z \<Rightarrow> if 128 < pfx_bits p then NoPrefix
                         else PrefixFrom (Addr6 (x AND NOT (low_bits 128 (nat (pfx_bits p)))) z) (pfx_bits p)))"

section \<open>Parsing\<close>

text \<open>One decimal field of a dotted quad: digits, no leading zero, at most 255.\<close>

definition parse_octet :: "string \<Rightarrow> nat option" where
  "parse_octet s =
     (if s = [] \<or> (hd s = CHR ''0'' \<and> length s > 1) then None
      else (case parse_digits 0 s of Some n \<Rightarrow> if n \<le> 255 then Some n else None | None \<Rightarrow> None))"

definition parseIPv4Fields :: "string \<Rightarrow> nat list option" where
  "parseIPv4Fields s =
     (let parts = map parse_octet (split_on (CHR ''.'') s)
      in if length parts = 4 \<and> None \<notin> set parts then Some (map the parts) else None)"

definition join_base :: "nat \<Rightarrow> nat list \<Rightarrow> nat" where
  "join_base b ds = fold (\<lambda>d acc. acc * b + d) ds 0"

definition AddrFrom4 :: "nat list \<Rightarrow> addr" where
  "AddrFrom4 fs = Addr4 (of_nat (join_base 256 fs))"

definition hex_val :: "char \<Rightarrow> nat option" where
  "hex_val c =
     (let n = (of_char c :: nat)
      in if 48 \<le> n \<and> n \<le> 57 then Some (n - 48)
         else if 97 \<le> n \<and> n \<le> 102 then Some (n - 87)
         else if 65 \<le> n \<and> n \<le> 70 then Some (n - 55)
         else None)"

definition is_hex :: "char \<Rightarrow> bool" where
  "is_hex c \<longleftrightarrow> hex_val c \<noteq> None"

text \<open>
  The loop of \<open>parseIPv6\<close>: the groups read so far and the position of the ellipsis, if any.
  It returns the unread rest with both.
\<close>

function parse6_loop ::
    "string \<Rightarrow> nat list \<Rightarrow> nat option \<Rightarrow> (string \<times> nat list \<times> nat option) option" where
  "parse6_loop s gs ell =
     (if 8 \<le> length gs then Some (s, gs, ell)
      else
        let hx = takeWhile is_hex s;
            rest = dropWhile is_hex s;
            gs' = gs @ [join_base 16 (map (the \<circ> hex_val) hx)]
        in if hx = [] \<or> length hx > 4 then None
           else (case rest of
                   [] \<Rightarrow> Some ([], gs', ell)
                 | c # r \<Rightarrow>
                     if c = CHR ''.'' then
                       (if (ell = None \<and> length gs \<noteq> 6) \<or> length gs > 6 then None
                        else (case parseIPv4Fields s of
                                Some [a, b, d, e] \<Rightarrow> Some ([], gs @ [a * 256 + b, d * 256 + e], ell)
                              | _ \<Rightarrow> None))
                     else if c \<noteq> CHR '':'' \<or> r = [] then None
                     else if hd r = CHR '':'' then
                       (if ell \<noteq> None then None
                        else if tl r = [] then Some ([], gs', Some (length gs'))
                        else parse6_loop (tl r) gs' (Some (length gs')))
                     else parse6_loop r gs' ell))"
  by pat_completeness auto
termination
proof (relation "measure (\<lambda>(s, gs, ell). length s)", goal_cases)
  case (2 s gs ell hx rest gs' c r)
  from 2(3) 2(6) have "length (c # r) \<le> length s" by (metis length_dropWhile_le)
  then show ?case by simp
next
  case (3 s gs ell hx rest gs' c r)
  from 3(3) 3(6) have "length (c # r) \<le> length s" by (metis length_dropWhile_le)
  then show ?case by simp
qed simp

declare parse6_loop.simps [simp del]

definition parseIPv6 :: "string \<Rightarrow> addr option" where
  "parseIPv6 s0 =
     (let (s, zone, bad) = (case cut_first (CHR ''%'') s0 of
                              Some (a, z) \<Rightarrow> (a, z, z = []) | None \<Rightarrow> (s0, [], False));
          ell = (if take 2 s = ''::'' then Some 0 else None);
          s = (if take 2 s = ''::'' then drop 2 s else s)
      in if bad then None
         else if ell = Some 0 \<and> s = [] then Some (Addr6 0 zone)
         else (case parse6_loop s [] ell of
                 None \<Rightarrow> None
               | Some (rest, gs, ell) \<Rightarrow>
                   if rest \<noteq> [] then None
                   else if length gs < 8 then
                     (case ell of
                        None \<Rightarrow> None
                      | Some i \<Rightarrow> Some (Addr6 (of_nat (join_base 65536
                            (take i gs @ replicate (8 - length gs) 0 @ drop i gs))) zone))
                   else if ell \<noteq> None then None
                   else Some (Addr6 (of_nat (join_base 65536 gs)) zone)))"

definition ParseAddr :: "string \<Rightarrow> addr option" where
  "ParseAddr s =
     (case dropWhile (\<lambda>c. c \<noteq> CHR ''.'' \<and> c \<noteq> CHR '':'' \<and> c \<noteq> CHR ''%'') s of
        [] \<Rightarrow> None
      | c # _ \<Rightarrow>
          if c = CHR ''.'' then map_option AddrFrom4 (parseIPv4Fields s)
          else if c = CHR '':'' then parseIPv6 s
          else None)"

definition ParsePrefix :: "string \<Rightarrow> prefix option" where
  "ParsePrefix s =
     (case cut_last (CHR ''/'') s of
        None \<Rightarrow> None
      | Some (a, bs) \<Rightarrow>
          (case ParseAddr a of
             None \<Rightarrow> None
           | Some ip \<Rightarrow>
               if zone_of ip \<noteq> [] then None
               else if length bs > 1 \<and> \<not> (is_digit (hd bs) \<and> hd bs \<noteq> CHR ''0'') then None
               else (case Atoi bs of
                       None \<Rightarrow> None
                     | Some bits \<Rightarrow>
                         if bits < 0 \<or> bits > (if Is6 ip then 128 else 32) then None
                         else Some (PrefixFrom ip bits))))"

definition parse_uint16 :: "string \<Rightarrow> 16 word option" where
  "parse_uint16 s =
     (if s = [] then None
      else (case parse_digits 0 s of
              Some n \<Rightarrow> if n < 65536 then Some (of_nat n) else None | None \<Rightarrow> None))"

definition ParseAddrPort :: "string \<Rightarrow> addr_port option" where
  "ParseAddrPort s =
     (case cut_last (CHR '':'') s of
        None \<Rightarrow> None
      | Some (h, port) \<Rightarrow>
          let br = (take 1 h = ''['');
              ip = (if br then butlast (tl h) else h)
          in if h = [] \<or> port = [] \<or> br \<and> (length h < 2 \<or> last h \<noteq> CHR '']'') then None
             else (case (parse_uint16 port, ParseAddr ip) of
                     (Some p, Some a) \<Rightarrow>
                       if br \<and> Is4 a \<or> \<not> br \<and> Is6 a then None
                       else Some \<lparr>ap_addr = a, ap_port = p\<rparr>
                   | _ \<Rightarrow> None))"

definition AddrPortFrom :: "addr \<Rightarrow> 16 word \<Rightarrow> addr_port" where
  "AddrPortFrom a p = \<lparr>ap_addr = a, ap_port = p\<rparr>"

section \<open>Printing\<close>

definition octets4 :: "32 word \<Rightarrow> nat list" where
  "octets4 w = (let n = unat w in [n div 16777216, n div 65536 mod 256, n div 256 mod 256, n mod 256])"

definition string4 :: "32 word \<Rightarrow> string" where
  "string4 w =
     (case map nat_str (octets4 w) of
        [a, b, c, d] \<Rightarrow> a @ ''.'' @ b @ ''.'' @ c @ ''.'' @ d | _ \<Rightarrow> [])"

definition groups6 :: "128 word \<Rightarrow> nat list" where
  "groups6 w = map (\<lambda>i. unat w div 65536 ^ (7 - i) mod 65536) [0..<8]"

definition hex_digit :: "nat \<Rightarrow> char" where
  "hex_digit d = (if d < 10 then char_of (48 + d) else char_of (87 + d))"

fun hex_str :: "nat \<Rightarrow> string" where
  "hex_str n = (if n < 16 then [hex_digit n] else hex_str (n div 16) @ [hex_digit (n mod 16)])"

declare hex_str.simps [simp del]

text \<open>The longest run of at least two zero groups, the first one among equals: its start and end.\<close>

definition zero_run :: "nat list \<Rightarrow> nat \<Rightarrow> nat" where
  "zero_run gs i = length (takeWhile (\<lambda>g. g = 0) (drop i gs))"

fun best_run :: "nat list \<Rightarrow> nat list \<Rightarrow> nat \<times> nat \<Rightarrow> nat \<times> nat" where
  "best_run gs [] best = best"
| "best_run gs (i # is) (start, len) =
     (if zero_run gs i \<ge> 2 \<and> zero_run gs i > len then best_run gs is (i, zero_run gs i)
      else best_run gs is (start, len))"

fun join_colon :: "string list \<Rightarrow> string" where
  "join_colon [] = []"
| "join_colon [g] = g"
| "join_colon (g # gs) = g @ '':'' @ join_colon gs"

definition string6 :: "128 word \<Rightarrow> string" where
  "string6 w =
     (let gs = groups6 w;
          (start, len) = best_run gs [0..<8] (0, 0);
          hs = map hex_str gs
      in if take 6 gs = [0, 0, 0, 0, 0, 65535] then
           ''::ffff:'' @ string4 (of_nat (unat w mod 4294967296))
         else if len = 0 then join_colon hs
         else join_colon (take start hs) @ ''::'' @ join_colon (drop (start + len) hs))"

fun addr_String :: "addr \<Rightarrow> string" where
  "addr_String NoAddr = ''invalid IP''"
| "addr_String (Addr4 w) = string4 w"
| "addr_String (Addr6 w z) = string6 w @ (if z = [] then [] else ''%'' @ z)"

definition prefix_String :: "prefix \<Rightarrow> string" where
  "prefix_String p =
     (if \<not> prefix_valid p then ''invalid Prefix''
      else addr_String (pfx_ip p) @ ''/'' @ Itoa (pfx_bits p))"

definition addr_port_String :: "addr_port \<Rightarrow> string" where
  "addr_port_String ap =
     (case ap_addr ap of
        NoAddr \<Rightarrow> ''invalid AddrPort''
      | Addr4 w \<Rightarrow> string4 w @ '':'' @ nat_str (unat (ap_port ap))
      | Addr6 w z \<Rightarrow> ''['' @ addr_String (Addr6 w z) @ '']:'' @ nat_str (unat (ap_port ap)))"

text \<open>\<open>AsSlice\<close>: the address bytes.\<close>

fun AsSlice :: "addr \<Rightarrow> bytes" where
  "AsSlice NoAddr = []"
| "AsSlice (Addr4 w) = map of_nat (octets4 w)"
| "AsSlice (Addr6 w _) = concat (map (\<lambda>g. [of_nat (g div 256), of_nat (g mod 256)]) (groups6 w))"

section \<open>Prefixes\<close>

lemma low_bits_full [simp]: "low_bits n n = 0"
  by (simp add: low_bits_def)

lemma xor_eq_0_iff_word: "x XOR y = 0 \<longleftrightarrow> x = y" for x y :: "'a::len word"
  by (metis xor.assoc xor.left_neutral xor.right_neutral xor_self_eq)

lemma host_prefix_Contains:
  "IsValid a \<Longrightarrow> Contains (PrefixFrom a (BitLen a)) b \<longleftrightarrow> zone_of b = [] \<and> b = withoutZone a"
  by (cases a; cases b)
    (auto simp: Contains_def PrefixFrom_def prefix_valid_def IsValid_def xor_eq_0_iff_word)

lemma PrefixFrom_valid [simp]:
  "IsValid a \<Longrightarrow> prefix_valid (PrefixFrom a (BitLen a))"
  by (cases a) (auto simp: PrefixFrom_def prefix_valid_def IsValid_def)

lemma Masked_host: "IsValid a \<Longrightarrow> Masked (PrefixFrom a (BitLen a)) = PrefixFrom a (BitLen a)"
  by (cases a) (auto simp: Masked_def PrefixFrom_def IsValid_def)

lemma ParseAddr_valid: "ParseAddr s = Some a \<Longrightarrow> IsValid a"
  by (auto simp: ParseAddr_def parseIPv6_def AddrFrom4_def IsValid_def Let_def
      split: list.splits if_splits option.splits prod.splits)

lemma ParseAddr_not_NoAddr [simp]: "ParseAddr s \<noteq> Some NoAddr"
  using ParseAddr_valid [of s NoAddr] by (auto simp: IsValid_def)

lemma ParsePrefix_wf:
  assumes "ParsePrefix s = Some p"
  shows "prefix_valid p \<and> IsValid (pfx_ip p) \<and> zone_of (pfx_ip p) = [] \<and> pfx_bits p \<le> BitLen (pfx_ip p)"
  using assms
  by (auto simp: ParsePrefix_def PrefixFrom_def prefix_valid_def Is6_def IsValid_def
      split: option.splits if_splits addr.splits)

section \<open>Dotted quads survive printing and parsing\<close>

lemma split_on_append: "c \<notin> set a \<Longrightarrow> split_on c (a @ c # b) = a # split_on c b"
  by (induction a) auto

lemma split_on_none: "c \<notin> set a \<Longrightarrow> split_on c a = [a]"
  by (induction a) auto

lemma parse_octet_nat_str: "n \<le> 255 \<Longrightarrow> parse_octet (nat_str n) = Some n"
  using nat_str_hd_zero [of n]
  by (auto simp: parse_octet_def parse_digits_nat_str nat_str.simps [of 0])

lemma dot_nat_str: "CHR ''.'' \<notin> set (nat_str n)" "CHR '':'' \<notin> set (nat_str n)"
  "CHR ''/'' \<notin> set (nat_str n)" "CHR ''%'' \<notin> set (nat_str n)" "CHR ''['' \<notin> set (nat_str n)"
  using nat_str_digits by (fastforce simp: is_digit_def)+

lemma word32_lt: "unat (w :: 32 word) < 4294967296"
proof -
  have "unat w < 2 ^ LENGTH(32)" by (rule unsigned_less)
  then show ?thesis by simp
qed

lemma octets4_le: "\<forall>n \<in> set (octets4 w). n \<le> 255"
  using word32_lt [of w] by (auto simp: octets4_def Let_def) 

lemma join_octets4: "join_base 256 (octets4 w) = unat w"
proof -
  define n where "n = unat w"
  have "n div 16777216 * 256 + n div 65536 mod 256 = n div 65536"
    using div_mult_mod_eq [of "n div 65536" 256] by (simp add: div_mult2_eq [symmetric])
  moreover have "n div 65536 * 256 + n div 256 mod 256 = n div 256"
    using div_mult_mod_eq [of "n div 256" 256] by (simp add: div_mult2_eq [symmetric])
  moreover have "n div 256 * 256 + n mod 256 = n" by simp
  ultimately show ?thesis by (simp add: join_base_def octets4_def n_def [symmetric] Let_def)
qed

lemma parse4_string4: "parseIPv4Fields (string4 w) = Some (octets4 w)"
  using octets4_le [of w]
  by (simp add: parseIPv4Fields_def string4_def octets4_def Let_def split_on_append split_on_none
      dot_nat_str parse_octet_nat_str)

lemma string4_first: "dropWhile (\<lambda>c. c \<noteq> CHR ''.'' \<and> c \<noteq> CHR '':'' \<and> c \<noteq> CHR ''%'') (string4 w) =
    CHR ''.'' # tl (dropWhile (\<lambda>c. c \<noteq> CHR ''.'') (string4 w))"
proof -
  have *: "dropWhile P (nat_str n @ CHR ''.'' # t) = CHR ''.'' # t"
    if "\<And>c. is_digit c \<Longrightarrow> P c" "\<not> P (CHR ''.'')" for P n t
    using that nat_str_digits [of _ n] by (simp add: dropWhile_append)
  show ?thesis
    by (simp add: string4_def octets4_def Let_def)
      (subst (1 2) *; auto simp: is_digit_def)
qed

lemma ParseAddr_string4: "ParseAddr (string4 w) = Some (Addr4 w)"
  by (simp add: ParseAddr_def string4_first parse4_string4 AddrFrom4_def join_octets4)

lemma string4_chars: "c \<in> set (string4 w) \<Longrightarrow> is_digit c \<or> c = CHR ''.''"
  using nat_str_digits by (auto simp: string4_def octets4_def Let_def)

lemma parse_uint16_nat_str: "parse_uint16 (nat_str (unat p)) = Some p"
proof -
  have "unat p < 2 ^ LENGTH(16)" by (rule unsigned_less)
  then show ?thesis by (simp add: parse_uint16_def parse_digits_nat_str)
qed

lemma string4_nonempty [simp]: "string4 w \<noteq> []"
  by (simp add: string4_def octets4_def Let_def)

lemma string4_no_bracket: "take (Suc 0) (string4 w) \<noteq> ''[''"
proof
  assume "take (Suc 0) (string4 w) = ''[''"
  then have "CHR ''['' \<in> set (string4 w)" by (metis in_set_takeD list.set_intros(1))
  then show False using string4_chars [of "CHR ''[''" w] by (simp add: is_digit_def)
qed

text \<open>An IPv4 endpoint that a node prints into its Hello is the one its peers read back.\<close>

lemma ParseAddrPort_String4:
  "ap_addr ap = Addr4 w \<Longrightarrow> ParseAddrPort (addr_port_String ap) = Some ap"
  by (cases ap) (simp add: ParseAddrPort_def addr_port_String_def dot_nat_str string4_no_bracket
      parse_uint16_nat_str ParseAddr_string4 Is6_def)

lemma ParsePrefix_String4:
  assumes "pfx_ip p = Addr4 w" "0 \<le> pfx_bits p" "pfx_bits p \<le> 32"
  shows "ParsePrefix (prefix_String p) = Some p"
proof -
  define b where "b = nat (pfx_bits p)"
  have b: "pfx_bits p = int b" "b \<le> 32" using assms by (auto simp: b_def)
  have hd: "length (nat_str b) > 1 \<longrightarrow> is_digit (hd (nat_str b)) \<and> hd (nat_str b) \<noteq> CHR ''0''"
    using nat_str_hd_zero [of b] nat_str_digits [of "hd (nat_str b)" b] by (auto simp: nat_str.simps [of 0])
  show ?thesis
    using assms(1) b hd
    by (cases p) (auto simp: ParsePrefix_def prefix_String_def prefix_valid_def Itoa_def dot_nat_str
        ParseAddr_string4 Atoi_nat_str PrefixFrom_def Is6_def)
qed

interpretation ap4: codec addr_port_String ParseAddrPort "\<lambda>ap. Is4 (ap_addr ap)"
  by unfold_locales (auto simp: Is4_def ParseAddrPort_String4 split: addr.splits)

end
