(* ===== verification/Json.thy ===== *)
theory Json
  imports Base64
begin

text \<open>
  The part of \<open>encoding/json\<close> gsnet uses: \<open>json.Marshal\<close> and \<open>json.Unmarshal\<close> for flat structs of
  strings, integers, byte slices and raw messages. A document is checked against the JSON grammar
  first (with Go's nesting limit); an object is then its list of keys and raw values, in document
  order, so that a repeated key is stored twice and the last one wins, and a struct field is
  chosen by its exact name before its case-folded one.

  The recursive-descent scanner takes fuel. Every recursive call consumes a character, and
  \<open>scan_fuel_all\<close> shows that twice the length of the input is always enough: more fuel never changes the result.
\<close>

definition QT :: char where "QT = CHR 0x22"
definition BS :: char where "BS = CHR 0x5C"

definition is_jws :: "char \<Rightarrow> bool" where
  "is_jws c \<longleftrightarrow> c = SP \<or> c = CHR 0x09 \<or> c = NL \<or> c = CR"

definition jskip :: "string \<Rightarrow> string" where
  "jskip s = dropWhile is_jws s"

definition hexd :: "nat \<Rightarrow> char" where
  "hexd d = (if d < 10 then char_of (48 + d) else char_of (87 + d))"

definition hexv :: "char \<Rightarrow> nat option" where
  "hexv c =
     (let n = (of_char c :: nat)
      in if 48 \<le> n \<and> n \<le> 57 then Some (n - 48)
         else if 97 \<le> n \<and> n \<le> 102 then Some (n - 87)
         else if 65 \<le> n \<and> n \<le> 70 then Some (n - 55)
         else None)"

section \<open>Encoding\<close>

definition esc_char :: "char \<Rightarrow> string" where
  "esc_char c =
     (let n = (of_char c :: nat)
      in if c = QT \<or> c = BS then [BS, c]
         else if n = 8 then [BS, CHR ''b'']
         else if n = 12 then [BS, CHR ''f'']
         else if n = 10 then [BS, CHR ''n'']
         else if n = 13 then [BS, CHR ''r'']
         else if n = 9 then [BS, CHR ''t'']
         else if n < 32 \<or> c = CHR ''<'' \<or> c = CHR ''>'' \<or> c = CHR ''&'' then
           [BS, CHR ''u'', CHR ''0'', CHR ''0'', hexd (n div 16), hexd (n mod 16)]
         else [c])"

text \<open>\<open>appendString\<close> with HTML escaping: an invalid byte becomes the escape of U+FFFD.\<close>

fun json_escape :: "string \<Rightarrow> string" where
  "json_escape [] = []"
| "json_escape (c # s) =
     (if ascii c then esc_char c @ json_escape s
      else if rune_width (c # s) = 1 then [BS, CHR ''u'', CHR ''f'', CHR ''f'', CHR ''f'', CHR ''d''] @ json_escape s
      else if take 3 (c # s) = [CHR 0xE2, CHR 0x80, CHR 0xA8] then
        [BS, CHR ''u'', CHR ''2'', CHR ''0'', CHR ''2'', CHR ''8''] @ json_escape (drop 2 s)
      else if take 3 (c # s) = [CHR 0xE2, CHR 0x80, CHR 0xA9] then
        [BS, CHR ''u'', CHR ''2'', CHR ''0'', CHR ''2'', CHR ''9''] @ json_escape (drop 2 s)
      else c # take (rune_width (c # s) - 1) s @ json_escape (drop (rune_width (c # s) - 1) s))"

definition json_quote :: "string \<Rightarrow> string" where
  "json_quote s = QT # json_escape s @ [QT]"

fun json_pairs :: "(string \<times> string) list \<Rightarrow> string" where
  "json_pairs [] = []"
| "json_pairs [(k, v)] = json_quote k @ '':'' @ v"
| "json_pairs ((k, v) # kvs) = json_quote k @ '':'' @ v @ '','' @ json_pairs kvs"

definition json_obj :: "(string \<times> string) list \<Rightarrow> string" where
  "json_obj kvs = ''{'' @ json_pairs kvs @ ''}''"

text \<open>A \<open>[]byte\<close> is base64 text; the nil slice, here the empty list, is \<open>null\<close>.\<close>

definition json_bytes :: "bytes \<Rightarrow> string" where
  "json_bytes b = (if b = [] then ''null'' else json_quote (StdEncode b))"

section \<open>Scanning\<close>

fun scan_str :: "string \<Rightarrow> string option" where
  "scan_str [] = None"
| "scan_str (c # s) =
     (if c = QT then Some s
      else if c = BS then
        (case s of
           [] \<Rightarrow> None
         | e # s1 \<Rightarrow>
             if e = QT \<or> e = BS \<or> e \<in> set ''/bfnrt'' then scan_str s1
             else if e = CHR ''u'' then
               (case s1 of
                  h1 # h2 # h3 # h4 # s2 \<Rightarrow>
                    if hexv h1 \<noteq> None \<and> hexv h2 \<noteq> None \<and> hexv h3 \<noteq> None \<and> hexv h4 \<noteq> None
                    then scan_str s2 else None
                | _ \<Rightarrow> None)
             else None)
      else if (of_char c :: nat) < 32 then None
      else scan_str s)"

definition scan_digits :: "string \<Rightarrow> string option" where
  "scan_digits s = (if takeWhile is_digit s = [] then None else Some (dropWhile is_digit s))"

definition scan_frac :: "string \<Rightarrow> string option" where
  "scan_frac s = (case s of c # r \<Rightarrow> if c = CHR ''.'' then scan_digits r else Some s | [] \<Rightarrow> Some [])"

definition scan_exp :: "string \<Rightarrow> string option" where
  "scan_exp s =
     (case s of
        c # r \<Rightarrow> if c = CHR ''e'' \<or> c = CHR ''E'' then
                   scan_digits (case r of d # r' \<Rightarrow> if d = CHR ''+'' \<or> d = CHR ''-'' then r' else r | [] \<Rightarrow> [])
                 else Some s
      | [] \<Rightarrow> Some [])"

definition scan_num :: "string \<Rightarrow> string option" where
  "scan_num s =
     (let s1 = (if take 1 s = ''-'' then drop 1 s else s);
          r = (if take 1 s1 = ''0'' then Some (drop 1 s1) else scan_digits s1)
      in case r of
           None \<Rightarrow> None
         | Some r1 \<Rightarrow> (case scan_frac r1 of None \<Rightarrow> None | Some r2 \<Rightarrow> scan_exp r2))"

definition scan_atom :: "string \<Rightarrow> string option" where
  "scan_atom s =
     (if take 4 s = ''true'' \<or> take 4 s = ''null'' then Some (drop 4 s)
      else if take 5 s = ''false'' then Some (drop 5 s)
      else scan_num s)"

definition consumed :: "string \<Rightarrow> string \<Rightarrow> string" where
  "consumed s rest = take (length s - length rest) s"

text \<open>
  A value is scanned to the text behind it; \<open>members\<close> and \<open>elems\<close> also return what they read:
  the unquoted bodies of the keys with the raw values, and the raw elements.
\<close>

fun scan_value :: "nat \<Rightarrow> nat \<Rightarrow> string \<Rightarrow> string option"
  and scan_members :: "nat \<Rightarrow> nat \<Rightarrow> string \<Rightarrow> ((string \<times> string) list \<times> string) option"
  and scan_elems :: "nat \<Rightarrow> nat \<Rightarrow> string \<Rightarrow> (string list \<times> string) option" where
  "scan_value 0 d s = None"
| "scan_value (Suc n) d s =
     (case s of
        [] \<Rightarrow> None
      | c # r \<Rightarrow>
          if c = QT then scan_str r
          else if c = CHR ''{'' then
            (if d = 0 then None
             else if take 1 (jskip r) = ''}'' then Some (drop 1 (jskip r))
             else map_option snd (scan_members n (d - 1) (jskip r)))
          else if c = CHR ''['' then
            (if d = 0 then None
             else if take 1 (jskip r) = '']'' then Some (drop 1 (jskip r))
             else map_option snd (scan_elems n (d - 1) (jskip r)))
          else scan_atom s)"
| "scan_members 0 d s = None"
| "scan_members (Suc n) d s =
     (case s of
        [] \<Rightarrow> None
      | q # r \<Rightarrow>
          if q \<noteq> QT then None
          else (case scan_str r of
                  None \<Rightarrow> None
                | Some r1 \<Rightarrow>
                    let key = butlast (consumed r r1)
                    in case jskip r1 of
                         [] \<Rightarrow> None
                       | c # r2 \<Rightarrow>
                           if c \<noteq> CHR '':'' then None
                           else (case scan_value n d (jskip r2) of
                                   None \<Rightarrow> None
                                 | Some r3 \<Rightarrow>
                                     let val = consumed (jskip r2) r3
                                     in case jskip r3 of
                                          [] \<Rightarrow> None
                                        | e # r4 \<Rightarrow>
                                            if e = CHR ''}'' then Some ([(key, val)], r4)
                                            else if e = CHR '','' then
                                              map_option (\<lambda>(kvs, r5). ((key, val) # kvs, r5))
                                                (scan_members n d (jskip r4))
                                            else None)))"
| "scan_elems 0 d s = None"
| "scan_elems (Suc n) d s =
     (case scan_value n d s of
        None \<Rightarrow> None
      | Some r3 \<Rightarrow>
          let val = consumed s r3
          in case jskip r3 of
               [] \<Rightarrow> None
             | e # r4 \<Rightarrow>
                 if e = CHR '']'' then Some ([val], r4)
                 else if e = CHR '','' then
                   map_option (\<lambda>(vs, r5). (val # vs, r5)) (scan_elems n d (jskip r4))
                 else None)"

definition maxNestingDepth :: nat where
  "maxNestingDepth = 10000"

definition json_valid :: "string \<Rightarrow> bool" where
  "json_valid s =
     (case scan_value (Suc (2 * length s)) maxNestingDepth (jskip s) of
        None \<Rightarrow> False | Some r \<Rightarrow> jskip r = [])"

section \<open>Decoding\<close>

definition utf8 :: "nat \<Rightarrow> string" where
  "utf8 r =
     (if r < 0x80 then [char_of r]
      else if r < 0x800 then [char_of (0xC0 + r div 64), char_of (0x80 + r mod 64)]
      else if r < 0x10000 then
        [char_of (0xE0 + r div 4096), char_of (0x80 + r div 64 mod 64), char_of (0x80 + r mod 64)]
      else [char_of (0xF0 + r div 262144), char_of (0x80 + r div 4096 mod 64),
            char_of (0x80 + r div 64 mod 64), char_of (0x80 + r mod 64)])"

definition getu4 :: "string \<Rightarrow> nat" where
  "getu4 s = fold (\<lambda>c acc. acc * 16 + (case hexv c of Some v \<Rightarrow> v | None \<Rightarrow> 0)) (take 4 s) 0"

definition unesc :: "char \<Rightarrow> char" where
  "unesc e =
     (if e = CHR ''b'' then CHR 0x08 else if e = CHR ''f'' then CHR 0x0C
      else if e = CHR ''n'' then NL else if e = CHR ''r'' then CR
      else if e = CHR ''t'' then CHR 0x09 else e)"

text \<open>The body of a scanned string literal, decoded: escapes, surrogate pairs, invalid UTF-8.\<close>

fun unquote :: "string \<Rightarrow> string" where
  "unquote [] = []"
| "unquote (c # s) =
     (if c = BS then
        (case s of
           [] \<Rightarrow> []
         | e # s1 \<Rightarrow>
             if e = CHR ''u'' then
               (let r = getu4 s1; s2 = drop 4 s1
                in if 0xD800 \<le> r \<and> r < 0xE000 then
                     (if r < 0xDC00 \<and> take 2 s2 = [BS, CHR ''u''] \<and>
                         0xDC00 \<le> getu4 (drop 2 s2) \<and> getu4 (drop 2 s2) < 0xE000
                      then utf8 (0x10000 + (r - 0xD800) * 1024 + (getu4 (drop 2 s2) - 0xDC00)) @
                             unquote (drop 6 s2)
                      else utf8 0xFFFD @ unquote s2)
                   else utf8 r @ unquote s2)
             else unesc e # unquote s1)
      else if ascii c then c # unquote s
      else if rune_width (c # s) = 1 then utf8 0xFFFD @ unquote s
      else c # take (rune_width (c # s) - 1) s @ unquote (drop (rune_width (c # s) - 1) s))"

text \<open>The members of the object a document holds (\<open>null\<close> sets nothing); any other value is a type error.\<close>

definition json_fields :: "string \<Rightarrow> (string \<times> string) list option" where
  "json_fields s =
     (let v = jskip s
      in if \<not> json_valid s then None
         else if take 4 v = ''null'' then Some []
         else if take 1 v \<noteq> ''{'' then None
         else if take 1 (jskip (drop 1 v)) = ''}'' then Some []
         else map_option (map (map_prod unquote id) \<circ> fst)
                (scan_members (2 * length s) (maxNestingDepth - 1) (jskip (drop 1 v))))"

type_synonym 'a setter = "string \<Rightarrow> 'a \<Rightarrow> 'a option"

definition find_setter :: "(string \<times> 'a setter) list \<Rightarrow> string \<Rightarrow> 'a setter option" where
  "find_setter fs k =
     (case map_of fs k of
        Some f \<Rightarrow> Some f
      | None \<Rightarrow> map_option snd (find (\<lambda>(n, f). EqualFold n k) fs))"

fun set_fields :: "(string \<times> 'a setter) list \<Rightarrow> (string \<times> string) list \<Rightarrow> 'a \<Rightarrow> 'a option" where
  "set_fields fs [] x = Some x"
| "set_fields fs ((k, raw) # kvs) x =
     (case find_setter fs k of
        None \<Rightarrow> set_fields fs kvs x
      | Some f \<Rightarrow> (case f raw x of None \<Rightarrow> None | Some y \<Rightarrow> set_fields fs kvs y))"

definition Unmarshal :: "(string \<times> 'a setter) list \<Rightarrow> 'a \<Rightarrow> string \<Rightarrow> 'a option" where
  "Unmarshal fs zero s = (case json_fields s of None \<Rightarrow> None | Some kvs \<Rightarrow> set_fields fs kvs zero)"

definition str_body :: "string \<Rightarrow> string option" where
  "str_body raw = (if take 1 raw = [QT] then Some (unquote (butlast (drop 1 raw))) else None)"

definition set_string :: "(string \<Rightarrow> 'a \<Rightarrow> 'a) \<Rightarrow> 'a setter" where
  "set_string upd raw x =
     (if raw = ''null'' then Some x else map_option (\<lambda>s. upd s x) (str_body raw))"

definition set_int :: "(int \<Rightarrow> 'a \<Rightarrow> 'a) \<Rightarrow> 'a setter" where
  "set_int upd raw x =
     (if raw = ''null'' then Some x
      else if take 1 raw = ''-'' \<or> takeWhile is_digit raw \<noteq> [] then map_option (\<lambda>v. upd v x) (Atoi raw)
      else None)"

definition elem_byte :: "string \<Rightarrow> byte option" where
  "elem_byte raw =
     (if raw = ''null'' then Some 0
      else (case parse_digits 0 raw of Some n \<Rightarrow> if raw \<noteq> [] \<and> n < 256 then Some (of_nat n) else None
              | None \<Rightarrow> None))"

definition array_bytes :: "string \<Rightarrow> bytes option" where
  "array_bytes raw =
     (if take 1 (jskip (drop 1 raw)) = '']'' then Some []
      else (case scan_elems (2 * length raw) maxNestingDepth (jskip (drop 1 raw)) of
              None \<Rightarrow> None
            | Some (vs, _) \<Rightarrow> if None \<in> set (map elem_byte vs) then None
                             else Some (map (the \<circ> elem_byte) vs)))"

definition set_bytes :: "(bytes \<Rightarrow> 'a \<Rightarrow> 'a) \<Rightarrow> 'a setter" where
  "set_bytes upd raw x =
     (if raw = ''null'' then Some (upd [] x)
      else if take 1 raw = ''['' then map_option (\<lambda>b. upd b x) (array_bytes raw)
      else (case str_body raw of
              None \<Rightarrow> None
            | Some s \<Rightarrow> map_option (\<lambda>b. upd b x) (StdDecode s)))"

definition set_raw :: "(string \<Rightarrow> 'a \<Rightarrow> 'a) \<Rightarrow> 'a setter" where
  "set_raw upd raw x = Some (upd raw x)"

text \<open>
  \<open>json.RawMessage\<close> inside a marshalled struct: checked and compacted, with HTML escaping.
  The first argument of \<open>compact\<close> says whether the position is inside a string literal.
\<close>

fun compact :: "bool \<Rightarrow> string \<Rightarrow> string" where
  "compact b [] = []"
| "compact False (c # s) = (if is_jws c then compact False s else c # compact (c = QT) s)"
| "compact True (c # s) =
     (if c = BS then (case s of [] \<Rightarrow> [c] | e # s1 \<Rightarrow> c # e # compact True s1)
      else if c = QT then c # compact False s
      else if c = CHR ''<'' \<or> c = CHR ''>'' \<or> c = CHR ''&'' then esc_char c @ compact True s
      else if take 3 (c # s) = [CHR 0xE2, CHR 0x80, CHR 0xA8] then
        [BS, CHR ''u'', CHR ''2'', CHR ''0'', CHR ''2'', CHR ''8''] @ compact True (drop 2 s)
      else if take 3 (c # s) = [CHR 0xE2, CHR 0x80, CHR 0xA9] then
        [BS, CHR ''u'', CHR ''2'', CHR ''0'', CHR ''2'', CHR ''9''] @ compact True (drop 2 s)
      else c # compact True s)"

definition json_raw :: "string \<Rightarrow> string option" where
  "json_raw p = (if p = [] then Some ''null'' else if json_valid p then Some (compact False p) else None)"

section \<open>The scanner consumes input\<close>

lemma jskip_length: "length (jskip s) \<le> length s"
  by (simp add: jskip_def length_dropWhile_le)

lemma scan_str_shorter: "scan_str s = Some r \<Longrightarrow> length r < length s"
proof (induction s rule: length_induct)
  case (1 s)
  have IH: "scan_str t = Some r \<Longrightarrow> length t < length s \<Longrightarrow> length r < length s" for t
    using 1(1) by fastforce
  show ?case
    using 1(2) IH by (cases s) (auto split: if_splits list.splits)
qed

lemma scan_digits_shorter: "scan_digits s = Some r \<Longrightarrow> length r < length s"
proof -
  assume "scan_digits s = Some r"
  then have "takeWhile is_digit s \<noteq> []" "r = dropWhile is_digit s"
    by (auto simp: scan_digits_def split: if_splits)
  then show ?thesis using takeWhile_dropWhile_id [of is_digit s]
    by (metis add_cancel_left_left add_diff_cancel_right' length_append length_greater_0_conv
        less_add_same_cancel2)
qed

lemma scan_frac_shorter: "scan_frac s = Some r \<Longrightarrow> length r \<le> length s"
  by (auto simp: scan_frac_def split: list.splits if_splits dest: scan_digits_shorter)

lemma scan_exp_shorter: "scan_exp s = Some r \<Longrightarrow> length r \<le> length s"
  by (auto simp: scan_exp_def split: list.splits if_splits dest!: scan_digits_shorter)

lemma scan_num_shorter: "scan_num s = Some r \<Longrightarrow> length r < length s"
proof -
  assume *: "scan_num s = Some r"
  define s1 where "s1 = (if take 1 s = ''-'' then drop 1 s else s)"
  from * obtain r1 r2 where r1: "(if take 1 s1 = ''0'' then Some (drop 1 s1) else scan_digits s1) = Some r1"
    and r2: "scan_frac r1 = Some r2" "scan_exp r2 = Some r"
    unfolding scan_num_def Let_def s1_def [symmetric] by (auto split: option.splits)
  have "length r1 < length s1"
    using r1 by (cases s1) (auto split: if_splits dest: scan_digits_shorter)
  moreover have "length s1 \<le> length s" by (simp add: s1_def)
  ultimately show ?thesis using scan_frac_shorter [OF r2(1)] scan_exp_shorter [OF r2(2)] by simp
qed

lemma scan_atom_shorter: "scan_atom s = Some r \<Longrightarrow> length r < length s"
  by (cases s) (auto simp: scan_atom_def split: if_splits dest: scan_num_shorter)

lemma jskip_Cons_length: "jskip s = c # r \<Longrightarrow> length r < length s"
  using jskip_length [of s] by simp

lemma drop1_jskip_length: "length (drop 1 (jskip r)) \<le> length r"
  using jskip_length [of r] by simp

lemma scan_value_cases:
  assumes "scan_value (Suc n) d s = Some r"
  obtains (str) t where "s = QT # t" "scan_str t = Some r"
    | (empty) c t where "s = c # t" "r = drop 1 (jskip t)"
    | (obj) c t kvs where "s = c # t" "scan_members n (d - 1) (jskip t) = Some (kvs, r)"
    | (arr) c t vs where "s = c # t" "scan_elems n (d - 1) (jskip t) = Some (vs, r)"
    | (atom) "scan_atom s = Some r"
  using assms by (auto split: list.splits if_splits)

lemma scan_members_cases:
  assumes "scan_members (Suc n) d s = Some (kvs, r)"
  obtains t r1 r2 r3 e r4 where "s = QT # t" "scan_str t = Some r1" "jskip r1 = CHR '':'' # r2"
    "scan_value n d (jskip r2) = Some r3" "jskip r3 = e # r4"
    "e = CHR ''}'' \<and> r = r4 \<or> e = CHR '','' \<and> (\<exists>kvs'. scan_members n d (jskip r4) = Some (kvs', r))"
  using assms by (auto simp: Let_def split: list.splits if_splits option.splits)

lemma scan_elems_cases:
  assumes "scan_elems (Suc n) d s = Some (vs, r)"
  obtains r3 e r4 where "scan_value n d s = Some r3" "jskip r3 = e # r4"
    "e = CHR '']'' \<and> r = r4 \<or> e = CHR '','' \<and> (\<exists>vs'. scan_elems n d (jskip r4) = Some (vs', r))"
  using assms by (auto simp: Let_def split: list.splits if_splits option.splits)

lemma scan_shorter_all:
  "(\<forall>d s r. scan_value n d s = Some r \<longrightarrow> length r < length s) \<and>
   (\<forall>d s kvs r. scan_members n d s = Some (kvs, r) \<longrightarrow> length r < length s) \<and>
   (\<forall>d s vs r. scan_elems n d s = Some (vs, r) \<longrightarrow> length r < length s)"
proof (induction n)
  case (Suc n)
  have "length r < length s" if "scan_value (Suc n) d s = Some r" for d s r
    using that
  proof (cases rule: scan_value_cases)
    case (str t) then show ?thesis using scan_str_shorter by fastforce
  next
    case (empty c t) then show ?thesis using drop1_jskip_length [of t] by simp
  next
    case (obj c t kvs)
    then have "length r < length (jskip t)" using Suc by blast
    then show ?thesis using obj jskip_length [of t] by simp
  next
    case (arr c t kvs)
    then have "length r < length (jskip t)" using Suc by blast
    then show ?thesis using arr jskip_length [of t] by simp
  next
    case atom then show ?thesis by (rule scan_atom_shorter)
  qed
  moreover have "length r < length s" if "scan_members (Suc n) d s = Some (kvs, r)" for d s kvs r
    using that
  proof (cases rule: scan_members_cases)
    case (1 t r1 r2 r3 e r4)
    have "length r1 < length t" "length r2 < length r1" "length r3 < length (jskip r2)" "length r4 < length r3"
      using 1 Suc scan_str_shorter jskip_Cons_length by blast+
    moreover have "length r \<le> length r4" 
    proof -
      have "length r < length (jskip r4)" if "scan_members n d (jskip r4) = Some (x, r)" for x
        using that Suc by blast
      then show ?thesis using 1(6) jskip_length [of r4] by fastforce
    qed
    ultimately show ?thesis using 1(1) jskip_length [of r2] by simp
  qed
  moreover have "length r < length s" if "scan_elems (Suc n) d s = Some (vs, r)" for d s vs r
    using that
  proof (cases rule: scan_elems_cases)
    case (1 r3 e r4)
    have "length r3 < length s" "length r4 < length r3" using 1 Suc jskip_Cons_length by blast+
    moreover have "length r \<le> length r4" 
    proof -
      have "length r < length (jskip r4)" if "scan_elems n d (jskip r4) = Some (x, r)" for x
        using that Suc by blast
      then show ?thesis using 1(3) jskip_length [of r4] by fastforce
    qed
    ultimately show ?thesis by simp
  qed
  ultimately show ?case by blast
qed simp

lemmas scan_shorter = scan_shorter_all [THEN conjunct1, rule_format]

text \<open>Fuel beyond twice the length of the input does not change the result.\<close>

lemma scan_fuel_all:
  "(\<forall>d s. 2 * length s < n \<longrightarrow> scan_value (Suc n) d s = scan_value n d s) \<and>
   (\<forall>d s. 2 * length s < n \<longrightarrow> scan_members (Suc n) d s = scan_members n d s) \<and>
   (\<forall>d s. 2 * length s + 1 < n \<longrightarrow> scan_elems (Suc n) d s = scan_elems n d s)"
proof (induction n)
  case (Suc n)
  have v: "scan_value (Suc n) d s = scan_value n d s" if "2 * length s < n" for d s using Suc that by blast
  have m: "scan_members (Suc n) d s = scan_members n d s" if "2 * length s < n" for d s using Suc that by blast
  have e: "scan_elems (Suc n) d s = scan_elems n d s" if "2 * length s + 1 < n" for d s using Suc that by blast
  have "scan_value (Suc (Suc n)) d s = scan_value (Suc n) d s" if "2 * length s < Suc n" for d s
  proof (cases s)
    case (Cons c t)
    then have "2 * length (jskip t) + 1 < n" using that jskip_length [of t] by simp
    then show ?thesis using Cons by (simp add: m e del: scan_members.simps scan_elems.simps)
  qed simp
  moreover have "scan_members (Suc (Suc n)) d s = scan_members (Suc n) d s" if len: "2 * length s < Suc n" for d s
  proof -
    have "scan_value (Suc n) d (jskip r2) = scan_value n d (jskip r2)"
      if "s = q # t" "scan_str t = Some r1" "jskip r1 = c # r2" for q t r1 c r2
      using that len scan_str_shorter [of t r1] jskip_Cons_length [of r1 c r2] jskip_length [of r2]
      by (intro v) simp
    moreover have "scan_members (Suc n) d (jskip r4) = scan_members n d (jskip r4)"
      if "s = q # t" "scan_str t = Some r1" "jskip r1 = c # r2" "scan_value n d (jskip r2) = Some r3" "jskip r3 = e # r4"
      for q t r1 c r2 r3 e r4
      using that len scan_str_shorter [of t r1] jskip_Cons_length [of r1 c r2] jskip_length [of r2]
        scan_shorter [of n d "jskip r2" r3] jskip_Cons_length [of r3 e r4] jskip_length [of r4]
      by (intro m) simp
    ultimately show ?thesis
      by (simp only: scan_members.simps Let_def cong: option.case_cong list.case_cong if_cong)
  qed
  moreover have "scan_elems (Suc (Suc n)) d s = scan_elems (Suc n) d s" if len: "2 * length s + 1 < Suc n" for d s
  proof -
    have "scan_value (Suc n) d s = scan_value n d s" using len by (intro v) simp
    moreover have "scan_elems (Suc n) d (jskip r4) = scan_elems n d (jskip r4)"
      if "scan_value n d s = Some r3" "jskip r3 = c # r4" for r3 c r4
      using that len scan_shorter [of n d s r3] jskip_Cons_length [of r3 c r4] jskip_length [of r4]
      by (intro e) simp
    ultimately show ?thesis
      by (simp only: scan_elems.simps Let_def cong: option.case_cong list.case_cong if_cong)
  qed
  ultimately show ?case by blast
qed simp

section \<open>What the encoder writes, the decoder reads\<close>

lemma is_jws_simps [simp]: "\<not> is_jws QT" "\<not> is_jws (CHR ''{'')" "\<not> is_jws (CHR ''}'')"
  "\<not> is_jws (CHR '','')" "\<not> is_jws (CHR '':'')" "\<not> is_jws (CHR ''n'')" "\<not> is_jws (CHR ''-'')"
  by (simp_all add: is_jws_def QT_def SP_def NL_def CR_def)

lemma jskip_id [simp]: "\<not> is_jws c \<Longrightarrow> jskip (c # s) = c # s"
  by (simp add: jskip_def)

lemma jskip_Nil [simp]: "jskip [] = []"
  by (simp add: jskip_def)

lemma hexv_hexd: "d < 16 \<Longrightarrow> hexv (hexd d) = Some d"
  by (simp add: hexv_def hexd_def Let_def)

lemma QT_BS [simp]: "QT \<noteq> BS" "BS \<noteq> QT" "CHR ''u'' \<noteq> QT" "CHR ''u'' \<noteq> BS"
  "QT \<noteq> CHR ''{''" "CHR ''{'' \<noteq> QT" "QT \<noteq> CHR ''}''" "CHR ''}'' \<noteq> QT"
  by (simp_all add: QT_def BS_def)

lemma scan_esc_char: "scan_str (esc_char c @ r) = scan_str r"
proof -
  have n: "(of_char c :: nat) < 256" by (rule of_char_lt_256)
  have "(of_char c :: nat) div 16 < 16" using n by (simp add: div_less_iff_less_mult)
  then have "hexv (hexd ((of_char c :: nat) div 16)) \<noteq> None" "hexv (hexd ((of_char c :: nat) mod 16)) \<noteq> None"
    using n by (auto simp: hexv_hexd)
  moreover have "hexv (CHR ''0'') \<noteq> None" by (simp add: hexv_def)
  ultimately show ?thesis by (auto simp: esc_char_def Let_def)
qed

lemma scan_high: "\<not> ascii c \<Longrightarrow> scan_str (c # r) = scan_str r"
  by (auto simp: ascii_def QT_def BS_def)

lemma scan_high_list: "\<forall>c \<in> set a. \<not> ascii c \<Longrightarrow> scan_str (a @ r) = scan_str r"
  by (induction a) (simp_all add: scan_high del: scan_str.simps)

lemma rune_tail_high: "\<forall>d \<in> set (take (rune_width (c # s) - 1) s). \<not> ascii d"
proof -
  have "\<not> ascii d" if "cont d \<or> second_ok c d" for d
    using that by (auto simp: ascii_def in_range_def second_ok_def Let_def split: if_splits)
  then show ?thesis by (auto split: list.splits)
qed

lemma rune_width_prefix:
  "rune_width (c # s) \<noteq> 1 \<Longrightarrow> rune_width (c # take (rune_width (c # s) - 1) s @ t) = rune_width (c # s)"
  by (auto split: list.splits if_splits)

lemma scan_json_escape: "scan_str (json_escape s @ QT # r) = Some r"
proof (induction s rule: json_escape.induct)
  case (2 c s)
  have h: "hexv (CHR ''f'') \<noteq> None" "hexv (CHR ''d'') \<noteq> None" "hexv (CHR ''2'') \<noteq> None"
    "hexv (CHR ''0'') \<noteq> None" "hexv (CHR ''8'') \<noteq> None" "hexv (CHR ''9'') \<noteq> None"
    by (simp_all add: hexv_def)
  consider "ascii c" | "\<not> ascii c" "rune_width (c # s) = 1"
    | "\<not> ascii c" "rune_width (c # s) \<noteq> 1" "take 3 (c # s) = [CHR 0xE2, CHR 0x80, CHR 0xA8]"
    | "\<not> ascii c" "rune_width (c # s) \<noteq> 1" "take 3 (c # s) = [CHR 0xE2, CHR 0x80, CHR 0xA9]"
    | "\<not> ascii c" "rune_width (c # s) \<noteq> 1" "take 3 (c # s) \<noteq> [CHR 0xE2, CHR 0x80, CHR 0xA8]"
      "take 3 (c # s) \<noteq> [CHR 0xE2, CHR 0x80, CHR 0xA9]"
    by blast
  then show ?case
  proof cases
    case 1 then show ?thesis using 2(1) by (simp add: scan_esc_char del: rune_width.simps)
  next
    case 2 then show ?thesis using "2.IH"(2) h by (simp del: rune_width.simps)
  next
    case 3 then show ?thesis using "2.IH"(3) h by (simp del: rune_width.simps take_Suc_Cons)
  next
    case 4 then show ?thesis using "2.IH"(4) h by (simp del: rune_width.simps take_Suc_Cons)
  next
    case 5 then show ?thesis using "2.IH"(5) scan_high_list [OF rune_tail_high [of c s]]
      by (auto simp: scan_high simp del: rune_width.simps take_Suc_Cons scan_str.simps)
  qed
qed simp

text \<open>Valid UTF-8, the strings JSON can carry.\<close>

fun utf8_ok :: "string \<Rightarrow> bool" where
  "utf8_ok [] = True"
| "utf8_ok (c # s) =
     (if ascii c then utf8_ok s
      else rune_width (c # s) \<noteq> 1 \<and> utf8_ok (drop (rune_width (c # s) - 1) s))"

lemma utf8_ok_ascii: "list_all ascii s \<Longrightarrow> utf8_ok s"
  by (induction s) auto

lemma rune_width_append: "rune_width (c # s) \<noteq> 1 \<Longrightarrow> rune_width (c # s @ t) = rune_width (c # s)"
  by (auto split: list.splits if_splits)

lemma utf8_ok_append: "utf8_ok a \<Longrightarrow> utf8_ok b \<Longrightarrow> utf8_ok (a @ b)"
proof (induction a rule: utf8_ok.induct)
  case (2 c s)
  show ?case
  proof (cases "ascii c")
    case True with 2 show ?thesis by simp
  next
    case False
    with 2 have w: "rune_width (c # s) \<noteq> 1" by (simp del: rune_width.simps)
    have "utf8_ok (drop (rune_width (c # s) - 1) s @ b)" using 2 False by (simp del: rune_width.simps)
    moreover have "rune_width (c # s) - 1 \<le> length s" using rune_width_bounds [of "c # s"] by auto
    ultimately show ?thesis using False w rune_width_append [OF w, of b] by (simp del: rune_width.simps)
  qed
qed simp

lemma unquote_esc_char: "ascii c \<Longrightarrow> unquote (esc_char c @ r) = c # unquote r"
proof -
  assume c: "ascii c"
  define n where "n = (of_char c :: nat)"
  have n: "n < 128" using c by (simp add: ascii_def n_def)
  have cn: "c = char_of n" by (simp add: n_def)
  have "getu4 (CHR ''0'' # CHR ''0'' # hexd (n div 16) # hexd (n mod 16) # r) = n"
    using n by (simp add: getu4_def hexv_hexd) (simp add: hexv_def)
  moreover have "(of_char c :: nat) = of_char d \<Longrightarrow> d = c" for d by simp
  from this [of "CHR 0x08"] this [of "CHR 0x0C"] this [of NL] this [of CR] this [of "CHR 0x09"]
  have "n = 8 \<Longrightarrow> CHR 0x08 = c" "n = 12 \<Longrightarrow> CHR 0x0C = c" "n = 10 \<Longrightarrow> NL = c" "n = 13 \<Longrightarrow> CR = c"
    "n = 9 \<Longrightarrow> CHR 0x09 = c"
    by (simp_all add: n_def NL_def CR_def)
  moreover have "unesc QT = QT" "unesc BS = BS" by (simp_all add: unesc_def QT_def BS_def)
  moreover have "QT \<noteq> CHR ''u''" "BS \<noteq> CHR ''u''" by (simp_all add: QT_def BS_def)
  moreover have "utf8 n = [c]" using n by (simp add: utf8_def cn)
  ultimately show ?thesis
    using c n unfolding esc_char_def Let_def n_def [symmetric]
    by (auto simp: unesc_def Let_def)
qed

lemma utf8_sep: "utf8 0x2028 = [CHR 0xE2, CHR 0x80, CHR 0xA8]" "utf8 0x2029 = [CHR 0xE2, CHR 0x80, CHR 0xA9]"
  by (simp_all add: utf8_def char_of_def bit_Suc_0_iff)

lemma getu4_sep: "getu4 (CHR ''2'' # CHR ''0'' # CHR ''2'' # CHR ''8'' # r) = 0x2028"
  "getu4 (CHR ''2'' # CHR ''0'' # CHR ''2'' # CHR ''9'' # r) = 0x2029"
  by (simp_all add: getu4_def hexv_def)

lemma unquote_json_escape: "utf8_ok s \<Longrightarrow> unquote (json_escape s) = s"
proof (induction s rule: json_escape.induct)
  case (2 c s)
  have e: "s = take n s @ drop n s" for n by simp
  consider "ascii c" 
    | d where "\<not> ascii c" "rune_width (c # s) \<noteq> 1" "take 3 (c # s) = [CHR 0xE2, CHR 0x80, d]" "d = CHR 0xA8 \<or> d = CHR 0xA9"
    | "\<not> ascii c" "rune_width (c # s) \<noteq> 1" "take 3 (c # s) \<noteq> [CHR 0xE2, CHR 0x80, CHR 0xA8]"
      "take 3 (c # s) \<noteq> [CHR 0xE2, CHR 0x80, CHR 0xA9]"
    using 2(6) unfolding utf8_ok.simps(2) by metis
  then show ?case
  proof cases
    case 1 then show ?thesis using 2 by (simp add: unquote_esc_char del: rune_width.simps)
  next
    case (2 d)
    then obtain s' where s: "c = CHR 0xE2" "s = CHR 0x80 # d # s'"
      by (cases s; cases "tl s"; auto simp: numeral_3_eq_3)
    then have "rune_width (c # s) = 3" using 2 by (auto simp: in_range_def second_ok_def)
    moreover from this have "utf8_ok s'" using "2.prems" 2(1) s by (simp del: rune_width.simps)
    moreover have "json_escape (c # s) = [BS, CHR ''u'', CHR ''2'', CHR ''0'', CHR ''2'',
        if d = CHR 0xA8 then CHR ''8'' else CHR ''9''] @ json_escape s'"
      using s 2 calculation(1) by (auto simp del: rune_width.simps)
    moreover have "unquote (json_escape s') = s'"
      using "2.IH"(3, 4) 2(1,4) s calculation(1,2) by (auto simp del: rune_width.simps)
    ultimately show ?thesis
      using s 2(4) by (auto simp: getu4_sep utf8_sep simp del: rune_width.simps json_escape.simps)
  next
    case 3
    then have "unquote (json_escape (drop (rune_width (c # s) - 1) s)) = drop (rune_width (c # s) - 1) s"
      using "2.IH"(5) "2.prems" by (simp del: rune_width.simps take_Suc_Cons)
    moreover have "c \<noteq> BS" using 3(1) by (auto simp: BS_def ascii_def)
    ultimately show ?thesis
      using 3 rune_width_prefix [OF 3(2)] rune_width_bounds [of "c # s"]
      by (auto simp del: rune_width.simps take_Suc_Cons)
  qed
qed simp

text \<open>
  \<open>jval k v\<close>: \<open>v\<close> is scanned as one value wherever a value may stand in an object, given at
  least \<open>k\<close> more nesting levels. \<open>jcompact v\<close>: compacting copies \<open>v\<close>.
\<close>

definition follow :: "string \<Rightarrow> bool" where
  "follow r \<longleftrightarrow> r = [] \<or> hd r = CHR '','' \<or> hd r = CHR ''}''"

definition jval :: "nat \<Rightarrow> string \<Rightarrow> bool" where
  "jval k v \<longleftrightarrow> v \<noteq> [] \<and> \<not> is_jws (hd v) \<and>
     (\<forall>n d r. k \<le> d \<longrightarrow> 2 * length (v @ r) < n \<longrightarrow> follow r \<longrightarrow> scan_value n d (v @ r) = Some r)"

definition jcompact :: "string \<Rightarrow> bool" where
  "jcompact v \<longleftrightarrow> (\<forall>r. compact False (v @ r) = v @ compact False r)"

lemma jval_mono: "jval k v \<Longrightarrow> k \<le> k' \<Longrightarrow> jval k' v"
  by (auto simp: jval_def)

lemma scan_value_QT: "0 < n \<Longrightarrow> scan_value n d (QT # s) = scan_str s"
  by (cases n) auto

lemma jval_quote: "jval 0 (json_quote s)"
  by (auto simp: jval_def json_quote_def scan_value_QT scan_json_escape)

lemma scan_num_follow:
  assumes "follow r" "ds \<noteq> []" "\<forall>c \<in> set ds. is_digit c" "hd ds = CHR ''0'' \<Longrightarrow> length ds = 1"
  shows "scan_num (ds @ r) = Some r" "scan_num (CHR ''-'' # ds @ r) = Some r"
proof -
  have tw: "takeWhile is_digit (ds @ r) = ds" "dropWhile is_digit (ds @ r) = r"
    using assms by (auto simp: follow_def takeWhile_append dropWhile_append is_digit_def
        takeWhile_eq_Nil_iff dropWhile_eq_self_iff)
  have fr: "scan_frac r = Some r" "scan_exp r = Some r"
    using assms(1) by (auto simp: follow_def scan_frac_def scan_exp_def split: list.splits)
  have "is_digit (hd ds)" using assms(2,3) hd_in_set by blast
  then have m: "hd ds \<noteq> CHR ''-''" by (auto simp: is_digit_def)
  obtain c t where ds: "ds = c # t" using assms(2) by (cases ds) auto
  have "(if take 1 (ds @ r) = ''0'' then Some (drop 1 (ds @ r)) else scan_digits (ds @ r)) = Some r"
    using ds assms(4) tw by (auto simp: scan_digits_def)
  then show "scan_num (ds @ r) = Some r" "scan_num (CHR ''-'' # ds @ r) = Some r"
    using ds m fr by (auto simp: scan_num_def Let_def)
qed

lemma jval_Itoa: "jval 0 (Itoa v)"
proof -
  have sc: "scan_num (Itoa v @ r) = Some r" if "follow r" for r
  proof -
    have *: "\<forall>c \<in> set (nat_str n). is_digit c" "hd (nat_str n) = CHR ''0'' \<Longrightarrow> length (nat_str n) = 1" for n
      using nat_str_digits [of _ n] nat_str_hd_zero [of n] by (auto simp: nat_str.simps [of 0])
    show ?thesis using scan_num_follow [OF that _ *(1) *(2)] by (auto simp: Itoa_def)
  qed
  have hdc: "is_digit (hd (Itoa v)) \<or> hd (Itoa v) = CHR ''-''"
    using Itoa_chars [of "hd (Itoa v)" v] by simp
  obtain c t where ct: "Itoa v = c # t" by (cases "Itoa v") auto
  have "scan_value n d (Itoa v @ r) = Some r" if len: "2 * length (Itoa v @ r) < n" and f: "follow r" for n d r
  proof -
    obtain m where "n = Suc m" using len by (cases n) auto
    moreover have "c \<noteq> QT" "c \<noteq> CHR ''{''" "c \<noteq> CHR ''[''" "c \<noteq> CHR ''t''" "c \<noteq> CHR ''n''" "c \<noteq> CHR ''f''"
      using hdc ct by (auto simp: is_digit_def QT_def)
    moreover have "scan_num (c # t @ r) = Some r" using sc [OF f] ct by simp
    ultimately show ?thesis using ct by (simp add: scan_atom_def)
  qed
  moreover have "\<not> is_jws (hd (Itoa v))" using hdc by (auto simp: is_digit_def is_jws_def SP_def NL_def CR_def)
  ultimately show ?thesis by (simp add: jval_def)
qed

lemma jval_null: "jval 0 ''null''"
proof -
  have "scan_value n d (''null'' @ r) = Some r" if "0 < n" for n d r
    using that by (cases n) (auto simp: scan_atom_def QT_def)
  then show ?thesis by (simp add: jval_def)
qed

lemma jval_bytes: "jval 0 (json_bytes b)"
  by (simp add: json_bytes_def jval_null jval_quote)

lemma consumed_append [simp]: "consumed (a @ r) r = a"
  by (simp add: consumed_def)

lemma members_json_pairs:
  assumes "kvs \<noteq> []" "\<forall>(k, v) \<in> set kvs. jval j v" "j \<le> d" "2 * length (json_pairs kvs @ ''}'' @ r) < n"
  shows "scan_members n d (json_pairs kvs @ ''}'' @ r) = Some (map (\<lambda>(k, v). (json_escape k, v)) kvs, r)"
  using assms
proof (induction kvs arbitrary: n rule: json_pairs.induct)
  case (2 k v)
  then obtain m where n: "n = Suc m" by (cases n) auto
  have v: "v \<noteq> []" "\<not> is_jws (hd v)" "scan_value m d (v @ CHR ''}'' # r) = Some (CHR ''}'' # r)"
    using 2 n by (auto simp: jval_def follow_def json_quote_def)
  have "consumed (json_escape k @ QT # CHR '':'' # v @ CHR ''}'' # r) (CHR '':'' # v @ CHR ''}'' # r) = json_escape k @ [QT]"
    by (simp add: consumed_def)
  then show ?case using v n scan_json_escape [of k "CHR '':'' # v @ CHR ''}'' # r"]
    by (cases v) (auto simp: json_quote_def Let_def consumed_def)
next
  case (3 k v p ps)
  then obtain m where n: "n = Suc m" by (cases n) auto
  define rest where "rest = json_pairs (p # ps) @ CHR ''}'' # r"
  have v: "v \<noteq> []" "\<not> is_jws (hd v)" "scan_value m d (v @ CHR '','' # rest) = Some (CHR '','' # rest)"
    using 3 n by (auto simp: jval_def follow_def json_quote_def rest_def)
  have "\<exists>t. rest = QT # t"
    by (cases p; cases ps) (auto simp: rest_def json_quote_def)
  then have rq: "jskip rest = rest" by auto
  have IH: "scan_members m d rest = Some (map (\<lambda>(k, v). (json_escape k, v)) (p # ps), r)"
    using 3 n by (simp add: rest_def json_quote_def)
  show ?case using v n rq IH scan_json_escape [of k "CHR '':'' # v @ CHR '','' # rest"]
    by (cases v) (auto simp: json_quote_def Let_def consumed_def rest_def)
qed simp

lemma json_pairs_QT: "kvs \<noteq> [] \<Longrightarrow> \<exists>t. json_pairs kvs = QT # t"
  by (cases kvs rule: json_pairs.cases) (auto simp: json_quote_def)

lemma scan_value_obj:
  assumes "kvs \<noteq> []" "\<forall>(k, v) \<in> set kvs. jval j v" "j < d" "2 * length (json_obj kvs @ r) < n"
  shows "scan_value n d (json_obj kvs @ r) = Some r"
proof -
  obtain m where n: "n = Suc m" using assms(4) by (cases n) auto
  obtain t where t: "json_pairs kvs = QT # t" using json_pairs_QT [OF assms(1)] by blast
  have "scan_members m (d - 1) (json_pairs kvs @ ''}'' @ r) = Some (map (\<lambda>(k, v). (json_escape k, v)) kvs, r)"
    using assms n by (intro members_json_pairs [where j = j]) (auto simp: json_obj_def)
  then show ?thesis using n t assms(3) by (simp add: json_obj_def)
qed

lemma jval_obj: "kvs \<noteq> [] \<Longrightarrow> \<forall>(k, v) \<in> set kvs. jval j v \<Longrightarrow> jval (Suc j) (json_obj kvs)"
  unfolding jval_def [of "Suc j"] by (auto simp: scan_value_obj) (simp_all add: json_obj_def)

lemma json_valid_jval:
  assumes "jval k v" "k \<le> maxNestingDepth" shows "json_valid v"
proof -
  have "jskip v = v" using assms(1) by (cases v) (auto simp: jval_def)
  moreover have "scan_value (Suc (2 * length v)) maxNestingDepth (v @ []) = Some []"
    using assms by (auto simp: jval_def follow_def simp del: scan_value.simps append_Nil2)
  ultimately show ?thesis by (simp add: json_valid_def)
qed

lemma json_fields_obj_ws:
  assumes "kvs \<noteq> []" "\<forall>(k, v) \<in> set kvs. jval j v \<and> utf8_ok k" "j < maxNestingDepth" "jskip r = []"
  shows "json_fields (json_obj kvs @ r) = Some kvs"
proof -
  have jv: "\<forall>(k, v) \<in> set kvs. jval j v" using assms(2) by auto
  obtain t where t: "json_pairs kvs = QT # t" using json_pairs_QT [OF assms(1)] by blast
  have "jskip (json_obj kvs @ r) = json_obj kvs @ r" by (simp add: json_obj_def)
  then have "json_valid (json_obj kvs @ r)"
    using scan_value_obj [OF assms(1) jv assms(3), of r "Suc (2 * length (json_obj kvs @ r))"] assms(4)
    by (simp add: json_valid_def)
  moreover have "scan_members (2 * length (json_obj kvs @ r)) (maxNestingDepth - 1) (json_pairs kvs @ ''}'' @ r) =
      Some (map (\<lambda>(k, v). (json_escape k, v)) kvs, r)"
    using assms jv by (intro members_json_pairs [where j = j]) (auto simp: json_obj_def)
  moreover have "map (map_prod unquote id) (map (\<lambda>(k, v). (json_escape k, v)) kvs) = kvs"
    using assms(2) by (induction kvs) (auto simp: unquote_json_escape)
  ultimately show ?thesis using t by (simp add: json_fields_def json_obj_def Let_def)
qed

lemma json_fields_obj:
  "kvs \<noteq> [] \<Longrightarrow> \<forall>(k, v) \<in> set kvs. jval j v \<and> utf8_ok k \<Longrightarrow> j < maxNestingDepth \<Longrightarrow>
     json_fields (json_obj kvs) = Some kvs"
  using json_fields_obj_ws [of kvs j "[]"] by simp

section \<open>Compacting\<close>

lemma hexd_plain: "d < 16 \<Longrightarrow> hexd d \<noteq> BS \<and> hexd d \<noteq> QT \<and> hexd d \<notin> {CHR ''<'', CHR ''>'', CHR ''&''} \<and>
    hexd d \<noteq> CHR 0xE2"
proof -
  assume "d < 16"
  then have "(of_char (hexd d) :: nat) = (if d < 10 then 48 + d else 87 + d)" by (auto simp: hexd_def)
  moreover have "(of_char (hexd d) :: nat) \<notin> {34, 92, 60, 62, 38, 226}" using calculation \<open>d < 16\<close> by auto
  ultimately show ?thesis by (auto simp: BS_def QT_def)
qed

lemma compact_literal:
  "c \<noteq> BS \<Longrightarrow> c \<noteq> QT \<Longrightarrow> c \<notin> {CHR ''<'', CHR ''>'', CHR ''&''} \<Longrightarrow>
     take 3 (c # s) \<noteq> [CHR 0xE2, CHR 0x80, CHR 0xA8] \<Longrightarrow> take 3 (c # s) \<noteq> [CHR 0xE2, CHR 0x80, CHR 0xA9] \<Longrightarrow>
     compact True (c # s) = c # compact True s"
  by (auto simp del: take_Suc_Cons)

lemma compact_plain:
  "c \<noteq> BS \<Longrightarrow> c \<noteq> QT \<Longrightarrow> c \<notin> {CHR ''<'', CHR ''>'', CHR ''&''} \<Longrightarrow> c \<noteq> CHR 0xE2 \<Longrightarrow>
     compact True (c # s) = c # compact True s"
  by (rule compact_literal) auto

lemma compact_esc_char: "ascii c \<Longrightarrow> compact True (esc_char c @ r) = esc_char c @ compact True r"
proof -
  assume c: "ascii c"
  define n where "n = (of_char c :: nat)"
  have n: "n < 128" using c by (simp add: ascii_def n_def)
  have h: "n div 16 < 16" "n mod 16 < 16" using n by auto
  have z: "compact True (CHR ''0'' # CHR ''0'' # hexd (n div 16) # hexd (n mod 16) # r) =
      CHR ''0'' # CHR ''0'' # hexd (n div 16) # hexd (n mod 16) # compact True r"
    using hexd_plain [OF h(1)] hexd_plain [OF h(2)] by (subst compact_plain; simp add: BS_def QT_def)+
  have "c \<noteq> CHR 0xE2" using c by (auto simp: ascii_def)
  then show ?thesis using z unfolding esc_char_def Let_def n_def [symmetric] by (auto simp: compact_plain)
qed

lemma compact_high:
  "\<forall>c \<in> set a. \<not> ascii c \<and> c \<noteq> CHR 0xE2 \<Longrightarrow> compact True (a @ r) = a @ compact True r"
proof (induction a)
  case (Cons c a)
  have "\<not> ascii c" using Cons.prems by simp
  then have "c \<noteq> BS \<and> c \<noteq> QT \<and> c \<notin> {CHR ''<'', CHR ''>'', CHR ''&''}" by (auto simp: ascii_def BS_def QT_def)
  moreover have "c \<noteq> CHR 0xE2" using Cons.prems by simp
  ultimately have "compact True (c # a @ r) = c # compact True (a @ r)" by (intro compact_plain) blast+
  with Cons show ?case by simp
qed simp

lemma rune_tail_cont: "\<forall>d \<in> set (take (rune_width (c # s) - 1) s). \<not> ascii d \<and> d \<noteq> CHR 0xE2"
proof -
  have "\<not> ascii d \<and> d \<noteq> CHR 0xE2" if "cont d \<or> second_ok c d" for d
    using that by (auto simp: ascii_def in_range_def second_ok_def Let_def split: if_splits)
  then show ?thesis by (auto split: list.splits)
qed

lemma compact_rune:
  assumes c: "\<not> ascii c" and w: "rune_width (c # s) \<noteq> 1"
    and ne: "take 3 (c # s) \<noteq> [CHR 0xE2, CHR 0x80, CHR 0xA8]" "take 3 (c # s) \<noteq> [CHR 0xE2, CHR 0x80, CHR 0xA9]"
  shows "compact True (c # take (rune_width (c # s) - 1) s @ r) = c # take (rune_width (c # s) - 1) s @ compact True r"
proof -
  let ?t = "take (rune_width (c # s) - 1) s"
  have nb: "c \<noteq> BS" "c \<noteq> QT" "c \<notin> {CHR ''<'', CHR ''>'', CHR ''&''}"
    using c by (auto simp: ascii_def BS_def QT_def)
  have "take 3 (c # ?t @ r) = take 3 (c # s)" if "c = CHR 0xE2"
    using w that by (cases s; cases "tl s") (auto simp: in_range_def numeral_3_eq_3 split: list.splits if_splits)
  then have "take 3 (c # ?t @ r) \<noteq> [CHR 0xE2, CHR 0x80, CHR 0xA8]" "take 3 (c # ?t @ r) \<noteq> [CHR 0xE2, CHR 0x80, CHR 0xA9]"
    using ne by auto
  then have "compact True (c # ?t @ r) = c # compact True (?t @ r)" using nb by (intro compact_literal) blast+
  then show ?thesis using compact_high [OF rune_tail_cont] by simp
qed

lemma compact_json_escape: "compact True (json_escape s @ QT # r) = json_escape s @ QT # compact False r"
proof (induction s rule: json_escape.induct)
  case (2 c s)
  have u: "compact True (BS # CHR ''u'' # t) = BS # CHR ''u'' # compact True t" for t by simp
  consider "ascii c" | "\<not> ascii c" "rune_width (c # s) = 1"
    | "\<not> ascii c" "rune_width (c # s) \<noteq> 1" "take 3 (c # s) = [CHR 0xE2, CHR 0x80, CHR 0xA8]"
    | "\<not> ascii c" "rune_width (c # s) \<noteq> 1" "take 3 (c # s) = [CHR 0xE2, CHR 0x80, CHR 0xA9]"
    | "\<not> ascii c" "rune_width (c # s) \<noteq> 1" "take 3 (c # s) \<noteq> [CHR 0xE2, CHR 0x80, CHR 0xA8]"
      "take 3 (c # s) \<noteq> [CHR 0xE2, CHR 0x80, CHR 0xA9]"
    by blast
  then show ?case
  proof cases
    case 1 then show ?thesis using 2(1) by (simp add: compact_esc_char del: rune_width.simps)
  next
    case 2 then show ?thesis using "2.IH"(2) by (simp add: BS_def QT_def del: rune_width.simps)
  next
    case 3 then show ?thesis using "2.IH"(3) by (simp add: BS_def QT_def del: rune_width.simps take_Suc_Cons)
  next
    case 4 then show ?thesis using "2.IH"(4) by (simp add: BS_def QT_def del: rune_width.simps take_Suc_Cons)
  next
    case 5
    have "json_escape (c # s) = c # take (rune_width (c # s) - 1) s @ json_escape (drop (rune_width (c # s) - 1) s)"
      using 5 by (auto simp del: rune_width.simps take_Suc_Cons)
    then show ?thesis using 5 "2.IH"(5) compact_rune [OF 5] by (simp del: rune_width.simps take_Suc_Cons json_escape.simps)
  qed
qed simp

lemma jcompact_quote: "jcompact (json_quote s)"
  by (simp add: jcompact_def json_quote_def compact_json_escape)

lemma jcompact_plain: "\<forall>c \<in> set v. \<not> is_jws c \<and> c \<noteq> QT \<Longrightarrow> jcompact v"
  unfolding jcompact_def by (induction v) auto

lemma jcompact_append: "jcompact a \<Longrightarrow> jcompact b \<Longrightarrow> jcompact (a @ b)"
  by (simp add: jcompact_def)

lemma jcompact_Itoa: "jcompact (Itoa v)"
  using Itoa_chars [of _ v] by (intro jcompact_plain) (force simp: is_digit_def is_jws_def QT_def SP_def NL_def CR_def)

lemma jcompact_bytes: "jcompact (json_bytes b)"
  by (auto simp: json_bytes_def jcompact_quote intro!: jcompact_plain) (simp_all add: is_jws_def QT_def SP_def NL_def CR_def)

lemma jcompact_obj: "\<forall>(k, v) \<in> set kvs. jcompact v \<Longrightarrow> jcompact (json_obj kvs)"
proof -
  have p: "jcompact '':''" "jcompact '',''" "jcompact ''{''" "jcompact ''}''" "jcompact []"
    by (auto intro!: jcompact_plain) (simp_all add: QT_def)
  assume "\<forall>(k, v) \<in> set kvs. jcompact v"
  then have "jcompact (json_pairs kvs)"
    by (induction kvs rule: json_pairs.induct) (auto intro!: jcompact_append p jcompact_quote simp: p simp del: append_Cons append_Nil)
  then show ?thesis unfolding json_obj_def by (intro jcompact_append p)
qed

lemma json_raw_obj:
  "kvs \<noteq> [] \<Longrightarrow> \<forall>(k, v) \<in> set kvs. jval 0 v \<and> jcompact v \<Longrightarrow> json_raw (json_obj kvs) = Some (json_obj kvs)"
proof -
  assume a: "kvs \<noteq> []" "\<forall>(k, v) \<in> set kvs. jval 0 v \<and> jcompact v"
  then have "json_valid (json_obj kvs)"
    by (intro json_valid_jval [OF jval_obj [where j = 0]]) (auto simp: maxNestingDepth_def)
  moreover have "compact False (json_obj kvs @ []) = json_obj kvs @ compact False []"
    using a(2) jcompact_obj [of kvs] unfolding jcompact_def [of "json_obj kvs"] by blast
  moreover have "json_obj kvs \<noteq> []" by (simp add: json_obj_def)
  ultimately show ?thesis by (simp add: json_raw_def)
qed

section \<open>Field setters on encoded values\<close>

lemma str_body_quote: "utf8_ok s \<Longrightarrow> str_body (json_quote s) = Some s"
  by (simp add: str_body_def json_quote_def unquote_json_escape butlast_append)

lemma quote_not_null: "json_quote s \<noteq> ''null''" "take (Suc 0) (json_quote s) \<noteq> ''[''"
  by (simp_all add: json_quote_def QT_def)

lemma set_string_quote [wire_simps]: "utf8_ok s \<Longrightarrow> set_string upd (json_quote s) x = Some (upd s x)"
  by (simp add: set_string_def str_body_quote quote_not_null)

lemma set_int_Itoa [wire_simps]: "int64_range v \<Longrightarrow> set_int upd (Itoa v) x = Some (upd v x)"
proof -
  assume v: "int64_range v"
  have "Itoa v \<noteq> ''null''" using Itoa_chars [of "CHR ''n''" v] by (auto simp: is_digit_def)
  moreover have "take 1 (Itoa v) = ''-'' \<or> takeWhile is_digit (Itoa v) \<noteq> []"
    using nat_str_digits [of "hd (nat_str (nat v))" "nat v"]
    by (cases "nat_str (nat v)") (auto simp: Itoa_def)
  ultimately show ?thesis by (simp add: set_int_def Atoi_Itoa v)
qed

lemma set_bytes_json [wire_simps]: "set_bytes upd (json_bytes b) x = Some (upd b x)"
  using utf8_ok_ascii [OF std_enc_ascii [of b]]
  by (simp add: set_bytes_def json_bytes_def str_body_quote quote_not_null StdDecode_StdEncode)

section \<open>Encoded text stays on one line\<close>

lemma Itoa_no_NL: "NL \<notin> set (Itoa v)"
  using Itoa_chars [of NL v] by (auto simp: is_digit_def NL_def)

lemma json_escape_no_NL: "NL \<notin> set (json_escape s)"
proof (induction s rule: json_escape.induct)
  case (2 c s)
  have hx: "hexd d \<noteq> NL" if "d < 16" for d
  proof
    assume "hexd d = NL"
    moreover have "(of_char (hexd d) :: nat) = (if d < 10 then 48 + d else 87 + d)" using that by (auto simp: hexd_def)
    ultimately show False by (auto simp: NL_def split: if_splits)
  qed
  define n where "n = (of_char c :: nat)"
  have "n div 16 < 16" using of_char_lt_256 [of c] by (simp add: div_less_iff_less_mult n_def)
  then have "NL \<noteq> hexd (n div 16)" "NL \<noteq> hexd (n mod 16)" using hx [of "n div 16"] hx [of "n mod 16"] by auto
  moreover have "NL \<noteq> BS" "NL \<noteq> QT" "n = 10 \<longleftrightarrow> c = NL"
    using of_char_eq_iff [of c NL, where 'a = nat] by (auto simp: n_def NL_def BS_def QT_def)
  ultimately have "NL \<notin> set (esc_char c)"
    unfolding esc_char_def Let_def n_def [symmetric] by (auto simp: NL_def)
  moreover have "NL \<notin> set (take (rune_width (c # s) - 1) s)"
  proof -
    have "ascii NL" by (simp add: ascii_def NL_def)
    then show ?thesis using rune_tail_high [of c s] by blast
  qed
  moreover have "c \<noteq> NL" if "\<not> ascii c" using that by (auto simp: ascii_def NL_def)
  ultimately show ?case
    using 2 by (auto simp: NL_def BS_def simp del: rune_width.simps take_Suc_Cons)
qed simp

lemma json_quote_no_NL: "NL \<notin> set (json_quote s)"
  using json_escape_no_NL [of s] by (auto simp: json_quote_def NL_def QT_def)

lemma json_bytes_no_NL: "NL \<notin> set (json_bytes b)"
  using json_quote_no_NL by (simp add: json_bytes_def NL_def)

lemma json_obj_no_NL: "\<forall>(k, v) \<in> set kvs. NL \<notin> set v \<Longrightarrow> NL \<notin> set (json_obj kvs)"
proof -
  assume "\<forall>(k, v) \<in> set kvs. NL \<notin> set v"
  then have "NL \<notin> set (json_pairs kvs)"
    by (induction kvs rule: json_pairs.induct) (use json_quote_no_NL in \<open>auto simp: NL_def\<close>)
  then show ?thesis by (simp add: json_obj_def NL_def)
qed

declare utf8_ok.simps(2) [simp del] json_escape.simps(2) [simp del] unquote.simps(2) [simp del]
  scan_str.simps [simp del] scan_value.simps [simp del] scan_members.simps [simp del]
  scan_elems.simps [simp del] compact.simps [simp del] rune_width.simps [simp del] json_pairs.simps [simp del]

end
