(* ===== verification/Gossip.thy ===== *)
theory Gossip
  imports Graph Keys Netip Json
begin

text \<open>
  Package \<open>gossip\<close>: the signed envelopes of the control plane (\<open>message.go\<close>) and the plane that
  originates, verifies, deduplicates and applies them (\<open>plane.go\<close>).

  The transport is the list of effects an operation performs, in order: \<open>Notify\<close> is the call of the
  \<open>OnMessage\<close> observer, \<open>Broadcast\<close> the call of \<open>transport.Broadcast\<close>. What a broadcast returns and
  what the clock shows are arguments (\<open>berr\<close>, \<open>now\<close>). The signature primitives are those of \<open>Keys\<close>.
\<close>

section \<open>Messages\<close>

record envelope =
  env_ID :: string
  env_Origin :: string
  env_Kind :: string
  env_TS :: int
  env_Payload :: string
  env_Signature :: bytes

record hello =
  h_Name :: string
  h_Ed25519Public :: bytes
  h_WGPublic :: string
  h_Endpoint :: string
  h_InnerAddr :: string
  h_UnderlayAddr :: string

record addEdge =
  ae_From :: string
  ae_To :: string
  ae_Weight :: int

record delEdge =
  de_From :: string
  de_To :: string

record subnetMsg =
  sm_Owner :: string
  sm_Subnet :: string

abbreviation KindAddNode :: string where "KindAddNode \<equiv> ''add_node''"
abbreviation KindDelNode :: string where "KindDelNode \<equiv> ''del_node''"
abbreviation KindAddEdge :: string where "KindAddEdge \<equiv> ''add_edge''"
abbreviation KindDelEdge :: string where "KindDelEdge \<equiv> ''del_edge''"
abbreviation KindAddSubnet :: string where "KindAddSubnet \<equiv> ''add_subnet''"
abbreviation KindDelSubnet :: string where "KindDelSubnet \<equiv> ''del_subnet''"

definition ts_bytes :: "int \<Rightarrow> bytes" where
  "ts_bytes ts = map (\<lambda>i. of_int (drop_bit i ts)) [56, 48, 40, 32, 24, 16, 8, 0]"

definition SigningBytes :: "envelope \<Rightarrow> bytes" where
  "SigningBytes e =
     str_bytes (env_ID e) @ [0] @ str_bytes (env_Origin e) @ [0] @ str_bytes (env_Kind e) @ [0] @
     ts_bytes (env_TS e) @ [0] @ str_bytes (env_Payload e)"

text \<open>The JSON forms, with the field names and \<open>omitempty\<close> options of the struct tags.\<close>

definition omit_str :: "string \<Rightarrow> string \<Rightarrow> (string \<times> string) list" where
  "omit_str k v = (if v = [] then [] else [(k, json_quote v)])"

definition hello_json :: "hello \<Rightarrow> string" where
  "hello_json h = json_obj
     ([(''name'', json_quote (h_Name h)), (''ed25519_pub'', json_bytes (h_Ed25519Public h)),
       (''wg_pub'', json_quote (h_WGPublic h))] @
      omit_str ''endpoint'' (h_Endpoint h) @ omit_str ''inner_addr'' (h_InnerAddr h) @
      omit_str ''underlay_addr'' (h_UnderlayAddr h))"

definition addEdge_json :: "addEdge \<Rightarrow> string" where
  "addEdge_json e = json_obj [(''from'', json_quote (ae_From e)), (''to'', json_quote (ae_To e)),
     (''weight'', Itoa (ae_Weight e))]"

definition delEdge_json :: "delEdge \<Rightarrow> string" where
  "delEdge_json e = json_obj [(''from'', json_quote (de_From e)), (''to'', json_quote (de_To e))]"

definition subnetMsg_json :: "subnetMsg \<Rightarrow> string" where
  "subnetMsg_json s = json_obj [(''owner'', json_quote (sm_Owner s)), (''subnet'', json_quote (sm_Subnet s))]"

definition hello_parse :: "string \<Rightarrow> hello option" where
  "hello_parse = Unmarshal
     [(''name'', set_string (\<lambda>v h. h\<lparr>h_Name := v\<rparr>)),
      (''ed25519_pub'', set_bytes (\<lambda>v h. h\<lparr>h_Ed25519Public := v\<rparr>)),
      (''wg_pub'', set_string (\<lambda>v h. h\<lparr>h_WGPublic := v\<rparr>)),
      (''endpoint'', set_string (\<lambda>v h. h\<lparr>h_Endpoint := v\<rparr>)),
      (''inner_addr'', set_string (\<lambda>v h. h\<lparr>h_InnerAddr := v\<rparr>)),
      (''underlay_addr'', set_string (\<lambda>v h. h\<lparr>h_UnderlayAddr := v\<rparr>))]
     \<lparr>h_Name = [], h_Ed25519Public = [], h_WGPublic = [], h_Endpoint = [], h_InnerAddr = [], h_UnderlayAddr = []\<rparr>"

definition addEdge_parse :: "string \<Rightarrow> addEdge option" where
  "addEdge_parse = Unmarshal
     [(''from'', set_string (\<lambda>v e. e\<lparr>ae_From := v\<rparr>)), (''to'', set_string (\<lambda>v e. e\<lparr>ae_To := v\<rparr>)),
      (''weight'', set_int (\<lambda>v e. e\<lparr>ae_Weight := v\<rparr>))]
     \<lparr>ae_From = [], ae_To = [], ae_Weight = 0\<rparr>"

definition delEdge_parse :: "string \<Rightarrow> delEdge option" where
  "delEdge_parse = Unmarshal
     [(''from'', set_string (\<lambda>v e. e\<lparr>de_From := v\<rparr>)), (''to'', set_string (\<lambda>v e. e\<lparr>de_To := v\<rparr>))]
     \<lparr>de_From = [], de_To = []\<rparr>"

definition subnetMsg_parse :: "string \<Rightarrow> subnetMsg option" where
  "subnetMsg_parse = Unmarshal
     [(''owner'', set_string (\<lambda>v s. s\<lparr>sm_Owner := v\<rparr>)), (''subnet'', set_string (\<lambda>v s. s\<lparr>sm_Subnet := v\<rparr>))]
     \<lparr>sm_Owner = [], sm_Subnet = []\<rparr>"

definition envelope_unmarshal :: "string \<Rightarrow> envelope option" where
  "envelope_unmarshal = Unmarshal
     [(''id'', set_string (\<lambda>v e. e\<lparr>env_ID := v\<rparr>)), (''origin'', set_string (\<lambda>v e. e\<lparr>env_Origin := v\<rparr>)),
      (''kind'', set_string (\<lambda>v e. e\<lparr>env_Kind := v\<rparr>)), (''ts'', set_int (\<lambda>v e. e\<lparr>env_TS := v\<rparr>)),
      (''payload'', set_raw (\<lambda>v e. e\<lparr>env_Payload := v\<rparr>)),
      (''sig'', set_bytes (\<lambda>v e. e\<lparr>env_Signature := v\<rparr>))]
     \<lparr>env_ID = [], env_Origin = [], env_Kind = [], env_TS = 0, env_Payload = [], env_Signature = []\<rparr>"

datatype gossip_error = BadJSON | MissingFields | VerifyFailed string string | TransportError string

definition Encode :: "envelope \<Rightarrow> (gossip_error, string) result" where
  "Encode e =
     (case json_raw (env_Payload e) of
        None \<Rightarrow> Inl BadJSON
      | Some p \<Rightarrow> Inr (json_obj
          ([(''id'', json_quote (env_ID e)), (''origin'', json_quote (env_Origin e)),
            (''kind'', json_quote (env_Kind e)), (''ts'', Itoa (env_TS e)), (''payload'', p)] @
           (if env_Signature e = [] then [] else [(''sig'', json_bytes (env_Signature e))]))))"

definition Decode :: "string \<Rightarrow> (gossip_error, envelope) result" where
  "Decode b =
     (case envelope_unmarshal b of
        None \<Rightarrow> Inl BadJSON
      | Some e \<Rightarrow> if env_Kind e = [] \<or> env_Origin e = [] then Inl MissingFields else Inr e)"

definition NewID :: "string \<Rightarrow> nat \<Rightarrow> string" where
  "NewID origin seq = origin @ ''/'' @ nat_str seq"

section \<open>The plane\<close>

record plane =
  p_NodeName :: string
  p_G :: graph
  p_seen :: "(string, int) gomap"
  p_outbox :: "(string, envelope) gomap"
  p_listener :: bool                                    \<comment> \<open>an observer is installed\<close>
  p_edPriv :: "bytes option"
  p_pubKeyFor :: "(string \<Rightarrow> bytes option) option"
  p_pubKeys :: "(string, bytes) gomap"
  p_endpoints :: "(string, string) gomap"
  p_inners :: "(string, addr) gomap"
  p_underlays :: "(string, addr) gomap"

datatype effect = Broadcast envelope | Notify envelope

definition NewPlane :: "string \<Rightarrow> graph \<Rightarrow> plane" where
  "NewPlane name g = \<lparr>p_NodeName = name, p_G = g, p_seen = [], p_outbox = [], p_listener = False,
     p_edPriv = None, p_pubKeyFor = None, p_pubKeys = [], p_endpoints = [], p_inners = [], p_underlays = []\<rparr>"

definition EndpointOf :: "plane \<Rightarrow> string \<Rightarrow> string" where
  "EndpointOf p origin = (case mget (p_endpoints p) origin of Some e \<Rightarrow> e | None \<Rightarrow> [])"

definition InnerAddrOf :: "plane \<Rightarrow> string \<Rightarrow> addr" where
  "InnerAddrOf p origin = (case mget (p_inners p) origin of Some a \<Rightarrow> a | None \<Rightarrow> NoAddr)"

definition UnderlayAddrOf :: "plane \<Rightarrow> string \<Rightarrow> addr" where
  "UnderlayAddrOf p origin = (case mget (p_underlays p) origin of Some a \<Rightarrow> a | None \<Rightarrow> NoAddr)"

definition SetSigner :: "bytes \<Rightarrow> plane \<Rightarrow> plane" where
  "SetSigner priv p = p\<lparr>p_edPriv := Some priv\<rparr>"

definition SetVerifier :: "(string \<Rightarrow> bytes option) \<Rightarrow> plane \<Rightarrow> plane" where
  "SetVerifier f p = p\<lparr>p_pubKeyFor := Some f\<rparr>"

definition OnMessage :: "plane \<Rightarrow> plane" where
  "OnMessage p = p\<lparr>p_listener := True\<rparr>"

definition claim :: "string \<Rightarrow> int \<Rightarrow> plane \<Rightarrow> bool \<times> plane" where
  "claim i ts p =
     (if (case mget (p_seen p) i of Some prev \<Rightarrow> ts \<le> prev | None \<Rightarrow> False) then (False, p)
      else (True, p\<lparr>p_seen := mput i ts (p_seen p)\<rparr>))"

definition sign_env :: "crypto \<Rightarrow> plane \<Rightarrow> envelope \<Rightarrow> envelope" where
  "sign_env c p e =
     (case p_edPriv p of
        None \<Rightarrow> e
      | Some priv \<Rightarrow> e\<lparr>env_Signature := Sign c priv (SigningBytes e)\<rparr>)"

definition verify_env :: "crypto \<Rightarrow> plane \<Rightarrow> envelope \<Rightarrow> bool" where
  "verify_env c p e =
     (let learned = mget (p_pubKeys p) (env_Origin e)
      in if p_pubKeyFor p = None \<and> learned = None then True
         else
           let pub = (case p_pubKeyFor p of
                        Some f \<Rightarrow> (case f (env_Origin e) of Some v \<Rightarrow> v | None \<Rightarrow> [])
                      | None \<Rightarrow> []);
               pub = (if pub = [] then (case learned of Some k \<Rightarrow> k | None \<Rightarrow> pub) else pub)
           in if pub = [] then False else Verify c pub (SigningBytes e) (env_Signature e))"

definition parseHelloAddr :: "string \<Rightarrow> addr" where
  "parseHelloAddr s =
     (if s = [] then NoAddr
      else (case ParsePrefix s of
              Some p \<Rightarrow> pfx_ip p
            | None \<Rightarrow> (case ParseAddr s of Some a \<Rightarrow> a | None \<Rightarrow> NoAddr)))"

definition rememberPubKey :: "string \<Rightarrow> bytes \<Rightarrow> plane \<Rightarrow> plane" where
  "rememberPubKey name pub p = p\<lparr>p_pubKeys := mput name pub (p_pubKeys p)\<rparr>"

definition apply_AddNode :: "hello \<Rightarrow> plane \<Rightarrow> plane" where
  "apply_AddNode h p =
     (let p = p\<lparr>p_G := AddNode (h_Name h) (p_G p)\<rparr>;
          p = (case ParseEd25519PublicBase64ish (h_Ed25519Public h) of
                 Inr pub \<Rightarrow> rememberPubKey (h_Name h) pub p
               | Inl _ \<Rightarrow> p);
          inner = parseHelloAddr (h_InnerAddr h);
          underlay = parseHelloAddr (h_UnderlayAddr h);
          p = (if h_Endpoint h \<noteq> [] then p\<lparr>p_endpoints := mput (h_Name h) (h_Endpoint h) (p_endpoints p)\<rparr> else p);
          p = (if IsValid inner then p\<lparr>p_inners := mput (h_Name h) inner (p_inners p)\<rparr> else p)
      in if IsValid underlay then p\<lparr>p_underlays := mput (h_Name h) underlay (p_underlays p)\<rparr> else p)"

definition apply_DelNode :: "hello \<Rightarrow> plane \<Rightarrow> plane" where
  "apply_DelNode h p =
     p\<lparr>p_G := clear_edges (h_Name h) (p_G p),
       p_endpoints := mdel (h_Name h) (p_endpoints p),
       p_inners := mdel (h_Name h) (p_inners p),
       p_underlays := mdel (h_Name h) (p_underlays p),
       p_pubKeys := mdel (h_Name h) (p_pubKeys p)\<rparr>"

text \<open>
  The switch of \<open>apply\<close>; \<open>None\<close> is the early \<open>return\<close> of a payload that does not parse, which
  also skips the observer.
\<close>

definition apply_kind :: "envelope \<Rightarrow> plane \<Rightarrow> plane option" where
  "apply_kind e p =
     (if env_Kind e = KindAddNode then
        map_option (\<lambda>h. apply_AddNode h p) (hello_parse (env_Payload e))
      else if env_Kind e = KindDelNode then
        (case hello_parse (env_Payload e) of
           None \<Rightarrow> None
         | Some h \<Rightarrow> if h_Name h = [] then None else Some (apply_DelNode h p))
      else if env_Kind e = KindAddEdge then
        map_option (\<lambda>m. p\<lparr>p_G := AddEdge \<lparr>e_From = ae_From m, e_To = ae_To m, e_Weight = ae_Weight m\<rparr> (p_G p)\<rparr>)
          (addEdge_parse (env_Payload e))
      else if env_Kind e = KindDelEdge then
        map_option (\<lambda>m. p\<lparr>p_G := DelEdge (de_From m) (de_To m) (p_G p)\<rparr>) (delEdge_parse (env_Payload e))
      else if env_Kind e = KindAddSubnet then
        map_option (\<lambda>m. p\<lparr>p_G := AddSubnet (sm_Owner m) (sm_Subnet m) (p_G p)\<rparr>) (subnetMsg_parse (env_Payload e))
      else if env_Kind e = KindDelSubnet then
        map_option (\<lambda>m. p\<lparr>p_G := DelSubnet (sm_Owner m) (sm_Subnet m) (p_G p)\<rparr>) (subnetMsg_parse (env_Payload e))
      else Some p)"

definition apply_env :: "envelope \<Rightarrow> plane \<Rightarrow> plane \<times> effect list" where
  "apply_env e p =
     (case apply_kind e p of
        None \<Rightarrow> (p, [])
      | Some q \<Rightarrow> (q, if p_listener q then [Notify e] else []))"

definition bcast_result :: "(envelope \<Rightarrow> string option) \<Rightarrow> envelope \<Rightarrow> gossip_error option" where
  "bcast_result berr e = map_option TransportError (berr e)"

definition originate ::
    "crypto \<Rightarrow> (envelope \<Rightarrow> string option) \<Rightarrow> int \<Rightarrow> string \<Rightarrow> string \<Rightarrow> string \<Rightarrow> plane \<Rightarrow>
       plane \<times> effect list \<times> gossip_error option" where
  "originate c berr now i kind body p =
     (let e = sign_env c p \<lparr>env_ID = i, env_Origin = p_NodeName p, env_Kind = kind, env_TS = now,
                env_Payload = body, env_Signature = []\<rparr>;
          p = p\<lparr>p_outbox := mput i e (p_outbox p), p_seen := mput i (env_TS e) (p_seen p)\<rparr>;
          (p, fx) = apply_env e p
      in (p, fx @ [Broadcast e], bcast_result berr e))"

definition Receive ::
    "crypto \<Rightarrow> (envelope \<Rightarrow> string option) \<Rightarrow> envelope \<Rightarrow> plane \<Rightarrow>
       plane \<times> effect list \<times> gossip_error option" where
  "Receive c berr e p =
     (if \<not> verify_env c p e then (p, [], Some (VerifyFailed (env_Kind e) (env_Origin e)))
      else (case claim (env_ID e) (env_TS e) p of
              (False, p) \<Rightarrow> (p, [], None)
            | (True, p) \<Rightarrow>
                let (p, fx) = apply_env e p
                in (p, fx @ [Broadcast e], bcast_result berr e)))"

fun resend :: "(envelope \<Rightarrow> string option) \<Rightarrow> envelope list \<Rightarrow> effect list \<times> gossip_error option" where
  "resend berr [] = ([], None)"
| "resend berr (e # es) =
     (case berr e of
        Some x \<Rightarrow> ([Broadcast e], Some (TransportError x))
      | None \<Rightarrow> (let (fx, r) = resend berr es in (Broadcast e # fx, r)))"

definition ResendOutbox :: "(envelope \<Rightarrow> string option) \<Rightarrow> plane \<Rightarrow> effect list \<times> gossip_error option" where
  "ResendOutbox berr p = resend berr (map snd (p_outbox p))"

definition OutboxSize :: "plane \<Rightarrow> nat" where
  "OutboxSize p = length (p_outbox p)"

definition SeenSize :: "plane \<Rightarrow> nat" where
  "SeenSize p = length (p_seen p)"

definition AnnounceHello where
  "AnnounceHello c berr now h p = originate c berr now (p_NodeName p @ ''/hello'') KindAddNode (hello_json h) p"

definition AnnounceAddEdge where
  "AnnounceAddEdge c berr now to weight p =
     originate c berr now (p_NodeName p @ ''/edge/'' @ to) KindAddEdge
       (addEdge_json \<lparr>ae_From = p_NodeName p, ae_To = to, ae_Weight = weight\<rparr>) p"

definition AnnounceDelEdge where
  "AnnounceDelEdge c berr now to p =
     originate c berr now (p_NodeName p @ ''/edge/'' @ to) KindDelEdge
       (delEdge_json \<lparr>de_From = p_NodeName p, de_To = to\<rparr>) p"

definition AnnounceAddSubnet where
  "AnnounceAddSubnet c berr now subnet p =
     originate c berr now (p_NodeName p @ ''/subnet/'' @ subnet) KindAddSubnet
       (subnetMsg_json \<lparr>sm_Owner = p_NodeName p, sm_Subnet = subnet\<rparr>) p"

definition AnnounceDelSubnet where
  "AnnounceDelSubnet c berr now subnet p =
     originate c berr now (p_NodeName p @ ''/subnet/'' @ subnet) KindDelSubnet
       (subnetMsg_json \<lparr>sm_Owner = p_NodeName p, sm_Subnet = subnet\<rparr>) p"

section \<open>Payloads and envelopes survive the wire\<close>

lemma find_setter_here [simp]: "find_setter ((k, f) # fs) k = Some f"
  by (simp add: find_setter_def)

lemma find_setter_skip: "k' \<noteq> k \<Longrightarrow> map_of fs k \<noteq> None \<Longrightarrow> find_setter ((k', f) # fs) k = find_setter fs k"
  by (auto simp: find_setter_def)

lemma utf8_ok_names [simp]:
  "utf8_ok ''name''" "utf8_ok ''ed25519_pub''" "utf8_ok ''wg_pub''" "utf8_ok ''endpoint''" "utf8_ok ''inner_addr''"
  "utf8_ok ''underlay_addr''" "utf8_ok ''from''" "utf8_ok ''to''" "utf8_ok ''weight''" "utf8_ok ''owner''"
  "utf8_ok ''subnet''" "utf8_ok ''id''" "utf8_ok ''origin''" "utf8_ok ''kind''" "utf8_ok ''ts''" "utf8_ok ''payload''"
  "utf8_ok ''sig''"
  by (rule utf8_ok_ascii, simp add: ascii_def)+

lemmas jval_flat = jval_quote jval_Itoa jval_bytes
lemmas jcompact_flat = jcompact_quote jcompact_Itoa jcompact_bytes

definition hello_ok :: "hello \<Rightarrow> bool" where
  "hello_ok h \<longleftrightarrow> utf8_ok (h_Name h) \<and> utf8_ok (h_WGPublic h) \<and> utf8_ok (h_Endpoint h) \<and>
     utf8_ok (h_InnerAddr h) \<and> utf8_ok (h_UnderlayAddr h)"

lemma hello_roundtrip: "hello_ok h \<Longrightarrow> hello_parse (hello_json h) = Some h"
  unfolding hello_parse_def Unmarshal_def hello_json_def
  by (subst json_fields_obj [where j = 0])
    (auto simp: omit_str_def jval_flat maxNestingDepth_def hello_ok_def find_setter_skip wire_simps)

lemma addEdge_roundtrip:
  "utf8_ok (ae_From e) \<Longrightarrow> utf8_ok (ae_To e) \<Longrightarrow> int64_range (ae_Weight e) \<Longrightarrow>
     addEdge_parse (addEdge_json e) = Some e"
  unfolding addEdge_parse_def Unmarshal_def addEdge_json_def
  by (subst json_fields_obj [where j = 0])
    (auto simp: jval_flat maxNestingDepth_def find_setter_skip wire_simps)

lemma delEdge_roundtrip:
  "utf8_ok (de_From e) \<Longrightarrow> utf8_ok (de_To e) \<Longrightarrow> delEdge_parse (delEdge_json e) = Some e"
  unfolding delEdge_parse_def Unmarshal_def delEdge_json_def
  by (subst json_fields_obj [where j = 0])
    (auto simp: jval_flat maxNestingDepth_def find_setter_skip wire_simps)

lemma subnetMsg_roundtrip:
  "utf8_ok (sm_Owner e) \<Longrightarrow> utf8_ok (sm_Subnet e) \<Longrightarrow> subnetMsg_parse (subnetMsg_json e) = Some e"
  unfolding subnetMsg_parse_def Unmarshal_def subnetMsg_json_def
  by (subst json_fields_obj [where j = 0])
    (auto simp: jval_flat maxNestingDepth_def find_setter_skip wire_simps)

text \<open>What \<open>json.Marshal\<close> produced as a payload: raw text that the envelope carries unchanged.\<close>

definition payload_ok :: "string \<Rightarrow> bool" where
  "payload_ok p \<longleftrightarrow> jval 1 p \<and> json_raw p = Some p \<and> NL \<notin> set p"

lemma payload_ok_obj:
  "kvs \<noteq> [] \<Longrightarrow> \<forall>(k, v) \<in> set kvs. jval 0 v \<and> jcompact v \<and> NL \<notin> set v \<Longrightarrow> payload_ok (json_obj kvs)"
  using jval_obj [of kvs 0] json_raw_obj [of kvs] json_obj_no_NL [of kvs] by (auto simp: payload_ok_def)

lemma payload_ok_json [simp]:
  "payload_ok (hello_json h)" "payload_ok (addEdge_json ae)" "payload_ok (delEdge_json de)" "payload_ok (subnetMsg_json sm)"
  unfolding hello_json_def addEdge_json_def delEdge_json_def subnetMsg_json_def
  by (rule payload_ok_obj; auto simp: omit_str_def jval_flat jcompact_flat json_quote_no_NL Itoa_no_NL json_bytes_no_NL)+

definition env_ok :: "envelope \<Rightarrow> bool" where
  "env_ok e \<longleftrightarrow> utf8_ok (env_ID e) \<and> utf8_ok (env_Origin e) \<and> utf8_ok (env_Kind e) \<and> int64_range (env_TS e) \<and>
     payload_ok (env_Payload e)"

lemma set_raw_simp [wire_simps]: "set_raw upd v x = Some (upd v x)"
  by (simp add: set_raw_def)

lemma envelope_roundtrip:
  assumes "env_ok e"
  obtains w where "Encode e = Inr w" "envelope_unmarshal w = Some e" "envelope_unmarshal (w @ [NL]) = Some e" "NL \<notin> set w"
proof -
  let ?kvs = "[(''id'', json_quote (env_ID e)), (''origin'', json_quote (env_Origin e)),
      (''kind'', json_quote (env_Kind e)), (''ts'', Itoa (env_TS e)), (''payload'', env_Payload e)] @
      (if env_Signature e = [] then [] else [(''sig'', json_bytes (env_Signature e))])"
  have raw: "json_raw (env_Payload e) = Some (env_Payload e)" and jv: "jval (Suc 0) (env_Payload e)"
    using assms by (auto simp: env_ok_def payload_ok_def)
  have flat: "jval (Suc 0) (json_quote s)" "jval (Suc 0) (Itoa v)" "jval (Suc 0) (json_bytes b)" for s v b
    using jval_flat by (auto intro: jval_mono)
  have "json_fields (json_obj ?kvs @ r) = Some ?kvs" if "jskip r = []" for r
    using that by (intro json_fields_obj_ws [where j = 1]) (auto simp: flat jv maxNestingDepth_def)
  then have um: "envelope_unmarshal (json_obj ?kvs @ r) = Some e" if "jskip r = []" for r
    using assms that by (auto simp: envelope_unmarshal_def Unmarshal_def env_ok_def find_setter_skip wire_simps)
  have "NL \<notin> set (json_obj ?kvs)"
    using assms by (simp add: env_ok_def payload_ok_def json_obj_no_NL json_quote_no_NL Itoa_no_NL json_bytes_no_NL del: append_Cons)
  with raw that [of "json_obj ?kvs"] um [of "[]"] um [of "[NL]"] show ?thesis by (simp add: Encode_def jskip_def is_jws_def)
qed

interpretation wire: codec "\<lambda>e. case Encode e of Inr w \<Rightarrow> w | Inl _ \<Rightarrow> []" "\<lambda>w. ok_of (Decode w)"
  "\<lambda>e. env_ok e \<and> env_Kind e \<noteq> [] \<and> env_Origin e \<noteq> []"
proof unfold_locales
  fix e assume e: "env_ok e \<and> env_Kind e \<noteq> [] \<and> env_Origin e \<noteq> []"
  then obtain w where "Encode e = Inr w" "envelope_unmarshal w = Some e" using envelope_roundtrip by blast
  with e show "ok_of (Decode (case Encode e of Inr w \<Rightarrow> w | Inl _ \<Rightarrow> [])) = Some e"
    by (simp add: Decode_def)
qed

section \<open>What a signature covers\<close>

lemma length_ts_bytes [simp]: "length (ts_bytes ts) = 8"
  by (simp add: ts_bytes_def)

lemma ts_bytes_inj:
  assumes "int64_range a" "int64_range b" "ts_bytes a = ts_bytes b" shows "a = b"
proof -
  have byte: "bit a (i + k) = bit b (i + k)"
    if "i \<in> {56, 48, 40, 32, 24, 16, 8, 0}" "k < 8" for i k
  proof -
    have "(of_int (drop_bit i a) :: byte) = of_int (drop_bit i b)"
      using assms(3) that(1) by (auto simp: ts_bytes_def)
    then have "bit (of_int (drop_bit i a) :: byte) k = bit (of_int (drop_bit i b) :: byte) k" by simp
    then show ?thesis using that(2) by (simp add: bit_of_int_iff bit_drop_bit_eq)
  qed
  have "bit a n = bit b n" if "n < 64" for n
  proof -
    have "n div 8 \<in> {0, 1, 2, 3, 4, 5, 6, 7}" using that by auto
    then have "n div 8 * 8 \<in> {56, 48, 40, 32, 24, 16, 8, 0}" by auto
    from byte [OF this, of "n mod 8"] show ?thesis by (metis div_mult_mod_eq mod_less_divisor zero_less_numeral)
  qed
  then have "signed_take_bit 63 a = signed_take_bit 63 b"
    by (intro bit_eqI) (auto simp: bit_signed_take_bit_iff)
  then show ?thesis using assms(1,2) by (simp add: int64_range_def signed_take_bit_int_eq_self)
qed

definition no_nul :: "string \<Rightarrow> bool" where
  "no_nul s \<longleftrightarrow> CHR 0x00 \<notin> set s"

lemma no_nul_bytes: "no_nul s \<Longrightarrow> (0 :: byte) \<notin> set (str_bytes s)"
proof -
  assume n: "no_nul s"
  have z: "(0 :: byte) = byte_of (CHR 0x00)" by (simp add: byte_of_def)
  have "byte_of c \<noteq> 0" if "c \<in> set s" for c
    using n that unfolding z byte_of_eq_iff by (auto simp: no_nul_def)
  then show ?thesis by auto
qed

lemma SigningBytes_inj:
  assumes "no_nul (env_ID e)" "no_nul (env_Origin e)" "no_nul (env_Kind e)" "int64_range (env_TS e)"
    and "no_nul (env_ID f)" "no_nul (env_Origin f)" "no_nul (env_Kind f)" "int64_range (env_TS f)"
    and "SigningBytes e = SigningBytes f"
  shows "e\<lparr>env_Signature := []\<rparr> = f\<lparr>env_Signature := []\<rparr>"
proof -
  note eq = assms(9) [unfolded SigningBytes_def, simplified]
  have 1: "str_bytes (env_ID e) = str_bytes (env_ID f)" and
    "str_bytes (env_Origin e) @ 0 # str_bytes (env_Kind e) @ 0 # ts_bytes (env_TS e) @ 0 # str_bytes (env_Payload e) =
     str_bytes (env_Origin f) @ 0 # str_bytes (env_Kind f) @ 0 # ts_bytes (env_TS f) @ 0 # str_bytes (env_Payload f)"
    using append_sep_unique [OF no_nul_bytes [OF assms(1)] no_nul_bytes [OF assms(5)] eq] by blast+
  then have 2: "str_bytes (env_Origin e) = str_bytes (env_Origin f)" and
    "str_bytes (env_Kind e) @ 0 # ts_bytes (env_TS e) @ 0 # str_bytes (env_Payload e) =
     str_bytes (env_Kind f) @ 0 # ts_bytes (env_TS f) @ 0 # str_bytes (env_Payload f)"
    using append_sep_unique [OF no_nul_bytes [OF assms(2)] no_nul_bytes [OF assms(6)]] by blast+
  then have 3: "str_bytes (env_Kind e) = str_bytes (env_Kind f)" and
    "ts_bytes (env_TS e) @ 0 # str_bytes (env_Payload e) = ts_bytes (env_TS f) @ 0 # str_bytes (env_Payload f)"
    using append_sep_unique [OF no_nul_bytes [OF assms(3)] no_nul_bytes [OF assms(7)]] by blast+
  then have "ts_bytes (env_TS e) = ts_bytes (env_TS f)" "str_bytes (env_Payload e) = str_bytes (env_Payload f)"
    by simp_all
  with 1 2 3 ts_bytes_inj [OF assms(4) assms(8)] show ?thesis by (cases e; cases f) simp
qed

end
