(* ===== verification/Relay.thy ===== *)
theory Relay
  imports Prelude
begin

text \<open>
  The two contracts behind gossip: \<open>relay\<close>, a claim table that lets each version of a message
  through once, and its extension \<open>lww\<close>, a last-writer-wins register map built on it. Their client
  lemmas speak about arbitrary message histories; \<open>Plane\<close> interprets both on \<open>Receive\<close>.
\<close>

section \<open>A relay with a claim table\<close>

text \<open>
  What the dedup table promises, for any replica that handles one message at a time: a message
  is either dropped, leaving the table alone, or it is newer than everything seen under its
  identifier, is relayed once and recorded. The client lemmas are about whole message histories.
\<close>

locale relay =
  fixes seen :: "'s \<Rightarrow> 'i \<Rightarrow> int option"
    and recv :: "'e \<Rightarrow> 's \<Rightarrow> 's \<times> 'e list"
    and ident :: "'e \<Rightarrow> 'i"
    and stamp :: "'e \<Rightarrow> int"
  assumes dropped: "snd (recv e s) = [] \<Longrightarrow> seen (fst (recv e s)) = seen s"
    and relayed: "snd (recv e s) \<noteq> [] \<Longrightarrow>
      snd (recv e s) = [e] \<and> (\<forall>t. seen s (ident e) = Some t \<longrightarrow> t < stamp e) \<and>
      seen (fst (recv e s)) = (seen s)(ident e \<mapsto> stamp e)"
begin

fun run :: "'e list \<Rightarrow> 's \<Rightarrow> 's \<times> 'e list" where
  "run [] s = (s, [])"
| "run (e # es) s = (let r = recv e s; q = run es (fst r) in (fst q, snd r @ snd q))"

lemma recv_cases:
  obtains "snd (recv e s) = []" "seen (fst (recv e s)) = seen s"
  | "snd (recv e s) = [e]" "\<forall>t. seen s (ident e) = Some t \<longrightarrow> t < stamp e"
    "seen (fst (recv e s)) = (seen s)(ident e \<mapsto> stamp e)"
  using dropped relayed by blast

lemma run_newer:
  "x \<in> set (snd (run es s)) \<Longrightarrow> seen s (ident x) = Some t \<Longrightarrow> t < stamp x"
proof (induction es arbitrary: s t)
  case (Cons e es)
  show ?case
  proof (cases e s rule: recv_cases)
    case 1
    with Cons.prems Cons.IH [of "fst (recv e s)" t] show ?thesis by (simp add: Let_def)
  next
    case 2
    have "t < stamp x" if x: "x \<in> set (snd (run es (fst (recv e s))))"
    proof (cases "ident x = ident e")
      case True
      then have "stamp e < stamp x" using Cons.IH [OF x] 2(3) by simp
      with 2(2) True Cons.prems(2) show ?thesis by fastforce
    next
      case False
      then show ?thesis using Cons.IH [OF x] 2(3) Cons.prems(2) by simp
    qed
    then show ?thesis using Cons.prems 2 by (auto simp: Let_def)
  qed
qed simp

lemma run_increasing:
  "sorted_wrt (\<lambda>a b. ident a = ident b \<longrightarrow> stamp a < stamp b) (snd (run es s))"
proof (induction es arbitrary: s)
  case (Cons e es)
  show ?case
  proof (cases e s rule: recv_cases)
    case 1 with Cons show ?thesis by (simp add: Let_def)
  next
    case 2
    have "ident e = ident x \<Longrightarrow> stamp e < stamp x" if "x \<in> set (snd (run es (fst (recv e s))))" for x
      using run_newer [OF that, of "stamp e"] 2(3) by simp
    with Cons 2 show ?thesis by (simp add: Let_def)
  qed
qed simp

lemma run_distinct: "distinct (map (\<lambda>e. (ident e, stamp e)) (snd (run es s)))"
proof -
  have "distinct (map (\<lambda>e. (ident e, stamp e)) xs)"
    if "sorted_wrt (\<lambda>a b. ident a = ident b \<longrightarrow> stamp a < stamp b) xs" for xs
    using that by (induction xs) fastforce+
  then show ?thesis using run_increasing by blast
qed

lemma run_sub: "set (snd (run es s)) \<subseteq> set es"
proof (induction es arbitrary: s)
  case (Cons e es)
  show ?case using Cons [of "fst (recv e s)"] by (cases e s rule: recv_cases) (auto simp: Let_def)
qed simp

lemma run_seen_dom: "dom (seen (fst (run es s))) \<subseteq> dom (seen s) \<union> ident ` set es"
proof (induction es arbitrary: s)
  case (Cons e es)
  show ?case using Cons [of "fst (recv e s)"] by (cases e s rule: recv_cases) (auto simp: Let_def)
qed simp

lemma run_seen_mono: "seen s i = Some t \<Longrightarrow> \<exists>t' \<ge> t. seen (fst (run es s)) i = Some t'"
proof (induction es arbitrary: s t)
  case (Cons e es)
  show ?case
  proof (cases e s rule: recv_cases)
    case 1 with Cons show ?thesis by (simp add: Let_def)
  next
    case 2
    then obtain u where "u \<ge> t" "seen (fst (recv e s)) i = Some u"
      using Cons.prems by (cases "i = ident e") auto
    then show ?thesis using Cons.IH [of "fst (recv e s)" u] by (auto simp: Let_def)
  qed
qed simp

end

text \<open>
  A replica whose relayed messages write one value per identifier: a last-writer-wins register
  map. \<open>ok\<close> are the messages it is fed, \<open>inv\<close> the states it is in. Replicas that see the same set
  of messages, in any order and with any repetitions, end with the same values.
\<close>

locale lww = relay seen recv ident stamp
  for seen :: "'s \<Rightarrow> 'i \<Rightarrow> int option"
    and recv :: "'e \<Rightarrow> 's \<Rightarrow> 's \<times> 'e list"
    and ident :: "'e \<Rightarrow> 'i"
    and stamp :: "'e \<Rightarrow> int" +
  fixes ok :: "'e \<Rightarrow> bool"
    and inv :: "'s \<Rightarrow> bool"
    and val :: "'s \<Rightarrow> 'i \<Rightarrow> 'v"
    and put :: "'e \<Rightarrow> 'v"
  assumes inv_recv: "ok e \<Longrightarrow> inv s \<Longrightarrow> inv (fst (recv e s))"
    and accepts: "ok e \<Longrightarrow> inv s \<Longrightarrow> (\<forall>t. seen s (ident e) = Some t \<longrightarrow> t < stamp e) \<Longrightarrow> snd (recv e s) \<noteq> []"
    and val_dropped: "ok e \<Longrightarrow> inv s \<Longrightarrow> snd (recv e s) = [] \<Longrightarrow> val (fst (recv e s)) = val s"
    and val_relayed: "ok e \<Longrightarrow> inv s \<Longrightarrow> snd (recv e s) \<noteq> [] \<Longrightarrow>
      val (fst (recv e s)) i = (if i = ident e then put e else val s i)"
begin

definition winner :: "'s \<Rightarrow> 'e set \<Rightarrow> 'i \<Rightarrow> 'e \<Rightarrow> bool" where
  "winner s E i e \<longleftrightarrow> e \<in> E \<and> ident e = i \<and> (\<forall>t. seen s i = Some t \<longrightarrow> t < stamp e) \<and>
     (\<forall>f \<in> E. ident f = i \<longrightarrow> stamp f \<le> stamp e)"

lemma run_val:
  "\<forall>e \<in> set es. ok e \<Longrightarrow> inv s \<Longrightarrow>
     (\<exists>e. winner s (set es) i e \<and> val (fst (run es s)) i = put e) \<or>
     ((\<forall>e \<in> set es. ident e = i \<longrightarrow> (\<exists>t. seen s i = Some t \<and> stamp e \<le> t)) \<and>
      val (fst (run es s)) i = val s i)"
proof (induction es arbitrary: s)
  case (Cons e es)
  let ?s = "fst (recv e s)"
  have ok: "ok e" "inv s" using Cons.prems by auto
  have IH: "(\<exists>x. winner ?s (set es) i x \<and> val (fst (run es ?s)) i = put x) \<or>
     ((\<forall>x \<in> set es. ident x = i \<longrightarrow> (\<exists>t. seen ?s i = Some t \<and> stamp x \<le> t)) \<and> val (fst (run es ?s)) i = val ?s i)"
    using Cons.IH [of ?s] Cons.prems inv_recv [OF ok] by simp
  show ?case
  proof (cases e s rule: recv_cases)
    case 1
    then have "\<exists>t. seen s (ident e) = Some t \<and> stamp e \<le> t" using accepts [OF ok] by (meson not_le)
    moreover have "val ?s = val s" using val_dropped ok 1 by blast
    ultimately show ?thesis using IH 1 by (auto simp: winner_def Let_def)
  next
    case 2
    have v: "val ?s i = (if i = ident e then put e else val s i)" using val_relayed [OF ok] 2 by simp
    show ?thesis
    proof (cases "i = ident e")
      case True
      from IH show ?thesis
      proof
        assume "\<exists>x. winner ?s (set es) i x \<and> val (fst (run es ?s)) i = put x"
        then obtain x where x: "winner ?s (set es) i x" "val (fst (run es ?s)) i = put x" by blast
        then have "winner s (set (e # es)) i x" using 2 True by (fastforce simp: winner_def)
        with x(2) show ?thesis by (auto simp: Let_def)
      next
        assume *: "(\<forall>x \<in> set es. ident x = i \<longrightarrow> (\<exists>t. seen ?s i = Some t \<and> stamp x \<le> t)) \<and> val (fst (run es ?s)) i = val ?s i"
        then have "winner s (set (e # es)) i e" using 2 True by (auto simp: winner_def)
        with * v True show ?thesis by (auto simp: Let_def)
      qed
    next
      case False
      then show ?thesis using IH 2 v by (auto simp: winner_def Let_def)
    qed
  qed
qed simp

text \<open>Messages with one identifier and one stamp carry the same value.\<close>

definition functional :: "'e set \<Rightarrow> bool" where
  "functional E \<longleftrightarrow> (\<forall>a \<in> E. \<forall>b \<in> E. ident a = ident b \<and> stamp a = stamp b \<longrightarrow> put a = put b)"

lemma converge:
  assumes "\<forall>e \<in> set es. ok e" "inv s" "inv r" "set es' = set es" "functional (set es)"
    and "seen s i = seen r i" "val s i = val r i"
  shows "val (fst (run es s)) i = val (fst (run es' r)) i"
proof -
  have ok': "\<forall>e \<in> set es'. ok e" using assms by simp
  have uniq: "put a = put b" if "winner s (set es) i a" "winner r (set es) i b" for a b
  proof -
    have "stamp a = stamp b" using that by (auto simp: winner_def intro: antisym)
    then show ?thesis using that assms(5) by (auto simp: winner_def functional_def)
  qed
  have excl: "\<not> (\<forall>e \<in> set es. ident e = i \<longrightarrow> (\<exists>t. seen s i = Some t \<and> stamp e \<le> t))"
    if "winner s (set es) i a \<or> winner r (set es) i a" for a
    using that assms(6) by (fastforce simp: winner_def)
  from run_val [OF assms(1,2), of i] run_val [OF ok' assms(3), of i]
  show ?thesis unfolding assms(4) using uniq excl assms(6,7) by metis
qed

end

end
