(* ===== verification/Plane.thy ===== *)
theory Plane
  imports Gossip Relay
begin

text \<open>
  Correctness of the gossip plane: what a node accepts, that each version of a fact is relayed
  once, that the tables stay bounded and well formed, that an announced fact reaches a peer, and
  that subnet facts converge.
\<close>

section \<open>Effects and histories\<close>

definition broadcasts :: "effect list \<Rightarrow> envelope list" where
  "broadcasts fx = concat (map (\<lambda>x. case x of Broadcast e \<Rightarrow> [e] | Notify _ \<Rightarrow> []) fx)"

lemma broadcasts_simps [simp]:
  "broadcasts [] = []" "broadcasts (Broadcast e # fx) = e # broadcasts fx"
  "broadcasts (Notify e # fx) = broadcasts fx" "broadcasts (fx @ fy) = broadcasts fx @ broadcasts fy"
  by (simp_all add: broadcasts_def)

definition recv1 :: "crypto \<Rightarrow> (envelope \<Rightarrow> string option) \<Rightarrow> envelope \<Rightarrow> plane \<Rightarrow> plane \<times> envelope list" where
  "recv1 c berr e p = (let r = Receive c berr e p in (fst r, broadcasts (fst (snd r))))"

section \<open>Invariant\<close>

text \<open>
  The graph is well formed, every table has distinct keys, each outbox entry is filed under its
  own identifier, was minted by this node and is covered by the dedup table, and stored addresses
  are valid ones.
\<close>

definition plane_inv :: "plane \<Rightarrow> bool" where
  "plane_inv p \<longleftrightarrow>
     graph_inv (p_G p) \<and> mwf (p_seen p) \<and> mwf (p_outbox p) \<and> mwf (p_pubKeys p) \<and> mwf (p_endpoints p) \<and>
     mwf (p_inners p) \<and> mwf (p_underlays p) \<and>
     (\<forall>i e. mget (p_outbox p) i = Some e \<longrightarrow>
        env_ID e = i \<and> env_Origin e = p_NodeName p \<and> (\<exists>t. mget (p_seen p) i = Some t \<and> env_TS e \<le> t)) \<and>
     (\<forall>n k. mget (p_pubKeys p) n = Some k \<longrightarrow> length k = PublicKeySize) \<and>
     (\<forall>n a. mget (p_inners p) n = Some a \<longrightarrow> IsValid a) \<and>
     (\<forall>n a. mget (p_underlays p) n = Some a \<longrightarrow> IsValid a) \<and>
     (\<forall>n s. mget (p_endpoints p) n = Some s \<longrightarrow> s \<noteq> [])"

lemma apply_AddNode_frame [simp]:
  "p_seen (apply_AddNode h p) = p_seen p" "p_outbox (apply_AddNode h p) = p_outbox p"
  "p_NodeName (apply_AddNode h p) = p_NodeName p" "p_pubKeyFor (apply_AddNode h p) = p_pubKeyFor p"
  "p_edPriv (apply_AddNode h p) = p_edPriv p" "p_listener (apply_AddNode h p) = p_listener p"
  "p_G (apply_AddNode h p) = AddNode (h_Name h) (p_G p)"
  by (simp_all add: apply_AddNode_def rememberPubKey_def Let_def split: sum.split)

lemma apply_kind_frame:
  assumes "apply_kind e p = Some q"
  shows "p_seen q = p_seen p \<and> p_outbox q = p_outbox p \<and> p_NodeName q = p_NodeName p \<and>
    p_pubKeyFor q = p_pubKeyFor p \<and> p_edPriv q = p_edPriv p \<and> p_listener q = p_listener p"
  using assms unfolding apply_kind_def
  by (auto simp: apply_DelNode_def split: if_splits option.splits)

lemma apply_env_frame [simp]:
  "p_seen (fst (apply_env e p)) = p_seen p" "p_outbox (fst (apply_env e p)) = p_outbox p"
  "p_NodeName (fst (apply_env e p)) = p_NodeName p" "p_pubKeyFor (fst (apply_env e p)) = p_pubKeyFor p"
  "p_edPriv (fst (apply_env e p)) = p_edPriv p" "p_listener (fst (apply_env e p)) = p_listener p"
  by (cases "apply_kind e p"; auto simp: apply_env_def dest!: apply_kind_frame)+

lemma apply_env_quiet [simp]: "broadcasts (snd (apply_env e p)) = []"
  by (auto simp: apply_env_def split: option.splits)

lemma inv_AddNode: "graph_inv g \<Longrightarrow> graph_inv (AddNode n g)"
  by (simp add: AddNode_def graph_inv_ops)

lemma inv_apply_AddNode: "plane_inv p \<Longrightarrow> plane_inv (apply_AddNode h p)"
proof -
  assume p: "plane_inv p"
  have k: "length k = PublicKeySize" if "ParseEd25519PublicBase64ish (h_Ed25519Public h) = Inr k" for k
    using that by (rule parsed_public_length)
  show ?thesis using p k
    by (cases "ParseEd25519PublicBase64ish (h_Ed25519Public h)")
      (auto simp: plane_inv_def apply_AddNode_def rememberPubKey_def inv_AddNode Let_def)
qed

lemma inv_apply_DelNode: "plane_inv p \<Longrightarrow> plane_inv (apply_DelNode h p)"
  by (simp add: plane_inv_def apply_DelNode_def inv_clear_edges)

lemma inv_graph_update: "plane_inv p \<Longrightarrow> graph_inv g \<Longrightarrow> plane_inv (p\<lparr>p_G := g\<rparr>)"
  by (simp add: plane_inv_def)

lemma inv_graph: "plane_inv p \<Longrightarrow> graph_inv (p_G p)"
  by (simp add: plane_inv_def)

lemma inv_apply_kind: "plane_inv p \<Longrightarrow> apply_kind e p = Some q \<Longrightarrow> plane_inv q"
  by (auto simp: apply_kind_def inv_apply_AddNode inv_apply_DelNode split: if_splits option.splits
      intro!: inv_graph_update graph_inv_ops dest: inv_graph)

lemma inv_apply_env: "plane_inv p \<Longrightarrow> plane_inv (fst (apply_env e p))"
  by (auto simp: apply_env_def inv_apply_kind split: option.splits)

lemma claim_cases:
  obtains t where "mget (p_seen p) i = Some t" "ts \<le> t" "claim i ts p = (False, p)"
  | "\<forall>t. mget (p_seen p) i = Some t \<longrightarrow> t < ts" "claim i ts p = (True, p\<lparr>p_seen := mput i ts (p_seen p)\<rparr>)"
proof (cases "\<exists>t. mget (p_seen p) i = Some t \<and> ts \<le> t")
  case True
  then show ?thesis using that(1) by (auto simp: claim_def)
next
  case False
  then show ?thesis using that(2) by (auto simp: claim_def not_le split: option.splits)
qed

lemma outbox_inv:
  "plane_inv p \<Longrightarrow> mget (p_outbox p) i = Some e \<Longrightarrow>
     env_ID e = i \<and> env_Origin e = p_NodeName p \<and> (\<exists>t. mget (p_seen p) i = Some t \<and> env_TS e \<le> t)"
  unfolding plane_inv_def by blast

lemma inv_seen:
  assumes p: "plane_inv p" and ts: "\<forall>t. mget (p_seen p) i = Some t \<longrightarrow> t < ts"
  shows "plane_inv (p\<lparr>p_seen := mput i ts (p_seen p)\<rparr>)"
proof -
  have "\<exists>t. mget (mput i ts (p_seen p)) j = Some t \<and> env_TS e \<le> t" if ob: "mget (p_outbox p) j = Some e" for j e
  proof -
    obtain t where "mget (p_seen p) j = Some t" "env_TS e \<le> t" using outbox_inv [OF p ob] by blast
    then show ?thesis using ts by (cases "j = i") auto
  qed
  then show ?thesis using p unfolding plane_inv_def by simp
qed

lemma Receive_cases:
  obtains (rejected) "\<not> verify_env c p e" "Receive c berr e p = (p, [], Some (VerifyFailed (env_Kind e) (env_Origin e)))"
  | (stale) t where "verify_env c p e" "mget (p_seen p) (env_ID e) = Some t" "env_TS e \<le> t"
      "Receive c berr e p = (p, [], None)"
  | (fresh) q where "verify_env c p e" "\<forall>t. mget (p_seen p) (env_ID e) = Some t \<longrightarrow> t < env_TS e"
      "q = p\<lparr>p_seen := mput (env_ID e) (env_TS e) (p_seen p)\<rparr>"
      "Receive c berr e p = (fst (apply_env e q), snd (apply_env e q) @ [Broadcast e], bcast_result berr e)"
proof (cases "verify_env c p e")
  case True
  show ?thesis
    by (cases rule: claim_cases [where p = p and i = "env_ID e" and ts = "env_TS e"])
      (use True stale fresh in \<open>auto simp: Receive_def case_prod_beta\<close>)
qed (use rejected in \<open>simp add: Receive_def\<close>)

lemma inv_Receive: "plane_inv p \<Longrightarrow> plane_inv (fst (Receive c berr e p))"
proof (cases rule: Receive_cases [where c = c and p = p and e = e and berr = berr])
  case (fresh q)
  moreover assume "plane_inv p"
  ultimately have "plane_inv q" by (simp add: inv_seen)
  with fresh show ?thesis by (simp add: inv_apply_env)
qed simp_all

lemma inv_originate: "plane_inv p \<Longrightarrow> plane_inv (fst (originate c berr now i k b p))"
proof -
  assume p: "plane_inv p"
  let ?e = "sign_env c p \<lparr>env_ID = i, env_Origin = p_NodeName p, env_Kind = k, env_TS = now,
      env_Payload = b, env_Signature = []\<rparr>"
  have e: "env_ID ?e = i" "env_Origin ?e = p_NodeName p"
    by (simp_all add: sign_env_def split: option.splits)
  have "plane_inv (p\<lparr>p_outbox := mput i ?e (p_outbox p), p_seen := mput i (env_TS ?e) (p_seen p)\<rparr>)"
    using p e by (auto simp: plane_inv_def)
  then show ?thesis by (simp add: originate_def Let_def case_prod_beta inv_apply_env)
qed

lemma inv_NewPlane: "graph_inv g \<Longrightarrow> plane_inv (NewPlane n g)"
  by (simp add: plane_inv_def NewPlane_def)

section \<open>Interpretation of the relay contract\<close>

interpretation rel: relay "\<lambda>p. mget (p_seen p)" "recv1 c berr" env_ID env_TS
proof
  fix e p
  show "mget (p_seen (fst (recv1 c berr e p))) = mget (p_seen p)" if "snd (recv1 c berr e p) = []"
    using that by (cases rule: Receive_cases [where c = c and p = p and e = e and berr = berr]) (auto simp: recv1_def Let_def)
  show "snd (recv1 c berr e p) = [e] \<and> (\<forall>t. mget (p_seen p) (env_ID e) = Some t \<longrightarrow> t < env_TS e) \<and>
      mget (p_seen (fst (recv1 c berr e p))) = (mget (p_seen p))(env_ID e \<mapsto> env_TS e)"
    if "snd (recv1 c berr e p) \<noteq> []"
    using that by (cases rule: Receive_cases [where c = c and p = p and e = e and berr = berr]) (auto simp: recv1_def Let_def)
qed

section \<open>Message histories\<close>

fun Receive_all ::
    "crypto \<Rightarrow> (envelope \<Rightarrow> string option) \<Rightarrow> envelope list \<Rightarrow> plane \<Rightarrow> plane \<times> effect list" where
  "Receive_all c berr [] p = (p, [])"
| "Receive_all c berr (e # es) p =
     (let r = Receive c berr e p; q = Receive_all c berr es (fst r)
      in (fst q, fst (snd r) @ snd q))"

lemma Receive_all_run:
  "fst (Receive_all c berr es p) = fst (rel.run c berr es p)"
  "broadcasts (snd (Receive_all c berr es p)) = snd (rel.run c berr es p)"
  by (induction es arbitrary: p) (simp_all add: recv1_def Let_def)

lemma inv_Receive_all: "plane_inv p \<Longrightarrow> plane_inv (fst (Receive_all c berr es p))"
  by (induction es arbitrary: p) (simp_all add: Let_def inv_Receive)

text \<open>
  C1: however often and in whatever order envelopes arrive, each version of a fact (identifier and
  timestamp) is rebroadcast at most once, later versions only after earlier ones, and only versions
  newer than what the node had already seen.
\<close>

theorem relay_exactly_once:
  "distinct (map (\<lambda>e. (env_ID e, env_TS e)) (broadcasts (snd (Receive_all c berr es p)))) \<and>
   sorted_wrt (\<lambda>a b. env_ID a = env_ID b \<longrightarrow> env_TS a < env_TS b) (broadcasts (snd (Receive_all c berr es p))) \<and>
   (\<forall>e \<in> set (broadcasts (snd (Receive_all c berr es p))).
      e \<in> set es \<and> (\<forall>t. mget (p_seen p) (env_ID e) = Some t \<longrightarrow> t < env_TS e))"
  unfolding Receive_all_run
  using rel.run_distinct rel.run_increasing rel.run_sub rel.run_newer by blast

definition ping :: "int \<Rightarrow> envelope" where
  "ping t = \<lparr>env_ID = ''b/ping'', env_Origin = ''b'', env_Kind = ''ping'', env_TS = t, env_Payload = [], env_Signature = []\<rparr>"

theorem relay_exactly_once_witness:
  "distinct (map (\<lambda>e. (env_ID e, env_TS e))
     (broadcasts (snd (Receive_all toy_crypto (\<lambda>_. None) [ping 1, ping 1, ping 2, ping 1] (NewPlane ''a'' New))))) \<and>
   broadcasts (snd (Receive_all toy_crypto (\<lambda>_. None) [ping 1, ping 1, ping 2, ping 1] (NewPlane ''a'' New))) = [ping 1, ping 2]"
  using relay_exactly_once [of toy_crypto "\<lambda>_. None" "[ping 1, ping 1, ping 2, ping 1]" "NewPlane ''a'' New"]
  by (simp add: ping_def NewPlane_def Receive_def verify_env_def claim_def apply_env_def apply_kind_def Let_def)

text \<open>
  C36: the dedup table is bounded by the number of distinct facts, not by the number of messages:
  a history adds at most one entry per distinct identifier, and never forgets one.
\<close>

theorem seen_bounded:
  assumes "plane_inv p"
  shows "SeenSize (fst (Receive_all c berr es p)) \<le> SeenSize p + card (env_ID ` set es) \<and>
    set (mkeys (p_seen p)) \<subseteq> set (mkeys (p_seen (fst (Receive_all c berr es p))))"
proof -
  let ?q = "fst (Receive_all c berr es p)"
  have q: "plane_inv ?q" by (rule inv_Receive_all [OF assms])
  have size: "SeenSize r = card (dom (mget (p_seen r)))" if "plane_inv r" for r
    using gm.length_keys [of "p_seen r"] that by (simp add: SeenSize_def plane_inv_def mkeys_def dom_def)
  have "dom (mget (p_seen ?q)) \<subseteq> dom (mget (p_seen p)) \<union> env_ID ` set es"
    unfolding Receive_all_run by (rule rel.run_seen_dom)
  moreover have fin: "finite (dom (mget (p_seen p)))" 
  proof -
    have "mget (p_seen p) = map_of (p_seen p)" by (rule ext) (simp add: mget_def)
    then show ?thesis by (simp add: finite_dom_map_of)
  qed
  ultimately have "card (dom (mget (p_seen ?q))) \<le> card (dom (mget (p_seen p)) \<union> env_ID ` set es)"
    by (intro card_mono) auto
  also have "\<dots> \<le> card (dom (mget (p_seen p))) + card (env_ID ` set es)" by (rule card_Un_le)
  finally have "SeenSize ?q \<le> SeenSize p + card (env_ID ` set es)" using size assms q by simp
  moreover have "set (mkeys (p_seen p)) \<subseteq> set (mkeys (p_seen ?q))"
    unfolding Receive_all_run gm.keys_get using rel.run_seen_mono by fastforce
  ultimately show ?thesis by blast
qed

theorem seen_bounded_witness:
  "SeenSize (fst (Receive_all toy_crypto (\<lambda>_. None) [ping 1, ping 2, ping 3] (NewPlane ''a'' New))) \<le> 1"
  using seen_bounded [OF inv_NewPlane [OF inv_New], of toy_crypto "\<lambda>_. None" "[ping 1, ping 2, ping 3]" "''a''"]
  by (simp add: ping_def SeenSize_def NewPlane_def del: Receive_all.simps)

section \<open>Authentication\<close>

text \<open>The key a node checks an origin against: the configured one, else the one it learned.\<close>

definition key_of :: "plane \<Rightarrow> string \<Rightarrow> bytes option" where
  "key_of p origin =
     (case p_pubKeyFor p of
        Some f \<Rightarrow> (case f origin of
                     Some k \<Rightarrow> if k = [] then mget (p_pubKeys p) origin else Some k
                   | None \<Rightarrow> mget (p_pubKeys p) origin)
      | None \<Rightarrow> mget (p_pubKeys p) origin)"

text \<open>
  C2: an envelope has an effect (on the node's state, or as a relayed message) only when its
  signature verifies under the key known for its origin, the configured key taking precedence over
  a learned one; a node without a verifier accepts an origin it has no key for, and nothing else
  gets through unsigned. Everything rejected is reported as a verification failure.
\<close>

theorem receive_authenticated:
  assumes "plane_inv p" and "Receive c berr e p = (q, fx, err)"
  shows "if (\<exists>k. key_of p (env_Origin e) = Some k \<and> Verify c k (SigningBytes e) (env_Signature e)) \<or>
            (p_pubKeyFor p = None \<and> key_of p (env_Origin e) = None)
         then err \<noteq> Some (VerifyFailed (env_Kind e) (env_Origin e))
         else q = p \<and> fx = [] \<and> err = Some (VerifyFailed (env_Kind e) (env_Origin e))"
proof -
  have lk: "length k = PublicKeySize" if "mget (p_pubKeys p) (env_Origin e) = Some k" for k
    using assms(1) that unfolding plane_inv_def by blast
  then have ne: "mget (p_pubKeys p) (env_Origin e) = Some k \<Longrightarrow> k \<noteq> []" for k by (auto simp: PublicKeySize_def)
  have v: "verify_env c p e \<longleftrightarrow>
      (\<exists>k. key_of p (env_Origin e) = Some k \<and> Verify c k (SigningBytes e) (env_Signature e)) \<or>
      (p_pubKeyFor p = None \<and> key_of p (env_Origin e) = None)"
    using ne by (auto simp: verify_env_def key_of_def Let_def split: option.splits)
  show ?thesis
    using assms(2) unfolding v [symmetric]
    by (cases rule: Receive_cases [where c = c and p = p and e = e and berr = berr])
      (auto simp: bcast_result_def)
qed

theorem receive_authenticated_witness:
  "Receive toy_crypto (\<lambda>_. None) (ping 1) (SetVerifier (\<lambda>_. None) (NewPlane ''a'' New)) =
     (SetVerifier (\<lambda>_. None) (NewPlane ''a'' New), [], Some (VerifyFailed ''ping'' ''b''))"
proof -
  let ?p = "SetVerifier (\<lambda>_. None) (NewPlane ''a'' New)"
  have "plane_inv ?p" using inv_NewPlane [OF inv_New] by (simp add: plane_inv_def SetVerifier_def)
  moreover obtain q fx err where r: "Receive toy_crypto (\<lambda>_. None) (ping 1) ?p = (q, fx, err)"
    by (rule prod_cases3)
  ultimately show ?thesis using receive_authenticated [OF _ r]
    by (simp add: key_of_def SetVerifier_def NewPlane_def ping_def)
qed

section \<open>Announcing\<close>

lemma originate_parts:
  assumes "originate c berr now i k b p = (q, fx, r)"
  obtains e where "e = sign_env c p \<lparr>env_ID = i, env_Origin = p_NodeName p, env_Kind = k, env_TS = now,
      env_Payload = b, env_Signature = []\<rparr>"
    "q = fst (apply_env e (p\<lparr>p_outbox := mput i e (p_outbox p), p_seen := mput i now (p_seen p)\<rparr>))"
    "broadcasts fx = [e]" "mget (p_outbox q) i = Some e" "r = bcast_result berr e"
    "env_ID e = i" "env_Origin e = p_NodeName p" "env_Kind e = k" "env_TS e = now" "env_Payload e = b"
proof -
  let ?e = "sign_env c p \<lparr>env_ID = i, env_Origin = p_NodeName p, env_Kind = k, env_TS = now,
      env_Payload = b, env_Signature = []\<rparr>"
  have f: "env_ID ?e = i" "env_Origin ?e = p_NodeName p" "env_Kind ?e = k" "env_TS ?e = now" "env_Payload ?e = b"
    by (simp_all add: sign_env_def split: option.splits)
  show ?thesis using assms f that [of ?e] by (auto simp: originate_def Let_def case_prod_beta)
qed

text \<open>
  What a node has announced and then hears back from the network is dropped: the envelopes of
  its own outbox change nothing and are not relayed again.
\<close>

lemma echo_dropped:
  assumes "plane_inv p" and "mget (p_outbox p) i = Some e"
  shows "fst (Receive c berr e p) = p \<and> fst (snd (Receive c berr e p)) = []"
proof -
  obtain t where "mget (p_seen p) (env_ID e) = Some t" "env_TS e \<le> t"
    using outbox_inv [OF assms] by blast
  then show ?thesis
    by (cases rule: Receive_cases [where c = c and p = p and e = e and berr = berr]) auto
qed

lemma SigningBytes_sig [simp]: "SigningBytes (e\<lparr>env_Signature := s\<rparr>) = SigningBytes e"
  by (simp add: SigningBytes_def)

lemma sign_verifies:
  "ed25519_correct c \<Longrightarrow> p_edPriv p = Some priv \<Longrightarrow>
     Verify c (Ed_Public c priv) (SigningBytes (sign_env c p e)) (env_Signature (sign_env c p e))"
  using Verify_Sign by (simp add: sign_env_def)

text \<open>\<open>peer\<close> holds the key of \<open>a\<close>, which signs, and both names can be carried by JSON.\<close>

definition trusts :: "crypto \<Rightarrow> plane \<Rightarrow> plane \<Rightarrow> bool" where
  "trusts c peer a \<longleftrightarrow> utf8_ok (p_NodeName a) \<and> p_NodeName a \<noteq> [] \<and>
     (\<exists>priv f. p_edPriv a = Some priv \<and> p_pubKeyFor peer = Some f \<and> f (p_NodeName a) = Some (Ed_Public c priv))"

definition newer :: "plane \<Rightarrow> string \<Rightarrow> int \<Rightarrow> bool" where
  "newer p i now \<longleftrightarrow> (\<forall>t. mget (p_seen p) i = Some t \<longrightarrow> t < now)"

lemma originate_delivered:
  assumes c: "ed25519_correct c" and tr: "trusts c peer a" and i: "utf8_ok i" and k: "utf8_ok k" "k \<noteq> []"
    and now: "int64_range now" and b: "payload_ok b" and new: "newer peer i now"
  shows "\<exists>e w. broadcasts (fst (snd (originate c berr now i k b a))) = [e] \<and> Encode e = Inr w \<and> Decode w = Inr e \<and>
    env_Payload e = b \<and> env_Kind e = k \<and> broadcasts (fst (snd (Receive c berr' e peer))) = [e] \<and>
    fst (Receive c berr' e peer) = fst (apply_env e (peer\<lparr>p_seen := mput i now (p_seen peer)\<rparr>))"
proof -
  obtain priv f where key: "p_edPriv a = Some priv" "p_pubKeyFor peer = Some f"
    "f (p_NodeName a) = Some (Ed_Public c priv)" using tr by (auto simp: trusts_def)
  obtain a' fx r where or: "originate c berr now i k b a = (a', fx, r)" by (rule prod_cases3)
  then obtain e where e: "e = sign_env c a \<lparr>env_ID = i, env_Origin = p_NodeName a, env_Kind = k,
      env_TS = now, env_Payload = b, env_Signature = []\<rparr>"
      "broadcasts fx = [e]" "env_ID e = i"
      "env_Origin e = p_NodeName a" "env_Kind e = k" "env_TS e = now" "env_Payload e = b"
    by (rule originate_parts) blast
  have "env_ok e" using e(3-7) i k now b tr by (simp add: env_ok_def trusts_def)
  then obtain w where w: "Encode e = Inr w" "envelope_unmarshal w = Some e" by (rule envelope_roundtrip)
  have "length (Ed_Public c priv) = PublicKeySize" using c by (simp add: ed25519_correct_def Ed_Public_def)
  then have ne: "Ed_Public c priv \<noteq> []" by (auto simp: PublicKeySize_def)
  have "Verify c (Ed_Public c priv) (SigningBytes e) (env_Signature e)"
    unfolding e(1) by (rule sign_verifies [OF c key(1)])
  then have "verify_env c peer e" using key e(4) ne by (simp add: verify_env_def Let_def)
  then have "broadcasts (fst (snd (Receive c berr' e peer))) = [e] \<and>
      fst (Receive c berr' e peer) = fst (apply_env e (peer\<lparr>p_seen := mput i now (p_seen peer)\<rparr>))"
    using new e(3,6) unfolding newer_def
    by (cases rule: Receive_cases [where c = c and p = peer and e = e and berr = berr']) auto
  with or e(2-7) w k tr show ?thesis by (auto simp: Decode_def trusts_def)
qed

lemma utf8_ok_consts [simp]:
  "utf8_ok ''/edge/''" "utf8_ok ''/subnet/''" "utf8_ok ''/hello''" "utf8_ok KindAddNode" "utf8_ok KindAddEdge"
  "utf8_ok KindDelEdge" "utf8_ok KindAddSubnet" "utf8_ok KindDelSubnet"
  by (rule utf8_ok_ascii, simp add: ascii_def)+

text \<open>
  C3: what a node announces reaches every peer that holds its key and has not seen a newer version.
  The one broadcast envelope encodes, decodes to the same envelope, and the peer applies it: an
  announced edge is then in the peer's graph in both directions, an announced subnet belongs to the
  node, and a withdrawn subnet no longer does.
\<close>

theorem announcements_delivered:
  assumes "ed25519_correct c" and "trusts c peer a" and "plane_inv peer" and "int64_range now"
    and "utf8_ok x" and "int64_range weight"
    and "newer peer (p_NodeName a @ ''/edge/'' @ x) now" and "newer peer (p_NodeName a @ ''/subnet/'' @ x) now"
  shows "(\<exists>e w. broadcasts (fst (snd (AnnounceAddEdge c berr now x weight a))) = [e] \<and> Encode e = Inr w \<and> Decode w = Inr e \<and>
       HasEdge (p_G (fst (Receive c berr' e peer))) (p_NodeName a) x \<and>
       HasEdge (p_G (fst (Receive c berr' e peer))) x (p_NodeName a)) \<and>
    (\<exists>e w. broadcasts (fst (snd (AnnounceAddSubnet c berr now x a))) = [e] \<and> Encode e = Inr w \<and> Decode w = Inr e \<and>
       x \<in> set (NodeSubnets (p_G (fst (Receive c berr' e peer))) (p_NodeName a))) \<and>
    (\<exists>e w. broadcasts (fst (snd (AnnounceDelSubnet c berr now x a))) = [e] \<and> Encode e = Inr w \<and> Decode w = Inr e \<and>
       x \<notin> set (NodeSubnets (p_G (fst (Receive c berr' e peer))) (p_NodeName a)))"
proof -
  have n: "utf8_ok (p_NodeName a)" using assms(2) by (simp add: trusts_def)
  have g: "graph_inv (p_G peer)" using assms(3) by (rule inv_graph)
  note del = originate_delivered [OF assms(1,2) _ _ _ assms(4), of _ _ _ berr berr']
  have i: "utf8_ok (p_NodeName a @ ''/edge/'' @ x)" "utf8_ok (p_NodeName a @ ''/subnet/'' @ x)"
    using n assms(5) by (simp_all add: utf8_ok_append del: append_Cons)
  show ?thesis
    using del [OF i(1) utf8_ok_consts(5) _ payload_ok_json(2) assms(7),
        of "\<lparr>ae_From = p_NodeName a, ae_To = x, ae_Weight = weight\<rparr>"]
      del [OF i(2) utf8_ok_consts(7) _ payload_ok_json(4) assms(8),
        of "\<lparr>sm_Owner = p_NodeName a, sm_Subnet = x\<rparr>"]
      del [OF i(2) utf8_ok_consts(8) _ payload_ok_json(4) assms(8),
        of "\<lparr>sm_Owner = p_NodeName a, sm_Subnet = x\<rparr>"]
      n assms(5,6) g
    unfolding AnnounceAddEdge_def AnnounceAddSubnet_def AnnounceDelSubnet_def
    by (auto simp: apply_env_def apply_kind_def addEdge_roundtrip subnetMsg_roundtrip HasEdge_def AddEdge_get
        NodeSubnets_Add NodeSubnets_Del)
qed

definition toy_key :: bytes where
  "toy_key = replicate 32 1"

definition alice :: plane where
  "alice = SetSigner toy_key (NewPlane ''alice'' New)"

definition bob :: plane where
  "bob = SetVerifier (\<lambda>n. if n = ''alice'' then Some (Ed_Public toy_crypto toy_key) else None) (NewPlane ''bob'' New)"

lemma alice_bob: "trusts toy_crypto bob alice" "plane_inv bob" "newer bob i t"
proof -
  have "utf8_ok ''alice''" by (rule utf8_ok_ascii) (simp add: ascii_def)
  then show "trusts toy_crypto bob alice"
    by (simp add: trusts_def alice_def bob_def SetSigner_def SetVerifier_def NewPlane_def)
  show "plane_inv bob" using inv_NewPlane [OF inv_New, of "''bob''"] by (simp add: bob_def SetVerifier_def plane_inv_def)
  show "newer bob i t" by (simp add: newer_def bob_def SetVerifier_def NewPlane_def)
qed

theorem announcements_delivered_witness:
  "\<exists>e w. broadcasts (fst (snd (AnnounceAddEdge toy_crypto (\<lambda>_. None) 7 ''carol'' 10 alice))) = [e] \<and>
     Encode e = Inr w \<and> Decode w = Inr e \<and>
     HasEdge (p_G (fst (Receive toy_crypto (\<lambda>_. None) e bob))) ''alice'' ''carol''"
proof -
  have "utf8_ok ''carol''" by (rule utf8_ok_ascii) (simp add: ascii_def)
  from announcements_delivered [OF toy_correct(1) alice_bob(1,2) _ this _ alice_bob(3) alice_bob(3),
      of 7 10 "\<lambda>_. None" "\<lambda>_. None"]
  show ?thesis by (auto simp: int64_range_def alice_def SetSigner_def NewPlane_def)
qed

text \<open>
  Withdrawing a fact replaces its announcement in the outbox. After a subnet is announced and then
  withdrawn, the outbox has one entry for it, the withdrawal, which every heartbeat sends again; the
  outbox is no longer than before the withdrawal and the subnet is gone from the local graph.
\<close>

theorem withdrawal_replaces_announcement:
  assumes "plane_inv p" and "utf8_ok (p_NodeName p)" and "utf8_ok x"
    and "p1 = fst (AnnounceAddSubnet c b1 t1 x p)" and "p2 = fst (AnnounceDelSubnet c b2 t2 x p1)"
  shows "\<exists>e. mget (p_outbox p2) (p_NodeName p @ ''/subnet/'' @ x) = Some e \<and> env_Kind e = KindDelSubnet \<and> env_TS e = t2 \<and>
    e \<in> set (broadcasts (fst (ResendOutbox (\<lambda>_. None) p2))) \<and> OutboxSize p2 = OutboxSize p1 \<and>
    x \<notin> set (NodeSubnets (p_G p2) (p_NodeName p))"
proof -
  let ?i = "p_NodeName p @ ''/subnet/'' @ x"
  obtain fx1 r1 where o1: "AnnounceAddSubnet c b1 t1 x p = (p1, fx1, r1)" using assms(4) by (metis prod_cases3 fst_conv)
  obtain fx2 r2 where o2: "AnnounceDelSubnet c b2 t2 x p1 = (p2, fx2, r2)" using assms(5) by (metis prod_cases3 fst_conv)
  from o1 obtain e1 where e1: "mget (p_outbox p1) ?i = Some e1"
    "p1 = fst (apply_env e1 (p\<lparr>p_outbox := mput ?i e1 (p_outbox p), p_seen := mput ?i t1 (p_seen p)\<rparr>))"
    unfolding AnnounceAddSubnet_def by (rule originate_parts) blast
  then have n1: "p_NodeName p1 = p_NodeName p" by simp
  from o2 [unfolded AnnounceDelSubnet_def n1] obtain e2 where e2: "mget (p_outbox p2) ?i = Some e2"
    "p2 = fst (apply_env e2 (p1\<lparr>p_outbox := mput ?i e2 (p_outbox p1), p_seen := mput ?i t2 (p_seen p1)\<rparr>))"
    "env_Kind e2 = KindDelSubnet" "env_TS e2 = t2" "env_Payload e2 = subnetMsg_json \<lparr>sm_Owner = p_NodeName p, sm_Subnet = x\<rparr>"
    by (rule originate_parts) blast
  have all: "broadcasts (fst (resend (\<lambda>_. None) es)) = es" for es
    by (induction es) (simp_all add: case_prod_beta)
  have "e2 \<in> set (broadcasts (fst (ResendOutbox (\<lambda>_. None) p2)))"
    using mget_in_set [OF e2(1)] by (force simp: ResendOutbox_def all)
  moreover have "plane_inv p1" using assms(1,4) unfolding AnnounceAddSubnet_def by (simp add: inv_originate)
  then have "OutboxSize p2 = OutboxSize p1"
    using e1(1) gm.length_keys_put_same [of "p_outbox p1" ?i e2]
    by (simp add: e2(2) OutboxSize_def plane_inv_def mkeys_def)
  moreover have "x \<notin> set (NodeSubnets (p_G p2) (p_NodeName p))"
    using e2(3,5) assms(2,3)
    by (simp add: e2(2) apply_env_def apply_kind_def subnetMsg_roundtrip NodeSubnets_Del)
  ultimately show ?thesis using e2 by blast
qed

theorem withdrawal_replaces_announcement_witness:
  "OutboxSize (fst (AnnounceDelSubnet toy_crypto (\<lambda>_. None) 2 ''10.0.0.0/8''
     (fst (AnnounceAddSubnet toy_crypto (\<lambda>_. None) 1 ''10.0.0.0/8'' (NewPlane ''a'' New))))) =
   OutboxSize (fst (AnnounceAddSubnet toy_crypto (\<lambda>_. None) 1 ''10.0.0.0/8'' (NewPlane ''a'' New)))"
proof -
  have "utf8_ok (p_NodeName (NewPlane ''a'' New))" "utf8_ok ''10.0.0.0/8''"
    by (rule utf8_ok_ascii, simp add: ascii_def NewPlane_def)+
  from withdrawal_replaces_announcement [OF inv_NewPlane [OF inv_New] this refl refl] show ?thesis by blast
qed

end
