(* ===== verification/Converge.thy ===== *)
theory Converge
  imports Plane
begin

text \<open>
  Agreement between replicas: subnet facts converge (an instance of \<open>lww\<close>), edge facts need not; what
  a signature binds; and what concurrent \<open>Receive\<close> calls guarantee.
\<close>

section \<open>Subnet facts\<close>

definition subnet_id :: "string \<Rightarrow> string \<Rightarrow> string" where
  "subnet_id owner sn = owner @ ''/subnet/'' @ sn"

text \<open>The owner and the subnet of a well-formed identifier.\<close>

definition subnet_key :: "string \<Rightarrow> (string \<times> string) option" where
  "subnet_key i =
     (case cut_first (CHR ''/'') i of
        None \<Rightarrow> None
      | Some (owner, r) \<Rightarrow> if take 7 r = ''subnet/'' then Some (owner, drop 7 r) else None)"

lemma subnet_key_id: "CHR ''/'' \<notin> set owner \<Longrightarrow> subnet_key (subnet_id owner sn) = Some (owner, sn)"
  by (simp add: subnet_key_def subnet_id_def)

lemma subnet_key_Some:
  assumes "subnet_key i = Some (owner, sn)"
  shows "i = subnet_id owner sn \<and> CHR ''/'' \<notin> set owner"
proof -
  obtain r where r: "cut_first (CHR ''/'') i = Some (owner, r)" "take 7 r = ''subnet/''" "sn = drop 7 r"
    using assms by (auto simp: subnet_key_def split: option.splits if_splits)
  have "CHR ''/'' \<in> set i" using r(1) by (auto simp: cut_first_def split: if_splits)
  then obtain ys zs where i: "i = ys @ CHR ''/'' # zs" "CHR ''/'' \<notin> set ys" by (meson split_list_first)
  then have o: "owner = ys" "r = zs" using r(1) cut_first_append [of "CHR ''/''" ys zs] by auto
  then have "i = owner @ CHR ''/'' # r" using i by simp
  moreover have "r = ''subnet/'' @ sn" using r(2,3) by (metis append_take_drop_id)
  moreover have "CHR ''/'' \<notin> set owner" using o(1) i(2) by simp
  ultimately show ?thesis by (simp add: subnet_id_def)
qed

text \<open>An envelope of the form \<open>AnnounceAddSubnet\<close> and \<open>AnnounceDelSubnet\<close> mint.\<close>

definition subnet_fact :: "envelope \<Rightarrow> bool" where
  "subnet_fact e =
     (case subnet_key (env_ID e) of
        None \<Rightarrow> False
      | Some (owner, sn) \<Rightarrow>
          utf8_ok owner \<and> utf8_ok sn \<and> env_Origin e = owner \<and>
          env_Payload e = subnetMsg_json \<lparr>sm_Owner = owner, sm_Subnet = sn\<rparr> \<and>
          (env_Kind e = KindAddSubnet \<or> env_Kind e = KindDelSubnet))"

definition authentic :: "crypto \<Rightarrow> (string \<Rightarrow> bytes option) \<Rightarrow> envelope \<Rightarrow> bool" where
  "authentic c f e =
     (case f (env_Origin e) of
        None \<Rightarrow> False | Some k \<Rightarrow> k \<noteq> [] \<and> Verify c k (SigningBytes e) (env_Signature e))"

definition has_subnet :: "plane \<Rightarrow> string \<Rightarrow> bool" where
  "has_subnet p i =
     (case subnet_key i of None \<Rightarrow> False | Some (owner, sn) \<Rightarrow> sn \<in> set (NodeSubnets (p_G p) owner))"

lemma authentic_verify: "authentic c f e \<Longrightarrow> p_pubKeyFor p = Some f \<Longrightarrow> verify_env c p e"
  by (auto simp: authentic_def verify_env_def Let_def split: option.splits)

lemma apply_subnet_fact:
  assumes "subnet_fact e"
  shows "has_subnet (fst (apply_env e p)) i = (if i = env_ID e then env_Kind e = KindAddSubnet else has_subnet p i)"
proof -
  obtain owner sn where k: "subnet_key (env_ID e) = Some (owner, sn)" using assms
    by (auto simp: subnet_fact_def split: option.splits)
  have f: "subnetMsg_parse (env_Payload e) = Some \<lparr>sm_Owner = owner, sm_Subnet = sn\<rparr>"
    and kind: "env_Kind e = KindAddSubnet \<or> env_Kind e = KindDelSubnet"
    using assms k by (auto simp: subnet_fact_def subnetMsg_roundtrip)
  have ne: "i \<noteq> env_ID e \<Longrightarrow> subnet_key i \<noteq> Some (owner, sn)"
    using subnet_key_Some [OF k] subnet_key_Some [of i owner sn] by auto
  from kind show ?thesis
  proof
    assume a: "env_Kind e = KindAddSubnet"
    then have "fst (apply_env e p) = p\<lparr>p_G := AddSubnet owner sn (p_G p)\<rparr>"
      using f by (simp add: apply_env_def apply_kind_def)
    then show ?thesis using a k ne by (auto simp: has_subnet_def NodeSubnets_Add split: option.splits)
  next
    assume d: "env_Kind e = KindDelSubnet"
    then have "fst (apply_env e p) = p\<lparr>p_G := DelSubnet owner sn (p_G p)\<rparr>"
      using f by (simp add: apply_env_def apply_kind_def)
    then show ?thesis using d k ne by (auto simp: has_subnet_def NodeSubnets_Del split: option.splits)
  qed
qed

interpretation sub: lww "\<lambda>p. mget (p_seen p)" "recv1 c berr" env_ID env_TS
  "\<lambda>e. subnet_fact e \<and> authentic c f e" "\<lambda>p. p_pubKeyFor p = Some f" has_subnet "\<lambda>e. env_Kind e = KindAddSubnet"
proof unfold_locales
  fix e and p :: plane and i
  assume ok: "subnet_fact e \<and> authentic c f e" and inv: "p_pubKeyFor p = Some f"
  have v: "verify_env c p e" using ok inv authentic_verify by blast
  show "p_pubKeyFor (fst (recv1 c berr e p)) = Some f"
    using inv by (cases rule: Receive_cases [where c = c and p = p and e = e and berr = berr]) (auto simp: recv1_def Let_def)
  show "snd (recv1 c berr e p) \<noteq> []" if "\<forall>t. mget (p_seen p) (env_ID e) = Some t \<longrightarrow> t < env_TS e"
    using that v by (cases rule: Receive_cases [where c = c and p = p and e = e and berr = berr]) (auto simp: recv1_def Let_def)
  show "has_subnet (fst (recv1 c berr e p)) = has_subnet p" if "snd (recv1 c berr e p) = []"
    using that by (cases rule: Receive_cases [where c = c and p = p and e = e and berr = berr]) (auto simp: recv1_def Let_def)
  have s: "has_subnet (p\<lparr>p_seen := m\<rparr>) j = has_subnet p j" for m j by (auto simp: has_subnet_def split: option.splits)
  show "has_subnet (fst (recv1 c berr e p)) i = (if i = env_ID e then env_Kind e = KindAddSubnet else has_subnet p i)"
    if "snd (recv1 c berr e p) \<noteq> []"
    using that v ok apply_subnet_fact [of e "p\<lparr>p_seen := mput (env_ID e) (env_TS e) (p_seen p)\<rparr>" i]
    by (cases rule: Receive_cases [where c = c and p = p and e = e and berr = berr]) (auto simp: recv1_def Let_def s)
qed

text \<open>
  C4: subnet ownership converges. Two nodes that start in agreement and receive the same authentic
  subnet announcements and withdrawals, in any two orders and with any repetitions, end with the same
  subnets for every node, provided no origin signs an announcement and a withdrawal of one subnet with
  the same timestamp.
\<close>

theorem subnets_converge:
  assumes "\<forall>e \<in> set es. subnet_fact e \<and> authentic c f e" and "set es' = set es"
    and "\<forall>a \<in> set es. \<forall>b \<in> set es. env_ID a = env_ID b \<and> env_TS a = env_TS b \<longrightarrow> env_Kind a = env_Kind b"
    and "p_pubKeyFor p = Some f" and "p_pubKeyFor r = Some f"
    and "\<forall>i. mget (p_seen p) i = mget (p_seen r) i"
    and "\<forall>n. set (NodeSubnets (p_G p) n) = set (NodeSubnets (p_G r) n)" and "CHR ''/'' \<notin> set n"
  shows "set (NodeSubnets (p_G (fst (Receive_all c berr es p))) n) =
    set (NodeSubnets (p_G (fst (Receive_all c berr' es' r))) n)"
proof -
  have fn: "sub.functional (set es)"
    unfolding sub.functional_def
  proof (intro ballI impI)
    fix a b assume "a \<in> set es" "b \<in> set es" "env_ID a = env_ID b \<and> env_TS a = env_TS b"
    then have "env_Kind a = env_Kind b" using assms(3) by blast
    then show "(env_Kind a = KindAddSubnet) = (env_Kind b = KindAddSubnet)" by (rule arg_cong)
  qed
  have run: "fst (rel.run c berr' es' r) = fst (rel.run c berr es' r)"
  proof -
    have "fst (Receive c berr' e q) = fst (Receive c berr e q)" for e q
    proof -
      obtain b q' where "claim (env_ID e) (env_TS e) q = (b, q')" by force
      then show ?thesis by (cases b) (simp_all add: Receive_def case_prod_beta Let_def)
    qed
    then show ?thesis unfolding Receive_all_run [symmetric]
      by (induction es' arbitrary: r) (simp_all add: Let_def)
  qed
  have "x \<in> set (NodeSubnets (p_G (fst (rel.run c berr es p))) n) \<longleftrightarrow>
      x \<in> set (NodeSubnets (p_G (fst (rel.run c berr es' r))) n)" for x
  proof -
    have "has_subnet p (subnet_id n x) = has_subnet r (subnet_id n x)"
      using assms(7) by (auto simp: has_subnet_def split: option.splits)
    then have "has_subnet (fst (rel.run c berr es p)) (subnet_id n x) = has_subnet (fst (rel.run c berr es' r)) (subnet_id n x)"
      using sub.converge [OF assms(1,4,5,2) fn] assms(6) by blast
    then show ?thesis using subnet_key_id [OF assms(8), of x] by (simp add: has_subnet_def)
  qed
  then show ?thesis unfolding Receive_all_run run by blast
qed

text \<open>A signed announcement and a later withdrawal, for the examples below.\<close>

definition sub_env :: "string \<Rightarrow> int \<Rightarrow> envelope" where
  "sub_env kind t = sign_env toy_crypto alice \<lparr>env_ID = ''alice/subnet/10.0.0.0/8'', env_Origin = ''alice'',
     env_Kind = kind, env_TS = t, env_Payload = subnetMsg_json \<lparr>sm_Owner = ''alice'', sm_Subnet = ''10.0.0.0/8''\<rparr>,
     env_Signature = []\<rparr>"

definition alice_key :: "string \<Rightarrow> bytes option" where
  "alice_key n = (if n = ''alice'' then Some (Ed_Public toy_crypto toy_key) else None)"

lemma sub_env_fact:
  assumes "kind = KindAddSubnet \<or> kind = KindDelSubnet"
  shows "subnet_fact (sub_env kind t) \<and> authentic toy_crypto alice_key (sub_env kind t)"
proof -
  have u: "utf8_ok ''alice''" "utf8_ok ''10.0.0.0/8''" by (rule utf8_ok_ascii, simp add: ascii_def)+
  have p: "p_edPriv alice = Some toy_key" by (simp add: alice_def SetSigner_def)
  have k: "subnet_key ''alice/subnet/10.0.0.0/8'' = Some (''alice'', ''10.0.0.0/8'')"
    using subnet_key_id [of "''alice''" "''10.0.0.0/8''"] by (simp add: subnet_id_def)
  have "length (Ed_Public toy_crypto toy_key) = 32"
    using toy_correct(1) by (simp add: ed25519_correct_def Ed_Public_def PublicKeySize_def)
  then have ne: "Ed_Public toy_crypto toy_key \<noteq> []" by auto
  have "Verify toy_crypto (Ed_Public toy_crypto toy_key) (SigningBytes (sub_env kind t)) (env_Signature (sub_env kind t))"
    unfolding sub_env_def by (rule sign_verifies [OF toy_correct(1) p])
  moreover have "env_Origin (sub_env kind t) = ''alice''" "env_ID (sub_env kind t) = ''alice/subnet/10.0.0.0/8''"
    "env_Kind (sub_env kind t) = kind"
    "env_Payload (sub_env kind t) = subnetMsg_json \<lparr>sm_Owner = ''alice'', sm_Subnet = ''10.0.0.0/8''\<rparr>"
    by (simp_all add: sub_env_def sign_env_def split: option.splits)
  ultimately show ?thesis using assms ne u k by (simp add: subnet_fact_def authentic_def alice_key_def)
qed

theorem subnets_converge_witness:
  "set (NodeSubnets (p_G (fst (Receive_all toy_crypto (\<lambda>_. None) [sub_env KindAddSubnet 1, sub_env KindDelSubnet 2]
      (SetVerifier alice_key (NewPlane ''bob'' New))))) ''alice'') =
   set (NodeSubnets (p_G (fst (Receive_all toy_crypto (\<lambda>_. None)
      [sub_env KindDelSubnet 2, sub_env KindAddSubnet 1, sub_env KindDelSubnet 2]
      (SetVerifier alice_key (NewPlane ''carol'' New))))) ''alice'')"
proof -
  have ts: "env_TS (sub_env k t) = t" for k t by (simp add: sub_env_def sign_env_def split: option.splits)
  show ?thesis
    by (rule subnets_converge [where f = alice_key])
      (auto simp: sub_env_fact ts SetVerifier_def NewPlane_def)
qed

section \<open>Edge facts\<close>

text \<open>
  An edge is announced under two identifiers, one per end, and both write the same entry of the
  graph; the later of two claims by different ends does not win over the earlier one. \<open>edge_env\<close> is what
  \<open>AnnounceAddEdge\<close> and \<open>AnnounceDelEdge\<close> mint on an unsigned plane.
\<close>

definition add_ab :: envelope where
  "add_ab = \<lparr>env_ID = ''alice/edge/bob'', env_Origin = ''alice'', env_Kind = KindAddEdge, env_TS = 1,
     env_Payload = addEdge_json \<lparr>ae_From = ''alice'', ae_To = ''bob'', ae_Weight = 10\<rparr>, env_Signature = []\<rparr>"

definition del_ba :: envelope where
  "del_ba = \<lparr>env_ID = ''bob/edge/alice'', env_Origin = ''bob'', env_Kind = KindDelEdge, env_TS = 2,
     env_Payload = delEdge_json \<lparr>de_From = ''bob'', de_To = ''alice''\<rparr>, env_Signature = []\<rparr>"


section \<open>What a signature binds\<close>

text \<open>
  A signature binds the whole message. Envelopes whose identifier, origin and kind contain no NUL
  byte, as those minted by the plane do, and that have the same signed bytes agree in every field but
  the signature, so no intermediary can move a signature to another fact, kind, time or payload.
\<close>

theorem signature_binds_message:
  assumes "no_nul (env_ID e)" and "no_nul (env_Origin e)" and "no_nul (env_Kind e)" and "int64_range (env_TS e)"
    and "no_nul (env_ID f)" and "no_nul (env_Origin f)" and "no_nul (env_Kind f)" and "int64_range (env_TS f)"
  shows "SigningBytes e = SigningBytes f \<longleftrightarrow> e\<lparr>env_Signature := []\<rparr> = f\<lparr>env_Signature := []\<rparr>"
proof
  assume "e\<lparr>env_Signature := []\<rparr> = f\<lparr>env_Signature := []\<rparr>"
  then have "SigningBytes (e\<lparr>env_Signature := []\<rparr>) = SigningBytes (f\<lparr>env_Signature := []\<rparr>)" by (rule arg_cong)
  then show "SigningBytes e = SigningBytes f" by (simp only: SigningBytes_sig)
qed (rule SigningBytes_inj [OF assms])

theorem signature_binds_message_witness:
  "SigningBytes (ping 1) \<noteq> SigningBytes (ping (-1))"
  using signature_binds_message [of "ping 1" "ping (-1)"] by (simp add: ping_def no_nul_def int64_range_def)

section \<open>Concurrent receivers\<close>

text \<open>
  Every connection calls \<open>Receive\<close> from its own goroutine. The mutex makes the claim atomic and the graph
  lock makes the update atomic, but between the two another goroutine may run. A state is the plane, the
  envelopes claimed but not yet applied, and those applied and broadcast so far, in order.
\<close>

type_synonym recv_state = "plane \<times> envelope list \<times> envelope list"

inductive recv_step :: "crypto \<Rightarrow> recv_state \<Rightarrow> recv_state \<Rightarrow> bool" for c where
  reject: "\<not> verify_env c p e \<Longrightarrow> recv_step c (p, pend, out) (p, pend, out)"
| drop: "verify_env c p e \<Longrightarrow> claim (env_ID e) (env_TS e) p = (False, q) \<Longrightarrow> recv_step c (p, pend, out) (q, pend, out)"
| claim: "verify_env c p e \<Longrightarrow> claim (env_ID e) (env_TS e) p = (True, q) \<Longrightarrow>
    recv_step c (p, pend, out) (q, pend @ [e], out)"
| finish: "recv_step c (p, xs @ e # ys, out) (fst (apply_env e p), xs @ ys, out @ [e])"

inductive_cases recv_stepE: "recv_step c s t"

definition version :: "envelope \<Rightarrow> string \<times> int" where
  "version e = (env_ID e, env_TS e)"

definition recv_inv :: "recv_state \<Rightarrow> bool" where
  "recv_inv s \<longleftrightarrow>
     (case s of (p, pend, out) \<Rightarrow>
        plane_inv p \<and> distinct (map version (pend @ out)) \<and>
        (\<forall>e \<in> set (pend @ out). \<exists>t. mget (p_seen p) (env_ID e) = Some t \<and> env_TS e \<le> t))"

lemma recv_inv_step:
  assumes "recv_step c s t" and inv: "recv_inv s" shows "recv_inv t"
  using assms(1)
proof cases
  case (drop p e q pend out)
  then have "q = p" by (cases rule: claim_cases [where p = p and i = "env_ID e" and ts = "env_TS e"]) auto
  with drop inv show ?thesis by simp
next
  case (claim p e q pend out)
  then have new: "\<forall>t. mget (p_seen p) (env_ID e) = Some t \<longrightarrow> t < env_TS e"
    and q: "q = p\<lparr>p_seen := mput (env_ID e) (env_TS e) (p_seen p)\<rparr>"
    by (cases rule: claim_cases [where p = p and i = "env_ID e" and ts = "env_TS e"]; auto)+
  have old: "plane_inv p" "distinct (map version (pend @ out))"
    "\<And>x. x \<in> set (pend @ out) \<Longrightarrow> \<exists>t. mget (p_seen p) (env_ID x) = Some t \<and> env_TS x \<le> t"
    using inv claim(1) by (auto simp: recv_inv_def)
  have "version x \<noteq> version e" if "x \<in> set (pend @ out)" for x
    using old(3) [OF that] new by (auto simp: version_def)
  then have "version e \<notin> version ` set (pend @ out)" by (metis imageE)
  then have "distinct (map version (pend @ [e] @ out))" using old(2) by auto
  moreover have "\<exists>t. mget (p_seen q) (env_ID x) = Some t \<and> env_TS x \<le> t" if "x \<in> set (pend @ [e] @ out)" for x
  proof (cases "env_ID x = env_ID e")
    case True
    then show ?thesis using that old(3) [of x] new q by (auto; fastforce)
  next
    case False
    then show ?thesis using that old(3) [of x] q by auto
  qed
  ultimately show ?thesis using claim(2) inv_seen [OF old(1) new] q by (simp add: recv_inv_def)
next
  case (finish p xs e ys out)
  then show ?thesis using inv by (auto simp: recv_inv_def inv_apply_env)
qed (use inv in simp)

lemma recv_inv_reach: "(recv_step c)\<^sup>*\<^sup>* s t \<Longrightarrow> recv_inv s \<Longrightarrow> recv_inv t"
  by (induction rule: rtranclp_induct) (auto intro: recv_inv_step)


definition carol :: plane where
  "carol = SetVerifier alice_key (NewPlane ''carol'' New)"

definition carol_seen :: "int \<Rightarrow> plane" where
  "carol_seen t = carol\<lparr>p_seen := [(''alice/subnet/10.0.0.0/8'', t)]\<rparr>"

lemma carol_claims:
  "recv_step toy_crypto (carol, [], []) (carol_seen 1, [sub_env KindAddSubnet 1], [])"
  "recv_step toy_crypto (carol_seen 1, [sub_env KindAddSubnet 1], [])
     (carol_seen 2, [sub_env KindAddSubnet 1, sub_env KindDelSubnet 2], [])"
proof -
  have v: "verify_env toy_crypto p (sub_env k t)"
    if "p_pubKeyFor p = Some alice_key" "k = KindAddSubnet \<or> k = KindDelSubnet" for p k t
    using authentic_verify sub_env_fact that by blast
  have id: "env_ID (sub_env k t) = ''alice/subnet/10.0.0.0/8''" "env_TS (sub_env k t) = t" for k t
    by (simp_all add: sub_env_def sign_env_def split: option.splits)
  have "claim ''alice/subnet/10.0.0.0/8'' 1 carol = (True, carol_seen 1)"
    by (simp add: claim_def carol_def SetVerifier_def NewPlane_def carol_seen_def mput_def)
  then show "recv_step toy_crypto (carol, [], []) (carol_seen 1, [sub_env KindAddSubnet 1], [])"
    using recv_step.claim [of toy_crypto carol "sub_env KindAddSubnet 1" "carol_seen 1" "[]" "[]"] v [of carol KindAddSubnet 1] id
    by (simp add: carol_def SetVerifier_def)
  have "claim ''alice/subnet/10.0.0.0/8'' 2 (carol_seen 1) = (True, carol_seen 2)"
    by (simp add: claim_def carol_def SetVerifier_def NewPlane_def carol_seen_def mput_def mget_def)
  then show "recv_step toy_crypto (carol_seen 1, [sub_env KindAddSubnet 1], [])
     (carol_seen 2, [sub_env KindAddSubnet 1, sub_env KindDelSubnet 2], [])"
    using recv_step.claim [of toy_crypto "carol_seen 1" "sub_env KindDelSubnet 2" "carol_seen 2" "[sub_env KindAddSubnet 1]" "[]"]
      v [of "carol_seen 1" KindDelSubnet 2] id
    by (simp add: carol_seen_def carol_def SetVerifier_def)
qed

definition carol_end :: plane where
  "carol_end = fst (apply_env (sub_env KindAddSubnet 1) (fst (apply_env (sub_env KindDelSubnet 2) (carol_seen 2))))"

lemma carol_run:
  "(recv_step toy_crypto)\<^sup>*\<^sup>* (carol, [], []) (carol_end, [], [sub_env KindDelSubnet 2, sub_env KindAddSubnet 1])"
proof -
  let ?p = "fst (apply_env (sub_env KindDelSubnet 2) (carol_seen 2))"
  have "recv_step toy_crypto (carol_seen 2, [sub_env KindAddSubnet 1, sub_env KindDelSubnet 2], [])
      (?p, [sub_env KindAddSubnet 1], [sub_env KindDelSubnet 2])"
    using finish [of toy_crypto "carol_seen 2" "[sub_env KindAddSubnet 1]" "sub_env KindDelSubnet 2" "[]" "[]"] by simp
  moreover have "recv_step toy_crypto (?p, [sub_env KindAddSubnet 1], [sub_env KindDelSubnet 2])
      (carol_end, [], [sub_env KindDelSubnet 2, sub_env KindAddSubnet 1])"
    using finish [of toy_crypto ?p "[]" "sub_env KindAddSubnet 1" "[]" "[sub_env KindDelSubnet 2]"]
    by (simp add: carol_end_def)
  ultimately show ?thesis using carol_claims by (meson converse_rtranclp_into_rtranclp rtranclp.rtrancl_refl)
qed


text \<open>
  C38: the claim alone does not order the updates. Two receivers of alice's announcement and of her later
  withdrawal can interleave so that the withdrawal is applied first: the node ends with the withdrawn
  subnet in its graph although it has recorded the withdrawal, so no retransmission repairs it.
\<close>

theorem race_resurrects_subnet:
  "\<exists>q out. (recv_step toy_crypto)\<^sup>*\<^sup>* (carol, [], []) (q, [], out) \<and>
     set out = {sub_env KindAddSubnet 1, sub_env KindDelSubnet 2} \<and>
     has_subnet q ''alice/subnet/10.0.0.0/8'' \<and> mget (p_seen q) ''alice/subnet/10.0.0.0/8'' = Some 2 \<and>
     Receive toy_crypto berr (sub_env KindDelSubnet 2) q = (q, [], None)"
proof -
  have id: "env_ID (sub_env k t) = ''alice/subnet/10.0.0.0/8''" "env_Kind (sub_env k t) = k" "env_TS (sub_env k t) = t" for k t
    by (simp_all add: sub_env_def sign_env_def split: option.splits)
  have sn: "has_subnet carol_end ''alice/subnet/10.0.0.0/8''"
    using apply_subnet_fact [of "sub_env KindAddSubnet 1"] sub_env_fact [of KindAddSubnet 1]
    by (simp add: carol_end_def id)
  have seen: "mget (p_seen carol_end) ''alice/subnet/10.0.0.0/8'' = Some 2"
    by (simp add: carol_end_def carol_seen_def mget_def)
  have "verify_env toy_crypto carol_end (sub_env KindDelSubnet 2)"
    using sub_env_fact [of KindDelSubnet 2]
    by (intro authentic_verify [where f = alice_key]) (simp_all add: carol_end_def carol_seen_def carol_def SetVerifier_def)
  then have "Receive toy_crypto berr (sub_env KindDelSubnet 2) carol_end = (carol_end, [], None)"
    using seen by (simp add: Receive_def claim_def id)
  with carol_run sn seen show ?thesis by fastforce
qed

end
