(* ===== verification/Subnet.thy ===== *)
theory Subnet
  imports Netip
begin

text \<open>
  Package \<open>subnet\<close>: a subnet is an IP prefix or a MAC address with a weight. \<open>net.ParseMAC\<close> and
  \<open>HardwareAddr.String\<close> of the standard library are modelled as they are used. The nil MAC is \<open>None\<close>.
\<close>

definition DefaultWeight :: int where
  "DefaultWeight = 10"

record subnet =
  sn_Prefix :: prefix
  sn_MAC :: "bytes option"
  sn_Weight :: int

datatype subnet_error = BadWeight | BadMAC | BadAddr | HostBits

section \<open>MAC addresses\<close>

definition hex2 :: "char \<Rightarrow> char \<Rightarrow> byte option" where
  "hex2 a b = (case (hex_val a, hex_val b) of (Some x, Some y) \<Rightarrow> Some (of_nat (16 * x + y)) | _ \<Rightarrow> None)"

fun mac_sep :: "char \<Rightarrow> string \<Rightarrow> bytes option" where
  "mac_sep e [a, b] = map_option (\<lambda>x. [x]) (hex2 a b)"
| "mac_sep e (a # b # c # s) =
     (if c \<noteq> e then None
      else (case (hex2 a b, mac_sep e s) of (Some x, Some xs) \<Rightarrow> Some (x # xs) | _ \<Rightarrow> None))"
| "mac_sep e _ = None"

fun mac_dot :: "string \<Rightarrow> bytes option" where
  "mac_dot [a, b, c, d] =
     (case (hex2 a b, hex2 c d) of (Some x, Some y) \<Rightarrow> Some [x, y] | _ \<Rightarrow> None)"
| "mac_dot (a # b # c # d # e # s) =
     (if e \<noteq> CHR ''.'' then None
      else (case (hex2 a b, hex2 c d, mac_dot s) of
              (Some x, Some y, Some xs) \<Rightarrow> Some (x # y # xs) | _ \<Rightarrow> None))"
| "mac_dot _ = None"

definition ParseMAC :: "string \<Rightarrow> bytes option" where
  "ParseMAC s =
     (if length s < 14 then None
      else if s ! 2 = CHR '':'' \<or> s ! 2 = CHR ''-'' then
        (if (length s + 1) mod 3 \<noteq> 0 \<or> (length s + 1) div 3 \<notin> {6, 8, 20} then None
         else mac_sep (s ! 2) s)
      else if s ! 4 = CHR ''.'' then
        (if (length s + 1) mod 5 \<noteq> 0 \<or> 2 * (length s + 1) div 5 \<notin> {6, 8, 20} then None
         else mac_dot s)
      else None)"

text \<open>\<open>strconv.ParseUint(p, 16, 8)\<close> on one or two characters.\<close>

definition lenient_octet :: "string \<Rightarrow> byte option" where
  "lenient_octet p =
     (case p of
        [a] \<Rightarrow> map_option of_nat (hex_val a)
      | [a, b] \<Rightarrow> hex2 a b
      | _ \<Rightarrow> None)"

definition parseMAC :: "string \<Rightarrow> (subnet_error, bytes) result" where
  "parseMAC s =
     (case ParseMAC s of
        Some m \<Rightarrow> Inr m
      | None \<Rightarrow>
          let parts = split_on (CHR '':'') s
          in if length parts \<noteq> 6 \<or> None \<in> set (map lenient_octet parts) then Inl BadMAC
             else Inr (map (the \<circ> lenient_octet) parts))"

fun mac_String :: "bytes \<Rightarrow> string" where
  "mac_String [] = []"
| "mac_String [b] = [hex_digit (unat b div 16), hex_digit (unat b mod 16)]"
| "mac_String (b # bs) = [hex_digit (unat b div 16), hex_digit (unat b mod 16), CHR '':''] @ mac_String bs"

section \<open>Subnets\<close>

definition ContainsIP :: "subnet \<Rightarrow> addr \<Rightarrow> bool" where
  "ContainsIP s a = Contains (sn_Prefix s) a"

definition ContainsMAC :: "subnet \<Rightarrow> bytes \<Rightarrow> bool" where
  "ContainsMAC s mac = (case sn_MAC s of None \<Rightarrow> False | Some m \<Rightarrow> m = mac)"

definition subnet_String :: "subnet \<Rightarrow> string" where
  "subnet_String s =
     (let body = (case sn_MAC s of Some m \<Rightarrow> mac_String m | None \<Rightarrow> prefix_String (sn_Prefix s))
      in if sn_Weight s \<noteq> 0 \<and> sn_Weight s \<noteq> DefaultWeight then body @ ''#'' @ Itoa (sn_Weight s) else body)"

definition splitWeight :: "string \<Rightarrow> (subnet_error, string \<times> int) result" where
  "splitWeight s =
     (case cut_first (CHR ''#'') s of
        None \<Rightarrow> Inr (s, DefaultWeight)
      | Some (body, w) \<Rightarrow> (case Atoi w of None \<Rightarrow> Inl BadWeight | Some v \<Rightarrow> Inr (body, v)))"

definition parseBody :: "string \<Rightarrow> (subnet_error, subnet) result" where
  "parseBody s =
     (case parseMAC s of
        Inr m \<Rightarrow> Inr \<lparr>sn_Prefix = NoPrefix, sn_MAC = Some m, sn_Weight = 0\<rparr>
      | Inl _ \<Rightarrow>
          if CHR ''/'' \<notin> set s then
            (case ParseAddr s of
               None \<Rightarrow> Inl BadAddr
             | Some a \<Rightarrow> Inr \<lparr>sn_Prefix = PrefixFrom a (BitLen a), sn_MAC = None, sn_Weight = 0\<rparr>)
          else (case ParsePrefix s of
                  None \<Rightarrow> Inl BadAddr
                | Some p \<Rightarrow> if Masked p \<noteq> p then Inl HostBits
                           else Inr \<lparr>sn_Prefix = p, sn_MAC = None, sn_Weight = 0\<rparr>))"

definition subnet_Parse :: "string \<Rightarrow> (subnet_error, subnet) result" where
  "subnet_Parse s =
     (case splitWeight s of
        Inl e \<Rightarrow> Inl e
      | Inr (body, weight) \<Rightarrow>
          (case parseBody body of Inl e \<Rightarrow> Inl e | Inr sub \<Rightarrow> Inr (sub\<lparr>sn_Weight := weight\<rparr>)))"

section \<open>What a parsed subnet looks like\<close>

lemma mac_sep_length: "mac_sep e s = Some m \<Longrightarrow> 3 * length m = length s + 1"
  by (induction e s arbitrary: m rule: mac_sep.induct) (auto split: if_splits option.splits)

lemma mac_dot_length: "mac_dot s = Some m \<Longrightarrow> 5 * length m = 2 * (length s + 1)"
  by (induction s arbitrary: m rule: mac_dot.induct) (auto split: if_splits option.splits)

lemma ParseMAC_length: "ParseMAC s = Some m \<Longrightarrow> length m \<in> {6, 8, 20}"
  by (auto simp: ParseMAC_def split: if_splits dest!: mac_sep_length mac_dot_length)

lemma parseMAC_length: "parseMAC s = Inr m \<Longrightarrow> length m \<in> {6, 8, 20}"
  by (auto simp: parseMAC_def Let_def split: option.splits if_splits dest: ParseMAC_length)

definition subnet_wf :: "subnet \<Rightarrow> bool" where
  "subnet_wf s \<longleftrightarrow>
     (case sn_MAC s of
        Some m \<Rightarrow> length m \<in> {6, 8, 20} \<and> sn_Prefix s = NoPrefix
      | None \<Rightarrow> prefix_valid (sn_Prefix s) \<and> IsValid (pfx_ip (sn_Prefix s)) \<and> zone_of (pfx_ip (sn_Prefix s)) = [] \<and>
          pfx_bits (sn_Prefix s) \<le> BitLen (pfx_ip (sn_Prefix s)) \<and> Masked (sn_Prefix s) = sn_Prefix s)"

lemma host_prefix_wf:
  assumes "IsValid a"
  shows "prefix_valid (PrefixFrom a (BitLen a)) \<and> IsValid (pfx_ip (PrefixFrom a (BitLen a))) \<and>
    zone_of (pfx_ip (PrefixFrom a (BitLen a))) = [] \<and>
    pfx_bits (PrefixFrom a (BitLen a)) \<le> BitLen (pfx_ip (PrefixFrom a (BitLen a)))"
  using assms by (cases a) (auto simp: PrefixFrom_def prefix_valid_def IsValid_def)

text \<open>
  C40: every subnet that parses is well formed. It is either a MAC subnet, of a legal length and
  covering no IP address, or an IP subnet without zone and without host bits, matching no MAC; a bare
  address stands for the one host it names.
\<close>

theorem subnet_parse_sound:
  assumes "subnet_Parse s = Inr sub"
  shows "subnet_wf sub \<and> \<not> (ContainsIP sub a \<and> ContainsMAC sub m) \<and>
    (\<forall>x. CHR ''#'' \<notin> set s \<and> CHR ''/'' \<notin> set s \<and> sn_MAC sub = None \<and> ParseAddr s = Some x \<longrightarrow>
       (ContainsIP sub a \<longleftrightarrow> zone_of a = [] \<and> a = withoutZone x))"
proof -
  obtain body weight where sw: "splitWeight s = Inr (body, weight)" using assms
    by (auto simp: subnet_Parse_def split: sum.splits)
  then obtain b where b: "parseBody body = Inr b" "sub = b\<lparr>sn_Weight := weight\<rparr>" using assms
    by (auto simp: subnet_Parse_def split: sum.splits)
  have wf: "subnet_wf sub"
    using b by (auto simp: parseBody_def subnet_wf_def Masked_host host_prefix_wf dest: parseMAC_length ParseAddr_valid
        ParsePrefix_wf split: sum.splits if_splits option.splits)
  moreover have "\<not> (ContainsIP sub a \<and> ContainsMAC sub m)"
    using wf by (auto simp: subnet_wf_def ContainsIP_def ContainsMAC_def Contains_def NoPrefix_def prefix_valid_def
        split: option.splits)
  moreover have "ContainsIP sub a \<longleftrightarrow> zone_of a = [] \<and> a = withoutZone x"
    if "CHR ''#'' \<notin> set s" "CHR ''/'' \<notin> set s" "sn_MAC sub = None" "ParseAddr s = Some x" for x
  proof -
    have "body = s" using sw that(1) by (auto simp: splitWeight_def cut_first_None)
    then have "sn_Prefix sub = PrefixFrom x (BitLen x)"
      using b that by (auto simp: parseBody_def split: sum.splits)
    then show ?thesis using host_prefix_Contains ParseAddr_valid [OF that(4)] by (simp add: ContainsIP_def)
  qed
  ultimately show ?thesis by blast
qed

definition net10 :: subnet where
  "net10 = \<lparr>sn_Prefix = \<lparr>pfx_ip = Addr4 0x0A000000, pfx_bits = 8\<rparr>, sn_MAC = None, sn_Weight = 10\<rparr>"

section \<open>Round trips\<close>

lemma hex_val_digit: "d < 16 \<Longrightarrow> hex_val (hex_digit d) = Some d"
  by (simp add: hex_val_def hex_digit_def Let_def)

lemma byte_lt_256: "unat (b :: byte) < 256"
proof -
  have "unat b < 2 ^ LENGTH(8)" by (rule unsigned_less)
  then show ?thesis by simp
qed

lemma hex2_byte: "hex2 (hex_digit (unat b div 16)) (hex_digit (unat b mod 16)) = Some b"
proof -
  have "unat b div 16 < 16" using byte_lt_256 [of b] by (simp add: div_less_iff_less_mult)
  moreover have "16 * (unat b div 16) + unat b mod 16 = unat b" by simp
  ultimately show ?thesis unfolding hex2_def by (simp add: hex_val_digit) 
qed

lemma mac_sep_String: "bs \<noteq> [] \<Longrightarrow> mac_sep (CHR '':'') (mac_String bs) = Some bs"
proof (induction bs rule: mac_String.induct)
  case (3 b c bs)
  then show ?case by (cases bs) (auto simp: hex2_byte)
qed (auto simp: hex2_byte)

lemma length_mac_String: "bs \<noteq> [] \<Longrightarrow> length (mac_String bs) + 1 = 3 * length bs"
  by (induction bs rule: mac_String.induct) auto

lemma ParseMAC_String: "length m \<in> {6, 8, 20} \<Longrightarrow> ParseMAC (mac_String m) = Some m"
proof -
  assume l: "length m \<in> {6, 8, 20}"
  then have ne: "m \<noteq> []" by auto
  obtain a b r where m: "m = a # b # r" using l by (cases m; cases "tl m") auto
  then have c: "mac_String m ! 2 = CHR '':''" by (simp add: numeral_2_eq_2)
  have len: "length (mac_String m) + 1 = 3 * length m" by (rule length_mac_String [OF ne])
  then have "\<not> length (mac_String m) < 14" using l by auto
  then show ?thesis using c len l mac_sep_String [OF ne] by (simp add: ParseMAC_def)
qed

lemma nat_str_notin: "\<not> is_digit c \<Longrightarrow> c \<notin> set (nat_str n)"
  using nat_str_digits by blast

lemma string4_notin: "\<not> is_digit c \<Longrightarrow> c \<noteq> CHR ''.'' \<Longrightarrow> c \<notin> set (string4 w)"
  using string4_chars by blast

lemma nat_str_short: "n \<le> 255 \<Longrightarrow> length (nat_str n) \<le> 3"
proof -
  assume n: "n \<le> 255"
  have "length (nat_str m) \<le> 1" if "m < 10" for m using that by (simp add: nat_str.simps [of m])
  then have 2: "length (nat_str m) \<le> 2" if "m < 100" for m
    using that by (subst nat_str.simps) (auto simp: le_Suc_eq)
  then show ?thesis using n by (subst nat_str.simps) (auto simp: le_Suc_eq)
qed

lemma mac_dot_nonhex: "mac_dot s = Some m \<Longrightarrow> c \<in> set (take 4 s) \<Longrightarrow> is_hex c"
  by (cases s rule: mac_dot.cases)
    (auto simp: hex2_def is_hex_def numeral_eq_Suc split: if_splits option.splits)

lemma ParseMAC_string4: "ParseMAC (string4 w @ CHR ''/'' # t) = None" if "CHR '':'' \<notin> set t" "CHR ''-'' \<notin> set t"
proof -
  obtain a b c d where o: "octets4 w = [a, b, c, d]" by (auto simp: octets4_def Let_def)
  then have "length (nat_str a) \<le> 3" using octets4_le [of w] nat_str_short by simp
  let ?s = "string4 w @ CHR ''/'' # t"
  have s: "?s = nat_str a @ CHR ''.'' # nat_str b @ CHR ''.'' # nat_str c @ CHR ''.'' # nat_str d @ CHR ''/'' # t"
    by (simp add: string4_def o)
  have dot: "CHR ''.'' \<in> set (take 4 ?s)"
    using \<open>length (nat_str a) \<le> 3\<close> unfolding s by (auto simp: take_Cons' split: if_splits)
  have "mac_dot ?s = None"
  proof (cases "mac_dot ?s")
    case (Some m)
    from mac_dot_nonhex [OF this dot] show ?thesis by (simp add: is_hex_def hex_val_def)
  qed
  moreover have "?s ! 2 \<noteq> CHR '':'' \<and> ?s ! 2 \<noteq> CHR ''-''" if "length ?s \<ge> 14"
  proof -
    have "?s ! 2 \<in> set ?s" using that by (intro nth_mem) simp
    moreover have "CHR '':'' \<notin> set ?s" "CHR ''-'' \<notin> set ?s"
      using \<open>CHR '':'' \<notin> set t\<close> \<open>CHR ''-'' \<notin> set t\<close> by (simp_all add: string4_notin is_digit_def)
    ultimately show ?thesis by metis
  qed
  ultimately show ?thesis by (auto simp: ParseMAC_def)
qed

lemma mac_String_no_hash: "CHR ''#'' \<notin> set (mac_String m)"
proof (induction m rule: mac_String.induct)
  have h: "d < 16 \<Longrightarrow> hex_digit d \<noteq> CHR ''#''" for d
    using hex_val_digit [of d] by (auto simp: hex_val_def)
  have b: "unat b div 16 < 16" for b :: byte using byte_lt_256 [of b] by (simp add: div_less_iff_less_mult)
  {
    case (2 b) show ?case using h [OF b [of b]] h [of "unat b mod 16"] by auto
  next
    case (3 b c bs) then show ?case using h [OF b [of b]] h [of "unat b mod 16"] by auto
  }
qed simp

text \<open>IPv4 subnets and MAC subnets of every legal length; a weight of zero prints like the default.\<close>

definition printable :: "subnet \<Rightarrow> bool" where
  "printable s \<longleftrightarrow> subnet_wf s \<and> (sn_MAC s = None \<longrightarrow> Is4 (pfx_ip (sn_Prefix s))) \<and>
     int64_range (sn_Weight s) \<and> sn_Weight s \<noteq> 0"

lemma parseBody_String:
  assumes "printable s"
  shows "parseBody (case sn_MAC s of Some m \<Rightarrow> mac_String m | None \<Rightarrow> prefix_String (sn_Prefix s)) =
      Inr (s\<lparr>sn_Weight := 0\<rparr>)"
    and "CHR ''#'' \<notin> set (case sn_MAC s of Some m \<Rightarrow> mac_String m | None \<Rightarrow> prefix_String (sn_Prefix s))"
proof -
  have "parseBody (case sn_MAC s of Some m \<Rightarrow> mac_String m | None \<Rightarrow> prefix_String (sn_Prefix s)) =
      Inr (s\<lparr>sn_Weight := 0\<rparr>) \<and>
    CHR ''#'' \<notin> set (case sn_MAC s of Some m \<Rightarrow> mac_String m | None \<Rightarrow> prefix_String (sn_Prefix s))"
  proof (cases "sn_MAC s")
    case (Some m)
    then have "length m \<in> {6, 8, 20}" "sn_Prefix s = NoPrefix" using assms by (auto simp: printable_def subnet_wf_def)
    with Some show ?thesis using mac_String_no_hash
      by (cases s) (simp add: parseBody_def parseMAC_def ParseMAC_String)
  next
    case None
    then obtain w where w: "pfx_ip (sn_Prefix s) = Addr4 w" using assms by (auto simp: printable_def Is4_def split: addr.splits)
    have p: "0 \<le> pfx_bits (sn_Prefix s)" "pfx_bits (sn_Prefix s) \<le> 32" "Masked (sn_Prefix s) = sn_Prefix s"
      using assms None w by (auto simp: printable_def subnet_wf_def prefix_valid_def)
    define t where "t = Itoa (pfx_bits (sn_Prefix s))"
    have t: "CHR '':'' \<notin> set t" "CHR ''-'' \<notin> set t" "CHR ''#'' \<notin> set t"
      using p by (simp_all add: t_def Itoa_def nat_str_notin is_digit_def)
    have str: "prefix_String (sn_Prefix s) = string4 w @ CHR ''/'' # t"
      using w p by (simp add: prefix_String_def prefix_valid_def t_def)
    have "CHR '':'' \<notin> set (string4 w @ CHR ''/'' # t)" "CHR ''#'' \<notin> set (string4 w @ CHR ''/'' # t)"
      using t by (simp_all add: string4_notin is_digit_def)
    then have "parseMAC (prefix_String (sn_Prefix s)) = Inl BadMAC" "CHR ''#'' \<notin> set (prefix_String (sn_Prefix s))"
      using str ParseMAC_string4 [OF t(1,2)] by (simp_all add: parseMAC_def split_on_none)
    with None p ParsePrefix_String4 [OF w p(1,2)] str show ?thesis by (cases s) (auto simp: parseBody_def)
  qed
  then show "parseBody (case sn_MAC s of Some m \<Rightarrow> mac_String m | None \<Rightarrow> prefix_String (sn_Prefix s)) =
      Inr (s\<lparr>sn_Weight := 0\<rparr>)"
    and "CHR ''#'' \<notin> set (case sn_MAC s of Some m \<Rightarrow> mac_String m | None \<Rightarrow> prefix_String (sn_Prefix s))" by blast+
qed

interpretation snet: codec subnet_String "\<lambda>w. ok_of (subnet_Parse w)" printable
proof unfold_locales
  fix s assume s: "printable s"
  let ?b = "case sn_MAC s of Some m \<Rightarrow> mac_String m | None \<Rightarrow> prefix_String (sn_Prefix s)"
  have "splitWeight (subnet_String s) = Inr (?b, sn_Weight s)"
    using parseBody_String(2) [OF s] s
    by (auto simp: subnet_String_def Let_def splitWeight_def cut_first_None Atoi_Itoa printable_def)
  then show "ok_of (subnet_Parse (subnet_String s)) = Some s"
    using parseBody_String(1) [OF s] by (simp add: subnet_Parse_def)
qed

text \<open>
  Subnets survive their textual form: parsing the string of an IPv4 or MAC subnet gives the subnet
  back, weight included, so distinct subnets never print alike.
\<close>

theorem subnet_roundtrip:
  assumes "printable s"
  shows "subnet_Parse (subnet_String s) = Inr s \<and> (printable t \<and> subnet_String t = subnet_String s \<longrightarrow> t = s)"
  using snet.dec_enc [OF assms] snet.enc_inj [OF _ assms, of t] by auto

lemma printable_net10: "printable net10"
  by (simp add: printable_def subnet_wf_def net10_def prefix_valid_def IsValid_def Is4_def int64_range_def Masked_def
      low_bits_def PrefixFrom_def mask_eq_exp_minus_1)

theorem subnet_roundtrip_witness:
  "subnet_Parse (subnet_String net10) = Inr net10"
  using subnet_roundtrip [OF printable_net10] by blast

theorem subnet_parse_sound_witness:
  "subnet_wf net10 \<and> \<not> (ContainsIP net10 (Addr4 5) \<and> ContainsMAC net10 [])"
proof -
  have "subnet_Parse (subnet_String net10) = Inr net10" using snet.dec_enc [OF printable_net10] by simp
  from subnet_parse_sound [OF this, of "Addr4 5" "[]"] show ?thesis by blast
qed

end
