(* ===== verification/Stun.thy ===== *)
theory Stun
  imports Netip
begin

unbundle bit_operations_syntax

text \<open>
  Package \<open>stun\<close>: the Binding Request and the parser of its response. The network is the list of
  datagrams that arrive before the deadline. A slice expression out of range, a run-time panic in Go,
  is the error \<open>SlicePanic\<close>.
\<close>

definition magicCookie :: bytes where
  "magicCookie = [0x21, 0x12, 0xA4, 0x42]"

datatype stun_error =
    ShortResponse nat | NotBindingResponse | BadCookie | WrongTxID | LengthExceeds
  | AttrOverruns | MissingMapped | ShortXor | ShortXorV4 | ShortXorV6 | V6Unsupported | UnknownFamily byte
  | ShortMapped | FamilyUnsupported byte | SlicePanic | ReadError

definition be16 :: "bytes \<Rightarrow> nat" where
  "be16 b = unat (b ! 0) * 256 + unat (b ! 1)"

definition binding_request :: "bytes \<Rightarrow> bytes" where
  "binding_request txid = [0x00, 0x01, 0x00, 0x00] @ magicCookie @ txid"

definition decodeXorMapped :: "bytes \<Rightarrow> bytes \<Rightarrow> (stun_error, addr_port) result" where
  "decodeXorMapped val magic =
     (if length val < 4 then Inl ShortXor
      else
        let family = val ! 1;
            port = of_nat (be16 (drop 2 val)) XOR 0x2112
        in if family = 1 then
             (if length val < 8 then Inl ShortXorV4
              else Inr (AddrPortFrom (AddrFrom4 (map (\<lambda>i. unat ((val ! (4 + i)) XOR (magic ! i))) [0, 1, 2, 3])) port))
           else if family = 2 then (if length val < 20 then Inl ShortXorV6 else Inl V6Unsupported)
           else Inl (UnknownFamily family))"

definition decodeMapped :: "bytes \<Rightarrow> (stun_error, addr_port) result" where
  "decodeMapped val =
     (if length val < 8 then Inl ShortMapped
      else
        let family = val ! 1; port = of_nat (be16 (drop 2 val))
        in if family = 1 then Inr (AddrPortFrom (AddrFrom4 (map unat (take 4 (drop 4 val)))) port)
           else Inl (FamilyUnsupported family))"

function attr_loop :: "bytes \<Rightarrow> bytes \<Rightarrow> (stun_error, addr_port) result" where
  "attr_loop magic attrs =
     (if length attrs < 4 then Inl MissingMapped
      else
        let typ = be16 attrs;
            ln = be16 (drop 2 attrs);
            val = take ln (drop 4 attrs);
            pad = (4 - ln mod 4) mod 4
        in if 4 + ln > length attrs then Inl AttrOverruns
           else if typ = 0x0020 then decodeXorMapped val magic
           else if typ = 0x0001 then decodeMapped val
           else if 4 + ln + pad > length attrs then Inl SlicePanic
           else attr_loop magic (drop (4 + ln + pad) attrs))"
  by pat_completeness auto
termination
  by (relation "measure (length \<circ> snd)") (simp, simp, linarith)

declare attr_loop.simps [simp del]

definition parseResponse :: "bytes \<Rightarrow> bytes \<Rightarrow> (stun_error, addr_port) result" where
  "parseResponse b txid =
     (if length b < 20 then Inl (ShortResponse (length b))
      else if be16 b \<noteq> 0x0101 then Inl NotBindingResponse
      else if take 4 (drop 4 b) \<noteq> magicCookie then Inl BadCookie
      else if take 12 (drop 8 b) \<noteq> txid then Inl WrongTxID
      else
        let msgLen = be16 (drop 2 b)
        in if 20 + msgLen > length b then Inl LengthExceeds
           else attr_loop (take 4 (drop 4 b)) (take msgLen (drop 20 b)))"

text \<open>The receive loop of \<open>Query\<close>: datagrams of other transactions are skipped until the deadline.\<close>

fun Query_loop :: "bytes \<Rightarrow> bytes list \<Rightarrow> (stun_error, addr_port) result" where
  "Query_loop txid [] = Inl ReadError"
| "Query_loop txid (d # ds) =
     (case parseResponse (take 1500 d) txid of
        Inl WrongTxID \<Rightarrow> Query_loop txid ds
      | r \<Rightarrow> r)"

text \<open>
  \<open>Query\<close> on a fresh socket. What the network does for one query is the record \<open>udp_net\<close>: the error of opening the
  socket and of resolving the server, the random transaction ID, and the datagrams that arrive until the deadline
  once the request is sent (or the error of sending it).
\<close>

record udp_net =
  un_Listen :: "string option"
  un_Resolve :: "string \<Rightarrow> string option"
  un_Rand :: "(string, bytes) result"
  un_Exchange :: "string \<Rightarrow> bytes \<Rightarrow> (string, bytes list) result"

datatype query_error = NetFault string | StunFault stun_error

definition Query :: "udp_net \<Rightarrow> string \<Rightarrow> (query_error, addr_port) result" where
  "Query net addr =
     (case un_Resolve net addr of
        Some e \<Rightarrow> Inl (NetFault e)
      | None \<Rightarrow>
          (case un_Rand net of
             Inl e \<Rightarrow> Inl (NetFault e)
           | Inr txid \<Rightarrow>
               (case un_Exchange net addr (binding_request txid) of
                  Inl e \<Rightarrow> Inl (NetFault e)
                | Inr ds \<Rightarrow> (case Query_loop txid ds of Inl e \<Rightarrow> Inl (StunFault e) | Inr ap \<Rightarrow> Inr ap))))"

definition QueryOnEphemeralPort :: "udp_net \<Rightarrow> string \<Rightarrow> (query_error, addr_port) result" where
  "QueryOnEphemeralPort net server =
     (case un_Listen net of Some e \<Rightarrow> Inl (NetFault e) | None \<Rightarrow> Query net server)"

section \<open>Responses\<close>

text \<open>
  What a server sends (RFC 5389): a header, attributes padded to four bytes, among them the
  reflexive address XORed with the cookie.
\<close>

definition be16_bytes :: "nat \<Rightarrow> bytes" where
  "be16_bytes n = [of_nat (n div 256), of_nat (n mod 256)]"

definition pad_len :: "nat \<Rightarrow> nat" where
  "pad_len n = (4 - n mod 4) mod 4"

definition attr_bytes :: "nat \<times> bytes \<Rightarrow> bytes" where
  "attr_bytes a = be16_bytes (fst a) @ be16_bytes (length (snd a)) @ snd a @ replicate (pad_len (length (snd a))) 0"

definition xor_mapped :: "32 word \<Rightarrow> 16 word \<Rightarrow> bytes" where
  "xor_mapped ip port =
     [0, 1] @ be16_bytes (unat (port XOR 0x2112)) @
     map (\<lambda>i. of_nat (octets4 ip ! i) XOR magicCookie ! i) [0, 1, 2, 3]"

definition stun_response :: "bytes \<Rightarrow> (nat \<times> bytes) list \<Rightarrow> bytes" where
  "stun_response txid as =
     (let body = concat (map attr_bytes as)
      in [0x01, 0x01] @ be16_bytes (length body) @ magicCookie @ txid @ body)"

section \<open>Lemmas\<close>

lemma be16_be16_bytes: "n < 65536 \<Longrightarrow> be16 (be16_bytes n @ r) = n"
proof -
  assume "n < 65536"
  then have "n div 256 < 256" by (simp add: div_less_iff_less_mult)
  then show ?thesis by (simp add: be16_def be16_bytes_def unat_of_nat take_bit_nat_eq_self)
qed

lemma length_be16_bytes [simp]: "length (be16_bytes n) = 2"
  by (simp add: be16_bytes_def)

lemma length_attr_bytes [simp]: "length (attr_bytes a) = 4 + length (snd a) + pad_len (length (snd a))"
  by (simp add: attr_bytes_def)

lemma attr_head:
  assumes "fst a < 65536" "length (snd a) < 65536"
  shows "be16 (attr_bytes a @ r) = fst a" "be16 (drop 2 (attr_bytes a @ r)) = length (snd a)"
    "take (length (snd a)) (drop 4 (attr_bytes a @ r)) = snd a"
    "drop (4 + length (snd a) + pad_len (length (snd a))) (attr_bytes a @ r) = r"
proof -
  have h: "attr_bytes a @ r = be16_bytes (fst a) @ be16_bytes (length (snd a)) @ snd a @
      replicate (pad_len (length (snd a))) 0 @ r" by (simp add: attr_bytes_def)
  show "be16 (attr_bytes a @ r) = fst a" unfolding h by (rule be16_be16_bytes [OF assms(1)])
  have "drop 2 (be16_bytes (fst a) @ s) = s" for s by (simp add: be16_bytes_def)
  then show "be16 (drop 2 (attr_bytes a @ r)) = length (snd a)"
    unfolding h by (simp only: be16_be16_bytes [OF assms(2)])
  have "drop 4 (be16_bytes (fst a) @ be16_bytes (length (snd a)) @ s) = s" for s by (simp add: be16_bytes_def)
  then show "take (length (snd a)) (drop 4 (attr_bytes a @ r)) = snd a" unfolding h by (simp only:) simp
  show "drop (4 + length (snd a) + pad_len (length (snd a))) (attr_bytes a @ r) = r" by simp
qed

lemma attr_loop_skip:
  assumes "fst a < 65536" "length (snd a) < 65536" "fst a \<noteq> 0x0020" "fst a \<noteq> 0x0001"
  shows "attr_loop magic (attr_bytes a @ r) = attr_loop magic r"
  using attr_head [OF assms(1,2), of r] assms(3,4)
  by (subst attr_loop.simps) (simp add: Let_def pad_len_def [symmetric])

lemma attr_loop_xor:
  assumes "length v < 65536"
  shows "attr_loop magic (attr_bytes (0x0020, v) @ r) = decodeXorMapped v magic"
  using attr_head [of "(0x0020, v)" r] assms
  by (subst attr_loop.simps) (simp add: Let_def)

lemma xor_word_cancel: "(x XOR y) XOR y = (x :: 'a::len word)"
  by (simp add: xor.assoc)

lemma decode_xor_mapped: "decodeXorMapped (xor_mapped ip port) magicCookie = Inr (AddrPortFrom (Addr4 ip) port)"
proof -
  obtain a b c d where o: "octets4 ip = [a, b, c, d]" by (auto simp: octets4_def Let_def)
  have l: "unat (of_nat x :: byte) = x" if "x \<in> set (octets4 ip)" for x
    using octets4_le [of ip] that by (auto simp: unat_of_nat take_bit_nat_eq_self)
  have p: "unat (port XOR 0x2112) < 65536"
  proof -
    have "unat (port XOR 0x2112) < 2 ^ LENGTH(16)" by (rule unsigned_less)
    then show ?thesis by simp
  qed
  have "be16 (drop 2 (xor_mapped ip port)) = unat (port XOR 0x2112)"
    using be16_be16_bytes [OF p] by (simp add: xor_mapped_def)
  moreover have "map (\<lambda>i. unat (xor_mapped ip port ! (4 + i) XOR magicCookie ! i)) [0, 1, 2, 3] = octets4 ip"
    using l by (simp add: xor_mapped_def be16_bytes_def o xor_word_cancel)
  moreover have "length (xor_mapped ip port) = 8" "xor_mapped ip port ! 1 = 1" by (simp_all add: xor_mapped_def)
  ultimately show ?thesis
    by (simp add: decodeXorMapped_def Let_def AddrFrom4_def join_octets4 xor_word_cancel)
qed

text \<open>
  The client learns the address the server saw. Any response of the transaction that carries an
  XOR-MAPPED-ADDRESS, after any number of other attributes of any lengths and before any others, is decoded
  to exactly the server's address and port, and datagrams of other transactions before it are skipped.
\<close>

theorem stun_learns_address:
  assumes "length txid = 12"
    and "\<forall>a \<in> set before. fst a < 65536 \<and> length (snd a) < 65536 \<and> fst a \<noteq> 0x0020 \<and> fst a \<noteq> 0x0001"
    and "body = before @ [(0x0020, xor_mapped ip port)] @ after"
    and "length (concat (map attr_bytes body)) \<le> 1480"
    and "\<forall>d \<in> set others. parseResponse (take 1500 d) txid = Inl WrongTxID"
  shows "Query_loop txid (others @ stun_response txid body # ds) = Inr (AddrPortFrom (Addr4 ip) port)"
proof -
  let ?c = "concat (map attr_bytes body)"
  have skip: "attr_loop magic (concat (map attr_bytes before) @ r) = attr_loop magic r" for magic r
    using assms(2) by (induction before) (simp_all add: attr_loop_skip)
  have "attr_loop magicCookie ?c = decodeXorMapped (xor_mapped ip port) magicCookie"
    unfolding assms(3) using skip attr_loop_xor [of "xor_mapped ip port"]
    by (simp add: xor_mapped_def be16_bytes_def)
  then have loop: "attr_loop magicCookie ?c = Inr (AddrPortFrom (Addr4 ip) port)" by (simp add: decode_xor_mapped)
  let ?r = "stun_response txid body"
  have r: "?r = [0x01, 0x01] @ be16_bytes (length ?c) @ magicCookie @ txid @ ?c" by (simp add: stun_response_def Let_def)
  have d: "take 4 (drop 4 ?r) = magicCookie" "take 12 (drop 8 ?r) = txid" "drop 20 ?r = ?c" "be16 ?r = 0x0101"
    "be16 (drop 2 ?r) = length ?c" "length ?r = 20 + length ?c"
    using assms(1,4) be16_be16_bytes [of "length ?c"] unfolding r
    by (simp_all add: magicCookie_def be16_def be16_bytes_def)
  have "parseResponse (take 1500 ?r) txid = Inr (AddrPortFrom (Addr4 ip) port)"
    using d loop assms(4) by (simp add: parseResponse_def Let_def)
  with assms(5) show ?thesis by (induction others) auto
qed

theorem stun_learns_address_witness:
  "Query_loop (replicate 12 7) [stun_response (replicate 12 7) [(0x8022, [1, 2, 3]), (0x0020, xor_mapped 0xC0000201 51820)]] =
     Inr (AddrPortFrom (Addr4 0xC0000201) 51820)"
  using stun_learns_address [of "replicate 12 7" "[(0x8022, [1, 2, 3])]" _ "0xC0000201" 51820 "[]" "[]" "[]"]
  by (simp add: xor_mapped_def be16_bytes_def pad_len_def)

section \<open>Robustness\<close>

lemma pad_fits:
  fixes n l :: nat
  assumes "l mod 4 = 0" "4 + n \<le> l"
  shows "4 + n + (4 - n mod 4) mod 4 \<le> l" "(l - (4 + n + (4 - n mod 4) mod 4)) mod 4 = 0"
proof -
  obtain k where l: "l = 4 * k" using assms(1) by auto
  obtain q r where n: "n = 4 * q + r" "r < 4" by (metis mod_less_divisor mult_div_mod_eq zero_less_numeral)
  have m: "n mod 4 = r" using n by simp
  consider "r = 0" | "r = 1" | "r = 2" | "r = 3" using n(2) by linarith
  then obtain j where j: "4 + n + (4 - n mod 4) mod 4 = 4 * j" "j \<le> k"
  proof cases
    case 1 then show ?thesis using that [of "q + 1"] n m assms(2) l by simp
  next
    case 2 then show ?thesis using that [of "q + 2"] n m assms(2) l by simp
  next
    case 3 then show ?thesis using that [of "q + 2"] n m assms(2) l by simp
  next
    case 4 then show ?thesis using that [of "q + 2"] n m assms(2) l by simp
  qed
  then show "4 + n + (4 - n mod 4) mod 4 \<le> l" "(l - (4 + n + (4 - n mod 4) mod 4)) mod 4 = 0"
    unfolding j(1) l by (simp_all add: diff_mult_distrib2 [symmetric])
qed

lemma attr_loop_no_panic: "length attrs mod 4 = 0 \<Longrightarrow> attr_loop magic attrs \<noteq> Inl SlicePanic"
proof (induction magic attrs rule: attr_loop.induct)
  case (1 magic attrs)
  define ln where "ln = be16 (drop 2 attrs)"
  define n where "n = 4 + ln + (4 - ln mod 4) mod 4"
  have fit: "n \<le> length attrs" "length (drop n attrs) mod 4 = 0" if "4 + ln \<le> length attrs"
    using pad_fits [OF 1(2) that] by (simp_all add: n_def)
  have IH: "attr_loop magic (drop n attrs) \<noteq> Inl SlicePanic"
    if "\<not> length attrs < 4" "4 + ln \<le> length attrs" "be16 attrs \<noteq> 0x0020" "be16 attrs \<noteq> 0x0001"
    using 1(1) [OF that(1) refl refl refl refl] that fit unfolding ln_def [symmetric] n_def [symmetric] by simp
  show ?case using IH fit
    by (cases "4 + ln \<le> length attrs"; subst attr_loop.simps)
      (auto simp: Let_def decodeXorMapped_def decodeMapped_def ln_def [symmetric] n_def [symmetric])
qed

text \<open>
  A response is believed only when it is a Binding Response with the cookie and the transaction
  identifier of the request, and the address comes from bytes inside the packet; a packet whose declared
  length is a multiple of four, as the standard requires, never makes the parser panic.
\<close>

theorem stun_response_checked:
  "(\<forall>ap. parseResponse b txid = Inr ap \<longrightarrow>
      be16 b = 0x0101 \<and> take 4 (drop 4 b) = magicCookie \<and> take 12 (drop 8 b) = txid \<and>
      20 + be16 (drop 2 b) \<le> length b) \<and>
   (be16 (drop 2 b) mod 4 = 0 \<longrightarrow> parseResponse b txid \<noteq> Inl SlicePanic)"
proof -
  have "length (take (be16 (drop 2 b)) (drop 20 b)) mod 4 = 0"
    if "be16 (drop 2 b) mod 4 = 0" "20 + be16 (drop 2 b) \<le> length b" 
  proof -
    have "length (take (be16 (drop 2 b)) (drop 20 b)) = be16 (drop 2 b)" using that(2) by simp
    then show ?thesis using that(1) by simp
  qed
  then show ?thesis
    by (auto simp: parseResponse_def Let_def attr_loop_no_panic not_less split: if_splits)
qed

theorem stun_response_checked_witness:
  "parseResponse (stun_response (replicate 12 7) [(0x8022, [1, 2, 3])]) (replicate 12 7) \<noteq> Inl SlicePanic"
proof -
  have "be16 (drop 2 (stun_response (replicate 12 7) [(0x8022, [1, 2, 3])])) = 8"
    by (simp add: stun_response_def be16_def be16_bytes_def attr_bytes_def pad_len_def)
  with stun_response_checked [of "stun_response (replicate 12 7) [(0x8022, [1, 2, 3])]" "replicate 12 7"]
  show ?thesis by simp
qed

text \<open>
  C39: a datagram can crash the client. Anyone who sees the request can answer with a packet that ends
  inside the padding of an attribute the client skips; the padding is added to the offset without a bounds
  check, so the slice expression panics.
\<close>

theorem stun_padding_panic:
  "length txid = 12 \<Longrightarrow>
     parseResponse ([0x01, 0x01, 0x00, 0x05] @ magicCookie @ txid @ [0x80, 0x22, 0x00, 0x01, 0x2A]) txid = Inl SlicePanic"
  by (simp add: parseResponse_def magicCookie_def be16_def Let_def attr_loop.simps)

theorem stun_padding_panic_witness:
  "parseResponse ([0x01, 0x01, 0x00, 0x05] @ magicCookie @ replicate 12 0 @ [0x80, 0x22, 0x00, 0x01, 0x2A]) (replicate 12 0) =
     Inl SlicePanic"
  using stun_padding_panic [of "replicate 12 0"] by simp

end
