(* ===== verification/Control.thy ===== *)
theory Control
  imports Keys
begin

text \<open>
  Package \<open>control\<close>: the line protocol of the control socket (\<open>protocol.go\<close>) and the server's session
  (\<open>server.go\<close>). A session reads the bytes the client sends; \<open>'d\<close> is the daemon state the handler works
  on. The wording of error messages is a parameter (\<open>text\<close>), their place in the dialogue is not.
\<close>

definition ClassGreeting :: int where "ClassGreeting = 0"
definition ClassRequest :: int where "ClassRequest = 18"

record message =
  m_Class :: int
  m_Type :: int
  m_Args :: "string list"

datatype control_error =
    ShortMessage string | BadClass string | BadType string | NotGreeting string | BadVersion string
  | BadNumber string | BadPIDFile string | BadPID | BadAuthLine string | CookiePrefix | CookieMismatch | EOF

section \<open>Messages\<close>

definition EncodeMessage :: "int \<Rightarrow> string list \<Rightarrow> string" where
  "EncodeMessage t args =
     Itoa ClassRequest @ [SP] @ Itoa t @ concat (map (\<lambda>a. SP # a) args) @ [NL]"

definition DecodeMessage :: "string \<Rightarrow> (control_error, message) result" where
  "DecodeMessage line =
     (case Fields line of
        f0 # f1 # rest \<Rightarrow>
          (case Atoi f0 of
             None \<Rightarrow> Inl (BadClass f0)
           | Some class \<Rightarrow>
               (case Atoi f1 of
                  None \<Rightarrow> Inl (BadType f1)
                | Some t \<Rightarrow> Inr \<lparr>m_Class = class, m_Type = t, m_Args = rest\<rparr>))
      | _ \<Rightarrow> Inl (ShortMessage line))"

record greeting =
  gr_Name :: string
  gr_Major :: int
  gr_Minor :: int

definition Greeting_Encode :: "greeting \<Rightarrow> string" where
  "Greeting_Encode g =
     Itoa ClassGreeting @ [SP] @ gr_Name g @ [SP] @ Itoa (gr_Major g) @ ''.'' @ Itoa (gr_Minor g) @ [NL]"

definition ParseGreeting :: "string \<Rightarrow> (control_error, greeting) result" where
  "ParseGreeting line =
     (case Fields line of
        [f0, name, ver] \<Rightarrow>
          if f0 \<noteq> ''0'' then Inl (NotGreeting line)
          else (case cut_first (CHR ''.'') ver of
                  None \<Rightarrow> Inl (BadVersion ver)
                | Some (a, b) \<Rightarrow>
                    (case Atoi a of
                       None \<Rightarrow> Inl (BadNumber a)
                     | Some major \<Rightarrow>
                         (case Atoi b of
                            None \<Rightarrow> Inl (BadNumber b)
                          | Some minor \<Rightarrow> Inr \<lparr>gr_Name = name, gr_Major = major, gr_Minor = minor\<rparr>)))
      | _ \<Rightarrow> Inl (NotGreeting line))"

record pidFile =
  pf_PID :: int
  pf_Cookie :: string

definition PIDFile_Encode :: "pidFile \<Rightarrow> string" where
  "PIDFile_Encode p = Itoa (pf_PID p) @ [SP] @ pf_Cookie p @ [NL]"

definition ParsePIDFile :: "string \<Rightarrow> (control_error, pidFile) result" where
  "ParsePIDFile s =
     (let t = TrimSpace s;
          line = (case cut_first NL t of Some (l, _) \<Rightarrow> l | None \<Rightarrow> t)
      in case Fields line of
           [a, cookie] \<Rightarrow>
             (case Atoi a of
                None \<Rightarrow> Inl BadPID
              | Some pid \<Rightarrow> Inr \<lparr>pf_PID = pid, pf_Cookie = cookie\<rparr>)
         | _ \<Rightarrow> Inl (BadPIDFile s))"

section \<open>The server\<close>

text \<open>\<open>NewCookie\<close> encodes 32 random bytes, the argument here.\<close>

definition NewCookie :: "bytes \<Rightarrow> string" where
  "NewCookie buf = RawURLEncode buf"

definition authenticate :: "string \<Rightarrow> string \<Rightarrow> control_error option" where
  "authenticate cookie line =
     (case Fields line of
        f0 # c # _ \<Rightarrow>
          if f0 \<noteq> ''0'' then Some (BadAuthLine line)
          else if \<not> HasPrefix c ''^'' then Some CookiePrefix
          else if drop 1 c \<noteq> cookie then Some CookieMismatch
          else None
      | _ \<Rightarrow> Some (BadAuthLine line))"

type_synonym 'd handler = "message \<Rightarrow> 'd \<Rightarrow> 'd \<times> string \<times> string option"

text \<open>One turn of the request loop: the new daemon state and what is written to the client.\<close>

definition serve_line ::
    "(control_error \<Rightarrow> string) \<Rightarrow> 'd handler option \<Rightarrow> string \<Rightarrow> 'd \<Rightarrow> 'd \<times> string" where
  "serve_line text h raw d =
     (let line = TrimSpace raw
      in if line = [] then (d, [])
         else (case DecodeMessage line of
                 Inl e \<Rightarrow> (d, Itoa ClassRequest @ '' -1 '' @ text e @ [NL])
               | Inr msg \<Rightarrow>
                   if m_Class msg \<noteq> ClassRequest then (d, Itoa ClassRequest @ '' -1 bad class'' @ [NL])
                   else (case h of
                           None \<Rightarrow> (d, Itoa ClassRequest @ [SP] @ Itoa (m_Type msg) @ '' 0'' @ [NL])
                         | Some f \<Rightarrow>
                             (case f msg d of
                                (d', out, None) \<Rightarrow> (d', out)
                              | (d', out, Some err) \<Rightarrow>
                                  (d', out @ Itoa ClassRequest @ [SP] @ Itoa (m_Type msg) @ [SP] @ err @ [NL])))))"

fun serve_lines ::
    "(control_error \<Rightarrow> string) \<Rightarrow> 'd handler option \<Rightarrow> string list \<Rightarrow> 'd \<Rightarrow> 'd \<times> string" where
  "serve_lines text h [] d = (d, [])"
| "serve_lines text h (l # ls) d =
     (let (d1, out1) = serve_line text h l d; (d2, out2) = serve_lines text h ls d1 in (d2, out1 @ out2))"

definition handle ::
    "string \<Rightarrow> string \<Rightarrow> int \<Rightarrow> (control_error \<Rightarrow> string) \<Rightarrow> 'd handler option \<Rightarrow> string \<Rightarrow> 'd \<Rightarrow>
       'd \<times> string \<times> control_error" where
  "handle nodeName cookie pid text h input d =
     (let greet = Greeting_Encode \<lparr>gr_Name = nodeName, gr_Major = 1, gr_Minor = 0\<rparr>
      in case complete_lines input of
           [] \<Rightarrow> (d, greet, EOF)
         | first # rest \<Rightarrow>
             (case authenticate cookie (TrimSpace first) of
                Some e \<Rightarrow> (d, greet, e)
              | None \<Rightarrow>
                  let (d', out) = serve_lines text h rest d
                  in (d', greet @ ''4 0 '' @ Itoa pid @ [NL] @ out, EOF)))"

text \<open>The line \<open>Dial\<close> authenticates with.\<close>

definition auth_line :: "string \<Rightarrow> string" where
  "auth_line cookie = ''0 ^'' @ cookie @ '' 0'' @ [NL]"

section \<open>Round trips\<close>

definition msg_ok :: "int \<times> string list \<Rightarrow> bool" where
  "msg_ok m \<longleftrightarrow> int64_range (fst m) \<and> list_all token (snd m)"

lemma ClassRequest_ok [simp]: "int64_range ClassRequest"
  by (simp add: ClassRequest_def int64_range_def)

lemma EncodeMessage_join: "EncodeMessage t args = join_sp (Itoa ClassRequest # Itoa t # args) @ [NL]"
  by (simp add: EncodeMessage_def join_sp_Cons)

lemma tokens_msg: "msg_ok (t, args) \<Longrightarrow> list_all token (Itoa ClassRequest # Itoa t # args)"
  by (simp add: msg_ok_def Itoa_token)

lemma DecodeMessage_join:
  "msg_ok (t, args) \<Longrightarrow>
     DecodeMessage (join_sp (Itoa ClassRequest # Itoa t # args)) = Inr \<lparr>m_Class = ClassRequest, m_Type = t, m_Args = args\<rparr>"
  using Fields_join_sp [OF tokens_msg, of t args]
  by (simp add: DecodeMessage_def msg_ok_def Atoi_Itoa del: join_sp.simps)

lemma line_clean: "list_all token ts \<Longrightarrow> ts \<noteq> [] \<Longrightarrow> TrimSpace (join_sp ts) = join_sp ts"
  by (simp add: TrimSpace_clean join_sp_clean)

interpretation reqm: codec "\<lambda>m. butlast (EncodeMessage (fst m) (snd m))"
  "\<lambda>l. case DecodeMessage (TrimSpace l) of Inr m \<Rightarrow> Some (m_Type m, m_Args m) | Inl _ \<Rightarrow> None" msg_ok
proof unfold_locales
  fix m assume "msg_ok m"
  then have ok: "msg_ok (fst m, snd m)" by simp
  then show "(case DecodeMessage (TrimSpace (butlast (EncodeMessage (fst m) (snd m)))) of
      Inr x \<Rightarrow> Some (m_Type x, m_Args x) | Inl _ \<Rightarrow> None) = Some m"
    using line_clean [OF tokens_msg [OF ok]] DecodeMessage_join [OF ok]
    by (simp add: EncodeMessage_join del: join_sp.simps)
qed

lemma greeting_roundtrip:
  assumes "token (gr_Name g)" "int64_range (gr_Major g)" "int64_range (gr_Minor g)"
  shows "ParseGreeting (TrimSpace (butlast (Greeting_Encode g))) = Inr g"
proof -
  let ?v = "Itoa (gr_Major g) @ ''.'' @ Itoa (gr_Minor g)"
  have zero: "Itoa ClassGreeting = ''0''" by (simp add: Itoa_def ClassGreeting_def nat_str.simps digit_char_def char_of_def bit_Suc_0_iff)
  have "CHR ''.'' \<notin> set (Itoa (gr_Major g))" using Itoa_chars [of "CHR ''.''"] by (auto simp: is_digit_def)
  then have cut: "cut_first (CHR ''.'') ?v = Some (Itoa (gr_Major g), Itoa (gr_Minor g))" by simp
  have "nospace ?v"
  proof (rule nospace_ascii)
    fix c assume "c \<in> set ?v"
    then have "is_digit c \<or> c = CHR ''-'' \<or> c = CHR ''.''" using Itoa_chars by auto
    then show "ascii c \<and> [c] \<notin> set space_encs"
      using is_digit_ascii by (auto simp: ascii_def space_encs_def)
  qed
  then have tv: "token ?v" by (simp add: token_def)
  have ts: "list_all token [''0'', gr_Name g, ?v]" using assms(1) tv Itoa_token [of ClassGreeting] zero by simp
  have "Greeting_Encode g = join_sp [''0'', gr_Name g, ?v] @ [NL]" by (simp add: Greeting_Encode_def zero)
  then have "TrimSpace (butlast (Greeting_Encode g)) = join_sp [''0'', gr_Name g, ?v]"
    using line_clean [OF ts] by (simp del: join_sp.simps)
  then show ?thesis
    using Fields_join_sp [OF ts] cut assms(2,3) by (simp add: ParseGreeting_def Atoi_Itoa del: join_sp.simps)
qed

lemma pidfile_roundtrip:
  assumes "int64_range (pf_PID p)" "token (pf_Cookie p)"
  shows "ParsePIDFile (butlast (PIDFile_Encode p)) = Inr p"
proof -
  let ?ts = "[Itoa (pf_PID p), pf_Cookie p]"
  have ts: "list_all token ?ts" using assms by (simp add: Itoa_token)
  have "PIDFile_Encode p = join_sp ?ts @ [NL]" by (simp add: PIDFile_Encode_def)
  then have l: "butlast (PIDFile_Encode p) = join_sp ?ts" by (simp only: butlast_snoc)
  have "cut_first NL (join_sp ?ts) = None" using join_sp_no_NL [OF ts] by (rule cut_first_None)
  then show ?thesis unfolding l
    using line_clean [OF ts] Fields_join_sp [OF ts] assms(1)
    by (simp add: ParsePIDFile_def Let_def Atoi_Itoa del: join_sp.simps)
qed

text \<open>The base64 text of a non-empty byte string has no spaces.\<close>

lemma url_chars: "set (RawURLEncode b) \<subseteq> set url_alphabet"
proof -
  have "i < 64" if "i \<in> set (groups b)" for i
    using that
  proof (induction b rule: groups.induct)
    case (1 x y z r)
    then show ?case using sextet_bounds [OF byte_lt [of x] byte_lt [of y] byte_lt [of z]] by (auto simp: sextets_def)
  next
    case (2 x y)
    then show ?case using sextet_bounds [OF byte_lt [of x] byte_lt [of y], of 0] by (auto simp: sextets_def)
  next
    case (3 x)
    then show ?case using sextet_bounds [OF byte_lt [of x], of 0 0] by (auto simp: sextets_def)
  qed simp
  moreover have "length url_alphabet = 64" by (simp add: url_alphabet_def)
  ultimately show ?thesis by (auto simp: RawURLEncode_def)
qed

lemma url_token: "b \<noteq> [] \<Longrightarrow> token (RawURLEncode b)"
proof -
  assume b: "b \<noteq> []"
  have "\<forall>c \<in> set url_alphabet. ascii c \<and> [c] \<notin> set space_encs"
    by (simp add: url_alphabet_def ascii_def space_encs_def)
  then have "nospace (RawURLEncode b)" using url_chars by (intro nospace_ascii) blast
  moreover have "RawURLEncode b \<noteq> []"
    using b length_RawURLEncode [of b] by (cases b) (auto simp: RawURLEncode_def)
  ultimately show ?thesis by (simp add: token_def)
qed

text \<open>
  What the control protocol writes, it reads back: a request with arguments that contain no white
  space, the greeting, and the PID file, whose cookie is one that \<open>NewCookie\<close> makes.
\<close>

theorem control_roundtrips:
  assumes "int64_range t" and "list_all token args" and "token (gr_Name g)"
    and "int64_range (gr_Major g)" and "int64_range (gr_Minor g)" and "int64_range pid" and "length buf = 32"
  shows "DecodeMessage (TrimSpace (butlast (EncodeMessage t args))) =
       Inr \<lparr>m_Class = ClassRequest, m_Type = t, m_Args = args\<rparr> \<and>
    ParseGreeting (TrimSpace (butlast (Greeting_Encode g))) = Inr g \<and>
    ParsePIDFile (butlast (PIDFile_Encode \<lparr>pf_PID = pid, pf_Cookie = NewCookie buf\<rparr>)) =
       Inr \<lparr>pf_PID = pid, pf_Cookie = NewCookie buf\<rparr>"
proof -
  have ok: "msg_ok (t, args)" using assms by (simp add: msg_ok_def)
  have "buf \<noteq> []" using assms(7) by auto
  then have "token (NewCookie buf)" by (simp add: NewCookie_def url_token)
  then show ?thesis
    using line_clean [OF tokens_msg [OF ok]] DecodeMessage_join [OF ok] greeting_roundtrip [OF assms(3,4,5)]
      pidfile_roundtrip [of "\<lparr>pf_PID = pid, pf_Cookie = NewCookie buf\<rparr>"] assms(6)
    by (simp add: EncodeMessage_join del: join_sp.simps)
qed

lemma token_lits: "token ''0''" "token ''bob''"
  unfolding token_def by (intro conjI nospace_ascii; force simp: ascii_def space_encs_def)+

theorem control_roundtrips_witness:
  "DecodeMessage (TrimSpace (butlast (EncodeMessage 12 [''bob'']))) =
     Inr \<lparr>m_Class = ClassRequest, m_Type = 12, m_Args = [''bob'']\<rparr>"
  using control_roundtrips [of 12 "[''bob'']" "\<lparr>gr_Name = ''bob'', gr_Major = 1, gr_Minor = 0\<rparr>" 77 "replicate 32 3"] token_lits
  by (simp add: int64_range_def)

section \<open>Sessions\<close>

lemma complete_lines_msgs:
  "list_all msg_ok ms \<Longrightarrow>
     complete_lines (concat (map (\<lambda>m. EncodeMessage (fst m) (snd m)) ms)) =
       map (\<lambda>m. join_sp (Itoa ClassRequest # Itoa (fst m) # snd m)) ms"
proof (induction ms)
  case (Cons m ms)
  have "NL \<notin> set (join_sp (Itoa ClassRequest # Itoa (fst m) # snd m))"
    using Cons.prems tokens_msg [of "fst m" "snd m"] by (intro join_sp_no_NL) simp
  then show ?case using Cons by (simp add: EncodeMessage_join complete_lines_line del: join_sp.simps)
qed simp

lemma authenticate_spec:
  assumes "token c"
  shows "authenticate cookie (TrimSpace (butlast (auth_line c))) = (if c = cookie then None else Some CookieMismatch)"
    and "NL \<notin> set (butlast (auth_line c))"
proof -
  have t: "token (CHR ''^'' # c)"
  proof -
    have ns: "nospace c" and ne: "c \<noteq> []" using assms by (auto simp: token_def)
    have "space_len (CHR ''^'' # c) = 0"
    proof -
      have "\<forall>e \<in> set space_encs. e \<noteq> []" using space_encs_bytes by auto
      moreover have "take (length e) (CHR ''^'' # c) \<noteq> e" if "e \<in> set space_encs" for e
      proof -
        have "hd e \<noteq> CHR ''^'' \<and> e \<noteq> []" using that by (auto simp: space_encs_def)
        then show ?thesis by (cases e) auto
      qed
      ultimately show ?thesis by (simp add: lead_len_0_iff)
    qed
    then show ?thesis using ns by (simp add: token_def)
  qed
  let ?ts = "[''0'', CHR ''^'' # c, ''0'']"
  have ts: "list_all token ?ts" using t token_lits by simp
  have l: "butlast (auth_line c) = join_sp ?ts" by (simp add: auth_line_def SP_def butlast_append)
  show "NL \<notin> set (butlast (auth_line c))" unfolding l by (rule join_sp_no_NL [OF ts])
  show "authenticate cookie (TrimSpace (butlast (auth_line c))) = (if c = cookie then None else Some CookieMismatch)"
    unfolding l using line_clean [OF ts] Fields_join_sp [OF ts]
    by (simp add: authenticate_def HasPrefix_def del: join_sp.simps)
qed

lemma auth_line_split: "auth_line c = butlast (auth_line c) @ [NL]"
  by (simp add: auth_line_def butlast_append)

text \<open>
  The daemon state after a list of requests, each handled in turn: the specification of a session.
\<close>

definition run_requests :: "'d handler \<Rightarrow> (int \<times> string list) list \<Rightarrow> 'd \<Rightarrow> 'd" where
  "run_requests f ms d = fold (\<lambda>m d. fst (f \<lparr>m_Class = ClassRequest, m_Type = fst m, m_Args = snd m\<rparr> d)) ms d"

lemma serve_line_msg:
  "msg_ok m \<Longrightarrow> fst (serve_line text (Some f) (join_sp (Itoa ClassRequest # Itoa (fst m) # snd m)) d) =
     fst (f \<lparr>m_Class = ClassRequest, m_Type = fst m, m_Args = snd m\<rparr> d)"
proof -
  assume "msg_ok m"
  then have ok: "msg_ok (fst m, snd m)" by simp
  have "join_sp (Itoa ClassRequest # Itoa (fst m) # snd m) \<noteq> []" by (simp add: join_sp_Cons)
  then show ?thesis
    using line_clean [OF tokens_msg [OF ok]] DecodeMessage_join [OF ok]
    by (auto simp: serve_line_def Let_def simp del: join_sp.simps split: prod.split option.split)
qed

text \<open>
  C34: a session does what the client asked, once it has proved that it knows the cookie. A client that
  sends the right cookie and then any requests gets each of them handled, in order and exactly once; with a
  wrong cookie the daemon state is untouched, whatever is sent after it, and nothing but the greeting is
  written.
\<close>

theorem control_session:
  assumes "token c" and "list_all msg_ok ms"
  shows "fst (handle name cookie pid text (Some f) (auth_line c @ concat (map (\<lambda>m. EncodeMessage (fst m) (snd m)) ms)) d) =
      (if c = cookie then run_requests f ms d else d) \<and>
    (c \<noteq> cookie \<longrightarrow>
       handle name cookie pid text h (auth_line c @ anything) d =
         (d, Greeting_Encode \<lparr>gr_Name = name, gr_Major = 1, gr_Minor = 0\<rparr>, CookieMismatch))"
proof -
  have lines: "complete_lines (auth_line c @ r) = butlast (auth_line c) # complete_lines r" for r
    using complete_lines_line [OF authenticate_spec(2) [OF assms(1)]] auth_line_split [of c]
    by (metis append_Cons append_Nil append_assoc)
  have serve: "fst (serve_lines text (Some f) (map (\<lambda>m. join_sp (Itoa ClassRequest # Itoa (fst m) # snd m)) ms) d) =
      run_requests f ms d"
    using assms(2)
    by (induction ms arbitrary: d) (simp_all add: run_requests_def serve_line_msg case_prod_beta del: join_sp.simps)
  show ?thesis
    using lines authenticate_spec(1) [OF assms(1), of cookie] complete_lines_msgs [OF assms(2)] serve
    by (simp add: handle_def Let_def case_prod_beta del: join_sp.simps)
qed

theorem control_session_witness:
  "fst (handle ''n'' ''bob'' 1 (\<lambda>_. []) (Some (\<lambda>m d. (d + m_Type m, [], None)))
     (auth_line ''bob'' @ concat (map (\<lambda>m. EncodeMessage (fst m) (snd m)) [(4, []), (5, [''bob''])])) 0) = 9"
  using control_session [OF token_lits(2), of "[(4, []), (5, [''bob''])]" "''n''" "''bob''" 1 "\<lambda>_. []"
      "\<lambda>m d. (d + m_Type m, [], None)" 0] token_lits
  by (simp add: msg_ok_def int64_range_def run_requests_def)

end
