(* ===== verification/Invite.thy ===== *)
theory Invite
  imports Config Keys
begin

text \<open>
  Package \<open>invite\<close>: invitation URLs (\<open>url.go\<close>), invitation files (\<open>file.go\<close>) and the session
  encryption (\<open>crypto.go\<close>). X25519, HKDF and the AEAD are third-party code: \<open>session_crypto\<close> bundles
  them as parameters and \<open>session_correct\<close> states what they promise. Random bytes are arguments.
\<close>

section \<open>URLs\<close>

definition cookieBytes :: nat where "cookieBytes = 24"
definition keyHashLen :: nat where "keyHashLen = 43"

record url =
  u_Host :: string
  u_Port :: int
  u_KeyHash :: string
  u_Cookie :: string

datatype url_error = MissingSlash | MissingPort | EmptyHost | InvalidPort string | SecretTooShort | EmptyCookie

definition invite_NewCookie :: "bytes \<Rightarrow> string" where
  "invite_NewCookie buf = RawURLEncode buf"

definition BuildURL :: "crypto \<Rightarrow> string \<Rightarrow> int \<Rightarrow> bytes \<Rightarrow> string \<Rightarrow> url" where
  "BuildURL c host port pub cookie =
     \<lparr>u_Host = host, u_Port = port, u_KeyHash = Hash c pub, u_Cookie = cookie\<rparr>"

definition ParseURL :: "string \<Rightarrow> (url_error, url) result" where
  "ParseURL s =
     (case cut_first (CHR ''/'') s of
        None \<Rightarrow> Inl MissingSlash
      | Some (hostport, secret) \<Rightarrow>
          (case cut_last (CHR '':'') hostport of
             None \<Rightarrow> Inl MissingPort
           | Some (host, portStr) \<Rightarrow>
               if host = [] then Inl EmptyHost
               else (case Atoi portStr of
                       None \<Rightarrow> Inl (InvalidPort portStr)
                     | Some port \<Rightarrow>
                         if port \<le> 0 \<or> port > 65535 then Inl (InvalidPort portStr)
                         else if length secret \<le> keyHashLen then Inl SecretTooShort
                         else if drop keyHashLen secret = [] then Inl EmptyCookie
                         else Inr \<lparr>u_Host = host, u_Port = port, u_KeyHash = take keyHashLen secret,
                                   u_Cookie = drop keyHashLen secret\<rparr>)))"

definition url_String :: "url \<Rightarrow> string" where
  "url_String u = u_Host u @ '':'' @ Itoa (u_Port u) @ ''/'' @ u_KeyHash u @ u_Cookie u"

section \<open>Files\<close>

record block =
  b_Name :: string
  b_Address :: string
  b_ConnectTo :: "string list"
  b_Ifconfig :: "string list"
  b_Route :: "string list"
  b_Other :: entries

record invfile =
  f_Netname :: string
  f_Invitee :: block
  f_Hosts :: "block list"

datatype file_error = FileConfig config_error | NotSingle nat | EmptyFile | FirstNoName | HostNoName | FileTooLong

definition no_block :: block where
  "no_block = \<lparr>b_Name = [], b_Address = [], b_ConnectTo = [], b_Ifconfig = [], b_Route = [], b_Other = []\<rparr>"

definition parseConfigLine :: "string \<Rightarrow> (file_error, entry) result" where
  "parseConfigLine s =
     (case Parse s of
        Inl e \<Rightarrow> Inl (FileConfig e)
      | Inr es \<Rightarrow> if length es \<noteq> 1 then Inl (NotSingle (length es)) else Inr (hd es))"

definition flush :: "entries list \<Rightarrow> entries \<Rightarrow> entries list" where
  "flush blocks current = (if current \<noteq> [] then blocks @ [current] else blocks)"

text \<open>The scan loop of \<open>ParseFile\<close>: the finished blocks and the one being read.\<close>

fun pf_loop :: "string list \<Rightarrow> entries list \<Rightarrow> entries \<Rightarrow> (file_error, entries list \<times> entries) result" where
  "pf_loop [] blocks current = Inr (blocks, current)"
| "pf_loop (l # ls) blocks current =
     (let line = TrimSpace l
      in if line = [] then pf_loop ls blocks current
         else if HasPrefix line ''#'' then pf_loop ls (flush blocks current) []
         else (case parseConfigLine line of
                 Inl e \<Rightarrow> Inl e
               | Inr e \<Rightarrow>
                   if EqualFold (Key e) ''Name'' \<and> current \<noteq> [] then pf_loop ls (flush blocks current) [e]
                   else pf_loop ls blocks (current @ [e])))"

definition block_step :: "entry \<Rightarrow> block \<Rightarrow> block" where
  "block_step e b =
     (if EqualFold (Key e) ''Name'' then b\<lparr>b_Name := Value e\<rparr>
      else if EqualFold (Key e) ''Address'' then b\<lparr>b_Address := Value e\<rparr>
      else if EqualFold (Key e) ''ConnectTo'' then b\<lparr>b_ConnectTo := b_ConnectTo b @ [Value e]\<rparr>
      else if EqualFold (Key e) ''Ifconfig'' then b\<lparr>b_Ifconfig := b_Ifconfig b @ [Value e]\<rparr>
      else if EqualFold (Key e) ''Route'' then b\<lparr>b_Route := b_Route b @ [Value e]\<rparr>
      else if EqualFold (Key e) ''Netname'' then b
      else b\<lparr>b_Other := b_Other b @ [e]\<rparr>)"

definition blockFromEntries :: "entries \<Rightarrow> block" where
  "blockFromEntries es = fold block_step es no_block"

definition ParseFile :: "string \<Rightarrow> (file_error, invfile) result" where
  "ParseFile r =
     (case scan_lines r of
        (ls, tooLong) \<Rightarrow>
          (case pf_loop ls [] [] of
             Inl e \<Rightarrow> Inl e
           | Inr (blocks, current) \<Rightarrow>
               if tooLong then Inl FileTooLong
               else (case flush blocks current of
                       [] \<Rightarrow> Inl EmptyFile
                     | b0 # bs \<Rightarrow>
                         let first = blockFromEntries b0; hosts = map blockFromEntries bs
                         in if b_Name first = [] then Inl FirstNoName
                            else if \<exists>h \<in> set hosts. b_Name h = [] then Inl HostNoName
                            else Inr \<lparr>f_Netname = (case GetFirst b0 ''Netname'' of Some v \<Rightarrow> v | None \<Rightarrow> []),
                                      f_Invitee = first, f_Hosts = hosts\<rparr>)))"

definition cfg_line :: "string \<Rightarrow> string \<Rightarrow> string" where
  "cfg_line k v = k @ '' = '' @ v @ [NL]"

definition writeBlock :: "string \<Rightarrow> bool \<Rightarrow> block \<Rightarrow> string" where
  "writeBlock netname includeNetname blk =
     cfg_line ''Name'' (b_Name blk) @
     (if includeNetname \<and> netname \<noteq> [] then cfg_line ''Netname'' netname else []) @
     concat (map (cfg_line ''ConnectTo'') (b_ConnectTo blk)) @
     (if b_Address blk \<noteq> [] then cfg_line ''Address'' (b_Address blk) else []) @
     concat (map (cfg_line ''Ifconfig'') (b_Ifconfig blk)) @
     concat (map (cfg_line ''Route'') (b_Route blk)) @
     concat (map (\<lambda>e. cfg_line (Key e) (Value e)) (b_Other blk))"

definition separator :: string where
  "separator = ''#---------------------------------------#''"

definition file_Render :: "invfile \<Rightarrow> string" where
  "file_Render f =
     writeBlock (f_Netname f) True (f_Invitee f) @
     concat (map (\<lambda>h. separator @ [NL] @ writeBlock (f_Netname f) False h) (f_Hosts f))"

section \<open>Session encryption\<close>

record session_crypto =
  x25519 :: "bytes \<Rightarrow> bytes \<Rightarrow> bytes option"
  basepoint :: bytes
  hkdf_sha256 :: "bytes \<Rightarrow> bytes \<Rightarrow> bytes \<Rightarrow> nat \<Rightarrow> bytes option"   \<comment> \<open>secret, salt, info, length\<close>
  aead_seal :: "bytes \<Rightarrow> bytes \<Rightarrow> bytes \<Rightarrow> bytes option"          \<comment> \<open>key, nonce, plaintext\<close>
  aead_open :: "bytes \<Rightarrow> bytes \<Rightarrow> bytes \<Rightarrow> bytes option"

record ephemeral =
  eph_Pub :: bytes
  eph_priv :: bytes

definition hkdfInfo :: string where
  "hkdfInfo = ''gsnet-invite-v1''"

definition NewEphemeral :: "session_crypto \<Rightarrow> bytes \<Rightarrow> ephemeral option" where
  "NewEphemeral sc priv = map_option (\<lambda>pub. \<lparr>eph_Pub = pub, eph_priv = priv\<rparr>) (x25519 sc priv (basepoint sc))"

definition DeriveKey :: "session_crypto \<Rightarrow> ephemeral \<Rightarrow> bytes \<Rightarrow> string \<Rightarrow> bytes option" where
  "DeriveKey sc e peerPub cookie =
     (case x25519 sc (eph_priv e) peerPub of
        None \<Rightarrow> None
      | Some shared \<Rightarrow> hkdf_sha256 sc shared (str_bytes cookie) (str_bytes hkdfInfo) 32)"

definition zero_nonce :: bytes where
  "zero_nonce = replicate 12 0"

definition Seal :: "session_crypto \<Rightarrow> bytes \<Rightarrow> bytes \<Rightarrow> bytes option" where
  "Seal sc key plaintext = aead_seal sc key zero_nonce plaintext"

definition Open :: "session_crypto \<Rightarrow> bytes \<Rightarrow> bytes \<Rightarrow> bytes option" where
  "Open sc key ciphertext = aead_open sc key zero_nonce ciphertext"

definition EphemeralPubFromBase64 :: "string \<Rightarrow> (key_error, bytes) result" where
  "EphemeralPubFromBase64 s =
     (case StdDecode s of
        None \<Rightarrow> Inl BadBase64
      | Some b \<Rightarrow> if length b \<noteq> 32 then Inl (WrongLength (length b)) else Inr b)"

definition EphemeralPubToBase64 :: "bytes \<Rightarrow> string" where
  "EphemeralPubToBase64 pub = StdEncode pub"

text \<open>
  Both sides of a Diffie-Hellman exchange compute the same secret, public keys have 32 bytes, keys can be
  derived, and the AEAD opens what it sealed under the same key and nonce.
\<close>

definition session_correct :: "session_crypto \<Rightarrow> bool" where
  "session_correct sc \<longleftrightarrow>
     (\<forall>a pa b pb. x25519 sc a (basepoint sc) = Some pa \<and> x25519 sc b (basepoint sc) = Some pb \<longrightarrow>
        length pa = 32 \<and> x25519 sc a pb = x25519 sc b pa \<and> x25519 sc a pb \<noteq> None) \<and>
     (\<forall>s salt info. \<exists>k. hkdf_sha256 sc s salt info 32 = Some k \<and> length k = 32) \<and>
     (\<forall>k n pt. length k = 32 \<longrightarrow> (\<exists>ct. aead_seal sc k n pt = Some ct \<and> aead_open sc k n ct = Some pt))"

lemma session_key_agree:
  assumes "session_correct sc" "NewEphemeral sc ra = Some a" "NewEphemeral sc rb = Some b"
  obtains key where "DeriveKey sc a (eph_Pub b) cookie = Some key" "DeriveKey sc b (eph_Pub a) cookie = Some key"
    "length key = 32" "length (eph_Pub a) = 32" "length (eph_Pub b) = 32"
proof -
  have a: "x25519 sc ra (basepoint sc) = Some (eph_Pub a)" "eph_priv a = ra"
    and b: "x25519 sc rb (basepoint sc) = Some (eph_Pub b)" "eph_priv b = rb"
    using assms(2,3) by (auto simp: NewEphemeral_def)
  then have l: "length (eph_Pub a) = 32" "length (eph_Pub b) = 32" and eq: "x25519 sc ra (eph_Pub b) = x25519 sc rb (eph_Pub a)"
    and ne: "x25519 sc ra (eph_Pub b) \<noteq> None"
    using assms(1) unfolding session_correct_def by blast+
  obtain s where s: "x25519 sc ra (eph_Pub b) = Some s" using ne by blast
  obtain key where "hkdf_sha256 sc s (str_bytes cookie) (str_bytes hkdfInfo) 32 = Some key" "length key = 32"
    using assms(1) unfolding session_correct_def by blast
  then show ?thesis using that [of key] a b l s eq [symmetric] by (simp add: DeriveKey_def)
qed

lemma Open_Seal:
  assumes "session_correct sc" "length key = 32"
  obtains ct where "Seal sc key pt = Some ct" "Open sc key ct = Some pt"
  using assms that unfolding session_correct_def Seal_def Open_def by blast

interpretation ephpub: codec EphemeralPubToBase64 "\<lambda>s. ok_of (EphemeralPubFromBase64 s)" "\<lambda>b. length b = 32"
  by unfold_locales (simp add: EphemeralPubToBase64_def EphemeralPubFromBase64_def StdDecode_StdEncode)

section \<open>URL round trip\<close>

definition url_ok :: "url \<Rightarrow> bool" where
  "url_ok u \<longleftrightarrow> u_Host u \<noteq> [] \<and> CHR ''/'' \<notin> set (u_Host u) \<and> 0 < u_Port u \<and> u_Port u \<le> 65535 \<and>
     length (u_KeyHash u) = keyHashLen \<and> u_Cookie u \<noteq> []"

lemma Itoa_notin: "\<not> is_digit c \<Longrightarrow> c \<noteq> CHR ''-'' \<Longrightarrow> c \<notin> set (Itoa v)"
  using Itoa_chars by blast

interpretation iurl: codec url_String "\<lambda>s. ok_of (ParseURL s)" url_ok
proof unfold_locales
  fix u assume u: "url_ok u"
  have sl: "CHR ''/'' \<notin> set (u_Host u @ '':'' @ Itoa (u_Port u))"
    using u by (simp add: url_ok_def Itoa_notin is_digit_def)
  have "url_String u = (u_Host u @ '':'' @ Itoa (u_Port u)) @ CHR ''/'' # (u_KeyHash u @ u_Cookie u)"
    by (simp add: url_String_def)
  then have "cut_first (CHR ''/'') (url_String u) = Some (u_Host u @ '':'' @ Itoa (u_Port u), u_KeyHash u @ u_Cookie u)"
    using cut_first_append [OF sl] by simp
  moreover have "CHR '':'' \<notin> set (Itoa (u_Port u))" by (simp add: Itoa_notin is_digit_def)
  moreover have "Atoi (Itoa (u_Port u)) = Some (u_Port u)" using u by (intro Atoi_Itoa) (auto simp: url_ok_def int64_range_def)
  ultimately show "ok_of (ParseURL (url_String u)) = Some u"
    using u by (cases u) (simp add: ParseURL_def url_ok_def)
qed

text \<open>
  The URL an inviter builds is the one the invitee parses: host, port, fingerprint of the inviter's key
  and cookie come back unchanged, for any host without a slash, IPv6 literals included. Conversely every URL
  that parses has a non-empty host, a legal port, a 43-character fingerprint and a non-empty cookie.
\<close>

theorem invitation_url_roundtrip:
  assumes "sha256_length c" and "host \<noteq> []" and "CHR ''/'' \<notin> set host" and "0 < port" and "port \<le> 65535"
    and "length buf = cookieBytes"
  shows "ParseURL (url_String (BuildURL c host port pub (invite_NewCookie buf))) =
      Inr (BuildURL c host port pub (invite_NewCookie buf)) \<and>
    (\<forall>u. ParseURL s = Inr u \<longrightarrow> 0 < u_Port u \<and> u_Port u \<le> 65535 \<and> u_Host u \<noteq> [] \<and>
       length (u_KeyHash u) = keyHashLen \<and> u_Cookie u \<noteq> [])"
proof -
  have "length (invite_NewCookie buf) = 32"
    using assms(6) by (simp add: invite_NewCookie_def length_RawURLEncode cookieBytes_def)
  then have "invite_NewCookie buf \<noteq> []" by auto
  then have "url_ok (BuildURL c host port pub (invite_NewCookie buf))"
    using assms Hash_length [OF assms(1)] by (simp add: url_ok_def BuildURL_def keyHashLen_def)
  from iurl.dec_enc [OF this]
  have "ParseURL (url_String (BuildURL c host port pub (invite_NewCookie buf))) =
      Inr (BuildURL c host port pub (invite_NewCookie buf))" by simp
  moreover have "\<forall>u. ParseURL s = Inr u \<longrightarrow> 0 < u_Port u \<and> u_Port u \<le> 65535 \<and> u_Host u \<noteq> [] \<and>
       length (u_KeyHash u) = keyHashLen \<and> u_Cookie u \<noteq> []"
    by (auto simp: ParseURL_def split: option.splits if_splits)
  ultimately show ?thesis by blast
qed

theorem invitation_url_roundtrip_witness:
  "ParseURL (url_String (BuildURL toy_crypto ''::1'' 655 [] (invite_NewCookie (replicate 24 9)))) =
     Inr (BuildURL toy_crypto ''::1'' 655 [] (invite_NewCookie (replicate 24 9)))"
  using invitation_url_roundtrip [OF toy_correct(2), of "''::1''" 655 "replicate 24 9" "[]" "[]"]
  by (simp add: cookieBytes_def)

section \<open>File round trip\<close>

text \<open>A block as the list of configuration entries that \<open>Render\<close> writes for it.\<close>

definition ent :: "string \<Rightarrow> string \<Rightarrow> entry" where
  "ent k v = \<lparr>Key = k, Value = v\<rparr>"

definition block_entries :: "string \<Rightarrow> bool \<Rightarrow> block \<Rightarrow> entries" where
  "block_entries netname inc b =
     ent ''Name'' (b_Name b) # (if inc \<and> netname \<noteq> [] then [ent ''Netname'' netname] else []) @
     map (ent ''ConnectTo'') (b_ConnectTo b) @
     (if b_Address b \<noteq> [] then [ent ''Address'' (b_Address b)] else []) @
     map (ent ''Ifconfig'') (b_Ifconfig b) @ map (ent ''Route'') (b_Route b) @ b_Other b"

lemma writeBlock_entries: "writeBlock netname inc b = concat (map (\<lambda>e. render_entry e @ [NL]) (block_entries netname inc b))"
proof -
  have c: "cfg_line k = (\<lambda>v. render_entry (ent k v) @ [NL])" for k
    by (rule ext) (simp add: cfg_line_def render_entry_def ent_def)
  have e: "ent (Key e) (Value e) = e" for e by (cases e) (simp add: ent_def)
  show ?thesis by (simp add: writeBlock_def block_entries_def c e comp_def)
qed

definition special :: "string \<Rightarrow> bool" where
  "special k \<longleftrightarrow> (\<exists>s \<in> {''Name'', ''Address'', ''ConnectTo'', ''Ifconfig'', ''Route'', ''Netname''}. EqualFold k s)"

definition value_ok :: "string \<Rightarrow> bool" where
  "value_ok v \<longleftrightarrow> clean v \<and> NL \<notin> set v \<and> length v + 12 < MaxScanTokenSize"

definition block_ok :: "block \<Rightarrow> bool" where
  "block_ok b \<longleftrightarrow> value_ok (b_Name b) \<and> (b_Address b = [] \<or> value_ok (b_Address b)) \<and> list_all value_ok (b_ConnectTo b) \<and>
     list_all value_ok (b_Ifconfig b) \<and> list_all value_ok (b_Route b) \<and> list_all entry_ok (b_Other b) \<and>
     list_all (\<lambda>e. \<not> special (Key e)) (b_Other b)"

definition file_ok :: "invfile \<Rightarrow> bool" where
  "file_ok f \<longleftrightarrow> (f_Netname f = [] \<or> value_ok (f_Netname f)) \<and> block_ok (f_Invitee f) \<and> list_all block_ok (f_Hosts f)"

abbreviation spkeys :: "string list" where
  "spkeys \<equiv> [''Name'', ''Address'', ''ConnectTo'', ''Ifconfig'', ''Route'', ''Netname'']"

lemma spkeys_fold: "list_all (\<lambda>k. list_all (\<lambda>l. EqualFold k l = (k = l)) spkeys) spkeys"
  by (simp add: EqualFold_known canonical_def)

lemma spkeys_eq: "k \<in> set spkeys \<Longrightarrow> l \<in> set spkeys \<Longrightarrow> EqualFold k l = (k = l)"
  using spkeys_fold unfolding list_all_iff by blast

lemma spkeys_canon: "list_all (\<lambda>k. canonicalKey k = k \<and> clean k \<and> CHR ''='' \<notin> set k \<and> NL \<notin> set k \<and> length k \<le> 9 \<and> hd k \<noteq> CHR ''#'') spkeys"
proof -
  have "clean k" if "k \<in> set spkeys" for k using that by (auto intro!: ascii_cleanI simp: ascii_def space_encs_def)
  moreover have "list_all (\<lambda>k. canonicalKey k = k \<and> CHR ''='' \<notin> set k \<and> NL \<notin> set k \<and> length k \<le> 9 \<and> hd k \<noteq> CHR ''#'') spkeys"
    by (simp add: canonicalKey_known canonical_def NL_def)
  ultimately show ?thesis unfolding list_all_iff by blast
qed

lemma ent_ok: "k \<in> set spkeys \<Longrightarrow> value_ok v \<Longrightarrow> entry_ok (ent k v)"
  using spkeys_canon unfolding list_all_iff by (auto simp: entry_ok_def ent_def value_ok_def)

lemma block_entries_ok:
  "block_ok b \<Longrightarrow> netname = [] \<or> value_ok netname \<Longrightarrow> list_all entry_ok (block_entries netname inc b)"
  by (auto simp: block_entries_def block_ok_def list_all_iff intro: ent_ok)

lemma Parse_single:
  assumes "entry_ok e" shows "parseConfigLine (render_entry e) = Inr e"
proof -
  have p: "plain_line (render_entry e)" and c: "clean (render_entry e)" using assms by (rule plain_render, rule clean_render)
  then have "render_entry e \<noteq> []" "NL \<notin> set (render_entry e)" by (auto simp: clean_def plain_line_def)
  then have "raw_lines (render_entry e) = [render_entry e]" by (intro raw_lines_single) auto
  then have "scan_lines (render_entry e) = ([render_entry e], False)"
    using p by (auto simp: scan_lines_def Let_def plain_line_def dropCR_id)
  moreover have "parse_lines [render_entry e] = Inr [e]" using parse_lines_render [of "[e]"] assms by simp
  ultimately show ?thesis by (simp add: parseConfigLine_def Parse_def)
qed

lemma render_not_comment:
  assumes "entry_ok e"
  shows "\<not> HasPrefix (render_entry e) ''#'' \<and> render_entry e \<noteq> [] \<and> TrimSpace (render_entry e) = render_entry e"
proof -
  have "Key e \<noteq> []" "hd (Key e) \<noteq> CHR ''#''" using assms by (auto simp: entry_ok_def clean_def)
  then have "\<not> HasPrefix (render_entry e) ''#''" by (cases "Key e") (auto simp: HasPrefix_def render_entry_def)
  moreover have "clean (render_entry e)" by (rule clean_render [OF assms])
  ultimately show ?thesis by (simp add: TrimSpace_clean clean_def)
qed

lemma pf_loop_entries:
  "list_all entry_ok es \<Longrightarrow> list_all (\<lambda>e. \<not> EqualFold (Key e) ''Name'') es \<Longrightarrow>
     pf_loop (map render_entry es @ ls) blocks cur = pf_loop ls blocks (cur @ es)"
proof (induction es arbitrary: cur)
  case (Cons e es)
  then show ?case using render_not_comment [of e] by (simp add: Parse_single)
qed simp

lemma tail_no_key:
  assumes "block_ok b" and k: "k \<in> set spkeys"
    and "e \<in> set (map (ent ''ConnectTo'') (b_ConnectTo b) @ (if b_Address b \<noteq> [] then [ent ''Address'' (b_Address b)] else []) @
      map (ent ''Ifconfig'') (b_Ifconfig b) @ map (ent ''Route'') (b_Route b) @ b_Other b)"
    and "k = ''Name'' \<or> k = ''Netname''"
  shows "\<not> EqualFold (Key e) k"
proof (cases "e \<in> set (b_Other b)")
  case True
  then have "\<not> special (Key e)" using assms(1) by (auto simp: block_ok_def list_all_iff)
  then show ?thesis using assms(4) by (auto simp: special_def)
next
  case False
  have key: "Key (ent x v) = x" for x v by (simp add: ent_def)
  from False consider "Key e = ''ConnectTo''" | "Key e = ''Address''" | "Key e = ''Ifconfig''" | "Key e = ''Route''"
    using assms(3) key by (fastforce split: if_splits)
  then show ?thesis using spkeys_eq [OF _ k, of "Key e"] assms(4) by cases (simp_all, blast+)
qed

lemma pf_loop_block:
  assumes "block_ok b" "n = [] \<or> value_ok n"
  shows "pf_loop (map render_entry (block_entries n inc b) @ ls) blocks [] = pf_loop ls blocks (block_entries n inc b)"
proof -
  obtain tl where be: "block_entries n inc b = ent ''Name'' (b_Name b) # tl" by (simp add: block_entries_def)
  have ok: "list_all entry_ok (ent ''Name'' (b_Name b) # tl)" using block_entries_ok [OF assms] be by metis
  have "\<not> EqualFold (Key e) ''Name''" if "e \<in> set tl" for e
    using that be tail_no_key [OF assms(1), of "''Name''" e] spkeys_eq [of "''Netname''" "''Name''"]
    by (auto simp: block_entries_def ent_def split: if_splits)
  then have nn: "list_all (\<lambda>e. \<not> EqualFold (Key e) ''Name'') tl" by (simp add: list_all_iff)
  show ?thesis
    unfolding be using ok render_not_comment [of "ent ''Name'' (b_Name b)"] pf_loop_entries [OF _ nn, of ls blocks "[ent ''Name'' (b_Name b)]"]
    by (simp add: Parse_single)
qed

lemma separator_line: "plain_line separator" "TrimSpace separator = separator" "HasPrefix separator ''#''" "separator \<noteq> []"
proof -
  have "clean separator" by (rule ascii_cleanI) (simp_all add: separator_def ascii_def space_encs_def)
  then show "TrimSpace separator = separator" by (rule TrimSpace_clean)
qed (simp_all add: separator_def plain_line_def NL_def CR_def MaxScanTokenSize_def HasPrefix_def)

lemma pf_loop_hosts:
  assumes "n = [] \<or> value_ok n"
  shows "list_all block_ok hs \<Longrightarrow> cur \<noteq> [] \<Longrightarrow>
     \<exists>bs c. pf_loop (concat (map (\<lambda>h. separator # map render_entry (block_entries n False h)) hs)) blocks cur = Inr (bs, c) \<and>
       flush bs c = blocks @ cur # map (block_entries n False) hs"
proof (induction hs arbitrary: blocks cur)
  case Nil
  then show ?case by (simp add: flush_def)
next
  case (Cons h hs)
  have ne: "block_entries n False h \<noteq> []" by (simp add: block_entries_def)
  obtain bs c where "pf_loop (concat (map (\<lambda>h. separator # map render_entry (block_entries n False h)) hs)) (blocks @ [cur])
      (block_entries n False h) = Inr (bs, c)"
    "flush bs c = (blocks @ [cur]) @ block_entries n False h # map (block_entries n False) hs"
    using Cons.IH [OF _ ne, of "blocks @ [cur]"] Cons.prems by auto
  then show ?case using Cons.prems assms separator_line by (auto simp: flush_def pf_loop_block)
qed

lemma block_step_special:
  "block_step (ent ''Name'' v) b = b\<lparr>b_Name := v\<rparr>"
  "block_step (ent ''Address'' v) b = b\<lparr>b_Address := v\<rparr>"
  "block_step (ent ''ConnectTo'' v) b = b\<lparr>b_ConnectTo := b_ConnectTo b @ [v]\<rparr>"
  "block_step (ent ''Ifconfig'' v) b = b\<lparr>b_Ifconfig := b_Ifconfig b @ [v]\<rparr>"
  "block_step (ent ''Route'' v) b = b\<lparr>b_Route := b_Route b @ [v]\<rparr>"
  "block_step (ent ''Netname'' v) b = b"
  by (simp_all add: block_step_def ent_def spkeys_eq)

lemma fold_special:
  "fold block_step (map (ent ''ConnectTo'') vs) b = b\<lparr>b_ConnectTo := b_ConnectTo b @ vs\<rparr>"
  "fold block_step (map (ent ''Ifconfig'') vs) b = b\<lparr>b_Ifconfig := b_Ifconfig b @ vs\<rparr>"
  "fold block_step (map (ent ''Route'') vs) b = b\<lparr>b_Route := b_Route b @ vs\<rparr>"
  by (induction vs arbitrary: b) (simp_all add: block_step_special)

lemma fold_other:
  "list_all (\<lambda>e. \<not> special (Key e)) es \<Longrightarrow> fold block_step es b = b\<lparr>b_Other := b_Other b @ es\<rparr>"
  by (induction es arbitrary: b) (simp_all add: block_step_def special_def)

lemma blockFromEntries_inverse: "block_ok b \<Longrightarrow> blockFromEntries (block_entries n inc b) = b"
  by (cases b) (auto simp: blockFromEntries_def block_entries_def block_step_special fold_special fold_other
      no_block_def block_ok_def)

lemma GetFirst_none: "\<forall>e \<in> set es. \<not> EqualFold (Key e) k \<Longrightarrow> GetFirst es k = None"
  by (induction es) auto

lemma netname_inverse:
  assumes "block_ok b"
  shows "(case GetFirst (block_entries n True b) ''Netname'' of Some v \<Rightarrow> v | None \<Rightarrow> []) = n"
proof -
  let ?tl = "map (ent ''ConnectTo'') (b_ConnectTo b) @ (if b_Address b \<noteq> [] then [ent ''Address'' (b_Address b)] else []) @
      map (ent ''Ifconfig'') (b_Ifconfig b) @ map (ent ''Route'') (b_Route b) @ b_Other b"
  have "GetFirst ?tl ''Netname'' = None"
    by (rule GetFirst_none) (use tail_no_key [OF assms, of "''Netname''"] in auto)
  moreover have "\<not> EqualFold ''Name'' ''Netname''" "EqualFold ''Netname'' ''Netname''" by (simp_all add: spkeys_eq)
  ultimately show ?thesis by (simp add: block_entries_def ent_def)
qed

interpretation ifile: codec file_Render "\<lambda>s. ok_of (ParseFile s)" file_ok
proof unfold_locales
  fix f assume f: "file_ok f"
  let ?n = "f_Netname f"
  have n: "?n = [] \<or> value_ok ?n" and inv: "block_ok (f_Invitee f)" and hosts: "list_all block_ok (f_Hosts f)"
    using f by (auto simp: file_ok_def)
  let ?ls = "map render_entry (block_entries ?n True (f_Invitee f)) @
      concat (map (\<lambda>h. separator # map render_entry (block_entries ?n False h)) (f_Hosts f))"
  have "concat (map (\<lambda>h. separator @ NL # concat (map (\<lambda>e. render_entry e @ [NL]) (block_entries ?n False h))) hs) =
      concat (map (\<lambda>l. l @ [NL]) (concat (map (\<lambda>h. separator # map render_entry (block_entries ?n False h)) hs)))" for hs
    by (induction hs) (simp_all add: comp_def)
  then have "file_Render f = concat (map (\<lambda>l. l @ [NL]) ?ls)"
    by (simp add: file_Render_def writeBlock_entries comp_def)
  moreover have "list_all plain_line ?ls"
    using separator_line(1) block_entries_ok [OF inv n] hosts block_entries_ok [OF _ n]
    by (fastforce simp: list_all_iff plain_render)
  ultimately have scan: "scan_lines (file_Render f) = (?ls, False)" by (simp only: scan_lines_concat)
  obtain bs c where bs: "pf_loop ?ls [] [] = Inr (bs, c)"
    "flush bs c = block_entries ?n True (f_Invitee f) # map (block_entries ?n False) (f_Hosts f)"
  proof -
    have "block_entries ?n True (f_Invitee f) \<noteq> []" by (simp add: block_entries_def)
    from pf_loop_hosts [OF n hosts this, of "[]"] show ?thesis
      using that by (auto simp: pf_loop_block [OF inv n])
  qed
  have names: "b_Name b \<noteq> []" if "block_ok b" for b using that by (auto simp: block_ok_def value_ok_def clean_def)
  have hs: "map (blockFromEntries \<circ> block_entries ?n False) (f_Hosts f) = f_Hosts f"
    using hosts by (intro map_idI) (auto simp: list_all_iff blockFromEntries_inverse)
  show "ok_of (ParseFile (file_Render f)) = Some f"
    using bs scan inv hosts hs names netname_inverse [OF inv, of ?n]
    by (cases f) (auto simp: ParseFile_def Let_def blockFromEntries_inverse list_all_iff)
qed

text \<open>
  An invitation file survives its textual form. For every file whose values fit on a line and whose
  extra entries are not among the block keywords, parsing the rendered file gives back the network name,
  the invitee's block and all host blocks, in order and complete.
\<close>

theorem invitation_file_roundtrip:
  assumes "file_ok f"
  shows "ParseFile (file_Render f) = Inr f \<and> (file_ok g \<and> file_Render g = file_Render f \<longrightarrow> g = f)"
  using ifile.dec_enc [OF assms] ifile.enc_inj [OF _ assms, of g] by auto

definition sample_file :: invfile where
  "sample_file = \<lparr>f_Netname = [], f_Invitee = no_block\<lparr>b_Name := ''bob'', b_ConnectTo := [''alice'']\<rparr>,
     f_Hosts = [no_block\<lparr>b_Name := ''alice'', b_Other := [ent ''Port'' ''655'']\<rparr>]\<rparr>"

lemma sample_file_ok: "file_ok sample_file"
proof -
  have c: "clean ''bob''" "clean ''alice''" "clean ''Port''" "clean ''655''"
    by (rule ascii_cleanI; simp add: ascii_def space_encs_def)+
  have "canonicalKey ''Port'' = ''Port''"
    by (simp add: canonicalKey_known canonical_def)
  moreover have "\<not> special ''Port''"
    by (simp add: special_def EqualFold_known canonical_def)
  ultimately show ?thesis using c
    by (simp add: file_ok_def sample_file_def block_ok_def no_block_def value_ok_def entry_ok_def ent_def NL_def MaxScanTokenSize_def)
qed

theorem invitation_file_roundtrip_witness: "ParseFile (file_Render sample_file) = Inr sample_file"
  using invitation_file_roundtrip [OF sample_file_ok] by blast

end
