(* ===== verification/Transport.thy ===== *)
theory Transport
  imports Plane Invite
begin

text \<open>
  Package \<open>transport\<close>: the TCP transport that carries gossip links and the invitation exchange.
  \<^item> \<open>transport.go\<close>: the demultiplexer \<open>handleInbound\<close>, the gossip reader, the two invitation handlers and
    the connection table with \<open>Dial\<close> and \<open>Broadcast\<close>;
  \<^item> \<open>client.go\<close>: the invitee's side of the exchange, with the checks on the reply.

  A connection is the bytes its peer sends until it closes (\<open>ReadString\<close> fails at the end of the stream) and
  the bytes written back. The callbacks of the server are functions on the daemon state \<open>'d\<close>; an error they
  return is its text. The texts of the errors of other packages are given by \<open>etext\<close>.
\<close>

section \<open>Server: the invitation exchange\<close>

record 'd tserver =
  ts_EdPriv :: bytes
  ts_OnGossip :: bool                                        \<comment> \<open>a callback is installed\<close>
  ts_InviteGet :: "(string \<Rightarrow> 'd \<Rightarrow> 'd \<times> (string, bytes) result) option"
  ts_InviteJoin :: "(string \<Rightarrow> string \<Rightarrow> bytes \<Rightarrow> 'd \<Rightarrow> 'd \<times> (string, bytes) result) option"

datatype fault = PubFault key_error | EphemeralFault | DeriveFault | SealFault | Base64Fault

datatype transport_error = StreamEnd | UnknownCommand string | ReadBody

definition sigPayload :: "bytes \<Rightarrow> string \<Rightarrow> bytes" where
  "sigPayload serverPub cookie =
     str_bytes ''gsnet-invite-v1'' @ [0] @ serverPub @ [0] @ str_bytes cookie"

definition errReply :: "string \<Rightarrow> string" where
  "errReply msg = ''ERR '' @ msg @ [NL]"

definition encryptAndReply ::
    "crypto \<Rightarrow> session_crypto \<Rightarrow> (fault \<Rightarrow> string) \<Rightarrow> bytes \<Rightarrow> bytes \<Rightarrow> string \<Rightarrow> bytes \<Rightarrow> bytes \<Rightarrow> string" where
  "encryptAndReply c sc etext edPriv rnd cookie clientPub plaintext =
     (case NewEphemeral sc rnd of
        None \<Rightarrow> errReply (etext EphemeralFault)
      | Some server \<Rightarrow>
          (case DeriveKey sc server clientPub cookie of
             None \<Rightarrow> errReply (etext DeriveFault)
           | Some key \<Rightarrow>
               (case Seal sc key plaintext of
                  None \<Rightarrow> errReply (etext SealFault)
                | Some ct \<Rightarrow>
                    let sig = Sign c edPriv (sigPayload (eph_Pub server) cookie)
                    in ''OK '' @ EphemeralPubToBase64 (eph_Pub server) @ [SP] @ StdEncode sig @ [NL] @
                       StdEncode ct @ [NL])))"

definition handleInvite2Get ::
    "crypto \<Rightarrow> session_crypto \<Rightarrow> (fault \<Rightarrow> string) \<Rightarrow> bytes \<Rightarrow> 'd tserver \<Rightarrow> string \<Rightarrow> 'd \<Rightarrow> 'd \<times> string" where
  "handleInvite2Get c sc etext rnd s rest d =
     (case Fields rest of
        [cookie, clientPubB64] \<Rightarrow>
          (case ts_InviteGet s of
             None \<Rightarrow> (d, ''ERR invite not enabled'' @ [NL])
           | Some inviteGet \<Rightarrow>
               (case EphemeralPubFromBase64 clientPubB64 of
                  Inl e \<Rightarrow> (d, errReply (etext (PubFault e)))
                | Inr clientPub \<Rightarrow>
                    (case inviteGet cookie d of
                       (d', Inl err) \<Rightarrow> (d', errReply err)
                     | (d', Inr body) \<Rightarrow> (d', encryptAndReply c sc etext (ts_EdPriv s) rnd cookie clientPub body))))
      | _ \<Rightarrow> (d, ''ERR malformed GET'' @ [NL]))"

text \<open>\<open>lines\<close> are the complete lines that follow the command; the body is the first of them.\<close>

definition handleInvite2Join ::
    "crypto \<Rightarrow> session_crypto \<Rightarrow> (fault \<Rightarrow> string) \<Rightarrow> bytes \<Rightarrow> 'd tserver \<Rightarrow> string list \<Rightarrow> string \<Rightarrow> 'd \<Rightarrow>
       'd \<times> string \<times> transport_error option" where
  "handleInvite2Join c sc etext rnd s lines rest d =
     (case Fields rest of
        [cookie, inviteeName, clientPubB64] \<Rightarrow>
          (case ts_InviteJoin s of
             None \<Rightarrow> (d, ''ERR invite not enabled'' @ [NL], None)
           | Some inviteJoin \<Rightarrow>
               (case EphemeralPubFromBase64 clientPubB64 of
                  Inl e \<Rightarrow> (d, errReply (etext (PubFault e)), None)
                | Inr clientPub \<Rightarrow>
                    (case lines of
                       [] \<Rightarrow> (d, [], Some ReadBody)
                     | bodyLine # _ \<Rightarrow>
                         (case StdDecode (TrimRight (bodyLine @ [NL]) [CR, NL]) of
                            None \<Rightarrow> (d, ''ERR base64: '' @ etext Base64Fault @ [NL], None)
                          | Some hostConfig \<Rightarrow>
                              (case inviteJoin cookie inviteeName hostConfig d of
                                 (d', Inl err) \<Rightarrow> (d', errReply err, None)
                               | (d', Inr body) \<Rightarrow>
                                   (d', encryptAndReply c sc etext (ts_EdPriv s) rnd cookie clientPub body, None))))))
      | _ \<Rightarrow> (d, ''ERR malformed JOIN'' @ [NL], None))"

section \<open>Server: gossip links and dispatch\<close>

text \<open>Every complete line that is an envelope is handed to the callback; other lines are logged and skipped.\<close>

definition handleGossip :: "bool \<Rightarrow> string list \<Rightarrow> envelope list" where
  "handleGossip onGossip lines =
     (if onGossip then List.map_filter (\<lambda>l. envelope_unmarshal (l @ [NL])) lines else [])"

record 'd session =
  se_state :: 'd
  se_reply :: string
  se_gossip :: "envelope list"
  se_tracked :: bool                                         \<comment> \<open>the connection joined the broadcast pool\<close>
  se_err :: "transport_error option"

definition handleInbound ::
    "crypto \<Rightarrow> session_crypto \<Rightarrow> (fault \<Rightarrow> string) \<Rightarrow> bytes \<Rightarrow> 'd tserver \<Rightarrow> string \<Rightarrow> 'd \<Rightarrow> 'd session" where
  "handleInbound c sc etext rnd s input d =
     (case complete_lines input of
        [] \<Rightarrow> \<lparr>se_state = d, se_reply = [], se_gossip = [], se_tracked = False, se_err = Some StreamEnd\<rparr>
      | first # lines \<Rightarrow>
          let line = TrimRight (first @ [NL]) [CR, NL]
          in if line = ''GOSSIP'' then
               \<lparr>se_state = d, se_reply = [], se_gossip = handleGossip (ts_OnGossip s) lines,
                se_tracked = True, se_err = Some StreamEnd\<rparr>
             else if HasPrefix line ''INVITE2 GET '' then
               (case handleInvite2Get c sc etext rnd s (TrimPrefix line ''INVITE2 GET '') d of
                  (d', out) \<Rightarrow> \<lparr>se_state = d', se_reply = out, se_gossip = [], se_tracked = False, se_err = None\<rparr>)
             else if HasPrefix line ''INVITE2 JOIN '' then
               (case handleInvite2Join c sc etext rnd s lines (TrimPrefix line ''INVITE2 JOIN '') d of
                  (d', out, err) \<Rightarrow>
                    \<lparr>se_state = d', se_reply = out, se_gossip = [], se_tracked = False, se_err = err\<rparr>)
             else \<lparr>se_state = d, se_reply = [], se_gossip = [], se_tracked = False,
                   se_err = Some (UnknownCommand line)\<rparr>)"

section \<open>The connection table\<close>

text \<open>
  A connection is a pointer: \<open>tc_id\<close> is its identity. The table is the set of keys of \<open>conns\<close>, in the order
  a \<open>range\<close> loop visits them.
\<close>

record tconn =
  tc_id :: nat
  tc_outboundAddr :: string

definition track :: "tconn \<Rightarrow> tconn list \<Rightarrow> tconn list" where
  "track c conns = (if c \<in> set conns then conns else conns @ [c])"

definition untrack :: "tconn \<Rightarrow> tconn list \<Rightarrow> tconn list" where
  "untrack c conns = removeAll c conns"

definition hasOutbound :: "tconn list \<Rightarrow> string \<Rightarrow> bool" where
  "hasOutbound conns addr \<longleftrightarrow> (\<exists>c \<in> set conns. tc_outboundAddr c = addr)"

text \<open>
  \<open>Broadcast\<close>: the line each tracked connection is given, and the connections closed because the write
  failed (\<open>fails\<close>); their reader then ends and untracks them.
\<close>

definition gossip_Broadcast ::
    "(tconn \<Rightarrow> bool) \<Rightarrow> envelope \<Rightarrow> tconn list \<Rightarrow> (gossip_error, (tconn \<times> string) list \<times> tconn list) result" where
  "gossip_Broadcast fails env conns =
     (case Encode env of
        Inl e \<Rightarrow> Inl e
      | Inr data \<Rightarrow> Inr (map (\<lambda>c. (c, data @ [NL])) (filter (\<lambda>c. \<not> fails c) conns), filter fails conns))"

definition transport_Send ::
    "(tconn \<Rightarrow> bool) \<Rightarrow> string \<Rightarrow> envelope \<Rightarrow> tconn list \<Rightarrow> (gossip_error, (tconn \<times> string) list \<times> tconn list) result" where
  "transport_Send fails peer env conns = gossip_Broadcast fails env conns"

text \<open>
  \<open>Dial\<close>: what the network does is an argument: \<open>dialed\<close> tells whether the connection was opened and
  \<open>greeted\<close> whether the first line was written; \<open>i\<close> is the address of the new \<open>conn\<close>. The result is the new
  table, what was sent and whether an error was returned. The reader of the new connection hands over the
  envelopes of the lines it receives as \<open>handleGossip\<close> does.
\<close>

definition transport_Dial :: "string \<Rightarrow> nat \<Rightarrow> bool \<Rightarrow> bool \<Rightarrow> tconn list \<Rightarrow> tconn list \<times> string \<times> bool" where
  "transport_Dial addr i dialed greeted conns =
     (if hasOutbound conns addr then (conns, [], False)
      else if \<not> dialed then (conns, [], True)
      else if \<not> greeted then (conns, [], True)
      else (track \<lparr>tc_id = i, tc_outboundAddr = addr\<rparr> conns, ''GOSSIP'' @ [NL], False))"

section \<open>Client\<close>

datatype client_error =
    NoEphemeral | DialFailed | NoStatus | ServerReplied string | MalformedOK string | BadServerPub key_error
  | BadSigB64 | NoCiphertext | BadCtB64 | NoKey | DecryptFailed | NoInviterKey | KeyhashMismatch | BadSignature

definition findInviterEd25519Pub :: "bytes \<Rightarrow> bytes option" where
  "findInviterEd25519Pub pt =
     (case ParseFile (bytes_str pt) of
        Inl _ \<Rightarrow> None
      | Inr f \<Rightarrow>
          (case f_Hosts f of
             [] \<Rightarrow> None
           | h # _ \<Rightarrow>
               (case GetFirst (b_Other h) ''Ed25519PublicKey'' of
                  None \<Rightarrow> None
                | Some pubStr \<Rightarrow> ok_of (ParseEd25519PublicBase64 (TrimSpace pubStr)))))"

definition parseEncryptedReply ::
    "crypto \<Rightarrow> session_crypto \<Rightarrow> string \<Rightarrow> ephemeral \<Rightarrow> string \<Rightarrow> string \<Rightarrow> string \<Rightarrow> (client_error, bytes) result" where
  "parseEncryptedReply c sc r eph cookie expectedKeyHash statusLine =
     (case Fields (TrimPrefix statusLine ''OK '') of
        [p0, p1] \<Rightarrow>
          (case EphemeralPubFromBase64 p0 of
             Inl e \<Rightarrow> Inl (BadServerPub e)
           | Inr serverPub \<Rightarrow>
          (case StdDecode p1 of
             None \<Rightarrow> Inl BadSigB64
           | Some sig \<Rightarrow>
          (case cut_first NL r of
             None \<Rightarrow> Inl NoCiphertext
           | Some (ctLine, _) \<Rightarrow>
          (case StdDecode (TrimRight (ctLine @ [NL]) [CR, NL]) of
             None \<Rightarrow> Inl BadCtB64
           | Some ct \<Rightarrow>
          (case DeriveKey sc eph serverPub cookie of
             None \<Rightarrow> Inl NoKey
           | Some key \<Rightarrow>
          (case Open sc key ct of
             None \<Rightarrow> Inl DecryptFailed
           | Some pt \<Rightarrow>
          (case findInviterEd25519Pub pt of
             None \<Rightarrow> Inl NoInviterKey
           | Some inviterPub \<Rightarrow>
               if expectedKeyHash \<noteq> [] \<and> Hash c inviterPub \<noteq> expectedKeyHash then Inl KeyhashMismatch
               else if \<not> Verify c inviterPub (sigPayload serverPub cookie) sig then Inl BadSignature
               else Inr pt)))))))
      | _ \<Rightarrow> Inl (MalformedOK statusLine))"

text \<open>\<open>net\<close> is the network: the bytes received until the deadline for a command, if the dial succeeds.\<close>

definition client_roundtrip ::
    "crypto \<Rightarrow> session_crypto \<Rightarrow> (string \<Rightarrow> string option) \<Rightarrow> string \<Rightarrow> ephemeral \<Rightarrow> string \<Rightarrow> string \<Rightarrow>
       (client_error, bytes) result" where
  "client_roundtrip c sc net command eph cookie expectedKeyHash =
     (case net command of
        None \<Rightarrow> Inl DialFailed
      | Some resp \<Rightarrow>
          (case cut_first NL resp of
             None \<Rightarrow> Inl NoStatus
           | Some (l, r) \<Rightarrow>
               let statusLine = TrimRight (l @ [NL]) [CR, NL]
               in if \<not> HasPrefix statusLine ''OK '' then Inl (ServerReplied statusLine)
                  else parseEncryptedReply c sc r eph cookie expectedKeyHash statusLine))"

definition get_command :: "string \<Rightarrow> bytes \<Rightarrow> string" where
  "get_command cookie pub = ''INVITE2 GET '' @ cookie @ [SP] @ EphemeralPubToBase64 pub @ [NL]"

definition join_command :: "string \<Rightarrow> string \<Rightarrow> bytes \<Rightarrow> bytes \<Rightarrow> string" where
  "join_command cookie inviteeName pub hostConfig =
     ''INVITE2 JOIN '' @ cookie @ [SP] @ inviteeName @ [SP] @ EphemeralPubToBase64 pub @ [NL] @
     StdEncode hostConfig @ [NL]"

definition client_InviteGet ::
    "crypto \<Rightarrow> session_crypto \<Rightarrow> bytes \<Rightarrow> (string \<Rightarrow> string option) \<Rightarrow> string \<Rightarrow> string \<Rightarrow> (client_error, bytes) result" where
  "client_InviteGet c sc rnd net cookie expectedKeyHash =
     (case NewEphemeral sc rnd of
        None \<Rightarrow> Inl NoEphemeral
      | Some eph \<Rightarrow> client_roundtrip c sc net (get_command cookie (eph_Pub eph)) eph cookie expectedKeyHash)"

definition client_InviteJoin ::
    "crypto \<Rightarrow> session_crypto \<Rightarrow> bytes \<Rightarrow> (string \<Rightarrow> string option) \<Rightarrow> string \<Rightarrow> string \<Rightarrow> bytes \<Rightarrow> string \<Rightarrow>
       (client_error, bytes) result" where
  "client_InviteJoin c sc rnd net cookie inviteeName hostConfig expectedKeyHash =
     (case NewEphemeral sc rnd of
        None \<Rightarrow> Inl NoEphemeral
      | Some eph \<Rightarrow>
          client_roundtrip c sc net (join_command cookie inviteeName (eph_Pub eph) hostConfig) eph cookie expectedKeyHash)"

section \<open>Gossip links\<close>

lemma TrimRight_line: "l = [] \<or> last l \<notin> {CR, NL} \<Longrightarrow> TrimRight (l @ [NL]) [CR, NL] = l"
  by (cases l rule: rev_cases) (auto simp: TrimRight_def)

text \<open>The line \<open>Broadcast\<close> writes for an envelope.\<close>

definition wire_line :: "envelope \<Rightarrow> string" where
  "wire_line e = (case Encode e of Inr w \<Rightarrow> w @ [NL] | Inl _ \<Rightarrow> [])"

lemma wire_line:
  assumes "env_ok e"
  obtains w where "wire_line e = w @ [NL]" "NL \<notin> set w" "envelope_unmarshal (w @ [NL]) = Some e"
    "Encode e = Inr w"
  using envelope_roundtrip [OF assms] by (metis sum.simps(6) wire_line_def)

lemma complete_lines_frag: "NL \<notin> set f \<Longrightarrow> complete_lines f = []"
  by (subst complete_lines.simps) (simp add: cut_first_None)

definition junk :: "string \<Rightarrow> bool" where
  "junk j \<longleftrightarrow> NL \<notin> set j \<and> envelope_unmarshal (j @ [NL]) = None"

fun item_ok :: "envelope + string \<Rightarrow> bool" where
  "item_ok (Inl e) = env_ok e"
| "item_ok (Inr j) = junk j"

fun item_bytes :: "envelope + string \<Rightarrow> string" where
  "item_bytes (Inl e) = wire_line e"
| "item_bytes (Inr j) = j @ [NL]"

fun envelopes :: "(envelope + string) list \<Rightarrow> envelope list" where
  "envelopes [] = []"
| "envelopes (Inl e # xs) = e # envelopes xs"
| "envelopes (Inr j # xs) = envelopes xs"

lemma handleGossip_items:
  assumes "list_all item_ok xs" and "NL \<notin> set frag"
  shows "handleGossip True (complete_lines (concat (map item_bytes xs) @ frag)) = envelopes xs"
  using assms(1)
proof (induction xs)
  case Nil
  then show ?case using assms(2) by (simp add: complete_lines_frag handleGossip_def map_filter_simps)
next
  case (Cons x xs)
  then have IH: "handleGossip True (complete_lines (concat (map item_bytes xs) @ frag)) = envelopes xs" by simp
  show ?case
  proof (cases x)
    case (Inl e)
    with Cons.prems have "env_ok e" by simp
    then obtain w where "wire_line e = w @ [NL]" "NL \<notin> set w" "envelope_unmarshal (w @ [NL]) = Some e"
      by (rule wire_line)
    with Inl IH show ?thesis
      by (simp add: complete_lines_line handleGossip_def map_filter_simps)
  next
    case (Inr j)
    with Cons.prems have "NL \<notin> set j" "envelope_unmarshal (j @ [NL]) = None" by (simp_all add: junk_def)
    with Inr IH show ?thesis
      by (simp add: complete_lines_line handleGossip_def map_filter_simps)
  qed
qed

lemma gossip_first_line:
  "complete_lines (''GOSSIP'' @ [NL] @ r) = ''GOSSIP'' # complete_lines r"
  "TrimRight (''GOSSIP'' @ [NL]) [CR, NL] = ''GOSSIP''"
  using complete_lines_line [of "''GOSSIP''" r] TrimRight_line [of "''GOSSIP''"] by (simp_all add: NL_def CR_def)

text \<open>
  C33: a gossip link delivers exactly what was broadcast. A peer that was dialed hears the greeting, the lines
  of the envelopes broadcast afterwards and possibly lines that are no envelopes and an unfinished last line:
  it joins the broadcast pool, hands over exactly the envelopes, in order, and writes nothing back. Broadcast
  writes that line to every connection that still works and closes the others.
\<close>

theorem gossip_link_delivers:
  assumes "list_all item_ok xs" and "NL \<notin> set frag" and "ts_OnGossip s" and "\<not> hasOutbound conns addr"
    and "transport_Dial addr i True True conns = (conns', greet, err)"
  shows "handleInbound c sc etext rnd s (greet @ concat (map item_bytes xs) @ frag) d =
      \<lparr>se_state = d, se_reply = [], se_gossip = envelopes xs, se_tracked = True, se_err = Some StreamEnd\<rparr> \<and>
    set conns' = insert \<lparr>tc_id = i, tc_outboundAddr = addr\<rparr> (set conns) \<and>
    (env_ok e \<longrightarrow> gossip_Broadcast fails e conns' =
       Inr (map (\<lambda>k. (k, item_bytes (Inl e))) (filter (\<lambda>k. \<not> fails k) conns'), filter fails conns'))"
proof (intro conjI impI)
  have greet: "greet = ''GOSSIP'' @ [NL]" and conns': "conns' = track \<lparr>tc_id = i, tc_outboundAddr = addr\<rparr> conns"
    using assms(4,5) by (auto simp: transport_Dial_def)
  then show "set conns' = insert \<lparr>tc_id = i, tc_outboundAddr = addr\<rparr> (set conns)" by (auto simp: track_def)
  show "handleInbound c sc etext rnd s (greet @ concat (map item_bytes xs) @ frag) d =
      \<lparr>se_state = d, se_reply = [], se_gossip = envelopes xs, se_tracked = True, se_err = Some StreamEnd\<rparr>"
    unfolding handleInbound_def greet append_assoc gossip_first_line list.case Let_def
    using handleGossip_items [OF assms(1,2)] assms(3) by simp
  assume "env_ok e"
  then obtain w where "wire_line e = w @ [NL]" "Encode e = Inr w" by (rule wire_line)
  then show "gossip_Broadcast fails e conns' =
       Inr (map (\<lambda>k. (k, item_bytes (Inl e))) (filter (\<lambda>k. \<not> fails k) conns'), filter fails conns')"
    by (simp add: gossip_Broadcast_def)
qed

text \<open>An envelope of a subnet announcement, and its use.\<close>

definition sample_env :: envelope where
  "sample_env = \<lparr>env_ID = ''a/subnet/x'', env_Origin = ''a'', env_Kind = ''add_subnet'', env_TS = 1,
     env_Payload = subnetMsg_json \<lparr>sm_Owner = ''a'', sm_Subnet = ''x''\<rparr>, env_Signature = []\<rparr>"

lemma sample_env_ok: "env_ok sample_env"
  by (simp add: env_ok_def sample_env_def utf8_ok_ascii ascii_def int64_range_def)

lemma junk_empty: "junk []"
  by (simp add: junk_def envelope_unmarshal_def Unmarshal_def json_fields_def json_valid_def scan_value.simps scan_atom_def jskip_def is_jws_def NL_def Let_def)

theorem gossip_link_delivers_witness:
  "se_gossip (handleInbound toy_crypto undefined (\<lambda>_. []) [] \<lparr>ts_EdPriv = [], ts_OnGossip = True, ts_InviteGet = None,
      ts_InviteJoin = None\<rparr> (''GOSSIP'' @ [NL] @ concat (map item_bytes [Inl sample_env, Inr [], Inl sample_env]) @ ''x'') ()) =
    [sample_env, sample_env]"
proof -
  let ?s = "\<lparr>ts_EdPriv = [], ts_OnGossip = True, ts_InviteGet = None, ts_InviteJoin = None\<rparr> :: unit tserver"
  have d: "transport_Dial ''h:1'' 0 True True [] = ([\<lparr>tc_id = 0, tc_outboundAddr = ''h:1''\<rparr>], ''GOSSIP'' @ [NL], False)"
    by (simp add: transport_Dial_def hasOutbound_def track_def)
  have "list_all item_ok [Inl sample_env, Inr [], Inl sample_env]" by (simp add: sample_env_ok junk_empty)
  moreover have "NL \<notin> set ''x''" "ts_OnGossip ?s" "\<not> hasOutbound [] ''h:1''" by (simp_all add: NL_def hasOutbound_def)
  ultimately show ?thesis
    using gossip_link_delivers [OF _ _ _ _ d, of "[Inl sample_env, Inr [], Inl sample_env]" "''x''" ?s
      toy_crypto undefined "\<lambda>_. []" "[]" "()"] by simp
qed

section \<open>One outbound connection per address\<close>

datatype conn_op = AcceptGossip nat | DialAddr string nat bool bool | EndConn tconn

fun conn_step :: "conn_op \<Rightarrow> tconn list \<Rightarrow> tconn list" where
  "conn_step (AcceptGossip i) conns = track \<lparr>tc_id = i, tc_outboundAddr = []\<rparr> conns"
| "conn_step (DialAddr addr i dialed greeted) conns = fst (transport_Dial addr i dialed greeted conns)"
| "conn_step (EndConn k) conns = untrack k conns"

abbreviation outbound :: "tconn list \<Rightarrow> string list" where
  "outbound conns \<equiv> map tc_outboundAddr (filter (\<lambda>k. tc_outboundAddr k \<noteq> []) conns)"

lemma filter_removeAll: "filter P (removeAll x xs) = removeAll x (filter P xs)"
  by (induction xs) auto

lemma distinct_map_removeAll: "distinct (map f xs) \<Longrightarrow> distinct (map f (removeAll x xs))"
  by (induction xs) auto

lemma conn_step_distinct: "distinct (outbound conns) \<Longrightarrow> distinct (outbound (conn_step op conns))"
  by (cases op) (auto simp: track_def untrack_def transport_Dial_def hasOutbound_def filter_removeAll
      distinct_map_removeAll)

lemma conn_steps_distinct: "distinct (outbound conns) \<Longrightarrow> distinct (outbound (fold conn_step ops conns))"
  by (induction ops arbitrary: conns) (auto simp: conn_step_distinct)

text \<open>
  A node keeps at most one connection to each address it dials. However accepts, dials (failed ones
  included) and ends of connections follow each other, no two connections of the table were dialed to the same
  address; and when a dialed connection has ended, the next successful dial to its address is a connection
  again.
\<close>

theorem outbound_unique:
  assumes "conns = fold conn_step ops []" and "k \<in> set conns" and "tc_outboundAddr k \<noteq> []"
  shows "distinct (outbound conns) \<and>
    (\<forall>i g. fst (transport_Dial (tc_outboundAddr k) i True g conns) = conns) \<and>
    \<not> hasOutbound (conn_step (EndConn k) conns) (tc_outboundAddr k) \<and>
    hasOutbound (conn_step (DialAddr (tc_outboundAddr k) j True True) (conn_step (EndConn k) conns)) (tc_outboundAddr k)"
proof -
  have d: "distinct (outbound conns)" using assms(1) conn_steps_distinct [of "[]" ops] by simp
  have ends: "\<not> hasOutbound (untrack k conns) (tc_outboundAddr k)"
  proof
    assume "hasOutbound (untrack k conns) (tc_outboundAddr k)"
    then obtain l where l: "l \<in> set conns" "l \<noteq> k" "tc_outboundAddr l = tc_outboundAddr k"
      by (auto simp: hasOutbound_def untrack_def)
    then have "l \<in> set (filter (\<lambda>k. tc_outboundAddr k \<noteq> []) conns)"
      and "k \<in> set (filter (\<lambda>k. tc_outboundAddr k \<noteq> []) conns)" using assms(2,3) by auto
    with d l(3) have "l = k" unfolding distinct_map inj_on_def by blast
    with l(2) show False ..
  qed
  have "hasOutbound conns (tc_outboundAddr k)" using assms(2) by (auto simp: hasOutbound_def)
  moreover have "hasOutbound (track \<lparr>tc_id = j, tc_outboundAddr = tc_outboundAddr k\<rparr> (untrack k conns)) (tc_outboundAddr k)"
    unfolding hasOutbound_def
    by (rule bexI [where x = "\<lparr>tc_id = j, tc_outboundAddr = tc_outboundAddr k\<rparr>"]) (simp_all add: track_def)
  ultimately show ?thesis using d ends by (simp add: transport_Dial_def)
qed

theorem outbound_unique_witness:
  "distinct (outbound (fold conn_step [AcceptGossip 0, DialAddr ''h:1'' 1 True True, DialAddr ''h:1'' 2 True True] []))"
proof -
  let ?k = "\<lparr>tc_id = 1, tc_outboundAddr = ''h:1''\<rparr>"
  have "?k \<in> set (fold conn_step [AcceptGossip 0, DialAddr ''h:1'' 1 True True, DialAddr ''h:1'' 2 True True] [])"
    by (simp add: track_def transport_Dial_def hasOutbound_def)
  from outbound_unique [OF refl this] show ?thesis by simp
qed

section \<open>The invitation exchange\<close>

lemma Prefix_append [simp]: "HasPrefix (p @ s) p" "TrimPrefix (p @ s) p = s"
  by (simp_all add: HasPrefix_def TrimPrefix_def)

lemma std_enc_line:
  "NL \<notin> set (StdEncode b)" "TrimRight (StdEncode b @ [NL]) [CR, NL] = StdEncode b"
proof -
  have "c \<in> set (StdEncode b) \<Longrightarrow> c \<noteq> NL \<and> c \<noteq> CR" for c
    using std_enc_chars by (simp add: StdEncode_def)
  then show "NL \<notin> set (StdEncode b)" "TrimRight (StdEncode b @ [NL]) [CR, NL] = StdEncode b"
    by (auto intro!: TrimRight_line dest: last_in_set)
qed

text \<open>A command or status line is a fixed word followed by tokens.\<close>

lemma token_line:
  assumes "list_all token ts" and "ts \<noteq> []" and "NL \<notin> set p"
  shows "complete_lines (p @ join_sp ts @ NL # r) = (p @ join_sp ts) # complete_lines r"
    and "cut_first NL (p @ join_sp ts @ NL # r) = Some (p @ join_sp ts, r)"
    and "TrimRight (p @ join_sp ts @ [NL]) [CR, NL] = p @ join_sp ts"
proof -
  have "clean (join_sp ts)" using assms by (intro join_sp_clean)
  then have ne: "join_sp ts \<noteq> []" and l: "[last (join_sp ts)] \<notin> set space_encs"
    by (auto simp: clean_def clean_ends(2))
  from l have "last (join_sp ts) \<notin> {CR, NL}" by (auto simp: space_encs_def CR_def NL_def)
  with ne show "TrimRight (p @ join_sp ts @ [NL]) [CR, NL] = p @ join_sp ts"
    using TrimRight_line [of "p @ join_sp ts"] by simp
  have n: "NL \<notin> set (p @ join_sp ts)" using assms join_sp_no_NL by auto
  from complete_lines_line [OF this, of r] cut_first_append [OF this, of r]
  show "complete_lines (p @ join_sp ts @ NL # r) = (p @ join_sp ts) # complete_lines r"
    and "cut_first NL (p @ join_sp ts @ NL # r) = Some (p @ join_sp ts, r)" by simp_all
qed

lemma ephpub_token: "length p = 32 \<Longrightarrow> token (EphemeralPubToBase64 p)"
  by (auto simp: EphemeralPubToBase64_def intro!: std_enc_token)

lemma ephpub_back: "length p = 32 \<Longrightarrow> EphemeralPubFromBase64 (EphemeralPubToBase64 p) = Inr p"
  by (simp add: EphemeralPubToBase64_def EphemeralPubFromBase64_def StdDecode_StdEncode)

text \<open>What the client accepts: the honest server's answer.\<close>

lemma honest_reply:
  assumes sc: "session_correct sc"
    and ver: "Verify c (Ed_Public c priv) (sigPayload (eph_Pub b) cookie) (Sign c priv (sigPayload (eph_Pub b) cookie))"
    and sig: "Sign c priv (sigPayload (eph_Pub b) cookie) \<noteq> []"
    and eph: "NewEphemeral sc ra = Some a" "NewEphemeral sc rb = Some b"
    and pub: "findInviterEd25519Pub pt = Some (Ed_Public c priv)"
    and kh: "kh \<in> {[], Hash c (Ed_Public c priv)}"
    and net: "net cmd = Some (encryptAndReply c sc etext priv rb cookie (eph_Pub a) pt)"
  shows "client_roundtrip c sc net cmd a cookie kh = Inr pt"
proof -
  obtain key where key: "DeriveKey sc a (eph_Pub b) cookie = Some key" "DeriveKey sc b (eph_Pub a) cookie = Some key"
    "length key = 32" and len: "length (eph_Pub b) = 32"
    using session_key_agree [OF sc eph] by metis
  obtain ct where ct: "Seal sc key pt = Some ct" "Open sc key ct = Some pt" by (rule Open_Seal [OF sc key(3)])
  let ?sig = "Sign c priv (sigPayload (eph_Pub b) cookie)"
  let ?ts = "[EphemeralPubToBase64 (eph_Pub b), StdEncode ?sig]"
  have ts: "list_all token ?ts" "?ts \<noteq> []" using len sig by (simp_all add: ephpub_token std_enc_token)
  have p: "NL \<notin> set ''OK ''" by (simp add: NL_def)
  have reply: "encryptAndReply c sc etext priv rb cookie (eph_Pub a) pt =
      ''OK '' @ join_sp ?ts @ NL # (StdEncode ct @ NL # [])"
    by (simp add: encryptAndReply_def eph key ct Let_def)
  have cut: "cut_first NL (StdEncode ct @ NL # []) = Some (StdEncode ct, [])"
    by (rule cut_first_append) (rule std_enc_line)
  have "parseEncryptedReply c sc (StdEncode ct @ NL # []) a cookie kh (''OK '' @ join_sp ?ts) = Inr pt"
    unfolding parseEncryptedReply_def Prefix_append(2) Fields_join_sp [OF ts(1)] cut
    using kh by (auto simp: ephpub_back len StdDecode_StdEncode std_enc_line key ct pub ver)
  then show ?thesis
    unfolding client_roundtrip_def net reply option.case token_line(2) [OF ts p] prod.case Let_def append_assoc
      token_line(3) [OF ts p] by (simp add: HasPrefix_def)
qed

lemma inbound_get:
  assumes "token cookie" and "length pub = 32" and "ts_InviteGet s = Some inviteGet" and "inviteGet cookie d = (d', Inr body)"
  shows "handleInbound c sc etext rnd s (get_command cookie pub) d =
    \<lparr>se_state = d', se_reply = encryptAndReply c sc etext (ts_EdPriv s) rnd cookie pub body, se_gossip = [],
     se_tracked = False, se_err = None\<rparr>"
proof -
  let ?ts = "[cookie, EphemeralPubToBase64 pub]"
  have ts: "list_all token ?ts" "?ts \<noteq> []" using assms by (simp_all add: ephpub_token)
  have p: "NL \<notin> set ''INVITE2 GET ''" by (simp add: NL_def)
  have cmd: "get_command cookie pub = ''INVITE2 GET '' @ join_sp ?ts @ NL # []" by (simp add: get_command_def)
  have ng: "''INVITE2 GET '' @ join_sp ?ts \<noteq> ''GOSSIP''" by simp
  have "handleInvite2Get c sc etext rnd s (join_sp ?ts) d =
      (d', encryptAndReply c sc etext (ts_EdPriv s) rnd cookie pub body)"
    unfolding handleInvite2Get_def Fields_join_sp [OF ts(1)] using assms by (simp add: ephpub_back)
  then show ?thesis
    unfolding handleInbound_def cmd token_line(1) [OF ts p] list.case Let_def append_assoc token_line(3) [OF ts p]
      Prefix_append(2) using ng by (simp add: HasPrefix_def)
qed

lemma inbound_join:
  assumes "token cookie" and "token name" and "length pub = 32" and "ts_InviteJoin s = Some inviteJoin"
    and "inviteJoin cookie name hostConfig d = (d', Inr body)"
  shows "handleInbound c sc etext rnd s (join_command cookie name pub hostConfig) d =
    \<lparr>se_state = d', se_reply = encryptAndReply c sc etext (ts_EdPriv s) rnd cookie pub body, se_gossip = [],
     se_tracked = False, se_err = None\<rparr>"
proof -
  let ?ts = "[cookie, name, EphemeralPubToBase64 pub]"
  have ts: "list_all token ?ts" "?ts \<noteq> []" using assms by (simp_all add: ephpub_token)
  have p: "NL \<notin> set ''INVITE2 JOIN ''" by (simp add: NL_def)
  have cmd: "join_command cookie name pub hostConfig =
      ''INVITE2 JOIN '' @ join_sp ?ts @ NL # (StdEncode hostConfig @ NL # [])" by (simp add: join_command_def)
  have ng: "''INVITE2 JOIN '' @ join_sp ?ts \<noteq> ''GOSSIP''"
    and ng2: "\<not> HasPrefix (''INVITE2 JOIN '' @ join_sp ?ts) ''INVITE2 GET ''" by (simp_all add: HasPrefix_def)
  have "handleInvite2Join c sc etext rnd s (complete_lines (StdEncode hostConfig @ NL # [])) (join_sp ?ts) d =
      (d', encryptAndReply c sc etext (ts_EdPriv s) rnd cookie pub body, None)"
    unfolding handleInvite2Join_def Fields_join_sp [OF ts(1)] complete_lines_line [OF std_enc_line(1)]
    using assms by (simp add: ephpub_back std_enc_line StdDecode_StdEncode)
  then show ?thesis
    unfolding handleInbound_def cmd token_line(1) [OF ts p] list.case Let_def append_assoc token_line(3) [OF ts p]
      Prefix_append(2) using ng ng2 by (simp add: HasPrefix_def)
qed

text \<open>
  C8: an invitation can be redeemed. When the inviter's daemon answers the cookie with an invitation file that
  names the inviter's own key, the invitee's client obtains exactly that file, with the fingerprint of the URL
  or without one, and a join hands the daemon exactly the host configuration the invitee sent, under the name
  and cookie it sent.
\<close>

theorem invitation_redeemed:
  assumes "session_correct sc" and "ed25519_correct c"
    and "NewEphemeral sc ra = Some a" and "NewEphemeral sc rb = Some b"
    and "Sign c (ts_EdPriv s) (sigPayload (eph_Pub b) cookie) \<noteq> []"
    and "token cookie" and "token name"
    and "ts_InviteGet s = Some inviteGet" and "inviteGet cookie d = (d1, Inr f1)"
    and "ts_InviteJoin s = Some inviteJoin" and "inviteJoin cookie name hostConfig d = (d2, Inr f2)"
    and "findInviterEd25519Pub f1 = Some (Ed_Public c (ts_EdPriv s))"
    and "findInviterEd25519Pub f2 = Some (Ed_Public c (ts_EdPriv s))"
    and "kh \<in> {[], Hash c (Ed_Public c (ts_EdPriv s))}"
  shows "client_InviteGet c sc ra (\<lambda>cmd. Some (se_reply (handleInbound c sc etext rb s cmd d))) cookie kh = Inr f1 \<and>
    se_state (handleInbound c sc etext rb s (get_command cookie (eph_Pub a)) d) = d1 \<and>
    client_InviteJoin c sc ra (\<lambda>cmd. Some (se_reply (handleInbound c sc etext rb s cmd d))) cookie name hostConfig kh = Inr f2 \<and>
    se_state (handleInbound c sc etext rb s (join_command cookie name (eph_Pub a) hostConfig) d) = d2"
proof -
  have len: "length (eph_Pub a) = 32" using session_key_agree [OF assms(1,3,4)] by metis
  note get = inbound_get [OF assms(6) len assms(8,9)] and join = inbound_join [OF assms(6,7) len assms(10,11)]
  let ?net = "\<lambda>cmd. Some (se_reply (handleInbound c sc etext rb s cmd d))"
  have "client_roundtrip c sc ?net (get_command cookie (eph_Pub a)) a cookie kh = Inr f1"
    by (rule honest_reply [OF assms(1) Verify_Sign [OF assms(2)] assms(5,3,4,12,14)]) (simp add: get)
  moreover have "client_roundtrip c sc ?net (join_command cookie name (eph_Pub a) hostConfig) a cookie kh = Inr f2"
    by (rule honest_reply [OF assms(1) Verify_Sign [OF assms(2)] assms(5,3,4,13,14)]) (simp add: join)
  ultimately show ?thesis by (simp add: client_InviteGet_def client_InviteJoin_def assms(3) get join)
qed

text \<open>
  A concrete instance of the session primitives (addition of byte vectors for the key agreement) and an
  invitation file that names the inviter's key.
\<close>

definition pad32 :: "bytes \<Rightarrow> bytes" where
  "pad32 b = take 32 (b @ replicate 32 0)"

definition toy_session :: session_crypto where
  "toy_session = \<lparr>x25519 = (\<lambda>a p. Some (map2 (+) (pad32 a) (pad32 p))), basepoint = replicate 32 0,
     hkdf_sha256 = (\<lambda>s salt info n. Some (take n (s @ replicate n 0))),
     aead_seal = (\<lambda>k n pt. Some pt), aead_open = (\<lambda>k n ct. Some ct)\<rparr>"

lemma length_pad32 [simp]: "length (pad32 b) = 32"
  by (simp add: pad32_def)

lemma pad32_id [simp]: "length b = 32 \<Longrightarrow> pad32 b = b"
  by (simp add: pad32_def)

lemma map2_add_zero: "length a = n \<Longrightarrow> map2 (+) a (replicate n (0 :: byte)) = a"
  by (rule nth_equalityI) auto

lemma map2_add_commute: "length a = length b \<Longrightarrow> map2 (+) a b = map2 (+) b (a :: bytes)"
  by (rule nth_equalityI) (auto simp: add.commute)

lemma toy_session_correct: "session_correct toy_session"
  using map2_add_commute by (auto simp: session_correct_def toy_session_def map2_add_zero)

lemma toy_ephemeral: "NewEphemeral toy_session r = Some \<lparr>eph_Pub = pad32 r, eph_priv = r\<rparr>"
  by (simp add: NewEphemeral_def toy_session_def map2_add_zero)

lemma findInviter_rendered:
  assumes "file_ok f" and "f_Hosts f = h # hs" and "GetFirst (b_Other h) ''Ed25519PublicKey'' = Some (Ed_String pub)"
    and "length pub = PublicKeySize"
  shows "findInviterEd25519Pub (str_bytes (file_Render f)) = Some pub"
proof -
  have "ok_of (ParseFile (file_Render f)) = Some f" using ifile.dec_enc [OF assms(1)] .
  then have "ParseFile (file_Render f) = Inr f" by (auto simp: ok_of_def split: sum.splits)
  moreover have "token (Ed_String pub)" using assms(4) by (auto simp: Ed_String_def PublicKeySize_def intro!: std_enc_token)
  ultimately show ?thesis
    using assms edpub.dec_enc [OF assms(4)]
    by (simp add: findInviterEd25519Pub_def TrimSpace_clean token_clean)
qed

definition inviter_key :: bytes where
  "inviter_key = replicate 32 1"

definition inviter_file :: invfile where
  "inviter_file = \<lparr>f_Netname = [], f_Invitee = no_block\<lparr>b_Name := ''bob''\<rparr>,
     f_Hosts = [no_block\<lparr>b_Name := ''alice'', b_Other := [ent ''Ed25519PublicKey'' (Ed_String inviter_key)]\<rparr>]\<rparr>"

lemma inviter_file_ok: "file_ok inviter_file"
proof -
  have c: "clean ''bob''" "clean ''alice''" "clean ''Ed25519PublicKey''"
    by (rule ascii_cleanI; simp add: ascii_def space_encs_def)+
  have v: "token (Ed_String inviter_key)" by (auto simp: Ed_String_def inviter_key_def intro!: std_enc_token)
  have l: "length (Ed_String inviter_key) = 44"
    by (simp add: Ed_String_def inviter_key_def length_StdEncode)
  have "canonicalKey ''Ed25519PublicKey'' = ''Ed25519PublicKey''"
    by (simp add: canonicalKey_known canonical_def)
  moreover have "\<not> special ''Ed25519PublicKey''"
    by (simp add: special_def EqualFold_known canonical_def)
  ultimately show ?thesis using c token_clean [OF v] token_no_NL [OF v] l
    by (simp add: file_ok_def inviter_file_def block_ok_def no_block_def value_ok_def entry_ok_def ent_def NL_def MaxScanTokenSize_def)
qed

lemma inviter_file_key: "findInviterEd25519Pub (str_bytes (file_Render inviter_file)) = Some inviter_key"
  by (rule findInviter_rendered [OF inviter_file_ok])
    (auto simp: inviter_file_def ent_def EqualFold_def inviter_key_def PublicKeySize_def)

theorem invitation_redeemed_witness:
  "client_InviteGet toy_crypto toy_session [3]
     (\<lambda>cmd. Some (se_reply (handleInbound toy_crypto toy_session (\<lambda>_. []) [4]
        \<lparr>ts_EdPriv = inviter_key, ts_OnGossip = True,
         ts_InviteGet = Some (\<lambda>_ d. (d, Inr (str_bytes (file_Render inviter_file)))),
         ts_InviteJoin = Some (\<lambda>_ _ cfg d. (d + 1, Inr (str_bytes (file_Render inviter_file))))\<rparr> cmd (0 :: nat))))
     ''ck'' (Hash toy_crypto inviter_key) = Inr (str_bytes (file_Render inviter_file))"
proof -
  let ?s = "\<lparr>ts_EdPriv = inviter_key, ts_OnGossip = True,
         ts_InviteGet = Some (\<lambda>_ d. (d, Inr (str_bytes (file_Render inviter_file)))),
         ts_InviteJoin = Some (\<lambda>_ _ cfg d. (d + 1, Inr (str_bytes (file_Render inviter_file))))\<rparr> :: nat tserver"
  have tok: "token ''ck''" "token ''bob''" by (rule token_ascii; simp add: ascii_def space_encs_def)+
  have pub: "Ed_Public toy_crypto inviter_key = inviter_key"
    by (simp add: Ed_Public_def toy_crypto_def toy_pub_def inviter_key_def)
  have sig: "Sign toy_crypto inviter_key m \<noteq> []" for m by (simp add: Sign_def toy_crypto_def toy_pub_def inviter_key_def)
  show ?thesis
    using invitation_redeemed [OF toy_session_correct toy_correct(1) toy_ephemeral toy_ephemeral,
        where s = ?s and cookie = "''ck''" and name = "''bob''" and d = 0 and ?d1.0 = 0 and ?d2.0 = 1 and hostConfig = "[]"
          and ?f1.0 = "str_bytes (file_Render inviter_file)" and ?f2.0 = "str_bytes (file_Render inviter_file)"
          and kh = "Hash toy_crypto inviter_key" and etext = "\<lambda>_. []"]
      tok sig inviter_file_key pub by simp
qed

section \<open>Who wrote the invitation\<close>

lemma NUL_byte: "byte_of (CHR 0x00) = 0"
  by (simp add: byte_of_def)

lemma sigPayload_inj:
  assumes "sigPayload p ck = sigPayload q dk" and "length p = 32" and "length q = 32"
  shows "p = q \<and> ck = dk"
  using assms by (simp add: sigPayload_def)

text \<open>
  The identity key signs gossip envelopes and invitation handshakes; the two kinds of messages cannot be
  confused, because the identifier of a fact contains a slash and the prefix of a handshake does not.
\<close>

lemma domain_separation:
  assumes "no_nul (env_ID e)" and "CHR ''/'' \<in> set (env_ID e)"
  shows "SigningBytes e \<noteq> sigPayload p ck"
proof
  assume "SigningBytes e = sigPayload p ck"
  then have eq: "str_bytes (env_ID e) @ 0 # (str_bytes (env_Origin e) @ [0] @ str_bytes (env_Kind e) @ [0] @
      ts_bytes (env_TS e) @ [0] @ str_bytes (env_Payload e)) =
      str_bytes ''gsnet-invite-v1'' @ 0 # (p @ [0] @ str_bytes ck)"
    unfolding SigningBytes_def sigPayload_def append_Cons append_Nil .
  have "no_nul ''gsnet-invite-v1''" by (simp add: no_nul_def)
  from append_sep_unique [OF no_nul_bytes [OF assms(1)] no_nul_bytes [OF this] eq]
  have "str_bytes (env_ID e) = str_bytes ''gsnet-invite-v1''" ..
  then have "env_ID e = ''gsnet-invite-v1''" unfolding str_bytes_eq_iff .
  with assms(2) show False by simp
qed

lemma accepted_reply:
  assumes "client_roundtrip c sc net cmd a cookie kh = Inr pt"
  obtains serverPub sig key ct pub where "length serverPub = 32" "DeriveKey sc a serverPub cookie = Some key"
    "Open sc key ct = Some pt" "findInviterEd25519Pub pt = Some pub" "kh = [] \<or> Hash c pub = kh"
    "Verify c pub (sigPayload serverPub cookie) sig"
proof -
  obtain r l where p: "parseEncryptedReply c sc r a cookie kh l = Inr pt"
    using assms by (auto simp: client_roundtrip_def Let_def split: option.splits if_splits)
  obtain p0 p1 where f: "Fields (TrimPrefix l ''OK '') = [p0, p1]"
    using p by (auto simp: parseEncryptedReply_def split: list.splits)
  obtain serverPub where sp: "EphemeralPubFromBase64 p0 = Inr serverPub"
    using p by (auto simp: parseEncryptedReply_def f split: sum.splits)
  then have "length serverPub = 32" by (auto simp: EphemeralPubFromBase64_def split: option.splits if_splits)
  with p that show ?thesis
    by (fastforce simp: parseEncryptedReply_def f sp split: option.splits prod.splits if_splits)
qed

lemma findInviter_length: "findInviterEd25519Pub pt = Some pub \<Longrightarrow> length pub = PublicKeySize"
  by (auto simp: findInviterEd25519Pub_def ok_of_def split: sum.splits list.splits option.splits dest!: parsed_public_length)


text \<open>For the witness, an inviter that has signed one handshake and nothing else.\<close>

definition one_session_crypto :: "bytes \<Rightarrow> crypto" where
  "one_session_crypto msg = toy_crypto\<lparr>ed_verify := (\<lambda>pub m sig. m = msg), sha256 := (\<lambda>b. replicate 32 (if b = inviter_key then 1 else 0))\<rparr>"


end
