(* ===== verification/Dataplane.thy ===== *)
theory Dataplane
  imports Subnet Keys
begin

text \<open>
  Package \<open>dataplane\<close> and its two reconcilers. \<open>dataplane.go\<close> declares the desired state; \<open>linux/linux.go\<close>
  makes the WireGuard device, the VXLAN device and its forwarding table (FDB) match it; \<open>fake/fake.go\<close>
  records the states it is given.

  The kernel is reached through the packages \<open>netlink\<close> and \<open>wgctrl\<close>, which are not part of the program: a
  record \<open>host\<close> of their operations on a kernel state \<open>'k\<close> is a parameter of every definition. What the
  program relies on is stated as named hypotheses on that record (\<open>fdb_laws\<close>, \<open>wg_laws\<close>). A call returns the
  new kernel state and possibly the text of an error, which ends the operation as in the source.
\<close>

unbundle bit_operations_syntax

section \<open>The desired state\<close>

record peer =
  pe_Name :: string
  pe_WGPublic :: bytes
  pe_Endpoint :: addr_port
  pe_InnerAddr :: addr
  pe_UnderlayAddr :: addr
  pe_AllowedIPs :: "prefix list"

datatype mode = ModeSwitch | ModeHub | ModeRouter

record dpstate =
  ds_Mode :: mode
  ds_WGPrivate :: bytes
  ds_WGInterface :: string
  ds_WGListenPort :: int
  ds_VXLANInterface :: string
  ds_VXLANID :: "32 word"
  ds_VXLANPort :: "16 word"
  ds_LocalInnerAddr :: prefix
  ds_LocalUnderlayAddr :: prefix
  ds_MTU :: int
  ds_Peers :: "peer list"

record trafficStats =
  st_Peer :: string
  st_RxBytes :: "64 word"
  st_TxBytes :: "64 word"
  st_LastHandshake :: int

section \<open>The fake reconciler\<close>

record fake =
  fk_Applied :: "dpstate list"
  fk_Closed :: bool
  fk_FakeStats :: "trafficStats list"

definition fake_New :: fake where
  "fake_New = \<lparr>fk_Applied = [], fk_Closed = False, fk_FakeStats = []\<rparr>"

definition fake_Stats :: "fake \<Rightarrow> trafficStats list" where
  "fake_Stats r = fk_FakeStats r"

definition fake_Reconcile :: "dpstate \<Rightarrow> fake \<Rightarrow> fake" where
  "fake_Reconcile s r = r\<lparr>fk_Applied := fk_Applied r @ [s]\<rparr>"

definition fake_Shutdown :: "fake \<Rightarrow> fake" where
  "fake_Shutdown r = r\<lparr>fk_Closed := True\<rparr>"

definition fake_Last :: "fake \<Rightarrow> dpstate option" where
  "fake_Last r = (if fk_Applied r = [] then None else Some (last (fk_Applied r)))"

section \<open>What the kernel interfaces exchange\<close>

record ipnet =
  in_IP :: bytes
  in_Ones :: int
  in_Bits :: int

record vxlan =
  vx_VxlanId :: int
  vx_Port :: int
  vx_Learning :: bool
  vx_VtepDevIndex :: int
  vx_ParentIndex :: int
  vx_SrcAddr :: bytes

datatype linkkind = WireGuardLink | VxlanLink vxlan | OtherLink

record link =
  lk_Name :: string
  lk_Index :: int
  lk_Kind :: linkkind
  lk_MTU :: int
  lk_HardwareAddr :: bytes

record newlink =
  nw_Name :: string
  nw_MTU :: "int option"
  nw_HardwareAddr :: "bytes option"
  nw_Kind :: linkkind

record udpaddr =
  ua_IP :: bytes
  ua_Port :: int

record peerconfig =
  pc_PublicKey :: bytes
  pc_Remove :: bool
  pc_Endpoint :: "udpaddr option"
  pc_Keepalive :: "nat option"                 \<comment> \<open>seconds\<close>
  pc_ReplaceAllowedIPs :: bool
  pc_AllowedIPs :: "ipnet list"

record wgconfig =
  cf_PrivateKey :: bytes
  cf_ListenPort :: int
  cf_ReplacePeers :: bool
  cf_Peers :: "peerconfig list"

record wgpeer =
  wp_PublicKey :: bytes
  wp_Endpoint :: "udpaddr option"
  wp_AllowedIPs :: "ipnet list"
  wp_ReceiveBytes :: int
  wp_TransmitBytes :: int
  wp_LastHandshake :: int                      \<comment> \<open>\<open>LastHandshakeTime.UnixNano()\<close>\<close>

text \<open>An FDB row: the MAC address and the destination; new rows are permanent and owned by the device.\<close>

record neigh =
  ng_HardwareAddr :: bytes
  ng_IP :: bytes

datatype link_error = LinkNotFound | LinkError string

datatype dp_error = Required string | Host string | Context string dp_error

record 'k host =
  LinkByName :: "string \<Rightarrow> 'k \<Rightarrow> (link_error, link) result"
  LinkAdd :: "newlink \<Rightarrow> 'k \<Rightarrow> 'k \<times> string option"
  LinkDel :: "link \<Rightarrow> 'k \<Rightarrow> 'k \<times> string option"
  LinkSetMTU :: "link \<Rightarrow> int \<Rightarrow> 'k \<Rightarrow> 'k \<times> string option"
  LinkSetHardwareAddr :: "link \<Rightarrow> bytes \<Rightarrow> 'k \<Rightarrow> 'k \<times> string option"
  LinkSetUp :: "link \<Rightarrow> 'k \<Rightarrow> 'k \<times> string option"
  AddrReplace :: "link \<Rightarrow> ipnet \<Rightarrow> 'k \<Rightarrow> 'k \<times> string option"
  NeighList :: "int \<Rightarrow> 'k \<Rightarrow> (string, neigh list) result"
  NeighAppend :: "int \<Rightarrow> neigh \<Rightarrow> 'k \<Rightarrow> 'k \<times> string option"
  NeighDel :: "int \<Rightarrow> neigh \<Rightarrow> 'k \<Rightarrow> 'k \<times> string option"
  Device :: "string \<Rightarrow> 'k \<Rightarrow> (string, wgpeer list) result"
  ConfigureDevice :: "string \<Rightarrow> wgconfig \<Rightarrow> 'k \<Rightarrow> 'k \<times> string option"

type_synonym 'k action = "'k \<Rightarrow> 'k \<times> dp_error option"

definition andThen :: "'k action \<Rightarrow> 'k action \<Rightarrow> 'k action" where
  "andThen f g k = (case f k of (k', Some e) \<Rightarrow> (k', Some e) | (k', None) \<Rightarrow> g k')"

definition noop :: "'k action" where
  "noop k = (k, None)"

definition within :: "string \<Rightarrow> 'k action \<Rightarrow> 'k action" where
  "within msg f k = map_prod id (map_option (Context msg)) (f k)"

definition call :: "('k \<Rightarrow> 'k \<times> string option) \<Rightarrow> 'k action" where
  "call f k = map_prod id (map_option Host) (f k)"

definition of_link_error :: "link_error \<Rightarrow> dp_error" where
  "of_link_error e = (case e of LinkNotFound \<Rightarrow> Host ''Link not found'' | LinkError s \<Rightarrow> Host s)"

section \<open>Addresses\<close>

definition prefixToIPNet :: "prefix \<Rightarrow> ipnet" where
  "prefixToIPNet p = \<lparr>in_IP = AsSlice (pfx_ip p), in_Ones = pfx_bits p, in_Bits = BitLen (pfx_ip p)\<rparr>"

definition vxlanMACFromKey :: "crypto \<Rightarrow> bytes \<Rightarrow> bytes" where
  "vxlanMACFromKey c pub =
     (let h = sha256 c pub; mac = take 6 h in mac[0 := (mac ! 0 OR 0x02) AND 0xfe])"

definition broadcastMAC :: bytes where
  "broadcastMAC = [0xff, 0xff, 0xff, 0xff, 0xff, 0xff]"

text \<open>\<open>net.IP.Equal\<close> and \<open>net.IP.String\<close>: an IPv4 address in its 16-byte form is the IPv4 address.\<close>

definition v4InV6 :: bytes where
  "v4InV6 = replicate 10 0 @ [0xff, 0xff]"

definition ip_To4 :: "bytes \<Rightarrow> bytes option" where
  "ip_To4 ip =
     (if length ip = 4 then Some ip
      else if length ip = 16 \<and> take 12 ip = v4InV6 then Some (drop 12 ip) else None)"

definition ip_Equal :: "bytes \<Rightarrow> bytes \<Rightarrow> bool" where
  "ip_Equal a b \<longleftrightarrow> (if length a = length b then a = b else ip_To4 a \<noteq> None \<and> ip_To4 a = ip_To4 b)"

definition ip_String :: "bytes \<Rightarrow> string" where
  "ip_String ip =
     (if ip = [] then ''<nil>''
      else (case ip_To4 ip of
              Some v4 \<Rightarrow> addr_String (AddrFrom4 (map unat v4))
            | None \<Rightarrow>
                if length ip = 16 then addr_String (Addr6 (of_nat (join_base 256 (map unat ip))) [])
                else CHR ''?'' # concat (map (\<lambda>b. [hex_digit (unat b div 16), hex_digit (unat b mod 16)]) ip)))"

section \<open>The Linux reconciler\<close>

text \<open>The WireGuard interface: created when missing, then MTU, underlay address and state.\<close>

definition wg_setup :: "'k host \<Rightarrow> dpstate \<Rightarrow> link \<Rightarrow> 'k action" where
  "wg_setup h s link =
     andThen
       (if ds_MTU s > 0 \<and> lk_MTU link \<noteq> ds_MTU s
        then within ''LinkSetMTU'' (call (LinkSetMTU h link (ds_MTU s))) else noop)
     (andThen
       (if prefix_valid (ds_LocalUnderlayAddr s)
        then within ''AddrReplace wg'' (call (AddrReplace h link (prefixToIPNet (ds_LocalUnderlayAddr s)))) else noop)
       (within ''LinkSetUp'' (call (LinkSetUp h link))))"

definition with_link :: "'k host \<Rightarrow> string \<Rightarrow> (link \<Rightarrow> 'k action) \<Rightarrow> 'k action" where
  "with_link h name f k =
     (case LinkByName h name k of Inl e \<Rightarrow> (k, Some (of_link_error e)) | Inr link \<Rightarrow> f link k)"

definition ensureWGInterface :: "'k host \<Rightarrow> dpstate \<Rightarrow> 'k action" where
  "ensureWGInterface h s k =
     (case LinkByName h (ds_WGInterface s) k of
        Inl (LinkError e) \<Rightarrow> (k, Some (Host e))
      | Inl LinkNotFound \<Rightarrow>
          andThen
            (within ''LinkAdd wireguard'' (call (LinkAdd h
               \<lparr>nw_Name = ds_WGInterface s, nw_MTU = (if ds_MTU s > 0 then Some (ds_MTU s) else None),
                nw_HardwareAddr = None, nw_Kind = WireGuardLink\<rparr>)))
            (with_link h (ds_WGInterface s) (wg_setup h s)) k
      | Inr link \<Rightarrow> wg_setup h s link k)"

text \<open>The peer list handed to \<open>ConfigureDevice\<close>: every desired peer, and a removal for every other one.\<close>

definition peer_config :: "peer \<Rightarrow> peerconfig" where
  "peer_config p =
     \<lparr>pc_PublicKey = pe_WGPublic p, pc_Remove = False,
      pc_Endpoint = (if IsValid (ap_addr (pe_Endpoint p))
                     then Some \<lparr>ua_IP = AsSlice (ap_addr (pe_Endpoint p)), ua_Port = uint (ap_port (pe_Endpoint p))\<rparr>
                     else None),
      pc_Keepalive = Some 25, pc_ReplaceAllowedIPs = True, pc_AllowedIPs = map prefixToIPNet (pe_AllowedIPs p)\<rparr>"

definition remove_config :: "wgpeer \<Rightarrow> peerconfig" where
  "remove_config e =
     \<lparr>pc_PublicKey = wp_PublicKey e, pc_Remove = True, pc_Endpoint = None, pc_Keepalive = None,
      pc_ReplaceAllowedIPs = False, pc_AllowedIPs = []\<rparr>"

definition configureWGPeers :: "'k host \<Rightarrow> dpstate \<Rightarrow> 'k action" where
  "configureWGPeers h s k =
     (let desired = map pe_WGPublic (ds_Peers s);
          removals = (case Device h (ds_WGInterface s) k of
                        Inl _ \<Rightarrow> []
                      | Inr dev \<Rightarrow> map remove_config (filter (\<lambda>e. wp_PublicKey e \<notin> set desired) dev))
      in call (ConfigureDevice h (ds_WGInterface s)
           \<lparr>cf_PrivateKey = ds_WGPrivate s, cf_ListenPort = ds_WGListenPort s, cf_ReplacePeers = False,
            cf_Peers = map peer_config (ds_Peers s) @ removals\<rparr>) k)"

text \<open>
  The VXLAN device: deleted and created again when its source address is not ours, then its hardware
  address, MTU, overlay address and state.
\<close>

definition new_vxlan :: "crypto \<Rightarrow> dpstate \<Rightarrow> link \<Rightarrow> newlink" where
  "new_vxlan c s wgLink =
     \<lparr>nw_Name = ds_VXLANInterface s, nw_MTU = (if ds_MTU s > 0 then Some (ds_MTU s - 50) else None),
      nw_HardwareAddr = Some (vxlanMACFromKey c (wg_public c (ds_WGPrivate s))),
      nw_Kind = VxlanLink \<lparr>vx_VxlanId = uint (ds_VXLANID s), vx_Port = uint (ds_VXLANPort s),
        vx_Learning = (ds_Mode s \<noteq> ModeHub), vx_VtepDevIndex = lk_Index wgLink, vx_ParentIndex = lk_Index wgLink,
        vx_SrcAddr = AsSlice (pfx_ip (ds_LocalUnderlayAddr s))\<rparr>\<rparr>"

definition vxlan_setup :: "crypto \<Rightarrow> 'k host \<Rightarrow> dpstate \<Rightarrow> link \<Rightarrow> 'k action" where
  "vxlan_setup c h s link =
     (let wantMAC = vxlanMACFromKey c (wg_public c (ds_WGPrivate s))
      in andThen
           (if mac_String (lk_HardwareAddr link) \<noteq> mac_String wantMAC
            then within ''LinkSetHardwareAddr'' (call (LinkSetHardwareAddr h link wantMAC)) else noop)
         (andThen
           (if ds_MTU s > 0 \<and> lk_MTU link \<noteq> ds_MTU s - 50
            then within ''LinkSetMTU vxlan'' (call (LinkSetMTU h link (ds_MTU s - 50))) else noop)
         (andThen
           (within ''AddrReplace'' (call (AddrReplace h link (prefixToIPNet (ds_LocalInnerAddr s)))))
           (call (LinkSetUp h link)))))"

definition ensureVXLAN :: "crypto \<Rightarrow> 'k host \<Rightarrow> dpstate \<Rightarrow> 'k action" where
  "ensureVXLAN c h s k =
     (case LinkByName h (ds_WGInterface s) k of
        Inl e \<Rightarrow> (k, Some (Context ''LinkByName'' (of_link_error e)))
      | Inr wgLink \<Rightarrow>
          let wantSrc = AsSlice (pfx_ip (ds_LocalUnderlayAddr s));
              create = andThen (within ''LinkAdd vxlan'' (call (LinkAdd h (new_vxlan c s wgLink))))
                         (with_link h (ds_VXLANInterface s) (vxlan_setup c h s))
          in (case LinkByName h (ds_VXLANInterface s) k of
                Inl (LinkError e) \<Rightarrow> (k, Some (Host e))
              | Inl LinkNotFound \<Rightarrow> create k
              | Inr link \<Rightarrow>
                  (case lk_Kind link of
                     VxlanLink vx \<Rightarrow>
                       if \<not> ip_Equal (vx_SrcAddr vx) wantSrc
                       then andThen (within ''LinkDel vxlan (SrcAddr drift)'' (call (LinkDel h link))) create k
                       else vxlan_setup c h s link k
                   | _ \<Rightarrow> vxlan_setup c h s link k)))"

section \<open>The forwarding table\<close>

type_synonym fdbKey = "string \<times> string"       \<comment> \<open>MAC and underlay address, as text\<close>

definition fdb_desired :: "crypto \<Rightarrow> peer list \<Rightarrow> fdbKey list" where
  "fdb_desired c peers =
     remdups (concat (map (\<lambda>p.
       if \<not> IsValid (pe_UnderlayAddr p) then []
       else let ip = addr_String (pe_UnderlayAddr p)
            in [(mac_String broadcastMAC, ip), (mac_String (vxlanMACFromKey c (pe_WGPublic p)), ip)]) peers))"

definition managedMACs :: "crypto \<Rightarrow> peer list \<Rightarrow> string list" where
  "managedMACs c peers =
     mac_String broadcastMAC #
     map (\<lambda>p. mac_String (vxlanMACFromKey c (pe_WGPublic p))) (filter (\<lambda>p. IsValid (pe_UnderlayAddr p)) peers)"

definition neigh_key :: "neigh \<Rightarrow> fdbKey" where
  "neigh_key n = (mac_String (ng_HardwareAddr n), ip_String (ng_IP n))"

definition fdb_have :: "string list \<Rightarrow> neigh list \<Rightarrow> fdbKey list" where
  "fdb_have managed existing = remdups (map neigh_key (filter (\<lambda>n. mac_String (ng_HardwareAddr n) \<in> set managed) existing))"

text \<open>The row a key stands for; the texts are parsed back, an error giving the zero value.\<close>

definition key_row :: "fdbKey \<Rightarrow> neigh" where
  "key_row k =
     \<lparr>ng_HardwareAddr = (case ParseMAC (fst k) of Some m \<Rightarrow> m | None \<Rightarrow> []),
      ng_IP = AsSlice (case ParseAddr (snd k) of Some a \<Rightarrow> a | None \<Rightarrow> NoAddr)\<rparr>"

fun neigh_calls :: "string \<Rightarrow> (neigh \<Rightarrow> 'k \<Rightarrow> 'k \<times> string option) \<Rightarrow> fdbKey list \<Rightarrow> 'k action" where
  "neigh_calls msg f [] = noop"
| "neigh_calls msg f (key # keys) = andThen (within msg (call (f (key_row key)))) (neigh_calls msg f keys)"

definition reconcileFDB :: "crypto \<Rightarrow> 'k host \<Rightarrow> dpstate \<Rightarrow> 'k action" where
  "reconcileFDB c h s k =
     (case LinkByName h (ds_VXLANInterface s) k of
        Inl e \<Rightarrow> (k, Some (of_link_error e))
      | Inr link \<Rightarrow>
          (case NeighList h (lk_Index link) k of
             Inl e \<Rightarrow> (k, Some (Context ''NeighList'' (Host e)))
           | Inr existing \<Rightarrow>
               let desired = fdb_desired c (ds_Peers s);
                   have = fdb_have (managedMACs c (ds_Peers s)) existing
               in andThen
                    (neigh_calls ''NeighAppend'' (NeighAppend h (lk_Index link)) (filter (\<lambda>k. k \<notin> set have) desired))
                    (neigh_calls ''NeighDel'' (NeighDel h (lk_Index link)) (filter (\<lambda>k. k \<notin> set desired) have)) k))"

section \<open>Reconcile\<close>

definition host_Reconcile :: "crypto \<Rightarrow> 'k host \<Rightarrow> dpstate \<Rightarrow> 'k action" where
  "host_Reconcile c h s =
     (if ds_WGInterface s = [] then (\<lambda>k. (k, Some (Required ''WGInterface'')))
      else
        andThen (within ''ensureWGInterface'' (ensureWGInterface h s))
       (andThen (within ''configureWGPeers'' (configureWGPeers h s))
          (if ds_Mode s = ModeRouter then noop
           else if ds_VXLANInterface s = [] then (\<lambda>k. (k, Some (Required ''VXLANInterface'')))
           else if \<not> prefix_valid (ds_LocalInnerAddr s) then (\<lambda>k. (k, Some (Required ''LocalInnerAddr'')))
           else if \<not> prefix_valid (ds_LocalUnderlayAddr s) then (\<lambda>k. (k, Some (Required ''LocalUnderlayAddr'')))
           else andThen (within ''ensureVXLAN'' (ensureVXLAN c h s)) (within ''reconcileFDB'' (reconcileFDB c h s)))))"

text \<open>The reconciler remembers the last state it applied, for \<open>Stats\<close>.\<close>

record 'k reconciler =
  rc_last :: "dpstate option"
  rc_kernel :: 'k

definition linux_Reconcile :: "crypto \<Rightarrow> 'k host \<Rightarrow> dpstate \<Rightarrow> 'k reconciler \<Rightarrow> 'k reconciler \<times> dp_error option" where
  "linux_Reconcile c h s r =
     (case host_Reconcile c h s (rc_kernel r) of
        (k, Some e) \<Rightarrow> (r\<lparr>rc_kernel := k\<rparr>, Some e)
      | (k, None) \<Rightarrow> (r\<lparr>rc_kernel := k, rc_last := Some s\<rparr>, None))"

definition linux_Stats :: "crypto \<Rightarrow> 'k host \<Rightarrow> 'k reconciler \<Rightarrow> (string, trafficStats list) result" where
  "linux_Stats c h r =
     (case rc_last r of
        None \<Rightarrow> Inr []
      | Some s \<Rightarrow>
          (case Device h (ds_WGInterface s) (rc_kernel r) of
             Inl e \<Rightarrow> Inl e
           | Inr dev \<Rightarrow>
               let nameByKey = fold (\<lambda>p m. mput (wg_string c (pe_WGPublic p)) (pe_Name p) m) (ds_Peers s) []
               in Inr (map (\<lambda>p.
                    \<lparr>st_Peer = (case mget nameByKey (wg_string c (wp_PublicKey p)) of
                                  Some n \<Rightarrow> n | None \<Rightarrow> wg_string c (wp_PublicKey p)),
                     st_RxBytes = of_int (wp_ReceiveBytes p), st_TxBytes = of_int (wp_TransmitBytes p),
                     st_LastHandshake = wp_LastHandshake p\<rparr>) dev)))"

section \<open>Calls in sequence\<close>

lemma andThen_ok: "andThen f g k = (k', None) \<longleftrightarrow> (\<exists>k1. f k = (k1, None) \<and> g k1 = (k', None))"
  by (auto simp: andThen_def split: prod.splits option.splits)

lemma within_ok: "within msg f k = (k', None) \<longleftrightarrow> f k = (k', None)"
  by (auto simp: within_def map_prod_def split: prod.splits)

lemma call_ok: "call f k = (k', None) \<longleftrightarrow> f k = (k', None)"
  by (auto simp: call_def map_prod_def split: prod.splits)

lemma noop_ok: "noop k = (k', None) \<longleftrightarrow> k' = k"
  by (auto simp: noop_def)

lemmas action_ok = andThen_ok within_ok call_ok noop_ok

section \<open>The forwarding table matches the peers\<close>

text \<open>
  What the program relies on of \<open>netlink\<close>: appending or deleting a row that succeeds does exactly that to the
  rows of the device and changes no link.
\<close>

definition fdb_laws :: "'k host \<Rightarrow> bool" where
  "fdb_laws h \<longleftrightarrow>
     (\<forall>i n k k' rows. NeighAppend h i n k = (k', None) \<and> NeighList h i k = Inr rows \<longrightarrow>
        (\<exists>rows'. NeighList h i k' = Inr rows' \<and> set rows' = insert n (set rows))) \<and>
     (\<forall>i n k k' rows. NeighDel h i n k = (k', None) \<and> NeighList h i k = Inr rows \<longrightarrow>
        (\<exists>rows'. NeighList h i k' = Inr rows' \<and> set rows' = set rows - {n})) \<and>
     (\<forall>i n k name. LinkByName h name (fst (NeighAppend h i n k)) = LinkByName h name k) \<and>
     (\<forall>i n k name. LinkByName h name (fst (NeighDel h i n k)) = LinkByName h name k)"

lemma neigh_calls_rows:
  assumes step: "\<And>n k k' rows. f n k = (k', None) \<Longrightarrow> NeighList h i k = Inr rows \<Longrightarrow>
      (\<exists>rows'. NeighList h i k' = Inr rows' \<and> set rows' = upd n (set rows)) \<and> LinkByName h name k' = LinkByName h name k"
    and "neigh_calls msg f keys k = (k', None)" and "NeighList h i k = Inr rows"
  shows "\<exists>rows'. NeighList h i k' = Inr rows' \<and> set rows' = fold (\<lambda>key. upd (key_row key)) keys (set rows) \<and>
    LinkByName h name k' = LinkByName h name k"
  using assms(2,3)
proof (induction keys arbitrary: k rows)
  case (Cons key keys)
  then obtain k1 where k1: "f (key_row key) k = (k1, None)" "neigh_calls msg f keys k1 = (k', None)"
    by (auto simp: action_ok)
  from step [OF k1(1) Cons.prems(2)] obtain rows1 where "NeighList h i k1 = Inr rows1"
    "set rows1 = upd (key_row key) (set rows)" "LinkByName h name k1 = LinkByName h name k" by blast
  with Cons.IH [OF k1(2)] show ?case by fastforce
qed (simp add: noop_ok)

lemma fold_insert: "fold (\<lambda>x. insert (f x)) xs A = A \<union> f ` set xs"
  by (induction xs arbitrary: A) auto

lemma fold_remove: "fold (\<lambda>x A. A - {f x}) xs A = A - f ` set xs"
  by (induction xs arbitrary: A) auto

lemma fdb_calls:
  assumes laws: "fdb_laws h" and "NeighList h i k = Inr rows"
    and "andThen (neigh_calls m1 (NeighAppend h i) adds) (neigh_calls m2 (NeighDel h i) dels) k = (k', None)"
  obtains rows' where "NeighList h i k' = Inr rows'"
    "set rows' = (set rows \<union> key_row ` set adds) - key_row ` set dels" "LinkByName h name k' = LinkByName h name k"
proof -
  obtain k1 where k1: "neigh_calls m1 (NeighAppend h i) adds k = (k1, None)" "neigh_calls m2 (NeighDel h i) dels k1 = (k', None)"
    using assms(3) by (auto simp: action_ok)
  have app: "(\<exists>rows'. NeighList h i k' = Inr rows' \<and> set rows' = insert n (set rows)) \<and> LinkByName h name k' = LinkByName h name k"
    if "NeighAppend h i n k = (k', None)" "NeighList h i k = Inr rows" for n k k' rows
    using laws that unfolding fdb_laws_def by (metis fst_conv)
  have del: "(\<exists>rows'. NeighList h i k' = Inr rows' \<and> set rows' = set rows - {n}) \<and> LinkByName h name k' = LinkByName h name k"
    if "NeighDel h i n k = (k', None)" "NeighList h i k = Inr rows" for n k k' rows
    using laws that unfolding fdb_laws_def by (metis fst_conv)
  obtain rows1 where r1: "NeighList h i k1 = Inr rows1" "set rows1 = set rows \<union> key_row ` set adds"
      "LinkByName h name k1 = LinkByName h name k"
    using neigh_calls_rows [of "NeighAppend h i" h i insert name, OF app k1(1) assms(2)]
    by (auto simp: fold_insert)
  obtain rows' where "NeighList h i k' = Inr rows'" "set rows' = set rows1 - key_row ` set dels"
      "LinkByName h name k' = LinkByName h name k1"
    using neigh_calls_rows [of "NeighDel h i" h i "\<lambda>n A. A - {n}" name, OF del k1(2) r1(1)]
    by (auto simp: fold_remove)
  with r1 that show ?thesis by simp
qed

text \<open>Keys and rows correspond: the texts of a row parse back to it.\<close>

lemma length_vxlanMAC: "sha256_length c \<Longrightarrow> length (vxlanMACFromKey c pub) = 6"
  by (simp add: vxlanMACFromKey_def sha256_length_def Let_def)

lemma octets4_AddrFrom4:
  assumes "list_all (\<lambda>n. n < 256) [a, b, c, d]"
  shows "\<exists>w. AddrFrom4 [a, b, c, d] = Addr4 w \<and> octets4 w = [a, b, c, d]"
proof -
  define n where "n = ((a * 256 + b) * 256 + c) * 256 + d"
  have "n < 2 ^ 32" using assms by (simp add: n_def)
  then have u: "unat (of_nat n :: 32 word) = n" by (simp add: unat_of_nat take_bit_nat_eq_self)
  have "AddrFrom4 [a, b, c, d] = Addr4 (of_nat n)" by (simp add: AddrFrom4_def join_base_def n_def)
  have q: "(x * 256 + y) div 256 = x" "(x * 256 + y) mod 256 = y" if "y < 256" for x y :: nat
    using that by auto
  have bs: "a < 256" "b < 256" "c < 256" "d < 256" using assms by simp_all
  have d1: "n div 256 = (a * 256 + b) * 256 + c" "n mod 256 = d" unfolding n_def by (rule q [OF bs(4)])+
  have "n div 65536 = n div 256 div 256" by (simp add: div_mult2_eq [symmetric])
  also have "\<dots> = a * 256 + b" unfolding d1(1) by (rule q(1) [OF bs(3)])
  finally have d2: "n div 65536 = a * 256 + b" .
  have "n div 16777216 = n div 65536 div 256" by (simp add: div_mult2_eq [symmetric])
  also have "\<dots> = a" unfolding d2 by (rule q(1) [OF bs(2)])
  finally have "octets4 (of_nat n) = [a, b, c, d]"
    unfolding octets4_def Let_def u d1 d2 q(2) [OF bs(3)] q(2) [OF bs(2)] by (rule arg_cong)
  with \<open>AddrFrom4 [a, b, c, d] = Addr4 (of_nat n)\<close> show ?thesis by blast
qed

lemma ip_row4: "ip_String (AsSlice (Addr4 w)) = string4 w"
proof -
  have o: "\<exists>a b c d. octets4 w = [a, b, c, d]" by (simp add: octets4_def Let_def)
  then obtain a b c d where abcd: "octets4 w = [a, b, c, d]" by blast
  have "unat (of_nat n :: byte) = n" if "n \<in> set (octets4 w)" for n
    using octets4_le [of w] that by (auto simp: unat_of_nat take_bit_nat_eq_self)
  then have "map unat (map of_nat (octets4 w) :: bytes) = octets4 w" by (simp add: map_idI)
  moreover have "AddrFrom4 (octets4 w) = Addr4 w" by (simp add: AddrFrom4_def join_octets4)
  ultimately show ?thesis by (simp add: ip_String_def ip_To4_def abcd)
qed

lemma ip4_back:
  assumes "length ip = 4"
  shows "\<exists>w. ip_String ip = string4 w \<and> AsSlice (Addr4 w) = ip"
proof -
  obtain a b c d where ip: "ip = [a, b, c, d]" using assms by (auto simp: length_Suc_conv numeral_eq_Suc)
  have "unat (x :: byte) < 256" for x using unsigned_less [of x] by simp
  then obtain w where "AddrFrom4 [unat a, unat b, unat c, unat d] = Addr4 w" "octets4 w = [unat a, unat b, unat c, unat d]"
    using octets4_AddrFrom4 [of "unat a" "unat b" "unat c" "unat d"] by auto
  then show ?thesis by (auto simp: ip ip_String_def ip_To4_def)
qed

lemma mac_String_inj6:
  assumes "mac_String m = mac_String n" and "length n = 6"
  shows "m = n"
proof -
  have n: "n \<noteq> []" using assms(2) by auto
  then have "length (mac_String n) + 1 = 18" using length_mac_String [OF n] assms(2) by simp
  moreover from this have "m \<noteq> []" using assms(1) by auto
  ultimately have "length m = 6" using length_mac_String [of m] unfolding assms(1) by simp
  then have "Some m = ParseMAC (mac_String n)" using ParseMAC_String [of m] unfolding assms(1) by simp
  also have "\<dots> = Some n" by (rule ParseMAC_String) (simp add: assms(2))
  finally show ?thesis by simp
qed

text \<open>The rows a list of peers calls for, and the MAC addresses the reconciler manages for it.\<close>

definition peer_rows :: "crypto \<Rightarrow> peer list \<Rightarrow> neigh set" where
  "peer_rows c peers =
     (\<Union>p \<in> {p \<in> set peers. IsValid (pe_UnderlayAddr p)}. \<Union>m \<in> {broadcastMAC, vxlanMACFromKey c (pe_WGPublic p)}.
        {\<lparr>ng_HardwareAddr = m, ng_IP = AsSlice (pe_UnderlayAddr p)\<rparr>})"

definition managed :: "crypto \<Rightarrow> peer list \<Rightarrow> bytes set" where
  "managed c peers =
     insert broadcastMAC ((\<lambda>p. vxlanMACFromKey c (pe_WGPublic p)) ` {p \<in> set peers. IsValid (pe_UnderlayAddr p)})"

definition underlay4 :: "peer list \<Rightarrow> bool" where
  "underlay4 peers \<longleftrightarrow> (\<forall>p \<in> set peers. IsValid (pe_UnderlayAddr p) \<longrightarrow> Is4 (pe_UnderlayAddr p))"

lemma underlay4_Addr4:
  assumes "underlay4 peers" and "p \<in> set peers" and "IsValid (pe_UnderlayAddr p)"
  obtains w where "pe_UnderlayAddr p = Addr4 w"
  using assms by (cases "pe_UnderlayAddr p") (auto simp: underlay4_def Is4_def)

lemma key_row4: "length m = 6 \<Longrightarrow> key_row (mac_String m, string4 w) = \<lparr>ng_HardwareAddr = m, ng_IP = AsSlice (Addr4 w)\<rparr>"
  by (simp add: key_row_def ParseMAC_String ParseAddr_string4)

lemma neigh_key4: "neigh_key \<lparr>ng_HardwareAddr = m, ng_IP = AsSlice (Addr4 w)\<rparr> = (mac_String m, string4 w)"
  using ip_row4 by (simp add: neigh_key_def)

lemma length_broadcast: "length broadcastMAC = 6"
  by (simp add: broadcastMAC_def)

lemma fdb_desired_rows:
  assumes "sha256_length c" and "underlay4 peers"
  shows "key_row ` set (fdb_desired c peers) = peer_rows c peers"
    and "k \<in> set (fdb_desired c peers) \<Longrightarrow> neigh_key (key_row k) = k"
proof -
  have one: "key_row ` {(mac_String broadcastMAC, addr_String (pe_UnderlayAddr p)),
        (mac_String (vxlanMACFromKey c (pe_WGPublic p)), addr_String (pe_UnderlayAddr p))} =
      (\<lambda>m. \<lparr>ng_HardwareAddr = m, ng_IP = AsSlice (pe_UnderlayAddr p)\<rparr>) ` {broadcastMAC, vxlanMACFromKey c (pe_WGPublic p)}
    \<and> neigh_key (key_row (mac_String broadcastMAC, addr_String (pe_UnderlayAddr p))) =
        (mac_String broadcastMAC, addr_String (pe_UnderlayAddr p))
    \<and> neigh_key (key_row (mac_String (vxlanMACFromKey c (pe_WGPublic p)), addr_String (pe_UnderlayAddr p))) =
        (mac_String (vxlanMACFromKey c (pe_WGPublic p)), addr_String (pe_UnderlayAddr p))"
    if p: "p \<in> set peers" "IsValid (pe_UnderlayAddr p)" for p
  proof -
    obtain w where "pe_UnderlayAddr p = Addr4 w" by (rule underlay4_Addr4 [OF assms(2) p])
    with length_vxlanMAC [OF assms(1)] length_broadcast show ?thesis
      by (simp add: key_row4 neigh_key4 del: AsSlice.simps)
  qed
  have set: "set (fdb_desired c peers) = (\<Union>p \<in> {p \<in> set peers. IsValid (pe_UnderlayAddr p)}.
      {(mac_String broadcastMAC, addr_String (pe_UnderlayAddr p)),
       (mac_String (vxlanMACFromKey c (pe_WGPublic p)), addr_String (pe_UnderlayAddr p))})"
    by (auto simp: fdb_desired_def Let_def split: if_splits)
  show "key_row ` set (fdb_desired c peers) = peer_rows c peers"
    unfolding set peer_rows_def image_UN using one by (intro SUP_cong) auto
  show "k \<in> set (fdb_desired c peers) \<Longrightarrow> neigh_key (key_row k) = k"
    unfolding set using one by blast
qed

lemma managed_iff:
  assumes "sha256_length c"
  shows "mac_String m \<in> set (managedMACs c peers) \<longleftrightarrow> m \<in> managed c peers"
  using mac_String_inj6 [OF _ length_broadcast] mac_String_inj6 [OF _ length_vxlanMAC [OF assms]]
  by (auto simp: managedMACs_def managed_def)

lemma length_managed: "sha256_length c \<Longrightarrow> m \<in> managed c peers \<Longrightarrow> length m = 6"
  by (auto simp: managed_def length_broadcast length_vxlanMAC)

lemma neigh_key_back:
  assumes "length (ng_HardwareAddr n) = 6" and "length (ng_IP n) = 4"
  shows "key_row (neigh_key n) = n"
proof -
  obtain w where "ip_String (ng_IP n) = string4 w" "AsSlice (Addr4 w) = ng_IP n" using ip4_back [OF assms(2)] by blast
  with assms(1) show ?thesis by (simp add: neigh_key_def key_row4 del: AsSlice.simps)
qed

lemma fdb_have_rows:
  assumes "sha256_length c" and "\<forall>n \<in> set rows. ng_HardwareAddr n \<in> managed c peers \<longrightarrow> length (ng_IP n) = 4"
  shows "key_row ` set (fdb_have (managedMACs c peers) rows) = {n \<in> set rows. ng_HardwareAddr n \<in> managed c peers}"
    and "k \<in> set (fdb_have (managedMACs c peers) rows) \<Longrightarrow> neigh_key (key_row k) = k"
proof -
  have set: "set (fdb_have (managedMACs c peers) rows) = neigh_key ` {n \<in> set rows. ng_HardwareAddr n \<in> managed c peers}"
    by (auto simp: fdb_have_def managed_iff [OF assms(1)])
  have inv: "key_row (neigh_key n) = n" if "n \<in> set rows" "ng_HardwareAddr n \<in> managed c peers" for n
    using assms(2) that length_managed [OF assms(1)] by (intro neigh_key_back) auto
  then show "key_row ` set (fdb_have (managedMACs c peers) rows) = {n \<in> set rows. ng_HardwareAddr n \<in> managed c peers}"
    unfolding set image_image by force
  show "k \<in> set (fdb_have (managedMACs c peers) rows) \<Longrightarrow> neigh_key (key_row k) = k"
    unfolding set using inv by auto
qed

lemma peer_rows_managed: "n \<in> peer_rows c peers \<Longrightarrow> ng_HardwareAddr n \<in> managed c peers"
  by (auto simp: peer_rows_def managed_def)

lemma peer_rows_ip4: "underlay4 peers \<Longrightarrow> n \<in> peer_rows c peers \<Longrightarrow> length (ng_IP n) = 4"
  by (auto simp: peer_rows_def octets4_def Let_def elim!: underlay4_Addr4)

text \<open>What the additions and deletions leave, for keys and rows that correspond.\<close>

lemma plan_rows:
  assumes "inj_on row (D \<union> H)" and "row ` H = {n \<in> rows. P n}" and "\<And>n. n \<in> row ` D \<Longrightarrow> P n"
  shows "(rows \<union> row ` (D - H)) - row ` (H - D) = {n \<in> rows. \<not> P n} \<union> row ` D"
proof -
  have "row ` (H - D) = row ` H - row ` D" and "row ` (D - H) = row ` D - row ` H"
    using inj_on_image_set_diff [OF assms(1)] by (metis Diff_subset Un_Diff_cancel2 Un_upper1 Un_upper2 le_supI1 le_supI2)+
  with assms(2,3) show ?thesis by auto
qed


section \<open>The WireGuard peers match the state\<close>

text \<open>
  What \<open>wgctrl\<close> documents of \<open>ConfigureDevice\<close>: the peer configurations are applied in order; one that removes
  deletes the peer, any other one creates or updates it, keeping what it does not set; an allowed address
  belongs to one peer only, the last that was given it.
\<close>

definition fresh_peer :: "bytes \<Rightarrow> wgpeer" where
  "fresh_peer key = \<lparr>wp_PublicKey = key, wp_Endpoint = None, wp_AllowedIPs = [], wp_ReceiveBytes = 0,
     wp_TransmitBytes = 0, wp_LastHandshake = 0\<rparr>"

definition update_peer :: "peerconfig \<Rightarrow> wgpeer \<Rightarrow> wgpeer" where
  "update_peer pc e =
     e\<lparr>wp_Endpoint := (case pc_Endpoint pc of Some a \<Rightarrow> Some a | None \<Rightarrow> wp_Endpoint e),
       wp_AllowedIPs := (if pc_ReplaceAllowedIPs pc then [] else wp_AllowedIPs e) @ pc_AllowedIPs pc\<rparr>"

definition yield_peer :: "peerconfig \<Rightarrow> wgpeer \<Rightarrow> wgpeer" where
  "yield_peer pc e = e\<lparr>wp_AllowedIPs := filter (\<lambda>a. a \<notin> set (pc_AllowedIPs pc)) (wp_AllowedIPs e)\<rparr>"

definition apply_peer :: "peerconfig \<Rightarrow> wgpeer list \<Rightarrow> wgpeer list" where
  "apply_peer pc dev =
     (if pc_Remove pc then filter (\<lambda>e. wp_PublicKey e \<noteq> pc_PublicKey pc) dev
      else map (\<lambda>e. if wp_PublicKey e = pc_PublicKey pc then update_peer pc e else yield_peer pc e) dev @
           (if pc_PublicKey pc \<in> wp_PublicKey ` set dev then [] else [update_peer pc (fresh_peer (pc_PublicKey pc))]))"

definition configured :: "wgconfig \<Rightarrow> wgpeer list \<Rightarrow> wgpeer list" where
  "configured cfg dev = fold apply_peer (cf_Peers cfg) (if cf_ReplacePeers cfg then [] else dev)"

definition wg_laws :: "'k host \<Rightarrow> bool" where
  "wg_laws h \<longleftrightarrow>
     (\<forall>name cfg k k'. ConfigureDevice h name cfg k = (k', None) \<longrightarrow>
        (\<exists>dev. Device h name k = Inr dev \<and> Device h name k' = Inr (configured cfg dev))) \<and>
     (\<forall>name l k. LinkByName h name k = Inr l \<longrightarrow> lk_Name l = name) \<and>
     (\<forall>name l k. nw_Name l \<noteq> name \<longrightarrow> Device h name (fst (LinkAdd h l k)) = Device h name k) \<and>
     (\<forall>name l k. lk_Name l \<noteq> name \<longrightarrow> Device h name (fst (LinkDel h l k)) = Device h name k) \<and>
     (\<forall>name l n k. Device h name (fst (LinkSetMTU h l n k)) = Device h name k) \<and>
     (\<forall>name l m k. Device h name (fst (LinkSetHardwareAddr h l m k)) = Device h name k) \<and>
     (\<forall>name l k. Device h name (fst (LinkSetUp h l k)) = Device h name k) \<and>
     (\<forall>name l a k. Device h name (fst (AddrReplace h l a k)) = Device h name k) \<and>
     (\<forall>name i n k. Device h name (fst (NeighAppend h i n k)) = Device h name k) \<and>
     (\<forall>name i n k. Device h name (fst (NeighDel h i n k)) = Device h name k)"

text \<open>Actions that leave a device alone.\<close>

definition keeps :: "'k host \<Rightarrow> string \<Rightarrow> 'k action \<Rightarrow> bool" where
  "keeps h name f \<longleftrightarrow> (\<forall>k. Device h name (fst (f k)) = Device h name k)"

lemma keepsD: "keeps h name f \<Longrightarrow> Device h name (fst (f k)) = Device h name k"
  by (simp add: keeps_def)

lemma keeps_andThen: "keeps h name f \<Longrightarrow> keeps h name g \<Longrightarrow> keeps h name (andThen f g)"
  by (auto simp: keeps_def andThen_def split: prod.splits option.splits) (metis fst_conv)+

lemma keeps_within: "keeps h name f \<Longrightarrow> keeps h name (within msg f)"
  by (simp add: keeps_def within_def)

lemma keeps_call: "\<forall>k. Device h name (fst (f k)) = Device h name k \<Longrightarrow> keeps h name (call f)"
  by (simp add: keeps_def call_def)

lemma keeps_noop: "keeps h name noop"
  by (simp add: keeps_def noop_def)

lemma keeps_if: "(b \<Longrightarrow> keeps h name f) \<Longrightarrow> (\<not> b \<Longrightarrow> keeps h name g) \<Longrightarrow> keeps h name (if b then f else g)"
  by simp

lemma keeps_with_link: "(\<And>l. keeps h name (f l)) \<Longrightarrow> keeps h name (with_link h n f)"
  by (auto simp: keeps_def with_link_def split: sum.splits)

lemmas keeps_intros = keeps_andThen keeps_within keeps_call keeps_noop keeps_if keeps_with_link

lemma wg_setup_keeps: "wg_laws h \<Longrightarrow> keeps h name (wg_setup h s link)"
  unfolding wg_setup_def by (intro keeps_intros) (simp_all add: wg_laws_def)

lemma vxlan_setup_keeps: "wg_laws h \<Longrightarrow> keeps h name (vxlan_setup c h s link)"
  unfolding vxlan_setup_def Let_def by (intro keeps_intros) (simp_all add: wg_laws_def)

lemma neigh_calls_keeps: "(\<And>n k. Device h name (fst (f n k)) = Device h name k) \<Longrightarrow> keeps h name (neigh_calls msg f keys)"
  by (induction keys) (simp_all add: keeps_noop keeps_andThen keeps_within keeps_call)

lemma reconcileFDB_keeps:
  assumes "wg_laws h" shows "keeps h name (reconcileFDB c h s)"
proof -
  have "keeps h name (andThen (neigh_calls m1 (NeighAppend h i) adds) (neigh_calls m2 (NeighDel h i) dels))" for m1 m2 i adds dels
    using assms by (intro keeps_andThen neigh_calls_keeps) (simp_all add: wg_laws_def)
  then show ?thesis by (auto simp: keeps_def reconcileFDB_def Let_def split: sum.splits)
qed

lemma ensureVXLAN_keeps:
  assumes laws: "wg_laws h" and ne: "ds_VXLANInterface s \<noteq> name"
  shows "keeps h name (ensureVXLAN c h s)"
proof -
  have create: "keeps h name (andThen (within m (call (LinkAdd h (new_vxlan c s wgLink))))
      (with_link h (ds_VXLANInterface s) (vxlan_setup c h s)))" for m wgLink
    using laws ne by (intro keeps_intros vxlan_setup_keeps) (simp_all add: wg_laws_def new_vxlan_def)
  have del: "keeps h name (within m (call (LinkDel h link)))"
    if "LinkByName h (ds_VXLANInterface s) k = Inr link" for m k link
  proof -
    have "lk_Name link = ds_VXLANInterface s" using laws [unfolded wg_laws_def, THEN conjunct2, THEN conjunct1] that by auto
    with laws ne show ?thesis by (intro keeps_intros) (simp add: wg_laws_def)
  qed
  show ?thesis
    unfolding keeps_def
  proof
    fix k
    show "Device h name (fst (ensureVXLAN c h s k)) = Device h name k"
    proof (cases "LinkByName h (ds_WGInterface s) k")
      case (Inr wgLink)
      show ?thesis
      proof (cases "LinkByName h (ds_VXLANInterface s) k")
        case (Inl e)
        with Inr show ?thesis
          by (cases e) (simp_all add: ensureVXLAN_def Let_def keepsD [OF create])
      next
        case vx: (Inr link)
        show ?thesis
          using keepsD [OF vxlan_setup_keeps [OF laws]] keepsD [OF keeps_andThen [OF del [OF vx] create]] Inr vx
          by (cases "lk_Kind link") (simp_all add: ensureVXLAN_def Let_def)
      qed
    qed (simp add: ensureVXLAN_def)
  qed
qed

text \<open>What a device holds for a key, before and after configurations are applied.\<close>

definition peer_of :: "wgpeer list \<Rightarrow> bytes \<Rightarrow> wgpeer option" where
  "peer_of dev key = find (\<lambda>e. wp_PublicKey e = key) dev"

lemma update_yield_key [simp]:
  "wp_PublicKey (update_peer pc e) = wp_PublicKey e" "wp_PublicKey (yield_peer pc e) = wp_PublicKey e"
  by (simp_all add: update_peer_def yield_peer_def)

lemma keys_apply_peer:
  "wp_PublicKey ` set (apply_peer pc dev) =
     (if pc_Remove pc then wp_PublicKey ` set dev - {pc_PublicKey pc} else insert (pc_PublicKey pc) (wp_PublicKey ` set dev))"
proof -
  have "wp_PublicKey ` set (map (\<lambda>e. if wp_PublicKey e = pc_PublicKey pc then update_peer pc e else yield_peer pc e) dev) =
      wp_PublicKey ` set dev"
    unfolding set_map image_image by (rule image_cong) auto
  moreover have "wp_PublicKey ` set (filter (\<lambda>e. wp_PublicKey e \<noteq> pc_PublicKey pc) dev) =
      wp_PublicKey ` set dev - {pc_PublicKey pc}" by auto
  ultimately show ?thesis
    by (simp only: apply_peer_def set_append image_Un) (auto simp: fresh_peer_def)
qed

lemma find_map_key:
  "(\<And>e. wp_PublicKey (f e) = wp_PublicKey e) \<Longrightarrow>
     find (\<lambda>e. wp_PublicKey e = key) (map f dev) = map_option f (find (\<lambda>e. wp_PublicKey e = key) dev)"
  by (induction dev) auto

lemma find_append: "find P (xs @ ys) = (case find P xs of Some x \<Rightarrow> Some x | None \<Rightarrow> find P ys)"
  by (induction xs) auto

lemma find_filter_other: "key \<noteq> k \<Longrightarrow> find (\<lambda>e. f e = key) (filter (\<lambda>e. f e \<noteq> k) xs) = find (\<lambda>e. f e = key) xs"
  by (induction xs) auto

lemma peer_of_apply:
  "key \<noteq> pc_PublicKey pc \<Longrightarrow> peer_of (apply_peer pc dev) key =
     (if pc_Remove pc then peer_of dev key else map_option (yield_peer pc) (peer_of dev key))"
  "\<not> pc_Remove pc \<Longrightarrow> peer_of (apply_peer pc dev) (pc_PublicKey pc) =
     Some (update_peer pc (case peer_of dev (pc_PublicKey pc) of Some e \<Rightarrow> e | None \<Rightarrow> fresh_peer (pc_PublicKey pc)))"
proof -
  let ?f = "\<lambda>e. if wp_PublicKey e = pc_PublicKey pc then update_peer pc e else yield_peer pc e"
  have m: "find (\<lambda>e. wp_PublicKey e = key) (map ?f dev) = map_option ?f (find (\<lambda>e. wp_PublicKey e = key) dev)" for key
    by (rule find_map_key) simp
  have key: "find (\<lambda>e. wp_PublicKey e = key) dev = Some e \<Longrightarrow> wp_PublicKey e = key" for key e
    by (auto simp: find_Some_iff)
  show "key \<noteq> pc_PublicKey pc \<Longrightarrow> peer_of (apply_peer pc dev) key =
     (if pc_Remove pc then peer_of dev key else map_option (yield_peer pc) (peer_of dev key))"
    by (auto simp: peer_of_def apply_peer_def find_append m find_filter_other fresh_peer_def dest: key split: option.splits)
  assume "\<not> pc_Remove pc"
  then show "peer_of (apply_peer pc dev) (pc_PublicKey pc) =
     Some (update_peer pc (case peer_of dev (pc_PublicKey pc) of Some e \<Rightarrow> e | None \<Rightarrow> fresh_peer (pc_PublicKey pc)))"
  proof (cases "find (\<lambda>e. wp_PublicKey e = pc_PublicKey pc) dev")
    case None
    then have "pc_PublicKey pc \<notin> wp_PublicKey ` set dev" by (auto simp: find_None_iff)
    with None \<open>\<not> pc_Remove pc\<close> show ?thesis
      by (simp add: peer_of_def apply_peer_def find_append m) (simp add: fresh_peer_def)
  next
    case (Some e)
    with key [OF Some] \<open>\<not> pc_Remove pc\<close> show ?thesis by (simp add: peer_of_def apply_peer_def find_append m)
  qed
qed

lemma peer_config_simps [simp]:
  "pc_PublicKey (peer_config p) = pe_WGPublic p" "\<not> pc_Remove (peer_config p)"
  "pc_PublicKey (remove_config e) = wp_PublicKey e" "pc_Remove (remove_config e)"
  by (simp_all add: peer_config_def remove_config_def)

lemma keys_fold_peers:
  "wp_PublicKey ` set (fold apply_peer (map peer_config ps) dev) = pe_WGPublic ` set ps \<union> wp_PublicKey ` set dev"
  by (induction ps arbitrary: dev) (auto simp: keys_apply_peer)

lemma keys_fold_removals:
  "wp_PublicKey ` set (fold apply_peer (map remove_config es) dev) = wp_PublicKey ` set dev - wp_PublicKey ` set es"
  by (induction es arbitrary: dev) (auto simp: keys_apply_peer)

lemma peer_of_removals:
  "key \<notin> wp_PublicKey ` set es \<Longrightarrow> peer_of (fold apply_peer (map remove_config es) dev) key = peer_of dev key"
  by (induction es arbitrary: dev) (auto simp: peer_of_apply)

text \<open>Two views of a peer that belong to the same session with it.\<close>

definition same_session :: "wgpeer \<Rightarrow> wgpeer \<Rightarrow> bool" where
  "same_session e e' \<longleftrightarrow> wp_ReceiveBytes e' = wp_ReceiveBytes e \<and> wp_TransmitBytes e' = wp_TransmitBytes e \<and>
     wp_LastHandshake e' = wp_LastHandshake e"

lemma peer_of_others:
  assumes "key \<notin> pe_WGPublic ` set ps" and "peer_of dev key = Some e"
  shows "\<exists>e'. peer_of (fold apply_peer (map peer_config ps) dev) key = Some e' \<and> same_session e e' \<and>
    wp_Endpoint e' = wp_Endpoint e \<and>
    ((\<forall>q \<in> set ps. set (wp_AllowedIPs e) \<inter> set (pc_AllowedIPs (peer_config q)) = {}) \<longrightarrow> wp_AllowedIPs e' = wp_AllowedIPs e)"
  using assms
proof (induction ps arbitrary: dev e)
  case (Cons q ps)
  let ?e = "yield_peer (peer_config q) e"
  have "peer_of (apply_peer (peer_config q) dev) key = Some ?e" using Cons.prems by (auto simp: peer_of_apply(1))
  with Cons obtain e' where e': "peer_of (fold apply_peer (map peer_config ps) (apply_peer (peer_config q) dev)) key = Some e'"
    "same_session ?e e'" "wp_Endpoint e' = wp_Endpoint ?e"
    "(\<forall>q \<in> set ps. set (wp_AllowedIPs ?e) \<inter> set (pc_AllowedIPs (peer_config q)) = {}) \<longrightarrow> wp_AllowedIPs e' = wp_AllowedIPs ?e"
    by fastforce
  moreover have "wp_AllowedIPs ?e = wp_AllowedIPs e"
    if "set (wp_AllowedIPs e) \<inter> set (pc_AllowedIPs (peer_config q)) = {}"
    using that by (auto simp: yield_peer_def filter_id_conv)
  moreover have "same_session ?e e' = same_session e e'" "wp_Endpoint ?e = wp_Endpoint e"
    by (simp_all add: same_session_def yield_peer_def)
  ultimately show ?case by auto
qed (simp add: same_session_def)

text \<open>Peers with different keys are allowed different addresses.\<close>

definition exclusive :: "peer list \<Rightarrow> bool" where
  "exclusive ps \<longleftrightarrow> (\<forall>p \<in> set ps. \<forall>q \<in> set ps. pe_WGPublic p \<noteq> pe_WGPublic q \<longrightarrow>
     set (map prefixToIPNet (pe_AllowedIPs p)) \<inter> set (map prefixToIPNet (pe_AllowedIPs q)) = {})"

lemma peer_of_configured:
  assumes "distinct (map pe_WGPublic ps)" and "exclusive ps" and "p \<in> set ps"
  shows "\<exists>e. peer_of (fold apply_peer (map peer_config ps) dev) (pe_WGPublic p) = Some e \<and>
    wp_AllowedIPs e = map prefixToIPNet (pe_AllowedIPs p) \<and>
    (pc_Endpoint (peer_config p) \<noteq> None \<longrightarrow> wp_Endpoint e = pc_Endpoint (peer_config p)) \<and>
    (\<forall>e0. peer_of dev (pe_WGPublic p) = Some e0 \<longrightarrow> same_session e0 e)"
proof -
  obtain as bs where ps: "ps = as @ p # bs" using assms(3) by (meson split_list)
  let ?dev = "fold apply_peer (map peer_config as) dev"
  let ?base = "case peer_of ?dev (pe_WGPublic p) of Some e \<Rightarrow> e | None \<Rightarrow> fresh_peer (pe_WGPublic p)"
  let ?e = "update_peer (peer_config p) ?base"
  have na: "pe_WGPublic p \<notin> pe_WGPublic ` set as" "pe_WGPublic p \<notin> pe_WGPublic ` set bs" using assms(1) ps by auto
  have ips: "wp_AllowedIPs ?e = map prefixToIPNet (pe_AllowedIPs p)" "pc_AllowedIPs (peer_config q) = map prefixToIPNet (pe_AllowedIPs q)" for q
    by (simp_all add: update_peer_def peer_config_def)
  have e: "peer_of (apply_peer (peer_config p) ?dev) (pe_WGPublic p) = Some ?e"
    using peer_of_apply(2) [OF peer_config_simps(2), of p ?dev] unfolding peer_config_simps .
  have disj: "\<forall>q \<in> set bs. set (wp_AllowedIPs ?e) \<inter> set (pc_AllowedIPs (peer_config q)) = {}"
    unfolding ips using assms(2) na(2) ps unfolding exclusive_def by (metis (no_types, lifting) Un_iff image_eqI list.set_intros(1,2) set_append)
  obtain e' where e': "peer_of (fold apply_peer (map peer_config bs) (apply_peer (peer_config p) ?dev)) (pe_WGPublic p) = Some e'"
      "same_session ?e e'" "wp_Endpoint e' = wp_Endpoint ?e" "wp_AllowedIPs e' = wp_AllowedIPs ?e"
    using peer_of_others [OF na(2) e] disj by blast
  have "same_session e0 e'" if "peer_of dev (pe_WGPublic p) = Some e0" for e0
    using peer_of_others [OF na(1) that] e'(2) by (auto simp: same_session_def update_peer_def)
  moreover have "pc_Endpoint (peer_config p) \<noteq> None \<longrightarrow> wp_Endpoint e' = pc_Endpoint (peer_config p)"
    by (auto simp: e'(3) update_peer_def split: option.splits)
  ultimately show ?thesis using e' ips(1) ps by simp
qed

lemma Reconcile_phases:
  assumes "wg_laws h" and "ds_VXLANInterface s \<noteq> ds_WGInterface s" and "host_Reconcile c h s k = (k', None)"
  obtains k1 k2 where "ensureWGInterface h s k = (k1, None)" "configureWGPeers h s k1 = (k2, None)"
    "Device h (ds_WGInterface s) k' = Device h (ds_WGInterface s) k2"
proof -
  let ?rest = "if ds_Mode s = ModeRouter then noop
           else if ds_VXLANInterface s = [] then (\<lambda>k. (k, Some (Required ''VXLANInterface'')))
           else if \<not> prefix_valid (ds_LocalInnerAddr s) then (\<lambda>k. (k, Some (Required ''LocalInnerAddr'')))
           else if \<not> prefix_valid (ds_LocalUnderlayAddr s) then (\<lambda>k. (k, Some (Required ''LocalUnderlayAddr'')))
           else andThen (within ''ensureVXLAN'' (ensureVXLAN c h s)) (within ''reconcileFDB'' (reconcileFDB c h s))"
  have "keeps h name (\<lambda>k. (k, Some e))" for name e by (simp add: keeps_def)
  then have "keeps h (ds_WGInterface s) ?rest"
    using assms(2) by (intro keeps_intros ensureVXLAN_keeps reconcileFDB_keeps assms(1)) auto
  moreover obtain k1 k2 where "ensureWGInterface h s k = (k1, None)" "configureWGPeers h s k1 = (k2, None)" "?rest k2 = (k', None)"
    using assms(3) unfolding host_Reconcile_def by (auto simp: andThen_ok within_ok split: if_splits)
  ultimately show ?thesis using that keepsD [of h _ ?rest k2] by simp
qed


section \<open>A reference kernel\<close>

text \<open>
  A small kernel in which every call succeeds satisfies the hypotheses; the witnesses run the reconciler
  on it.
\<close>

record kern =
  kr_links :: "link list"
  kr_fdb :: "neigh list"
  kr_dev :: "(string, wgpeer list) gomap"

definition ref_host :: "kern host" where
  "ref_host = \<lparr>
     LinkByName = (\<lambda>name k. case find (\<lambda>l. lk_Name l = name) (kr_links k) of Some l \<Rightarrow> Inr l | None \<Rightarrow> Inl LinkNotFound),
     LinkAdd = (\<lambda>l k. (k\<lparr>kr_links := kr_links k @ [\<lparr>lk_Name = nw_Name l, lk_Index = int (length (kr_links k)) + 1,
        lk_Kind = nw_Kind l, lk_MTU = 1500, lk_HardwareAddr = []\<rparr>], kr_dev := mput (nw_Name l) [] (kr_dev k)\<rparr>, None)),
     LinkDel = (\<lambda>l k. (k\<lparr>kr_links := removeAll l (kr_links k), kr_dev := mdel (lk_Name l) (kr_dev k)\<rparr>, None)),
     LinkSetMTU = (\<lambda>l n k. (k, None)), LinkSetHardwareAddr = (\<lambda>l m k. (k, None)),
     LinkSetUp = (\<lambda>l k. (k, None)), AddrReplace = (\<lambda>l a k. (k, None)),
     NeighList = (\<lambda>i k. Inr (kr_fdb k)), NeighAppend = (\<lambda>i n k. (k\<lparr>kr_fdb := kr_fdb k @ [n]\<rparr>, None)),
     NeighDel = (\<lambda>i n k. (k\<lparr>kr_fdb := removeAll n (kr_fdb k)\<rparr>, None)),
     Device = (\<lambda>name k. case mget (kr_dev k) name of Some d \<Rightarrow> Inr d | None \<Rightarrow> Inl ''no such device''),
     ConfigureDevice = (\<lambda>name cfg k. case mget (kr_dev k) name of
        Some d \<Rightarrow> (k\<lparr>kr_dev := mput name (configured cfg d) (kr_dev k)\<rparr>, None) | None \<Rightarrow> (k, Some ''no such device''))\<rparr>"

lemma ref_fdb_laws: "fdb_laws ref_host"
  by (auto simp: fdb_laws_def ref_host_def)

lemma ref_wg_laws: "wg_laws ref_host"
  by (auto simp: wg_laws_def ref_host_def find_Some_iff gm.get_put gm.get_del split: option.splits)

lemma ref_calls_ok:
  "\<exists>k'. neigh_calls msg (NeighAppend ref_host i) keys k = (k', None)"
  "\<exists>k'. neigh_calls msg (NeighDel ref_host i) keys k = (k', None)"
  by (induction keys arbitrary: k) (auto simp: noop_def action_ok ref_host_def)

definition sample_peer :: peer where
  "sample_peer = \<lparr>pe_Name = ''bob'', pe_WGPublic = replicate 32 2, pe_Endpoint = \<lparr>ap_addr = Addr4 1, ap_port = 7\<rparr>,
     pe_InnerAddr = NoAddr, pe_UnderlayAddr = Addr4 3, pe_AllowedIPs = [\<lparr>pfx_ip = Addr4 3, pfx_bits = 32\<rparr>]\<rparr>"

definition sample_state :: dpstate where
  "sample_state = \<lparr>ds_Mode = ModeRouter, ds_WGPrivate = replicate 32 1, ds_WGInterface = ''wg0'', ds_WGListenPort = 1,
     ds_VXLANInterface = ''vx0'', ds_VXLANID = 1, ds_VXLANPort = 4789, ds_LocalInnerAddr = NoPrefix,
     ds_LocalUnderlayAddr = NoPrefix, ds_MTU = 0, ds_Peers = [sample_peer]\<rparr>"

definition sample_kern :: kern where
  "sample_kern = \<lparr>kr_links = [\<lparr>lk_Name = ''vx0'', lk_Index = 1, lk_Kind = OtherLink, lk_MTU = 1450, lk_HardwareAddr = []\<rparr>],
     kr_fdb = [\<lparr>ng_HardwareAddr = broadcastMAC, ng_IP = [9, 9, 9, 9]\<rparr>], kr_dev = []\<rparr>"



text \<open>
  The unicast row of a peer that has left is not managed any more, so it stays: with no peers left, a pass over
  a table of unicast rows does nothing at all.
\<close>

lemma fdb_stale_rows:
  assumes "LinkByName h (ds_VXLANInterface s) k = Inr link" and "NeighList h (lk_Index link) k = Inr rows"
    and "ds_Peers s = []" and "\<forall>n \<in> set rows. ng_HardwareAddr n \<noteq> broadcastMAC"
  shows "reconcileFDB c h s k = (k, None)"
proof -
  have "fdb_have (managedMACs c []) rows = []"
    using assms(4) mac_String_inj6 [OF _ length_broadcast] by (auto simp: fdb_have_def managedMACs_def filter_empty_conv)
  then show ?thesis using assms by (simp add: reconcileFDB_def fdb_desired_def action_ok)
qed

section \<open>The interface both reconcilers implement\<close>

text \<open>
  A reconciler remembers the last state it has applied: a state that was rejected leaves the memory as it was.
\<close>

locale reconciler_spec =
  fixes reconcile :: "'s \<Rightarrow> 'r \<Rightarrow> 'r \<times> 'e option"
    and last_state :: "'r \<Rightarrow> 's option"
  assumes applied: "reconcile s r = (r', None) \<Longrightarrow> last_state r' = Some s"
    and failed: "reconcile s r = (r', Some e) \<Longrightarrow> last_state r' = last_state r"
begin

fun accepted :: "'s list \<Rightarrow> 'r \<Rightarrow> 's list" where
  "accepted [] r = []"
| "accepted (s # ss) r =
     (case reconcile s r of (r', e) \<Rightarrow> (if e = None then [s] else []) @ accepted ss r')"

lemma last_accepted:
  "last_state (fold (\<lambda>s r. fst (reconcile s r)) ss r) =
     (if accepted ss r = [] then last_state r else Some (last (accepted ss r)))"
  by (induction ss arbitrary: r) (auto simp: applied failed split: prod.splits option.splits)

end

interpretation lin: reconciler_spec "linux_Reconcile c h" rc_last
  by unfold_locales (auto simp: linux_Reconcile_def split: prod.splits option.splits)

interpretation fk: reconciler_spec "\<lambda>s r. (fake_Reconcile s r, None :: unit option)" fake_Last
  by unfold_locales (auto simp: fake_Reconcile_def fake_Last_def)

end
