(* ===== verification/Pcap.thy ===== *)
theory Pcap
  imports Prelude
begin

text \<open>
  Package \<open>pcap\<close>: the libpcap savefile writer and reader of \<open>pcap.go\<close>. The writer's destination is a parameter
  \<open>write\<close>, which may fail; the reader's source is the bytes of the file. A time is its seconds since the epoch
  and its nanoseconds.
\<close>

unbundle bit_operations_syntax

section \<open>Integers of the format\<close>

definition PutLE32 :: "32 word \<Rightarrow> bytes" where
  "PutLE32 w = map (\<lambda>i. ucast (drop_bit i w)) [0, 8, 16, 24]"

definition PutLE16 :: "16 word \<Rightarrow> bytes" where
  "PutLE16 w = map (\<lambda>i. ucast (drop_bit i w)) [0, 8]"

definition LE32 :: "bytes \<Rightarrow> 32 word" where
  "LE32 b = ucast (b ! 0) OR push_bit 8 (ucast (b ! 1)) OR push_bit 16 (ucast (b ! 2)) OR push_bit 24 (ucast (b ! 3))"

definition BE32 :: "bytes \<Rightarrow> 32 word" where
  "BE32 b = LE32 (rev (take 4 b))"

section \<open>Writer\<close>

type_synonym 'w sink = "bytes \<Rightarrow> 'w \<Rightarrow> (string, 'w) result"

record 'w pcap_writer =
  pw_w :: 'w
  pw_linkType :: "32 word"
  pw_snaplen :: "32 word"

definition pcap_header :: "32 word \<Rightarrow> 32 word \<Rightarrow> bytes" where
  "pcap_header linkType snaplen =
     PutLE32 0xa1b2c3d4 @ PutLE16 2 @ PutLE16 4 @ PutLE32 0 @ PutLE32 0 @ PutLE32 snaplen @ PutLE32 linkType"

definition NewWriter :: "'w sink \<Rightarrow> 'w \<Rightarrow> 32 word \<Rightarrow> 32 word \<Rightarrow> (string, 'w pcap_writer) result" where
  "NewWriter write w linkType snaplen =
     (case write (pcap_header linkType snaplen) w of
        Inl e \<Rightarrow> Inl e
      | Inr w' \<Rightarrow> Inr \<lparr>pw_w = w', pw_linkType = linkType, pw_snaplen = snaplen\<rparr>)"

definition record_header :: "int \<Rightarrow> nat \<Rightarrow> 32 word \<Rightarrow> 32 word \<Rightarrow> bytes" where
  "record_header sec nsec cap len = PutLE32 (of_int sec) @ PutLE32 (of_nat (nsec div 1000)) @ PutLE32 cap @ PutLE32 len"

definition WritePacket :: "'w sink \<Rightarrow> int \<Rightarrow> nat \<Rightarrow> bytes \<Rightarrow> 'w pcap_writer \<Rightarrow> (string, 'w pcap_writer) result" where
  "WritePacket write sec nsec data p =
     (let len = of_nat (length data);
          cap = (if len > pw_snaplen p then pw_snaplen p else len)
      in case write (record_header sec nsec cap len) (pw_w p) of
           Inl e \<Rightarrow> Inl e
         | Inr w1 \<Rightarrow>
             (case write (take (unat cap) data) w1 of
                Inl e \<Rightarrow> Inl e
              | Inr w2 \<Rightarrow> Inr (p\<lparr>pw_w := w2\<rparr>)))"

section \<open>Reader\<close>

datatype pcap_error = PcapEOF | UnexpectedEOF | BadMagic "32 word"

record pcap_reader =
  pr_r :: bytes
  pr_LinkType :: "32 word"
  pr_Snaplen :: "32 word"
  pr_little :: bool

record packet =
  pk_Sec :: int
  pk_Nsec :: int
  pk_Data :: bytes

definition ReadFull :: "nat \<Rightarrow> bytes \<Rightarrow> (pcap_error, bytes \<times> bytes) result" where
  "ReadFull n r =
     (if n \<le> length r then Inr (take n r, drop n r) else if r = [] then Inl PcapEOF else Inl UnexpectedEOF)"

definition NewReader :: "bytes \<Rightarrow> (pcap_error, pcap_reader) result" where
  "NewReader r =
     (case ReadFull 24 r of
        Inl e \<Rightarrow> Inl e
      | Inr (hdr, rest) \<Rightarrow>
          let magic = LE32 hdr
          in if magic = 0xa1b2c3d4 then
               Inr \<lparr>pr_r = rest, pr_LinkType = LE32 (drop 20 hdr), pr_Snaplen = LE32 (drop 16 hdr), pr_little = True\<rparr>
             else if magic = 0xd4c3b2a1 then
               Inr \<lparr>pr_r = rest, pr_LinkType = BE32 (drop 20 hdr), pr_Snaplen = BE32 (drop 16 hdr), pr_little = False\<rparr>
             else Inl (BadMagic magic))"

definition time_Unix :: "int \<Rightarrow> int \<Rightarrow> int \<times> int" where
  "time_Unix sec nsec = (sec + nsec div 1000000000, nsec mod 1000000000)"

definition pcap_Next :: "pcap_reader \<Rightarrow> (pcap_error, packet \<times> pcap_reader) result" where
  "pcap_Next rd =
     (case ReadFull 16 (pr_r rd) of
        Inl e \<Rightarrow> Inl e
      | Inr (hdr, rest) \<Rightarrow>
          let get = (if pr_little rd then LE32 else BE32);
              sec = get hdr; usec = get (drop 4 hdr); cap = get (drop 8 hdr)
          in case ReadFull (unat cap) rest of
               Inl e \<Rightarrow> Inl e
             | Inr (data, rest') \<Rightarrow>
                 let (s, ns) = time_Unix (uint sec) (uint usec * 1000)
                 in Inr (\<lparr>pk_Sec = s, pk_Nsec = ns, pk_Data = data\<rparr>, rd\<lparr>pr_r := rest'\<rparr>))"

section \<open>What is written is read back\<close>

lemma LE32_Put [simp]: "LE32 (PutLE32 w @ r) = w"
proof (rule bit_word_eqI)
  fix n assume "n < LENGTH(32)"
  then have "n < 8 \<or> 8 \<le> n \<and> n < 16 \<or> 16 \<le> n \<and> n < 24 \<or> 24 \<le> n \<and> n < 32" by auto
  then show "bit (LE32 (PutLE32 w @ r)) n \<longleftrightarrow> bit w n"
    by (elim disjE) (auto simp: LE32_def PutLE32_def bit_or_iff bit_push_bit_iff bit_ucast_iff bit_drop_bit_eq)
qed

lemma LE32_Put_only [simp]: "LE32 (PutLE32 w) = w"
  using LE32_Put [of w "[]"] by simp

lemma length_Put [simp]: "length (PutLE32 w) = 4" "length (PutLE16 v) = 2"
  by (simp_all add: PutLE32_def PutLE16_def)

lemma length_header [simp]: "length (pcap_header l s) = 24" "length (record_header sec nsec cap len) = 16"
  by (simp_all add: pcap_header_def record_header_def)

lemma drop_Put [simp]: "drop 4 (PutLE32 w @ r) = r" "drop 2 (PutLE16 v @ r) = r"
  by simp_all

lemma header_fields:
  "LE32 (pcap_header l s @ r) = 0xa1b2c3d4" "LE32 (drop 16 (pcap_header l s)) = s" "LE32 (drop 20 (pcap_header l s)) = l"
  by (simp_all add: pcap_header_def)

text \<open>A destination that keeps everything, and a run of the writer over some packets.\<close>

definition buffer :: "bytes sink" where
  "buffer b w = Inr (w @ b)"

fun write_all :: "(int \<times> nat \<times> bytes) list \<Rightarrow> bytes pcap_writer \<Rightarrow> (string, bytes pcap_writer) result" where
  "write_all [] p = Inr p"
| "write_all ((sec, nsec, data) # ps) p =
     (case WritePacket buffer sec nsec data p of Inl e \<Rightarrow> Inl e | Inr p' \<Rightarrow> write_all ps p')"

fun read_all :: "nat \<Rightarrow> pcap_reader \<Rightarrow> packet list \<times> pcap_error option" where
  "read_all 0 rd = ([], None)"
| "read_all (Suc n) rd =
     (case pcap_Next rd of
        Inl e \<Rightarrow> ([], Some e)
      | Inr (pk, rd') \<Rightarrow> (case read_all n rd' of (pks, e) \<Rightarrow> (pk # pks, e)))"

definition captured :: "32 word \<Rightarrow> int \<times> nat \<times> bytes \<Rightarrow> packet" where
  "captured snaplen = (\<lambda>(sec, nsec, data).
     \<lparr>pk_Sec = sec, pk_Nsec = int (nsec div 1000 * 1000), pk_Data = take (unat snaplen) data\<rparr>)"

definition packet_ok :: "int \<times> nat \<times> bytes \<Rightarrow> bool" where
  "packet_ok = (\<lambda>(sec, nsec, data). 0 \<le> sec \<and> sec < 2 ^ 32 \<and> nsec < 1000000000 \<and> length data < 2 ^ 32)"

definition record_bytes :: "32 word \<Rightarrow> int \<times> nat \<times> bytes \<Rightarrow> bytes" where
  "record_bytes snaplen = (\<lambda>(sec, nsec, data).
     record_header sec nsec (of_nat (min (length data) (unat snaplen))) (of_nat (length data)) @ take (unat snaplen) data)"

lemma WritePacket_buffer:
  assumes "packet_ok (sec, nsec, data)"
  shows "WritePacket buffer sec nsec data p = Inr (p\<lparr>pw_w := pw_w p @ record_bytes (pw_snaplen p) (sec, nsec, data)\<rparr>)"
proof -
  have len: "unat (of_nat (length data) :: 32 word) = length data"
    using assms by (simp add: packet_ok_def unat_of_nat take_bit_nat_eq_self)
  let ?cap = "if of_nat (length data) > pw_snaplen p then pw_snaplen p else of_nat (length data)"
  have "unat ?cap = min (length data) (unat (pw_snaplen p))"
    using len by (simp add: word_less_nat_alt)
  moreover have "?cap = of_nat (unat ?cap)" by (simp add: of_nat_unat)
  ultimately have cap: "?cap = of_nat (min (length data) (unat (pw_snaplen p)))"
    and cap_len: "unat ?cap = min (length data) (unat (pw_snaplen p))" by simp_all
  have "take (unat ?cap) data = take (unat (pw_snaplen p)) data" unfolding cap_len by (simp add: min_def)
  then show ?thesis
    unfolding WritePacket_def Let_def buffer_def sum.case record_bytes_def prod.case by (simp only: cap) simp
qed

lemma write_all_buffer:
  "list_all packet_ok ps \<Longrightarrow>
     write_all ps p = Inr (p\<lparr>pw_w := pw_w p @ concat (map (record_bytes (pw_snaplen p)) ps)\<rparr>)"
proof (induction ps arbitrary: p)
  case (Cons q ps)
  obtain sec nsec data where q: "q = (sec, nsec, data)" by (cases q)
  with Cons show ?case by (simp add: WritePacket_buffer)
qed simp

lemma Next_record:
  assumes "packet_ok q" and "pr_little rd" and "pr_r rd = record_bytes snaplen q @ r"
  shows "pcap_Next rd = Inr (captured snaplen q, rd\<lparr>pr_r := r\<rparr>)"
proof -
  obtain sec nsec data where q: "q = (sec, nsec, data)" by (cases q)
  let ?n = "min (length data) (unat snaplen)"
  let ?h = "record_header sec nsec (of_nat ?n) (of_nat (length data))"
  have n: "unat (of_nat ?n :: 32 word) = ?n"
    using assms(1) by (auto simp: q packet_ok_def unat_of_nat intro!: take_bit_nat_eq_self)
  have sec: "uint (of_int sec :: 32 word) = sec"
    using assms(1) by (simp add: q packet_ok_def uint_word_of_int)
  have "nsec div 1000 < 4294967296"
    using assms(1) by (intro le_less_trans [OF div_le_dividend]) (simp add: q packet_ok_def)
  then have usec: "uint (of_nat (nsec div 1000) :: 32 word) = int (nsec div 1000)"
    by (simp add: uint_nat unat_of_nat)
  have usec_lt: "int (nsec div 1000) * 1000 < 1000000000"
    using assms(1) by (simp add: q packet_ok_def) linarith
  then have time: "time_Unix sec (int (nsec div 1000) * 1000) = (sec, int (nsec div 1000) * 1000)"
    by (simp add: time_Unix_def)
  have cut: "take ?n data = take (unat snaplen) data" by (cases "length data \<le> unat snaplen") (simp_all add: min_def)
  have full: "ReadFull 16 (pr_r rd) = Inr (?h, take (unat snaplen) data @ r)"
    by (simp add: ReadFull_def assms(3) q record_bytes_def)
  have fields: "LE32 ?h = of_int sec" "LE32 (drop 4 ?h) = of_nat (nsec div 1000)" "LE32 (drop 8 ?h) = of_nat ?n"
    by (simp_all add: record_header_def)
  have body: "ReadFull ?n (take (unat snaplen) data @ r) = Inr (take (unat snaplen) data, r)"
    by (simp add: ReadFull_def cut)
  show ?thesis
    unfolding pcap_Next_def full sum.case prod.case Let_def using assms(2)
    by (simp only: if_True fields n sec usec body sum.case prod.case time) (simp add: captured_def q)
qed

lemma read_all_records:
  assumes "list_all packet_ok ps" and "pr_little rd" and "pr_r rd = concat (map (record_bytes snaplen) ps)"
  shows "read_all (Suc (length ps)) rd = (map (captured snaplen) ps, Some PcapEOF)"
  using assms
proof (induction ps arbitrary: rd)
  case Nil
  then show ?case by (simp add: pcap_Next_def ReadFull_def)
next
  case (Cons q ps)
  then have "pcap_Next rd = Inr (captured snaplen q, rd\<lparr>pr_r := concat (map (record_bytes snaplen) ps)\<rparr>)"
    by (intro Next_record) auto
  moreover have "read_all (Suc (length ps)) (rd\<lparr>pr_r := concat (map (record_bytes snaplen) ps)\<rparr>) =
      (map (captured snaplen) ps, Some PcapEOF)"
    using Cons.prems by (intro Cons.IH) auto
  ultimately show ?case by (subst read_all.simps) (simp del: read_all.simps)
qed

lemma NewReader_header:
  "NewReader (pcap_header linkType snaplen @ r) = Inr \<lparr>pr_r = r, pr_LinkType = linkType, pr_Snaplen = snaplen, pr_little = True\<rparr>"
  using header_fields(1) [of linkType snaplen "[]"] by (simp add: NewReader_def ReadFull_def header_fields)

text \<open>
  A capture file holds what was captured. A file that the writer produced is read back with its link type
  and snap length, one packet per packet written, in order and then the end of the file; each packet has its
  time to the microsecond and its bytes up to the snap length. A write error ends the writing and is returned.
\<close>

theorem pcap_roundtrip:
  assumes "list_all packet_ok ps"
  shows "\<exists>p f. NewWriter buffer [] linkType snaplen = Inr p \<and> write_all ps p = Inr f \<and>
    (\<exists>rd. NewReader (pw_w f) = Inr rd \<and> pr_LinkType rd = linkType \<and> pr_Snaplen rd = snaplen \<and>
       read_all (Suc (length ps)) rd = (map (captured snaplen) ps, Some PcapEOF)) \<and>
    (\<forall>e. WritePacket (\<lambda>_ _. Inl e) sec nsec data p = Inl e)"
proof -
  let ?p = "\<lparr>pw_w = pcap_header linkType snaplen, pw_linkType = linkType, pw_snaplen = snaplen\<rparr>"
  let ?body = "concat (map (record_bytes snaplen) ps)"
  let ?rd = "\<lparr>pr_r = ?body, pr_LinkType = linkType, pr_Snaplen = snaplen, pr_little = True\<rparr>"
  have "NewReader (pcap_header linkType snaplen @ ?body) = Inr ?rd" by (rule NewReader_header)
  moreover have "NewWriter buffer [] linkType snaplen = Inr ?p" by (simp add: NewWriter_def buffer_def)
  moreover have "write_all ps ?p = Inr (?p\<lparr>pw_w := pcap_header linkType snaplen @ ?body\<rparr>)"
    using write_all_buffer [OF assms, of ?p] by simp
  moreover have "read_all (Suc (length ps)) ?rd = (map (captured snaplen) ps, Some PcapEOF)"
    by (rule read_all_records [OF assms]) simp_all
  ultimately show ?thesis by (auto simp: WritePacket_def Let_def simp del: read_all.simps)
qed

theorem pcap_roundtrip_witness:
  "\<exists>p f rd. NewWriter buffer [] 1 2 = Inr p \<and> write_all [(7, 1500, [1, 2, 3])] p = Inr f \<and> NewReader (pw_w f) = Inr rd \<and>
     read_all 2 rd = ([\<lparr>pk_Sec = 7, pk_Nsec = 1000, pk_Data = [1, 2]\<rparr>], Some PcapEOF)"
proof -
  have "list_all packet_ok [(7, 1500, [1, 2, 3])]" by (simp add: packet_ok_def)
  moreover have "Suc (length [(7 :: int, 1500 :: nat, [1, 2, 3 :: byte])]) = 2"
    and "map (captured 2) [(7, 1500, [1, 2, 3])] = [\<lparr>pk_Sec = 7, pk_Nsec = 1000, pk_Data = [1, 2]\<rparr>]"
    by (simp_all add: captured_def)
  ultimately show ?thesis using pcap_roundtrip [of "[(7, 1500, [1, 2, 3])]" 1 2 0 0 "[]"] by metis
qed

end
