(* ===== verification/Compression.thy ===== *)
theory Compression
  imports Pcap
begin

text \<open>
  Package \<open>compression\<close>: the codecs of \<open>compression.go\<close>. The zlib stream format and the lz4 block format are
  those of \<open>compress/zlib\<close> and of the package \<open>lz4\<close>; the two compressors are parameters, with the named
  hypothesis \<open>blocks_correct\<close> that they decompress what they have compressed.
\<close>

unbundle bit_operations_syntax

record blocks =
  zlib_compress :: "int \<Rightarrow> bytes \<Rightarrow> (string, bytes) result"       \<comment> \<open>level, data\<close>
  zlib_decompress :: "bytes \<Rightarrow> (string, bytes) result"
  CompressBlock :: "bytes \<Rightarrow> (string, bytes) result"             \<comment> \<open>empty: the block is incompressible\<close>
  UncompressBlock :: "bytes \<Rightarrow> nat \<Rightarrow> (string, bytes) result"     \<comment> \<open>block, size of the destination\<close>

datatype compressor = Passthrough | Zlib int | Lz4

datatype compression_error = LzoUnsupported | InvalidLevel int | ShortInput | CodecError string

definition compression_New :: "int \<Rightarrow> (compression_error, compressor) result" where
  "compression_New level =
     (if level = 0 then Inr Passthrough
      else if 1 \<le> level \<and> level \<le> 9 then Inr (Zlib level)
      else if level = 10 \<or> level = 11 then Inl LzoUnsupported
      else if level = 12 then Inr Lz4
      else Inl (InvalidLevel level))"

definition lz4_Compress :: "blocks \<Rightarrow> bytes \<Rightarrow> (compression_error, bytes) result" where
  "lz4_Compress b input =
     (case CompressBlock b input of
        Inl e \<Rightarrow> Inl (CodecError e)
      | Inr blk \<Rightarrow>
          if blk = [] then Inr ([0, 0, 0, 0] @ input)
          else let sz = of_nat (length input) :: 32 word
               in Inr ([ucast sz, ucast (drop_bit 8 sz), ucast (drop_bit 16 sz), ucast (drop_bit 24 sz)] @ blk))"

definition lz4_Decompress :: "blocks \<Rightarrow> bytes \<Rightarrow> (compression_error, bytes) result" where
  "lz4_Decompress b input =
     (if length input < 4 then Inl ShortInput
      else
        let sz = LE32 input; body = drop 4 input
        in if sz = 0 then Inr body
           else (case UncompressBlock b body (unat sz) of Inl e \<Rightarrow> Inl (CodecError e) | Inr out \<Rightarrow> Inr out))"

definition Compress :: "blocks \<Rightarrow> compressor \<Rightarrow> bytes \<Rightarrow> (compression_error, bytes) result" where
  "Compress b cd input =
     (case cd of
        Passthrough \<Rightarrow> Inr input
      | Zlib level \<Rightarrow> (case zlib_compress b level input of Inl e \<Rightarrow> Inl (CodecError e) | Inr out \<Rightarrow> Inr out)
      | Lz4 \<Rightarrow> lz4_Compress b input)"

definition Decompress :: "blocks \<Rightarrow> compressor \<Rightarrow> bytes \<Rightarrow> (compression_error, bytes) result" where
  "Decompress b cd input =
     (case cd of
        Passthrough \<Rightarrow> Inr input
      | Zlib level \<Rightarrow> (case zlib_decompress b input of Inl e \<Rightarrow> Inl (CodecError e) | Inr out \<Rightarrow> Inr out)
      | Lz4 \<Rightarrow> lz4_Decompress b input)"

text \<open>
  What the compressors promise. An lz4 block that is not empty decompresses into a buffer of the original
  size; an empty one says that the input is incompressible, as for an empty input.
\<close>

definition blocks_correct :: "blocks \<Rightarrow> bool" where
  "blocks_correct b \<longleftrightarrow>
     (\<forall>level input. 1 \<le> level \<and> level \<le> 9 \<longrightarrow> (\<exists>out. zlib_compress b level input = Inr out \<and> zlib_decompress b out = Inr input)) \<and>
     (\<forall>input. \<exists>blk. CompressBlock b input = Inr blk \<and>
        (blk \<noteq> [] \<longrightarrow> input \<noteq> [] \<and> UncompressBlock b blk (length input) = Inr input))"

lemma lz4_roundtrip:
  assumes "blocks_correct b" and "length input < 2 ^ 32"
  obtains out where "lz4_Compress b input = Inr out" "lz4_Decompress b out = Inr input"
proof -
  obtain blk where blk: "CompressBlock b input = Inr blk"
    "blk \<noteq> [] \<Longrightarrow> input \<noteq> [] \<and> UncompressBlock b blk (length input) = Inr input"
    using assms(1) unfolding blocks_correct_def by blast
  let ?sz = "of_nat (length input) :: 32 word"
  have sz: "unat ?sz = length input" using assms(2) by (simp add: unat_of_nat)
  show ?thesis
  proof (cases "blk = []")
    case True
    have "LE32 (0 # 0 # 0 # 0 # input) = 0" by (simp add: LE32_def)
    with True blk(1) that show ?thesis by (simp add: lz4_Compress_def lz4_Decompress_def)
  next
    case False
    have hdr: "[ucast ?sz, ucast (drop_bit 8 ?sz), ucast (drop_bit 16 ?sz), ucast (drop_bit 24 ?sz)] = PutLE32 ?sz"
      by (simp add: PutLE32_def)
    have "lz4_Compress b input = Inr (PutLE32 ?sz @ blk)"
      unfolding lz4_Compress_def blk(1) using False by (simp only: Let_def hdr) simp
    moreover have "?sz \<noteq> 0" using blk(2) [OF False] sz by (metis length_0_conv unat_eq_zero)
    then have "lz4_Decompress b (PutLE32 ?sz @ blk) = Inr input"
      using blk(2) [OF False] sz by (simp add: lz4_Decompress_def)
    ultimately show ?thesis by (rule that)
  qed
qed

text \<open>
  Compression loses nothing. For every level that has a codec, every message below 4 GiB is compressed and
  decompressed back to itself, incompressible and empty ones included; the levels without a codec are rejected,
  10 and 11 as unsupported and all others as invalid.
\<close>

theorem compression_roundtrip:
  assumes "blocks_correct b" and "length input < 2 ^ 32"
  shows "(case compression_New level of
     Inr cd \<Rightarrow> level \<in> {0..9} \<union> {12} \<and>
       (\<exists>out. Compress b cd input = Inr out \<and> Decompress b cd out = Inr input)
   | Inl e \<Rightarrow> level \<notin> {0..9} \<union> {12} \<and> e = (if level \<in> {10, 11} then LzoUnsupported else InvalidLevel level))"
proof -
  have "\<exists>out. Compress b (Zlib level) input = Inr out \<and> Decompress b (Zlib level) out = Inr input"
    if lev: "1 \<le> level" "level \<le> 9"
  proof -
    obtain out where "zlib_compress b level input = Inr out" "zlib_decompress b out = Inr input"
      using assms(1) lev unfolding blocks_correct_def by blast
    then show ?thesis by (simp add: Compress_def Decompress_def)
  qed
  moreover have "\<exists>out. Compress b Lz4 input = Inr out \<and> Decompress b Lz4 out = Inr input"
    using lz4_roundtrip [OF assms] by (metis Compress_def Decompress_def compressor.simps(10))
  ultimately show ?thesis
    by (auto simp: compression_New_def Compress_def [of b Passthrough] Decompress_def [of b Passthrough])
qed

text \<open>A concrete instance: zlib as the identity, lz4 that finds messages of one byte incompressible.\<close>

definition toy_blocks :: blocks where
  "toy_blocks = \<lparr>zlib_compress = (\<lambda>_. Inr), zlib_decompress = Inr,
     CompressBlock = (\<lambda>x. Inr (if length x = 1 then [] else x)), UncompressBlock = (\<lambda>x n. Inr x)\<rparr>"

theorem compression_roundtrip_witness:
  "Compress toy_blocks Lz4 [7] = Inr [0, 0, 0, 0, 7] \<and>
   (\<exists>out. Compress toy_blocks Lz4 [7] = Inr out \<and> Decompress toy_blocks Lz4 out = Inr [7])"
proof -
  have "blocks_correct toy_blocks" by (auto simp: blocks_correct_def toy_blocks_def)
  from compression_roundtrip [OF this, of "[7]" 12] show ?thesis
    by (simp add: compression_New_def) (simp add: Compress_def lz4_Compress_def toy_blocks_def)
qed

end
