(* ===== verification/Files.thy ===== *)
theory Files
  imports Config Netip "HOL-Library.Char_ord" "HOL-Library.List_Lexorder"
begin

text \<open>
  The file system as the program uses it: cleaned paths (\<open>filepath.Clean\<close>, \<open>Join\<close>, \<open>Dir\<close>), the calls of package
  \<open>os\<close> on a tree of files, and on top of them the two loaders of package \<open>config\<close> and the layout of a
  configuration directory, \<open>daemon/paths.go\<close>.

  A cleaned path is whether it is absolute, and its components; its text is \<open>path_text\<close>. Every path the program
  passes to \<open>os\<close> comes from \<open>filepath.Join\<close> or \<open>filepath.Dir\<close> and so is cleaned. Besides the tree, a file
  system has the umask of the process and three predicates for what can go wrong at a path: reading, changing,
  and storing data after a successful open.
\<close>

unbundle bit_operations_syntax

section \<open>Paths\<close>

type_synonym path = "bool \<times> string list"

definition path_push :: "string \<Rightarrow> path \<Rightarrow> path" where
  "path_push c = (\<lambda>(r, cs).
     if c = [] \<or> c = ''.'' then (r, cs)
     else if c = ''..'' then
       (if cs \<noteq> [] \<and> last cs \<noteq> ''..'' then (r, butlast cs) else if r then (r, cs) else (r, cs @ [c]))
     else (r, cs @ [c]))"

definition path_Clean :: "string \<Rightarrow> path" where
  "path_Clean s = fold path_push (split_on (CHR ''/'') s) (HasPrefix s ''/'', [])"

definition path_Join :: "path \<Rightarrow> string \<Rightarrow> path" where
  "path_Join p s = fold path_push (split_on (CHR ''/'') s) p"

definition path_Dir :: "path \<Rightarrow> path" where
  "path_Dir = (\<lambda>(r, cs). (r, butlast cs))"

fun join_slash :: "string list \<Rightarrow> string" where
  "join_slash [] = []"
| "join_slash [c] = c"
| "join_slash (c # d # cs) = c @ ''/'' @ join_slash (d # cs)"

definition path_text :: "path \<Rightarrow> string" where
  "path_text = (\<lambda>(r, cs). if r then ''/'' @ join_slash cs else if cs = [] then ''.'' else join_slash cs)"

text \<open>A plain component: it names an entry of the directory it is joined to.\<close>

definition plain :: "string \<Rightarrow> bool" where
  "plain c \<longleftrightarrow> c \<noteq> [] \<and> c \<noteq> ''.'' \<and> c \<noteq> ''..'' \<and> CHR ''/'' \<notin> set c"

section \<open>The file tree\<close>

datatype os_error = ENOENT | EEXIST | ENOTDIR | EISDIR | EACCES | ENOTEMPTY | ENOSPC

datatype node = Directory (node_mode: "32 word") | Regular (node_mode: "32 word") (content: string)

record fsys =
  fs_nodes :: "(path, node) gomap"
  fs_umask :: "32 word"
  fs_noread :: "path \<Rightarrow> bool"
  fs_nowrite :: "path \<Rightarrow> bool"
  fs_full :: "path \<Rightarrow> bool"

definition IsNotExist :: "os_error \<Rightarrow> bool" where
  "IsNotExist e \<longleftrightarrow> e = ENOENT"

text \<open>The root and the working directory always exist.\<close>

definition node_at :: "fsys \<Rightarrow> path \<Rightarrow> node option" where
  "node_at fs p = (if snd p = [] then Some (Directory 493) else mget (fs_nodes fs) p)"   \<comment> \<open>0755\<close>

definition is_directory :: "fsys \<Rightarrow> path \<Rightarrow> bool" where
  "is_directory fs p = (case node_at fs p of Some (Directory _) \<Rightarrow> True | _ \<Rightarrow> False)"

text \<open>The nonempty initial parts of a path, shortest first, and why a path does not resolve.\<close>

definition path_prefixes :: "path \<Rightarrow> path list" where
  "path_prefixes = (\<lambda>(r, cs). map (\<lambda>n. (r, take (Suc n) cs)) [0..<length cs])"

definition unresolved :: "fsys \<Rightarrow> path \<Rightarrow> os_error" where
  "unresolved fs p =
     (if \<exists>q \<in> set (path_prefixes (path_Dir p)). (case node_at fs q of Some (Regular _ _) \<Rightarrow> True | _ \<Rightarrow> False)
      then ENOTDIR else ENOENT)"

definition os_Stat :: "fsys \<Rightarrow> path \<Rightarrow> (os_error, node) result" where
  "os_Stat fs p = (case node_at fs p of None \<Rightarrow> Inl (unresolved fs p) | Some n \<Rightarrow> Inr n)"

definition os_ReadFile :: "fsys \<Rightarrow> path \<Rightarrow> (os_error, string) result" where
  "os_ReadFile fs p =
     (case node_at fs p of
        None \<Rightarrow> Inl (unresolved fs p)
      | Some n \<Rightarrow>
          if fs_noread fs p then Inl EACCES
          else (case n of Directory _ \<Rightarrow> Inl EISDIR | Regular _ b \<Rightarrow> Inr b))"

text \<open>The entries of a directory, sorted by name, each with whether it is a directory.\<close>

definition os_ReadDir :: "fsys \<Rightarrow> path \<Rightarrow> (os_error, (string \<times> bool) list) result" where
  "os_ReadDir fs p =
     (case node_at fs p of
        None \<Rightarrow> Inl (unresolved fs p)
      | Some (Regular _ _) \<Rightarrow> Inl ENOTDIR
      | Some (Directory _) \<Rightarrow>
          if fs_noread fs p then Inl EACCES
          else Inr (map (\<lambda>c. (c, is_directory fs (fst p, snd p @ [c])))
                 (sort (map (last \<circ> snd) (filter (\<lambda>q. snd q \<noteq> [] \<and> path_Dir q = p) (mkeys (fs_nodes fs)))))))"

definition fs_put :: "path \<Rightarrow> node \<Rightarrow> fsys \<Rightarrow> fsys" where
  "fs_put p n fs = fs\<lparr>fs_nodes := mput p n (fs_nodes fs)\<rparr>"

fun mkdirs :: "32 word \<Rightarrow> path list \<Rightarrow> fsys \<Rightarrow> fsys \<times> os_error option" where
  "mkdirs m [] fs = (fs, None)"
| "mkdirs m (p # ps) fs =
     (case node_at fs p of
        Some (Directory _) \<Rightarrow> mkdirs m ps fs
      | Some (Regular _ _) \<Rightarrow> (fs, Some ENOTDIR)
      | None \<Rightarrow> if fs_nowrite fs p then (fs, Some EACCES)
                else mkdirs m ps (fs_put p (Directory (m AND NOT (fs_umask fs))) fs))"

definition os_MkdirAll :: "path \<Rightarrow> 32 word \<Rightarrow> fsys \<Rightarrow> fsys \<times> os_error option" where
  "os_MkdirAll p m fs = mkdirs m (path_prefixes p) fs"

text \<open>Storing data in a file that has just been created or truncated.\<close>

definition fs_store :: "path \<Rightarrow> 32 word \<Rightarrow> string \<Rightarrow> fsys \<Rightarrow> fsys \<times> os_error option" where
  "fs_store p m data fs =
     (if fs_full fs p then (fs_put p (Regular m []) fs, Some ENOSPC) else (fs_put p (Regular m data) fs, None))"

definition fs_create :: "path \<Rightarrow> 32 word \<Rightarrow> string \<Rightarrow> fsys \<Rightarrow> fsys \<times> os_error option" where
  "fs_create p m data fs =
     (if \<not> is_directory fs (path_Dir p) then (fs, Some (unresolved fs p))
      else if fs_nowrite fs p then (fs, Some EACCES)
      else fs_store p (m AND NOT (fs_umask fs)) data fs)"

definition os_WriteFile :: "path \<Rightarrow> string \<Rightarrow> 32 word \<Rightarrow> fsys \<Rightarrow> fsys \<times> os_error option" where
  "os_WriteFile p data m fs =
     (case node_at fs p of
        Some (Directory _) \<Rightarrow> (fs, Some EISDIR)
      | Some (Regular m' _) \<Rightarrow> if fs_nowrite fs p then (fs, Some EACCES) else fs_store p m' data fs
      | None \<Rightarrow> fs_create p m data fs)"

definition os_CreateExclusive :: "path \<Rightarrow> string \<Rightarrow> 32 word \<Rightarrow> fsys \<Rightarrow> fsys \<times> os_error option" where
  "os_CreateExclusive p data m fs =
     (if node_at fs p \<noteq> None then (fs, Some EEXIST) else fs_create p m data fs)"

definition os_Remove :: "path \<Rightarrow> fsys \<Rightarrow> fsys \<times> os_error option" where
  "os_Remove p fs =
     (case node_at fs p of
        None \<Rightarrow> (fs, Some (unresolved fs p))
      | Some n \<Rightarrow>
          if fs_nowrite fs p \<or> snd p = [] then (fs, Some EACCES)
          else if is_directory fs p \<and> (\<exists>q \<in> set (mkeys (fs_nodes fs)). snd q \<noteq> [] \<and> path_Dir q = p)
          then (fs, Some ENOTEMPTY)
          else (fs\<lparr>fs_nodes := mdel p (fs_nodes fs)\<rparr>, None))"

section \<open>Configuration files\<close>

datatype load_error = OsFault os_error | ConfigFault config_error

definition config_ParseFile :: "fsys \<Rightarrow> path \<Rightarrow> (load_error, entries) result" where
  "config_ParseFile fs p =
     (case os_ReadFile fs p of
        Inl e \<Rightarrow> Inl (OsFault e)
      | Inr body \<Rightarrow> (case Parse body of Inl e \<Rightarrow> Inl (ConfigFault e) | Inr es \<Rightarrow> Inr es))"

fun parse_fragments :: "fsys \<Rightarrow> path \<Rightarrow> string list \<Rightarrow> entries \<Rightarrow> (load_error, entries) result" where
  "parse_fragments fs confd [] entries = Inr entries"
| "parse_fragments fs confd (n # ns) entries =
     (case config_ParseFile fs (path_Join confd n) of
        Inl e \<Rightarrow> Inl e
      | Inr es \<Rightarrow> parse_fragments fs confd ns (entries @ es))"

definition LoadDirectory :: "fsys \<Rightarrow> path \<Rightarrow> (load_error, entries) result" where
  "LoadDirectory fs primaryPath =
     (let fragments = (\<lambda>entries.
        let confd = path_Join (path_Dir primaryPath) ''conf.d''
        in case os_ReadDir fs confd of
             Inl e \<Rightarrow> if IsNotExist e then Inr entries else Inl (OsFault e)
           | Inr dirEntries \<Rightarrow>
               let names = [n. (n, isDir) \<leftarrow> dirEntries, \<not> isDir \<and> HasSuffix n ''.conf'']
               in parse_fragments fs confd (sort names) entries)
      in case config_ParseFile fs primaryPath of
           Inl (OsFault e) \<Rightarrow> if IsNotExist e then fragments [] else Inl (OsFault e)
         | Inl e \<Rightarrow> Inl e
         | Inr entries \<Rightarrow> fragments entries)"

section \<open>The layout of a configuration directory\<close>

record paths =
  pa_ConfRoot :: string
  pa_Netname :: string

definition NetDir :: "paths \<Rightarrow> path" where
  "NetDir p =
     (if pa_Netname p = [] then path_Clean (pa_ConfRoot p)
      else if pa_ConfRoot p = [] then path_Clean (pa_Netname p)
      else path_Join (path_Clean (pa_ConfRoot p)) (pa_Netname p))"

definition ConfFile :: "paths \<Rightarrow> path" where
  "ConfFile p = path_Join (NetDir p) ''gsnet.conf''"

definition HostsDir :: "paths \<Rightarrow> path" where
  "HostsDir p = path_Join (NetDir p) ''hosts''"

definition HostFile :: "paths \<Rightarrow> string \<Rightarrow> path" where
  "HostFile p name = path_Join (HostsDir p) name"

definition InvitationsDir :: "paths \<Rightarrow> path" where
  "InvitationsDir p = path_Join (NetDir p) ''invitations''"

definition Ed25519Private :: "paths \<Rightarrow> path" where
  "Ed25519Private p = path_Join (NetDir p) ''ed25519_key.priv''"

definition WGPrivate :: "paths \<Rightarrow> path" where
  "WGPrivate p = path_Join (NetDir p) ''wg.priv''"

definition PIDFile :: "paths \<Rightarrow> string \<Rightarrow> path" where
  "PIDFile p runDir =
     path_Join (path_Clean runDir) (if pa_Netname p = [] then ''gsnet.pid'' else ''gsnet.'' @ pa_Netname p @ ''.pid'')"

definition ControlSocket :: "paths \<Rightarrow> string \<Rightarrow> path" where
  "ControlSocket p runDir =
     path_Join (path_Clean runDir) (if pa_Netname p = [] then ''gsnet.socket'' else ''gsnet.'' @ pa_Netname p @ ''.socket'')"

section \<open>Lemmas on paths and files\<close>

lemma path_Join_plain: "plain c \<Longrightarrow> path_Join p c = (fst p, snd p @ [c])"
  by (cases p) (auto simp: path_Join_def path_push_def plain_def split_on_none)

lemma path_Dir_Join [simp]: "path_Dir (r, cs @ [c]) = (r, cs)"
  by (simp add: path_Dir_def)

lemma plain_layout:
  "plain ''gsnet.conf''" "plain ''hosts''" "plain ''invitations''" "plain ''ed25519_key.priv''" "plain ''wg.priv''"
  "plain ''conf.d''"
  by (simp_all add: plain_def)

lemmas layout_simps =
  ConfFile_def HostsDir_def HostFile_def InvitationsDir_def Ed25519Private_def WGPrivate_def
  path_Join_plain plain_layout

text \<open>A cookie may climb out of the directory of the invitations.\<close>

lemma path_Join_up: "plain c \<Longrightarrow> plain d \<Longrightarrow> path_Join (path_Join p d) (''../'' @ c) = path_Join p c"
  by (cases p) (simp add: path_Join_plain, auto simp: path_Join_def path_push_def plain_def split_on_none)

lemma path_prefixes_snoc: "path_prefixes (r, cs @ [c]) = path_prefixes (r, cs) @ [(r, cs @ [c])]"
  by (auto simp: path_prefixes_def)

lemma path_prefixes_Nil [simp]: "path_prefixes (r, []) = []"
  by (simp add: path_prefixes_def)

lemma prefixes_shorter: "q \<in> set (path_prefixes (r, cs)) \<Longrightarrow> fst q = r \<and> (\<exists>k. snd q @ k = cs) \<and> snd q \<noteq> []"
  by (auto simp: path_prefixes_def) (metis append_take_drop_id)

lemma node_at_put: "snd p \<noteq> [] \<Longrightarrow> node_at (fs_put p n fs) q = (if q = p then Some n else node_at fs q)"
  by (auto simp: node_at_def fs_put_def)

lemma fs_put_fields [simp]:
  "fs_umask (fs_put p n fs) = fs_umask fs" "fs_noread (fs_put p n fs) = fs_noread fs"
  "fs_nowrite (fs_put p n fs) = fs_nowrite fs" "fs_full (fs_put p n fs) = fs_full fs"
  by (simp_all add: fs_put_def)

text \<open>No call of the program that creates something changes what is already there.\<close>

lemma mkdirs_keeps: "node_at fs q = Some n \<Longrightarrow> node_at (fst (mkdirs m ps fs)) q = Some n"
proof (induction m ps fs rule: mkdirs.induct)
  case (2 m p ps fs)
  show ?case
  proof (cases "node_at fs p")
    case None
    then have "snd p \<noteq> []" and "q \<noteq> p" using "2.prems" by (auto simp: node_at_def)
    with 2 None show ?thesis by (simp add: node_at_put)
  next
    case (Some k)
    with 2 show ?thesis by (cases k) simp_all
  qed
qed simp

lemma CreateExclusive_keeps:
  "node_at fs q = Some n \<Longrightarrow> node_at (fst (os_CreateExclusive p data m fs)) q = Some n"
proof (cases "node_at fs p")
  case None
  assume q: "node_at fs q = Some n"
  have "snd p \<noteq> []" and "q \<noteq> p" using q None by (auto simp: node_at_def)
  with q None show ?thesis by (simp add: os_CreateExclusive_def fs_create_def fs_store_def node_at_put)
qed (simp add: os_CreateExclusive_def)

definition directories :: "fsys \<Rightarrow> path \<Rightarrow> bool" where
  "directories fs p \<longleftrightarrow> (\<forall>q \<in> set (path_prefixes p). is_directory fs q)"

lemma mkdirs_noop: "\<forall>q \<in> set ps. is_directory fs q \<Longrightarrow> mkdirs m ps fs = (fs, None)"
  by (induction ps) (auto simp: is_directory_def split: option.splits node.splits)

lemma mkdirs_creates:
  assumes "\<And>q. q \<in> set ps \<Longrightarrow> node_at fs q = None \<or> is_directory fs q" and "fs_nowrite fs = (\<lambda>_. False)"
  shows "\<exists>fs'. mkdirs m ps fs = (fs', None) \<and> (\<forall>q \<in> set ps. is_directory fs' q) \<and>
    (\<forall>q. q \<notin> set ps \<longrightarrow> node_at fs' q = node_at fs q) \<and>
    fs_umask fs' = fs_umask fs \<and> fs_noread fs' = fs_noread fs \<and> fs_nowrite fs' = fs_nowrite fs \<and> fs_full fs' = fs_full fs"
  using assms
proof (induction m ps fs rule: mkdirs.induct)
  case (2 m p ps fs)
  show ?case
  proof (cases "node_at fs p")
    case None
    then have p: "snd p \<noteq> []" by (auto simp: node_at_def)
    let ?fs = "fs_put p (Directory (m AND NOT (fs_umask fs))) fs"
    have "node_at ?fs q = None \<or> is_directory ?fs q" if "q \<in> set ps" for q
      using that "2.prems"(1) [of q] p by (auto simp: node_at_put is_directory_def)
    then obtain fs' where fs': "mkdirs m ps ?fs = (fs', None)" "\<forall>q \<in> set ps. is_directory fs' q"
      "\<forall>q. q \<notin> set ps \<longrightarrow> node_at fs' q = node_at ?fs q" "fs_umask fs' = fs_umask fs" "fs_noread fs' = fs_noread fs"
      "fs_nowrite fs' = fs_nowrite fs" "fs_full fs' = fs_full fs"
      using "2.IH"(1) [OF None] "2.prems"(2) by auto
    moreover have "is_directory fs' p"
      using mkdirs_keeps [of ?fs p "Directory (m AND NOT (fs_umask fs))" m ps] fs'(1) p
      by (simp add: node_at_put is_directory_def)
    ultimately show ?thesis using None p "2.prems"(2) by (auto simp: node_at_put)
  next
    case (Some k)
    then obtain w where k: "k = Directory w"
      using "2.prems"(1) [of p] by (auto simp: is_directory_def split: node.splits)
    have "\<exists>fs'. mkdirs m ps fs = (fs', None) \<and> (\<forall>q \<in> set ps. is_directory fs' q) \<and>
      (\<forall>q. q \<notin> set ps \<longrightarrow> node_at fs' q = node_at fs q) \<and>
      fs_umask fs' = fs_umask fs \<and> fs_noread fs' = fs_noread fs \<and> fs_nowrite fs' = fs_nowrite fs \<and> fs_full fs' = fs_full fs"
      using "2.prems" by (intro "2.IH"(2) [OF Some k]) auto
    then obtain fs' where fs': "mkdirs m ps fs = (fs', None)" "\<forall>q \<in> set ps. is_directory fs' q"
      "\<forall>q. q \<notin> set ps \<longrightarrow> node_at fs' q = node_at fs q" "fs_umask fs' = fs_umask fs" "fs_noread fs' = fs_noread fs"
      "fs_nowrite fs' = fs_nowrite fs" "fs_full fs' = fs_full fs" by blast
    moreover have "is_directory fs' p"
      using mkdirs_keeps [of fs p k m ps] fs'(1) Some k by (simp add: is_directory_def)
    ultimately show ?thesis using Some k by (intro exI [of _ fs']) (auto split: node.splits)
  qed
qed simp

lemma directories_parent: "directories fs (r, cs) \<Longrightarrow> is_directory fs (r, cs)"
proof (cases cs rule: rev_cases)
  case Nil
  then show ?thesis by (simp add: is_directory_def node_at_def)
next
  case (snoc ds c)
  assume "directories fs (r, cs)"
  with snoc show ?thesis by (simp add: directories_def path_prefixes_snoc)
qed

lemma unresolved_fresh: "directories fs (r, cs) \<Longrightarrow> unresolved fs (r, cs @ [c]) = ENOENT"
  by (auto simp: unresolved_def directories_def is_directory_def split: option.splits node.splits)

text \<open>
  What the callers of the file system rely on: a file that was written is read back, a removed one is gone, and
  the other files keep their contents.
\<close>

locale file_store =
  fixes fetch :: "'f \<Rightarrow> 'p \<Rightarrow> ('e, 'd) result"
    and store :: "'p \<Rightarrow> 'd \<Rightarrow> 'f \<Rightarrow> 'f \<times> 'e option"
    and remove :: "'p \<Rightarrow> 'f \<Rightarrow> 'f \<times> 'e option"
    and readable :: "'f \<Rightarrow> 'p \<Rightarrow> bool"
  assumes store_fetch: "store p d f = (f', None) \<Longrightarrow> readable f p \<Longrightarrow> fetch f' p = Inr d"
    and store_other: "store p d f = (f', e) \<Longrightarrow> q \<noteq> p \<Longrightarrow> ok_of (fetch f' q) = ok_of (fetch f q)"
    and remove_fetch: "remove p f = (f', None) \<Longrightarrow> ok_of (fetch f' p) = None"
    and remove_other: "remove p f = (f', e) \<Longrightarrow> q \<noteq> p \<Longrightarrow> ok_of (fetch f' q) = ok_of (fetch f q)"
begin

lemma store_then_remove:
  assumes "store p d f = (f1, None)" and "readable f p" and "remove q f1 = (f2, e)" and "q \<noteq> p"
  shows "fetch f2 p = Inr d" and "e = None \<Longrightarrow> ok_of (fetch f2 q) = None"
    and "r \<noteq> p \<Longrightarrow> r \<noteq> q \<Longrightarrow> ok_of (fetch f2 r) = ok_of (fetch f r)"
proof -
  have "ok_of (fetch f2 p) = Some d"
    using remove_other [OF assms(3), of p] store_fetch [OF assms(1,2)] assms(4) by simp
  then show "fetch f2 p = Inr d" by simp
  show "e = None \<Longrightarrow> ok_of (fetch f2 q) = None" using remove_fetch assms(3) by blast
  show "r \<noteq> p \<Longrightarrow> r \<noteq> q \<Longrightarrow> ok_of (fetch f2 r) = ok_of (fetch f r)"
    using remove_other [OF assms(3), of r] store_other [OF assms(1), of r] by simp
qed

end

lemma ReadFile_ok: "ok_of (os_ReadFile fs p) =
    (case node_at fs p of Some (Regular _ b) \<Rightarrow> if fs_noread fs p then None else Some b | _ \<Rightarrow> None)"
  by (simp add: os_ReadFile_def split: option.split node.split)

lemma WriteFile_cases:
  assumes "os_WriteFile p d m fs = (fs', e)"
  obtains "fs' = fs" "e \<noteq> None" | m' b where "snd p \<noteq> []" "fs' = fs_put p (Regular m' b) fs" "e = None \<Longrightarrow> b = d"
proof -
  have "snd p \<noteq> []" if "node_at fs p = None \<or> (\<exists>m b. node_at fs p = Some (Regular m b))"
    using that by (auto simp: node_at_def)
  with assms that show ?thesis
    by (auto simp: os_WriteFile_def fs_create_def fs_store_def split: option.splits node.splits if_splits)
qed

lemma Remove_cases:
  assumes "os_Remove p fs = (fs', e)"
  obtains "fs' = fs" "e \<noteq> None" | "snd p \<noteq> []" "fs' = fs\<lparr>fs_nodes := mdel p (fs_nodes fs)\<rparr>" "e = None"
  using assms by (auto simp: os_Remove_def split: option.splits if_splits)

interpretation osf: file_store os_ReadFile "\<lambda>p d. os_WriteFile p d m" os_Remove "\<lambda>fs p. \<not> fs_noread fs p"
proof unfold_locales
  fix p q :: path and d :: string and f f' :: fsys and e
  show "os_ReadFile f' p = Inr d" if "os_WriteFile p d m f = (f', None)" "\<not> fs_noread f p"
    using that(1) by (rule WriteFile_cases) (use that(2) in \<open>auto simp: os_ReadFile_def node_at_put\<close>)
  show "ok_of (os_ReadFile f' q) = ok_of (os_ReadFile f q)" if "os_WriteFile p d m f = (f', e)" "q \<noteq> p"
    using that(1) by (rule WriteFile_cases) (use that(2) in \<open>auto simp: ReadFile_ok node_at_put split: option.split node.split\<close>)
  show "ok_of (os_ReadFile f' p) = None" if "os_Remove p f = (f', None)"
    using that by (rule Remove_cases) (auto simp: ReadFile_ok node_at_def)
  show "ok_of (os_ReadFile f' q) = ok_of (os_ReadFile f q)" if "os_Remove p f = (f', e)" "q \<noteq> p"
    using that(1) by (rule Remove_cases) (use that(2) in \<open>auto simp: ReadFile_ok node_at_def split: option.split node.split\<close>)
qed

end
