(* ===== verification/Setup.thy ===== *)
theory Setup
  imports Files Keys Nodename Subnet
begin

text \<open>
  Creating and checking a configuration: \<open>Init\<close> of \<open>daemon/init.go\<close> and \<open>Fsck\<close> of \<open>daemon/fsck.go\<close>. The two
  key generators are arguments: \<open>None\<close> is a failing source of randomness. A diagnostic of \<open>Fsck\<close> is a datatype
  with a constructor per message.
\<close>

unbundle bit_operations_syntax

section \<open>Init\<close>

datatype init_error = BadName name_error | InitOS os_error | NoRandom

text \<open>Run a step unless the one before it failed; the files written so far stay.\<close>

definition fs_then :: "fsys \<times> 'e option \<Rightarrow> (fsys \<Rightarrow> fsys \<times> 'e option) \<Rightarrow> fsys \<times> 'e option" where
  "fs_then r k = (case r of (fs, Some e) \<Rightarrow> (fs, Some e) | (fs, None) \<Rightarrow> k fs)"

definition os_call :: "fsys \<times> os_error option \<Rightarrow> fsys \<times> init_error option" where
  "os_call r = (fst r, map_option InitOS (snd r))"

definition writeFileExclusive :: "path \<Rightarrow> string \<Rightarrow> 32 word \<Rightarrow> fsys \<Rightarrow> fsys \<times> os_error option" where
  "writeFileExclusive p data m fs =
     fs_then (os_MkdirAll (path_Dir p) 448 fs) (os_CreateExclusive p data m)"   \<comment> \<open>0700\<close>

definition host_entries :: "crypto \<Rightarrow> bytes \<Rightarrow> bytes \<Rightarrow> entries" where
  "host_entries c edPriv wgPriv =
     [\<lparr>Key = ''Ed25519PublicKey'', Value = Ed_String (Ed_Public c edPriv)\<rparr>,
      \<lparr>Key = ''WGPublicKey'', Value = WG_String c (WG_Public c wgPriv)\<rparr>]"

definition Init :: "crypto \<Rightarrow> bytes option \<Rightarrow> bytes option \<Rightarrow> paths \<Rightarrow> string \<Rightarrow> fsys \<Rightarrow> fsys \<times> init_error option" where
  "Init c newEd newWG p name fs0 =
     (case Validate name of
        Some e \<Rightarrow> (fs0, Some (BadName e))
      | None \<Rightarrow>
          fs_then (os_call (os_MkdirAll (HostsDir p) 448 fs0)) (\<lambda>fs.
          fs_then (os_call (os_MkdirAll (InvitationsDir p) 448 fs)) (\<lambda>fs.
          case newEd of
            None \<Rightarrow> (fs, Some NoRandom)
          | Some edPriv \<Rightarrow>
              fs_then (os_call (writeFileExclusive (Ed25519Private p) (Private_MarshalPEM c edPriv) 384 fs)) (\<lambda>fs.
              case newWG of
                None \<Rightarrow> (fs, Some NoRandom)
              | Some wgPriv \<Rightarrow>
                  fs_then (os_call (writeFileExclusive (WGPrivate p) (WG_String c wgPriv @ [NL]) 384 fs)) (\<lambda>fs.
                  fs_then (os_call (writeFileExclusive (ConfFile p) (Render [\<lparr>Key = ''Name'', Value = name\<rparr>]) 420 fs)) (\<lambda>fs.
                  os_call (writeFileExclusive (HostFile p name) (Render (host_entries c edPriv wgPriv)) 420 fs)))))))"

section \<open>Fsck\<close>

datatype level = FsckOK | FsckWarning | FsckError

datatype diag =
    CannotStat os_error
  | FoundDirectory
  | CannotParse load_error
  | NameRequired
  | NameInvalid name_error
  | SubnetInvalid string subnet_error
  | KeyMissing string os_error
  | LoosePermissions string "32 word"
  | KeyRead string os_error
  | KeyParse string key_error
  | HostMissing os_error
  | HostUnparsed config_error
  | EdMismatch
  | WGMismatch
  | ConnectToInvalid string name_error
  | ConnectToMissing string

record finding =
  ff_Level :: level
  ff_Path :: path
  ff_Message :: diag

definition finding_String :: "(diag \<Rightarrow> string) \<Rightarrow> finding \<Rightarrow> string" where
  "finding_String text f =
     (let tag = (case ff_Level f of FsckOK \<Rightarrow> ''OK'' | FsckWarning \<Rightarrow> ''WARNING'' | FsckError \<Rightarrow> ''ERROR'')
      in tag @ '': '' @ path_text (ff_Path f) @ '': '' @ text (ff_Message f))"

definition err_of :: "('e, 'a) result \<Rightarrow> 'e option" where
  "err_of r = (case r of Inl e \<Rightarrow> Some e | Inr _ \<Rightarrow> None)"

definition checkPrivateKey :: "fsys \<Rightarrow> path \<Rightarrow> string \<Rightarrow> (string \<Rightarrow> key_error option) \<Rightarrow> finding list" where
  "checkPrivateKey fs p label parse =
     (case os_Stat fs p of
        Inl e \<Rightarrow> [\<lparr>ff_Level = FsckError, ff_Path = p, ff_Message = KeyMissing label e\<rparr>]
      | Inr st \<Rightarrow>
          let perm = node_mode st AND 511   \<comment> \<open>0777\<close>
          in (if perm AND 63 \<noteq> 0            \<comment> \<open>0077\<close>
              then [\<lparr>ff_Level = FsckWarning, ff_Path = p, ff_Message = LoosePermissions label perm\<rparr>] else []) @
             (case os_ReadFile fs p of
                Inl e \<Rightarrow> [\<lparr>ff_Level = FsckError, ff_Path = p, ff_Message = KeyRead label e\<rparr>]
              | Inr b \<Rightarrow>
                  (case parse b of
                     Some e \<Rightarrow> [\<lparr>ff_Level = FsckError, ff_Path = p, ff_Message = KeyParse label e\<rparr>]
                   | None \<Rightarrow> [])))"

definition key_mismatch ::
    "fsys \<Rightarrow> path \<Rightarrow> path \<Rightarrow> (string \<Rightarrow> (key_error, bytes) result) \<Rightarrow> (bytes \<Rightarrow> string) \<Rightarrow> string option \<Rightarrow> diag \<Rightarrow> finding list" where
  "key_mismatch fs hostPath keyPath parse public got msg =
     (case os_ReadFile fs keyPath of
        Inl _ \<Rightarrow> []
      | Inr b \<Rightarrow>
          (case parse b of
             Inl _ \<Rightarrow> []
           | Inr priv \<Rightarrow>
               if TrimSpace (case got of Some v \<Rightarrow> v | None \<Rightarrow> []) \<noteq> public priv
               then [\<lparr>ff_Level = FsckError, ff_Path = hostPath, ff_Message = msg\<rparr>] else []))"

definition checkHostMatchesPrivate :: "crypto \<Rightarrow> fsys \<Rightarrow> path \<Rightarrow> entries \<Rightarrow> path \<Rightarrow> path \<Rightarrow> finding list" where
  "checkHostMatchesPrivate c fs hostPath hostEntries edPath wgPath =
     key_mismatch fs hostPath edPath (ParseEd25519PrivatePEM c) (\<lambda>k. Ed_String (Ed_Public c k))
       (GetFirst hostEntries ''Ed25519PublicKey'') EdMismatch @
     key_mismatch fs hostPath wgPath (\<lambda>b. ParseWireGuardPrivate c (TrimSpace b)) (\<lambda>k. WG_String c (WG_Public c k))
       (GetFirst hostEntries ''WGPublicKey'') WGMismatch"

definition check_connect :: "fsys \<Rightarrow> paths \<Rightarrow> string \<Rightarrow> finding list" where
  "check_connect fs p target =
     (case Validate target of
        Some e \<Rightarrow> [\<lparr>ff_Level = FsckError, ff_Path = ConfFile p, ff_Message = ConnectToInvalid target e\<rparr>]
      | None \<Rightarrow>
          let hostPath = path_Join (HostsDir p) target
          in (case os_Stat fs hostPath of
                Inl _ \<Rightarrow> [\<lparr>ff_Level = FsckError, ff_Path = hostPath, ff_Message = ConnectToMissing target\<rparr>]
              | Inr _ \<Rightarrow> []))"

definition check_host :: "crypto \<Rightarrow> fsys \<Rightarrow> paths \<Rightarrow> string \<Rightarrow> finding list" where
  "check_host c fs p name =
     (let hostPath = HostFile p name
      in case os_ReadFile fs hostPath of
           Inl e \<Rightarrow> [\<lparr>ff_Level = FsckError, ff_Path = hostPath, ff_Message = HostMissing e\<rparr>]
         | Inr hostBytes \<Rightarrow>
             (case Parse hostBytes of
                Inl e \<Rightarrow> [\<lparr>ff_Level = FsckError, ff_Path = hostPath, ff_Message = HostUnparsed e\<rparr>]
              | Inr hostEntries \<Rightarrow> checkHostMatchesPrivate c fs hostPath hostEntries (Ed25519Private p) (WGPrivate p)))"

definition Fsck :: "crypto \<Rightarrow> paths \<Rightarrow> fsys \<Rightarrow> finding list" where
  "Fsck c p fs =
     (let confPath = ConfFile p;
          add = (\<lambda>msg. [\<lparr>ff_Level = FsckError, ff_Path = confPath, ff_Message = msg\<rparr>])
      in case os_Stat fs confPath of
           Inl e \<Rightarrow> add (CannotStat e)
         | Inr (Directory _) \<Rightarrow> add FoundDirectory
         | Inr (Regular _ _) \<Rightarrow>
             (case LoadDirectory fs confPath of
                Inl e \<Rightarrow> add (CannotParse e)
              | Inr entries \<Rightarrow>
                  let name = GetFirst entries ''Name''
                  in (case name of
                        None \<Rightarrow> add NameRequired
                      | Some n \<Rightarrow> (case Validate n of Some e \<Rightarrow> add (NameInvalid e) | None \<Rightarrow> [])) @
                     concat (map (\<lambda>s. case subnet_Parse s of Inl e \<Rightarrow> add (SubnetInvalid s e) | Inr _ \<Rightarrow> [])
                       (GetAll entries ''Subnet'')) @
                     checkPrivateKey fs (Ed25519Private p) ''Ed25519'' (\<lambda>b. err_of (ParseEd25519PrivatePEM c b)) @
                     checkPrivateKey fs (WGPrivate p) ''WireGuard'' (\<lambda>b. err_of (ParseWireGuardPrivate c (TrimSpace b))) @
                     (case name of
                        None \<Rightarrow> []
                      | Some n \<Rightarrow> if n = [] then [] else check_host c fs p n) @
                     concat (map (check_connect fs p) (GetAll entries ''ConnectTo''))))"

section \<open>A new configuration is sound\<close>

lemma fs_then_simps [simp]: "fs_then (fs, None) k = k fs" "fs_then (fs, Some e) k = (fs, Some e)"
  by (simp_all add: fs_then_def)

lemma fs_then_keeps:
  "node_at (fst r) q = Some n \<Longrightarrow> (\<And>fs. node_at fs q = Some n \<Longrightarrow> node_at (fst (k fs)) q = Some n) \<Longrightarrow>
     node_at (fst (fs_then r k)) q = Some n"
  by (cases r; cases "snd r") auto

lemma os_call_fst [simp]: "fst (os_call r) = fst r" "os_call (fs, None) = (fs, None)"
  by (simp_all add: os_call_def)

lemma writeFileExclusive_keeps:
  "node_at fs q = Some n \<Longrightarrow> node_at (fst (writeFileExclusive p data m fs)) q = Some n"
  unfolding writeFileExclusive_def os_MkdirAll_def by (intro fs_then_keeps mkdirs_keeps CreateExclusive_keeps)

lemma Init_keeps: "node_at fs q = Some n \<Longrightarrow> node_at (fst (Init c newEd newWG p name fs)) q = Some n"
  by (auto simp: Init_def os_MkdirAll_def split: option.split
      intro!: fs_then_keeps mkdirs_keeps writeFileExclusive_keeps)

lemma writeFileExclusive_new:
  assumes "directories fs (r, cs)" and "node_at fs (r, cs @ [c]) = None"
    and "fs_nowrite fs = (\<lambda>_. False)" and "fs_full fs = (\<lambda>_. False)"
  shows "writeFileExclusive (r, cs @ [c]) data m fs =
    (fs_put (r, cs @ [c]) (Regular (m AND NOT (fs_umask fs)) data) fs, None)"
proof -
  have "os_MkdirAll (r, cs) 448 fs = (fs, None)"
    unfolding os_MkdirAll_def using assms(1) by (intro mkdirs_noop) (simp add: directories_def)
  moreover have "is_directory fs (r, cs)" by (rule directories_parent) (rule assms(1))
  ultimately show ?thesis
    using assms by (simp add: writeFileExclusive_def os_CreateExclusive_def fs_create_def fs_store_def)
qed

lemma isNameRune_plain: "Validate name = None \<Longrightarrow> plain name"
proof -
  assume "Validate name = None"
  then have n: "name \<noteq> []" "\<And>c. c \<in> set name \<Longrightarrow> isNameRune c" by (auto simp: Validate_None)
  have "\<not> isNameRune CHR ''.''" "\<not> isNameRune CHR ''/''" by (simp_all add: isNameRune_def)
  with n show ?thesis by (auto simp: plain_def)
qed

lemma name_entry_ok:
  assumes "Validate name = None" and "length name < 60000"
  shows "entry_ok \<lparr>Key = ''Name'', Value = name\<rparr>"
proof -
  have n: "name \<noteq> []" "\<And>c. c \<in> set name \<Longrightarrow> isNameRune c" using assms(1) by (auto simp: Validate_None)
  have "clean name" using n isNameRune_ascii by (intro ascii_cleanI) (auto simp: list_all_iff)
  moreover have "NL \<notin> set name" using n(2) [of NL] by (auto simp: isNameRune_def NL_def)
  moreover have "clean ''Name''" by (rule ascii_cleanI; simp add: ascii_def space_encs_def)
  moreover have "canonicalKey ''Name'' = ''Name''" by code_simp
  ultimately show ?thesis using assms(2) by (simp add: entry_ok_def NL_def MaxScanTokenSize_def)
qed

text \<open>A file system on which no call fails for outside reasons, and a directory with nothing in it yet.\<close>

definition quiet :: "fsys \<Rightarrow> bool" where
  "quiet fs \<longleftrightarrow> fs_noread fs = (\<lambda>_. False) \<and> fs_nowrite fs = (\<lambda>_. False) \<and> fs_full fs = (\<lambda>_. False)"

definition beneath :: "path \<Rightarrow> path \<Rightarrow> bool" where
  "beneath p q \<longleftrightarrow> fst q = fst p \<and> length (snd p) < length (snd q) \<and> take (length (snd p)) (snd q) = snd p"

definition fresh :: "fsys \<Rightarrow> path \<Rightarrow> bool" where
  "fresh fs p \<longleftrightarrow> list_all (\<lambda>q. node_at fs q = None \<or> is_directory fs q) (path_prefixes p) \<and>
     list_all (\<lambda>q. \<not> beneath p q) (mkeys (fs_nodes fs))"

lemma fresh_below: "fresh fs (r, cs) \<Longrightarrow> node_at fs (r, cs @ x # xs) = None"
proof (rule ccontr)
  assume f: "fresh fs (r, cs)" and "node_at fs (r, cs @ x # xs) \<noteq> None"
  then have "mget (fs_nodes fs) (r, cs @ x # xs) \<noteq> None" by (simp add: node_at_def)
  then have "(r, cs @ x # xs) \<in> set (mkeys (fs_nodes fs))" by (simp add: gm.keys_get)
  with f show False by (auto simp: fresh_def beneath_def list_all_iff)
qed

lemma directories_put:
  "node_at fs q = None \<Longrightarrow> directories fs p \<Longrightarrow> directories (fs_put q n fs) p"
  by (auto simp: directories_def is_directory_def fs_put_def node_at_def split: if_splits option.splits)

lemma not_prefix: "(r, cs @ x # xs) \<notin> set (path_prefixes (r, cs))"
  using prefixes_shorter by fastforce

lemma directories_snoc: "directories fs (r, cs @ [c]) \<longleftrightarrow> directories fs (r, cs) \<and> is_directory fs (r, cs @ [c])"
  by (auto simp: directories_def path_prefixes_snoc)

lemma MkdirAll_creates:
  assumes "\<And>q. q \<in> set (path_prefixes (r, cs)) \<Longrightarrow> node_at fs q = None \<or> is_directory fs q"
    and "node_at fs (r, cs @ [c]) = None" and "fs_nowrite fs = (\<lambda>_. False)"
  obtains fs' where "os_MkdirAll (r, cs @ [c]) m fs = (fs', None)" "directories fs' (r, cs @ [c])"
    "\<And>q. q \<notin> set (path_prefixes (r, cs @ [c])) \<Longrightarrow> node_at fs' q = node_at fs q"
    "fs_umask fs' = fs_umask fs" "fs_noread fs' = fs_noread fs" "fs_nowrite fs' = fs_nowrite fs" "fs_full fs' = fs_full fs"
proof -
  have "node_at fs q = None \<or> is_directory fs q" if q: "q \<in> set (path_prefixes (r, cs @ [c]))" for q
    using q assms(1) [of q] assms(2) by (auto simp: path_prefixes_snoc)
  from mkdirs_creates [OF this assms(3)] show ?thesis
    by (metis os_MkdirAll_def directories_def that)
qed

definition conf_text :: "string \<Rightarrow> string" where
  "conf_text name = Render [\<lparr>Key = ''Name'', Value = name\<rparr>]"

text \<open>The two directories that \<open>Init\<close> makes first.\<close>

lemma Init_dirs:
  assumes "quiet fs" and "fresh fs (r, cs)"
  obtains fs1 fs2 where "os_MkdirAll (r, cs @ [''hosts'']) 448 fs = (fs1, None)"
    "os_MkdirAll (r, cs @ [''invitations'']) 448 fs1 = (fs2, None)" "quiet fs2" "fs_umask fs2 = fs_umask fs"
    "directories fs2 (r, cs @ [''hosts''])" "directories fs2 (r, cs)"
    "\<And>x xs. x \<noteq> ''hosts'' \<and> x \<noteq> ''invitations'' \<or> xs \<noteq> [] \<Longrightarrow> node_at fs2 (r, cs @ x # xs) = None"
proof -
  note f = assms(2)
  then have pre: "\<And>q. q \<in> set (path_prefixes (r, cs)) \<Longrightarrow> node_at fs q = None \<or> is_directory fs q"
    by (auto simp: fresh_def list_all_iff)
  obtain fs1 where fs1: "os_MkdirAll (r, cs @ [''hosts'']) 448 fs = (fs1, None)" "directories fs1 (r, cs @ [''hosts''])"
    "\<And>q. q \<notin> set (path_prefixes (r, cs @ [''hosts''])) \<Longrightarrow> node_at fs1 q = node_at fs q"
    "fs_umask fs1 = fs_umask fs" "fs_noread fs1 = fs_noread fs" "fs_nowrite fs1 = fs_nowrite fs" "fs_full fs1 = fs_full fs"
    by (rule MkdirAll_creates [OF pre fresh_below [OF f]]) (use assms(1) in \<open>auto simp: quiet_def\<close>)
  have inv: "node_at fs1 (r, cs @ [''invitations'']) = None"
    using fs1(3) fresh_below [OF f] not_prefix [of r cs] by (simp add: path_prefixes_snoc)
  obtain fs2 where fs2: "os_MkdirAll (r, cs @ [''invitations'']) 448 fs1 = (fs2, None)"
    "directories fs2 (r, cs @ [''invitations''])"
    "\<And>q. q \<notin> set (path_prefixes (r, cs @ [''invitations''])) \<Longrightarrow> node_at fs2 q = node_at fs1 q"
    "fs_umask fs2 = fs_umask fs1" "fs_noread fs2 = fs_noread fs1" "fs_nowrite fs2 = fs_nowrite fs1" "fs_full fs2 = fs_full fs1"
    by (rule MkdirAll_creates [OF _ inv])
      (use fs1(2,4-7) assms(1) in \<open>auto simp: quiet_def directories_def path_prefixes_snoc\<close>)
  have "quiet fs2" "fs_umask fs2 = fs_umask fs" using assms(1) fs1 fs2 by (simp_all add: quiet_def)
  moreover have "directories fs2 (r, cs @ [''hosts''])" "directories fs2 (r, cs)"
    using fs1(2) fs2(2,3) not_prefix [of r cs] by (auto simp: directories_snoc is_directory_def path_prefixes_snoc)
  moreover have "node_at fs2 (r, cs @ x # xs) = None" if "x \<noteq> ''hosts'' \<and> x \<noteq> ''invitations'' \<or> xs \<noteq> []" for x xs
    using that fs1(3) fs2(3) fresh_below [OF f, of x xs] not_prefix [of r cs x xs] by (auto simp: path_prefixes_snoc)
  ultimately show ?thesis using fs1(1) fs2(1) that by blast
qed

lemma Init_files:
  assumes "Validate name = None" and "quiet fs" and "fresh fs (NetDir p)"
  obtains fs' where "Init c (Some edPriv) (Some wgPriv) p name fs = (fs', None)"
    "directories fs' (NetDir p)" "node_at fs' (path_Join (NetDir p) ''conf.d'') = None" "fs_noread fs' = (\<lambda>_. False)"
    "node_at fs' (Ed25519Private p) = Some (Regular (384 AND NOT (fs_umask fs)) (Private_MarshalPEM c edPriv))"
    "node_at fs' (WGPrivate p) = Some (Regular (384 AND NOT (fs_umask fs)) (WG_String c wgPriv @ [NL]))"
    "node_at fs' (ConfFile p) = Some (Regular (420 AND NOT (fs_umask fs)) (conf_text name))"
    "node_at fs' (HostFile p name) = Some (Regular (420 AND NOT (fs_umask fs)) (Render (host_entries c edPriv wgPriv)))"
proof -
  obtain r cs where D: "NetDir p = (r, cs)" by (cases "NetDir p")
  have paths: "HostsDir p = (r, cs @ [''hosts''])" "InvitationsDir p = (r, cs @ [''invitations''])"
    "Ed25519Private p = (r, cs @ [''ed25519_key.priv''])" "WGPrivate p = (r, cs @ [''wg.priv''])"
    "ConfFile p = (r, cs @ [''gsnet.conf''])" "HostFile p name = (r, (cs @ [''hosts'']) @ [name])"
    using isNameRune_plain [OF assms(1)] by (simp_all add: layout_simps D)
  obtain fs1 fs2 where dirs: "os_MkdirAll (HostsDir p) 448 fs = (fs1, None)"
    "os_MkdirAll (InvitationsDir p) 448 fs1 = (fs2, None)" "quiet fs2" "fs_umask fs2 = fs_umask fs"
    "directories fs2 (r, cs @ [''hosts''])" "directories fs2 (r, cs)"
    and none: "\<And>x xs. x \<noteq> ''hosts'' \<and> x \<noteq> ''invitations'' \<or> xs \<noteq> [] \<Longrightarrow> node_at fs2 (r, cs @ x # xs) = None"
    using Init_dirs [OF assms(2) assms(3) [unfolded D]] unfolding paths by blast
  let ?E = "fs_put (r, cs @ [''ed25519_key.priv'']) (Regular (384 AND NOT (fs_umask fs)) (Private_MarshalPEM c edPriv)) fs2"
  let ?W = "fs_put (r, cs @ [''wg.priv'']) (Regular (384 AND NOT (fs_umask fs)) (WG_String c wgPriv @ [NL])) ?E"
  let ?C = "fs_put (r, cs @ [''gsnet.conf'']) (Regular (420 AND NOT (fs_umask fs)) (conf_text name)) ?W"
  let ?F = "fs_put (r, (cs @ [''hosts'']) @ [name]) (Regular (420 AND NOT (fs_umask fs)) (Render (host_entries c edPriv wgPriv))) ?C"
  have "writeFileExclusive (Ed25519Private p) (Private_MarshalPEM c edPriv) 384 fs2 = (?E, None)"
    "writeFileExclusive (WGPrivate p) (WG_String c wgPriv @ [NL]) 384 ?E = (?W, None)"
    "writeFileExclusive (ConfFile p) (conf_text name) 420 ?W = (?C, None)"
    "writeFileExclusive (HostFile p name) (Render (host_entries c edPriv wgPriv)) 420 ?C = (?F, None)"
    unfolding paths using dirs(3-6) none
    by (subst writeFileExclusive_new; simp add: directories_put node_at_put quiet_def)+
  then have "Init c (Some edPriv) (Some wgPriv) p name fs = (?F, None)"
    using assms(1) dirs(1,2) by (simp add: Init_def conf_text_def)
  moreover have "directories ?F (NetDir p)" using dirs(6) none by (simp add: D directories_put node_at_put)
  moreover have "node_at ?F (path_Join (NetDir p) ''conf.d'') = None"
    using none by (simp add: D path_Join_plain plain_layout node_at_put)
  moreover have "fs_noread ?F = (\<lambda>_. False)" using dirs(3) by (simp add: quiet_def)
  moreover have "node_at ?F (Ed25519Private p) = Some (Regular (384 AND NOT (fs_umask fs)) (Private_MarshalPEM c edPriv))"
    "node_at ?F (WGPrivate p) = Some (Regular (384 AND NOT (fs_umask fs)) (WG_String c wgPriv @ [NL]))"
    "node_at ?F (ConfFile p) = Some (Regular (420 AND NOT (fs_umask fs)) (conf_text name))"
    "node_at ?F (HostFile p name) = Some (Regular (420 AND NOT (fs_umask fs)) (Render (host_entries c edPriv wgPriv)))"
    unfolding paths by (simp_all add: node_at_put)
  ultimately show ?thesis by (rule that)
qed

lemma private_mode: "((384 AND NOT u) AND 511) AND 63 = (0 :: 32 word)"
proof -
  have "((384 AND NOT u) AND 511) AND 63 = (384 AND 63) AND (NOT u AND 511 :: 32 word)"
    by (simp only: ac_simps)
  also have "(384 AND 63 :: 32 word) = 0" by simp
  finally show ?thesis by simp
qed

lemma host_entries_ok:
  assumes "ed25519_correct c" and "wg_correct c"
  shows "list_all entry_ok (host_entries c edPriv wgPriv)"
    and "GetFirst (host_entries c edPriv wgPriv) ''Ed25519PublicKey'' = Some (Ed_String (Ed_Public c edPriv))"
    and "GetFirst (host_entries c edPriv wgPriv) ''WGPublicKey'' = Some (WG_String c (WG_Public c wgPriv))"
    and "clean (Ed_String (Ed_Public c edPriv))" and "clean (WG_String c (WG_Public c wgPriv))"
proof -
  have pub: "length (Ed_Public c edPriv) = 32" using assms(1) by (simp add: ed25519_correct_def Ed_Public_def PublicKeySize_def)
  then have "Ed_Public c edPriv \<noteq> []" by auto
  then have ed: "token (Ed_String (Ed_Public c edPriv))" "length (Ed_String (Ed_Public c edPriv)) = 44"
    by (simp_all add: Ed_String_def std_enc_token length_StdEncode pub)
  have wg: "token (WG_String c (WG_Public c wgPriv))" "length (WG_String c (WG_Public c wgPriv)) = 44"
    using assms(2) by (simp_all add: wg_correct_def WG_String_def WG_Public_def)
  show cl: "clean (Ed_String (Ed_Public c edPriv))" "clean (WG_String c (WG_Public c wgPriv))"
    using ed(1) wg(1) by (simp_all add: token_clean)
  have k: "clean ''Ed25519PublicKey''" "clean ''WGPublicKey''" by (rule ascii_cleanI; simp add: ascii_def space_encs_def)+
  have n: "canonicalKey ''Ed25519PublicKey'' = ''Ed25519PublicKey''" "canonicalKey ''WGPublicKey'' = ''WGPublicKey''"
    by code_simp+
  show "list_all entry_ok (host_entries c edPriv wgPriv)"
    using ed wg cl k n token_no_NL [OF ed(1)] token_no_NL [OF wg(1)]
    by (simp add: host_entries_def entry_ok_def NL_def MaxScanTokenSize_def)
  have fold: "EqualFold ''Ed25519PublicKey'' ''Ed25519PublicKey''" "EqualFold ''WGPublicKey'' ''WGPublicKey''"
    "\<not> EqualFold ''Ed25519PublicKey'' ''WGPublicKey''" by code_simp+
  then show "GetFirst (host_entries c edPriv wgPriv) ''Ed25519PublicKey'' = Some (Ed_String (Ed_Public c edPriv))"
    "GetFirst (host_entries c edPriv wgPriv) ''WGPublicKey'' = Some (WG_String c (WG_Public c wgPriv))"
    by (simp_all add: host_entries_def)
qed

lemma TrimSpace_NL_right:
  assumes "clean s" shows "TrimSpace (s @ [NL]) = s"
proof -
  have "space_len (s @ [NL]) = 0"
    using assms by (intro space_len_append) (auto simp: clean_def ascii_def NL_def)
  then have "trim_with space_encs (s @ [NL]) = s @ [NL]" by (rule trim_with_clean)
  moreover have "lead_len space_encs_rev (NL # rev s) = 1"
    by (simp add: lead_len_def space_encs_rev_def space_encs_def NL_def)
  then have "trim_with space_encs_rev (NL # rev s) = rev s"
    using assms by (simp add: trim_with.simps [of _ "NL # rev s"] trim_with_clean clean_def)
  ultimately show ?thesis by (simp add: TrimSpace_def)
qed

lemma conf_entries:
  assumes "Validate name = None" and "length name < 60000"
  shows "Parse (conf_text name) = Inr [\<lparr>Key = ''Name'', Value = name\<rparr>]"
  unfolding conf_text_def using name_entry_ok [OF assms] by (intro Parse_Render) simp

lemma LoadDirectory_alone:
  assumes "directories fs (NetDir p)" and "node_at fs (path_Join (NetDir p) ''conf.d'') = None"
    and "config_ParseFile fs (ConfFile p) = Inr es"
  shows "LoadDirectory fs (ConfFile p) = Inr es"
proof -
  obtain r cs where D: "NetDir p = (r, cs)" by (cases "NetDir p")
  have "path_Dir (ConfFile p) = NetDir p" by (simp add: layout_simps D)
  moreover have "os_ReadDir fs (path_Join (NetDir p) ''conf.d'') = Inl ENOENT"
    using assms(1,2) unresolved_fresh [of fs r cs "''conf.d''"] by (simp add: os_ReadDir_def D path_Join_plain plain_layout)
  ultimately show ?thesis using assms(3) by (simp add: LoadDirectory_def IsNotExist_def)
qed

lemma Init_sound:
  assumes "Validate name = None" and "length name < 60000" and "quiet fs" and "fresh fs (NetDir p)"
    and "pem_correct c" and "wg_correct c" and "ed25519_correct c" and "length wgPriv = 32"
  shows "\<exists>fs'. Init c (Some edPriv) (Some wgPriv) p name fs = (fs', None) \<and> Fsck c p fs' = []"
proof -
  obtain fs' where i: "Init c (Some edPriv) (Some wgPriv) p name fs = (fs', None)" "directories fs' (NetDir p)"
      "node_at fs' (path_Join (NetDir p) ''conf.d'') = None" "fs_noread fs' = (\<lambda>_. False)"
    and nodes: "node_at fs' (Ed25519Private p) = Some (Regular (384 AND NOT (fs_umask fs)) (Private_MarshalPEM c edPriv))"
      "node_at fs' (WGPrivate p) = Some (Regular (384 AND NOT (fs_umask fs)) (WG_String c wgPriv @ [NL]))"
      "node_at fs' (ConfFile p) = Some (Regular (420 AND NOT (fs_umask fs)) (conf_text name))"
      "node_at fs' (HostFile p name) = Some (Regular (420 AND NOT (fs_umask fs)) (Render (host_entries c edPriv wgPriv)))"
    by (rule Init_files [OF assms(1,3,4)])
  have load: "LoadDirectory fs' (ConfFile p) = Inr [\<lparr>Key = ''Name'', Value = name\<rparr>]"
    by (rule LoadDirectory_alone [OF i(2,3)])
      (simp add: config_ParseFile_def os_ReadFile_def nodes i(4) conf_entries [OF assms(1,2)])
  have wg: "ParseWireGuardPrivate c (TrimSpace (WG_String c wgPriv @ [NL])) = Inr wgPriv"
  proof -
    have "clean (WG_String c wgPriv)" using assms(6,8) by (simp add: wg_correct_def WG_String_def token_clean)
    then show ?thesis using wg_roundtrip(1) [OF assms(6,8)] by (simp add: TrimSpace_NL_right)
  qed
  have keys: "checkPrivateKey fs' (Ed25519Private p) ''Ed25519'' (\<lambda>b. err_of (ParseEd25519PrivatePEM c b)) = []"
    "checkPrivateKey fs' (WGPrivate p) ''WireGuard'' (\<lambda>b. err_of (ParseWireGuardPrivate c (TrimSpace b))) = []"
    by (simp_all add: checkPrivateKey_def os_Stat_def os_ReadFile_def nodes i(4) private_mode
        private_pem_roundtrip [OF assms(5)] wg err_of_def)
  have "check_host c fs' p name = []"
    using wg
    by (simp add: host_entries_ok [OF assms(7,6)] private_pem_roundtrip [OF assms(5)] check_host_def os_ReadFile_def nodes i(4) Parse_Render checkHostMatchesPrivate_def key_mismatch_def TrimSpace_clean)
  moreover have "EqualFold ''Name'' ''Name''" "\<not> EqualFold ''Name'' ''Subnet''" "\<not> EqualFold ''Name'' ''ConnectTo''"
    by code_simp+
  ultimately have "Fsck c p fs' = []"
    using assms(1) keys by (simp add: Fsck_def os_Stat_def nodes load)
  with i(1) show ?thesis by blast
qed


text \<open>A machine with an \<open>/etc\<close> and nothing in it.\<close>

definition new_machine :: fsys where
  "new_machine = \<lparr>fs_nodes = [((True, [''etc'']), Directory 493)], fs_umask = 18, fs_noread = (\<lambda>_. False),
     fs_nowrite = (\<lambda>_. False), fs_full = (\<lambda>_. False)\<rparr>"

definition etc_gsnet :: paths where
  "etc_gsnet = \<lparr>pa_ConfRoot = ''/etc/gsnet'', pa_Netname = ''vpn''\<rparr>"

lemma etc_gsnet_dir: "NetDir etc_gsnet = (True, [''etc'', ''gsnet'', ''vpn''])"
  by code_simp

lemma new_machine_ok: "quiet new_machine" "fresh new_machine (NetDir etc_gsnet)"
  unfolding etc_gsnet_dir by (simp_all add: quiet_def new_machine_def fresh_def beneath_def path_prefixes_def node_at_def
      mget_def mkeys_def is_directory_def upt_rec)


end
