(* ===== verification/Daemon.thy ===== *)
theory Daemon
  imports Setup Transport Dataplane Control
begin

text \<open>
  Package \<open>daemon\<close>, \<open>daemon.go\<close>: loading the configuration, computing the desired data-plane state from the
  configuration, the gossip graph and the host files, announcing the node, answering the control socket, and
  redeeming invitations.

  The state \<open>daemon\<close> holds what the process keeps (\<open>loaded\<close>, the gossip plane with its graph, the discovered
  endpoint), the file system, the state \<open>'r\<close> of the reconciler and the envelopes broadcast so far. What the
  daemon is built with (cryptography, the result of a broadcast, the reconciler, the texts of errors) is the
  record \<open>denv\<close>. Each operation is one step: the daemon's goroutines meet in the locks of the plane and of
  \<open>loaded\<close>, which these operations take.
\<close>

unbundle bit_operations_syntax

section \<open>State\<close>

record loaded =
  l_NodeName :: string
  l_Conf :: entries
  l_EdPriv :: bytes
  l_WGPriv :: bytes
  l_Mode :: mode
  l_WGInterface :: string
  l_WGListenPort :: int
  l_VXLANIface :: string
  l_VXLANID :: "32 word"
  l_VXLANPort :: "16 word"
  l_MTU :: int
  l_InnerAddr :: prefix
  l_UnderlayAddr :: prefix
  l_Subnets :: "subnet list"

datatype daemon_error =
    LoadFault load_error
  | NameMissing
  | EdKeyRead os_error
  | WGKeyRead os_error
  | KeyFault key_error
  | UnknownMode string
  | BadAddress string string
  | BadSubnet string subnet_error
  | GossipFault gossip_error

record 'r daemon =
  d_Paths :: paths
  d_fs :: fsys
  d_loaded :: loaded
  d_plane :: plane
  d_endpoint :: addr_port
  d_rec :: 'r
  d_sent :: "envelope list"
  d_exited :: bool

record 'r denv =
  de_crypto :: crypto
  de_berr :: "envelope \<Rightarrow> string option"
  de_reconcile :: "(dpstate \<Rightarrow> 'r \<Rightarrow> 'r \<times> string option) option"        \<comment> \<open>\<open>None\<close>: no reconciler\<close>
  de_stats :: "('r \<Rightarrow> (string, trafficStats list) result) option"        \<comment> \<open>\<open>None\<close>: not a \<open>Reporter\<close>\<close>
  de_etext :: "daemon_error \<Rightarrow> string"

section \<open>Loading the configuration\<close>

definition parseAddrOrPrefix :: "string \<Rightarrow> prefix option" where
  "parseAddrOrPrefix v =
     (case ParsePrefix v of
        Some p \<Rightarrow> Some p
      | None \<Rightarrow> (case ParseAddr v of None \<Rightarrow> None | Some a \<Rightarrow> Some (PrefixFrom a (BitLen a))))"

definition addrFromHostEntry :: "entries \<Rightarrow> string \<Rightarrow> addr" where
  "addrFromHostEntry e key =
     (case GetFirst e key of
        None \<Rightarrow> NoAddr
      | Some v \<Rightarrow> (case parseAddrOrPrefix v of None \<Rightarrow> NoAddr | Some p \<Rightarrow> pfx_ip p))"

fun firstNonEmpty :: "entries \<Rightarrow> string list \<Rightarrow> string \<Rightarrow> string" where
  "firstNonEmpty entries [] def = def"
| "firstNonEmpty entries (k # ks) def =
     (case GetFirst entries k of
        Some v \<Rightarrow> if v \<noteq> [] then v else firstNonEmpty entries ks def
      | None \<Rightarrow> firstNonEmpty entries ks def)"

text \<open>The number under a key, if there is one that parses.\<close>

definition entry_int :: "entries \<Rightarrow> string \<Rightarrow> int option" where
  "entry_int entries key = (case GetFirst entries key of None \<Rightarrow> None | Some v \<Rightarrow> Atoi v)"

definition load_mode :: "entries \<Rightarrow> (daemon_error, mode) result" where
  "load_mode entries =
     (case GetFirst entries ''Mode'' of
        None \<Rightarrow> Inr ModeSwitch
      | Some v \<Rightarrow>
          let m = ToLower v
          in if m = ''switch'' \<or> m = [] then Inr ModeSwitch
             else if m = ''hub'' then Inr ModeHub
             else if m = ''router'' then Inr ModeRouter
             else Inl (UnknownMode v))"

definition load_address :: "entries \<Rightarrow> string \<Rightarrow> (daemon_error, prefix) result" where
  "load_address entries key =
     (case GetFirst entries key of
        None \<Rightarrow> Inr NoPrefix
      | Some v \<Rightarrow> (case parseAddrOrPrefix v of None \<Rightarrow> Inl (BadAddress key v) | Some p \<Rightarrow> Inr p))"

fun load_subnets :: "string list \<Rightarrow> (daemon_error, subnet list) result" where
  "load_subnets [] = Inr []"
| "load_subnets (s # ss) =
     (case subnet_Parse s of
        Inl e \<Rightarrow> Inl (BadSubnet s e)
      | Inr sub \<Rightarrow> (case load_subnets ss of Inl e \<Rightarrow> Inl e | Inr subs \<Rightarrow> Inr (sub # subs)))"

definition load_keys :: "crypto \<Rightarrow> paths \<Rightarrow> fsys \<Rightarrow> (daemon_error, bytes \<times> bytes) result" where
  "load_keys c p fs =
     (case os_ReadFile fs (Ed25519Private p) of
        Inl e \<Rightarrow> Inl (EdKeyRead e)
      | Inr edBytes \<Rightarrow>
          (case ParseEd25519PrivatePEM c edBytes of
             Inl e \<Rightarrow> Inl (KeyFault e)
           | Inr edPriv \<Rightarrow>
               (case os_ReadFile fs (WGPrivate p) of
                  Inl e \<Rightarrow> Inl (WGKeyRead e)
                | Inr wgBytes \<Rightarrow>
                    (case ParseWireGuardPrivate c (TrimSpace wgBytes) of
                       Inl e \<Rightarrow> Inl (KeyFault e)
                     | Inr wgPriv \<Rightarrow> Inr (edPriv, wgPriv)))))"

definition load_config :: "crypto \<Rightarrow> paths \<Rightarrow> fsys \<Rightarrow> (daemon_error, loaded) result" where
  "load_config c p fs =
     (case LoadDirectory fs (ConfFile p) of
        Inl e \<Rightarrow> Inl (LoadFault e)
      | Inr entries \<Rightarrow>
     (case GetFirst entries ''Name'' of
        None \<Rightarrow> Inl NameMissing
      | Some name \<Rightarrow>
     (case load_keys c p fs of
        Inl e \<Rightarrow> Inl e
      | Inr (edPriv, wgPriv) \<Rightarrow>
     (case load_mode entries of
        Inl e \<Rightarrow> Inl e
      | Inr m \<Rightarrow>
          let port = (case entry_int entries ''Port'' of Some n \<Rightarrow> n | None \<Rightarrow> 0)
          in
     (case load_address entries ''InnerAddress'' of
        Inl e \<Rightarrow> Inl e
      | Inr inner \<Rightarrow>
     (case load_address entries ''UnderlayAddress'' of
        Inl e \<Rightarrow> Inl e
      | Inr underlay \<Rightarrow>
     (case load_subnets (GetAll entries ''Subnet'') of
        Inl e \<Rightarrow> Inl e
      | Inr subs \<Rightarrow>
          Inr \<lparr>l_NodeName = name, l_Conf = entries, l_EdPriv = edPriv, l_WGPriv = wgPriv, l_Mode = m,
               l_WGInterface = firstNonEmpty entries [''WGInterface'', ''Interface''] (''wg-'' @ name),
               l_WGListenPort = (if port = 0 then 51820 else port),
               l_VXLANIface = firstNonEmpty entries [''VXLANInterface'', ''VXLAN''] name,
               l_VXLANID = (case entry_int entries ''VXLANID'' of Some n \<Rightarrow> of_int n | None \<Rightarrow> 42),
               l_VXLANPort = (case entry_int entries ''VXLANPort'' of Some n \<Rightarrow> of_int n | None \<Rightarrow> 4789),
               l_MTU = (case entry_int entries ''MTU'' of Some n \<Rightarrow> if n > 0 then n else 1420 | None \<Rightarrow> 1420),
               l_InnerAddr = inner, l_UnderlayAddr = underlay, l_Subnets = subs\<rparr>)))))))"

definition d_load :: "'r denv \<Rightarrow> 'r daemon \<Rightarrow> 'r daemon \<times> daemon_error option" where
  "d_load env d =
     (case load_config (de_crypto env) (d_Paths d) (d_fs d) of
        Inl e \<Rightarrow> (d, Some e)
      | Inr l \<Rightarrow> (d\<lparr>d_loaded := l\<rparr>, None))"

section \<open>The desired state\<close>

definition ip_prefix :: "string \<Rightarrow> prefix option" where
  "ip_prefix s =
     (case subnet_Parse s of
        Inl _ \<Rightarrow> None
      | Inr sub \<Rightarrow> if sn_MAC sub \<noteq> None then None else Some (sn_Prefix sub))"

definition allowedIPsFor :: "'r daemon \<Rightarrow> mode \<Rightarrow> string \<Rightarrow> addr \<Rightarrow> prefix list" where
  "allowedIPsFor d m peer underlay =
     (if m \<noteq> ModeRouter then (if IsValid underlay then [PrefixFrom underlay (BitLen underlay)] else [])
      else List.map_filter ip_prefix (NodeSubnets (p_G (d_plane d)) peer))"

definition peer_endpoint :: "'r daemon \<Rightarrow> entries \<Rightarrow> string \<Rightarrow> addr_port" where
  "peer_endpoint d hostEntries peer =
     (let learned = EndpointOf (d_plane d) peer;
          ep = (if learned \<noteq> [] then (case ParseAddrPort learned of Some ap \<Rightarrow> ap | None \<Rightarrow> NoAddrPort) else NoAddrPort)
      in if IsValid (ap_addr ep) then ep
         else (case GetFirst hostEntries ''Address'' of
                 None \<Rightarrow> ep
               | Some a \<Rightarrow>
                   let port = (case entry_int hostEntries ''Port'' of
                                 Some n \<Rightarrow> n | None \<Rightarrow> l_WGListenPort (d_loaded d))
                   in (case ParseAddr a of Some ip \<Rightarrow> AddrPortFrom ip (of_int port) | None \<Rightarrow> ep)))"

definition host_peer :: "crypto \<Rightarrow> 'r daemon \<Rightarrow> string \<Rightarrow> peer option" where
  "host_peer c d peer =
     (if peer = l_NodeName (d_loaded d) then None
      else (case config_ParseFile (d_fs d) (HostFile (d_Paths d) peer) of
              Inl _ \<Rightarrow> None
            | Inr hostEntries \<Rightarrow>
                (case GetFirst hostEntries ''WGPublicKey'' of
                   None \<Rightarrow> None
                 | Some pubStr \<Rightarrow>
                     (case wg_parse c pubStr of
                        None \<Rightarrow> None
                      | Some wgPub \<Rightarrow>
                          let learnedInner = InnerAddrOf (d_plane d) peer;
                              inner = (if IsValid learnedInner then learnedInner
                                       else addrFromHostEntry hostEntries ''InnerAddress'');
                              learnedUnderlay = UnderlayAddrOf (d_plane d) peer;
                              underlay = (if IsValid learnedUnderlay then learnedUnderlay
                                          else addrFromHostEntry hostEntries ''UnderlayAddress'')
                          in Some \<lparr>pe_Name = peer, pe_WGPublic = wgPub,
                                   pe_Endpoint = peer_endpoint d hostEntries peer,
                                   pe_InnerAddr = inner, pe_UnderlayAddr = underlay,
                                   pe_AllowedIPs = allowedIPsFor d (l_Mode (d_loaded d)) peer underlay\<rparr>))))"

definition buildState :: "crypto \<Rightarrow> 'r daemon \<Rightarrow> dpstate" where
  "buildState c d =
     (let l = d_loaded d
      in \<lparr>ds_Mode = l_Mode l, ds_WGPrivate = l_WGPriv l, ds_WGInterface = l_WGInterface l,
          ds_WGListenPort = l_WGListenPort l, ds_VXLANInterface = l_VXLANIface l, ds_VXLANID = l_VXLANID l,
          ds_VXLANPort = l_VXLANPort l, ds_LocalInnerAddr = l_InnerAddr l, ds_LocalUnderlayAddr = l_UnderlayAddr l,
          ds_MTU = l_MTU l, ds_Peers = List.map_filter (host_peer c d) (Nodes (p_G (d_plane d)))\<rparr>)"

definition applyReconcile :: "'r denv \<Rightarrow> 'r daemon \<Rightarrow> 'r daemon \<times> string option" where
  "applyReconcile env d =
     (case de_reconcile env of
        None \<Rightarrow> (d, None)
      | Some reconcile \<Rightarrow>
          (case reconcile (buildState (de_crypto env) d) (d_rec d) of (r, e) \<Rightarrow> (d\<lparr>d_rec := r\<rparr>, e)))"

section \<open>Gossip\<close>

text \<open>\<open>lookupPubKey\<close>: the key a peer's messages are verified with.\<close>

definition lookupPubKey :: "crypto \<Rightarrow> 'r daemon \<Rightarrow> string \<Rightarrow> bytes option" where
  "lookupPubKey c d name =
     (if name = l_NodeName (d_loaded d) then Some (Ed_Public c (l_EdPriv (d_loaded d)))
      else (case config_ParseFile (d_fs d) (HostFile (d_Paths d) name) of
              Inl _ \<Rightarrow> None
            | Inr entries \<Rightarrow>
                (case GetFirst entries ''Ed25519PublicKey'' of
                   None \<Rightarrow> None
                 | Some v \<Rightarrow>
                     (case ParseEd25519PublicBase64 (TrimSpace v) of Inl _ \<Rightarrow> None | Inr pub \<Rightarrow> Some pub))))"

text \<open>
  A call on the plane: its observer reconciles the data plane, its transport broadcasts. The verifier reads the
  host files at the time of the call.
\<close>

definition envelopes_of :: "effect list \<Rightarrow> envelope list" where
  "envelopes_of fx = List.map_filter (\<lambda>x. case x of Broadcast e \<Rightarrow> Some e | Notify _ \<Rightarrow> None) fx"

definition notifies :: "effect list \<Rightarrow> bool" where
  "notifies fx = list_ex (\<lambda>x. case x of Notify _ \<Rightarrow> True | Broadcast _ \<Rightarrow> False) fx"

definition plane_call ::
    "'r denv \<Rightarrow> (plane \<Rightarrow> plane \<times> effect list \<times> gossip_error option) \<Rightarrow> 'r daemon \<Rightarrow>
       'r daemon \<times> gossip_error option" where
  "plane_call env f d =
     (case f ((d_plane d)\<lparr>p_pubKeyFor := Some (lookupPubKey (de_crypto env) d)\<rparr>) of
        (p, fx, err) \<Rightarrow>
          let d = d\<lparr>d_plane := p, d_sent := d_sent d @ envelopes_of fx\<rparr>;
              d = (if notifies fx then fst (applyReconcile env d) else d)
          in (d, err))"

definition onGossip :: "'r denv \<Rightarrow> envelope \<Rightarrow> 'r daemon \<Rightarrow> 'r daemon \<times> gossip_error option" where
  "onGossip env e d = plane_call env (Receive (de_crypto env) (de_berr env) e) d"

definition local_hello :: "crypto \<Rightarrow> 'r daemon \<Rightarrow> hello" where
  "local_hello c d =
     (let l = d_loaded d
      in \<lparr>h_Name = l_NodeName l, h_Ed25519Public = Ed_Public c (l_EdPriv l),
          h_WGPublic = WG_String c (WG_Public c (l_WGPriv l)),
          h_Endpoint = (if IsValid (ap_addr (d_endpoint d)) then addr_port_String (d_endpoint d) else []),
          h_InnerAddr = (if prefix_valid (l_InnerAddr l) then prefix_String (l_InnerAddr l) else []),
          h_UnderlayAddr = (if prefix_valid (l_UnderlayAddr l) then prefix_String (l_UnderlayAddr l) else [])\<rparr>)"

text \<open>The calls read the clock: \<open>now n\<close> is the time of the \<open>n\<close>-th announcement.\<close>

fun announce_subnets :: "'r denv \<Rightarrow> (nat \<Rightarrow> int) \<Rightarrow> nat \<Rightarrow> subnet list \<Rightarrow> 'r daemon \<Rightarrow> 'r daemon \<times> gossip_error option" where
  "announce_subnets env now n [] d = (d, None)"
| "announce_subnets env now n (s # ss) d =
     (case plane_call env (AnnounceAddSubnet (de_crypto env) (de_berr env) (now n) (subnet_String s)) d of
        (d', Some e) \<Rightarrow> (d', Some e)
      | (d', None) \<Rightarrow> announce_subnets env now (Suc n) ss d')"

definition announceLocal :: "'r denv \<Rightarrow> (nat \<Rightarrow> int) \<Rightarrow> 'r daemon \<Rightarrow> 'r daemon \<times> gossip_error option" where
  "announceLocal env now d =
     (let l = d_loaded d
      in case plane_call env (AnnounceHello (de_crypto env) (de_berr env) (now 0) (local_hello (de_crypto env) d)) d of
           (d', Some e) \<Rightarrow> (d', Some e)
         | (d', None) \<Rightarrow> announce_subnets env now 1 (l_Subnets l) d')"

section \<open>Starting and reloading\<close>

definition new_plane :: "crypto \<Rightarrow> 'r daemon \<Rightarrow> plane" where
  "new_plane c d =
     OnMessage (SetVerifier (lookupPubKey c d) (SetSigner (l_EdPriv (d_loaded d)) (NewPlane (l_NodeName (d_loaded d)) New)))"

text \<open>
  \<open>Run\<close> up to the start of its loops, on a transport that could listen; an error of the first reconcile is only
  logged. \<open>pid\<close> is the process and \<open>cookie\<close> the fresh control cookie.
\<close>

definition Run_start :: "'r denv \<Rightarrow> (nat \<Rightarrow> int) \<Rightarrow> int \<Rightarrow> string \<Rightarrow> string \<Rightarrow> 'r daemon \<Rightarrow> 'r daemon \<times> daemon_error option" where
  "Run_start env now pid cookie runDir d =
     (case d_load env d of
        (d, Some e) \<Rightarrow> (d, Some e)
      | (d, None) \<Rightarrow>
          (case announceLocal env now (d\<lparr>d_plane := new_plane (de_crypto env) d\<rparr>) of
             (d, Some e) \<Rightarrow> (d, Some (GossipFault e))
           | (d, None) \<Rightarrow>
               let d = fst (applyReconcile env d)
               in (case os_WriteFile (PIDFile (d_Paths d) runDir) (PIDFile_Encode \<lparr>pf_PID = pid, pf_Cookie = cookie\<rparr>) 384 (d_fs d) of
                     (fs, Some e) \<Rightarrow> (d\<lparr>d_fs := fs\<rparr>, Some (LoadFault (OsFault e)))
                   | (fs, None) \<Rightarrow> (d\<lparr>d_fs := fs\<rparr>, None))))"

text \<open>\<open>SIGHUP\<close> reloads and reconciles, \<open>SIGALRM\<close> reconciles (\<open>signalLoop\<close>).\<close>

definition on_SIGHUP :: "'r denv \<Rightarrow> (nat \<Rightarrow> int) \<Rightarrow> 'r daemon \<Rightarrow> 'r daemon" where
  "on_SIGHUP env now d =
     (let d = (case d_load env d of (d, Some _) \<Rightarrow> d | (d, None) \<Rightarrow> fst (announceLocal env now d))
      in fst (applyReconcile env d))"

definition on_SIGALRM :: "'r denv \<Rightarrow> 'r daemon \<Rightarrow> 'r daemon" where
  "on_SIGALRM env d = fst (applyReconcile env d)"

text \<open>One tick of the heartbeat.\<close>

definition heartbeat :: "'r denv \<Rightarrow> 'r daemon \<Rightarrow> 'r daemon" where
  "heartbeat env d = d\<lparr>d_sent := d_sent d @ envelopes_of (fst (ResendOutbox (de_berr env) (d_plane d)))\<rparr>"

section \<open>The control socket\<close>

definition ReqStop :: int where "ReqStop = 1"
definition ReqReload :: int where "ReqReload = 2"
definition ReqDumpNodes :: int where "ReqDumpNodes = 4"
definition ReqDumpEdges :: int where "ReqDumpEdges = 5"
definition ReqDumpSubnets :: int where "ReqDumpSubnets = 6"
definition ReqDumpTraffic :: int where "ReqDumpTraffic = 13"
definition ReqPurge :: int where "ReqPurge = 16"

definition purge :: "string \<Rightarrow> graph \<Rightarrow> graph" where
  "purge self g =
     (let reach = Reachable g self
      in fold (\<lambda>n g. if n \<in> set reach then g else clear_edges n g) (Nodes g) g)"

definition reply_line :: "int \<Rightarrow> string list \<Rightarrow> string" where
  "reply_line t args = Itoa ClassRequest @ [SP] @ Itoa t @ concat (map (\<lambda>a. SP # a) args) @ [NL]"

definition controlHandler :: "'r denv \<Rightarrow> (nat \<Rightarrow> int) \<Rightarrow> 'r daemon handler" where
  "controlHandler env now m d =
     (let t = m_Type m; g = p_G (d_plane d)
      in if t = ReqStop then (d\<lparr>d_exited := True\<rparr>, reply_line t [''0''], None)
         else if t = ReqReload then
           (case d_load env d of
              (d, Some e) \<Rightarrow> (d, reply_line t [de_etext env e], None)
            | (d, None) \<Rightarrow>
                (case announceLocal env now d of
                   (d, Some e) \<Rightarrow> (d, reply_line t [de_etext env (GossipFault e)], None)
                 | (d, None) \<Rightarrow> (fst (applyReconcile env d), reply_line t [''0''], None)))
         else if t = ReqDumpNodes then (d, concat (map (\<lambda>n. reply_line t [n]) (Nodes g)) @ reply_line t [], None)
         else if t = ReqDumpEdges then
           (d, concat (map (\<lambda>e. reply_line t [e_From e, e_To e, Itoa (e_Weight e)]) (Edges g)) @ reply_line t [], None)
         else if t = ReqDumpSubnets then
           (d, concat (map (\<lambda>(s, owner). reply_line t [s, owner]) (AllSubnets g)) @ reply_line t [], None)
         else if t = ReqDumpTraffic then
           (d, (case de_stats env of
                  None \<Rightarrow> []
                | Some stats \<Rightarrow>
                    (case stats (d_rec d) of
                       Inl _ \<Rightarrow> []
                     | Inr sts \<Rightarrow>
                         concat (map (\<lambda>st. reply_line t
                           [st_Peer st, Itoa (uint (st_RxBytes st)), Itoa (uint (st_TxBytes st)), Itoa (st_LastHandshake st)]) sts)))
               @ reply_line t [], None)
         else if t = ReqPurge then
           (d\<lparr>d_plane := (d_plane d)\<lparr>p_G := purge (l_NodeName (d_loaded d)) g\<rparr>\<rparr>, reply_line t [''0''], None)
         else (d, reply_line t [''0''], None))"

section \<open>Dialling the configured peers\<close>

definition dial_target :: "'r daemon \<Rightarrow> string \<Rightarrow> string option" where
  "dial_target d peerName =
     (case config_ParseFile (d_fs d) (HostFile (d_Paths d) peerName) of
        Inl _ \<Rightarrow> None
      | Inr entries \<Rightarrow>
          (case GetFirst entries ''Address'' of
             None \<Rightarrow> None
           | Some addr \<Rightarrow>
               let port = (case entry_int entries ''Port'' of Some n \<Rightarrow> n | None \<Rightarrow> l_WGListenPort (d_loaded d))
               in Some (addr @ '':'' @ Itoa port)))"

definition tryDialPeer ::
    "'r denv \<Rightarrow> (nat \<Rightarrow> int) \<Rightarrow> nat \<Rightarrow> bool \<Rightarrow> bool \<Rightarrow> string \<Rightarrow> 'r daemon \<times> tconn list \<Rightarrow> ('r daemon \<times> tconn list) \<times> bool" where
  "tryDialPeer env now i dialed greeted peerName = (\<lambda>(d, conns).
     case dial_target d peerName of
       None \<Rightarrow> ((d, conns), False)
     | Some target \<Rightarrow>
         (case transport_Dial target i dialed greeted conns of
            (conns', _, True) \<Rightarrow> ((d, conns'), False)
          | (conns', _, False) \<Rightarrow> ((fst (announceLocal env now d), conns'), True)))"

text \<open>
  The waits of \<open>maintainPeer\<close> in milliseconds, for the outcomes of its dial attempts: 30 seconds after a
  success, a doubling back-off after a failure.
\<close>

definition maxBackoff :: int where "maxBackoff = 30000"

fun maintain_waits :: "int \<Rightarrow> bool list \<Rightarrow> int list" where
  "maintain_waits backoff [] = []"
| "maintain_waits backoff (ok # oks) =
     (if ok then maxBackoff # maintain_waits backoff oks
      else backoff # maintain_waits (min (backoff * 2) maxBackoff) oks)"

section \<open>Invitations\<close>

datatype join_error = UnknownInvitation | CorruptInvitation file_error | NameMismatch string | JoinOS os_error

definition invitation_path :: "'r daemon \<Rightarrow> string \<Rightarrow> path" where
  "invitation_path d cookie = path_Join (InvitationsDir (d_Paths d)) cookie"

definition handleInviteGet :: "string \<Rightarrow> 'r daemon \<Rightarrow> 'r daemon \<times> (join_error, string) result" where
  "handleInviteGet cookie d =
     (case os_ReadFile (d_fs d) (invitation_path d cookie) of
        Inl _ \<Rightarrow> (d, Inl UnknownInvitation)
      | Inr body \<Rightarrow> (d, Inr body))"

definition announce_invitee :: "'r denv \<Rightarrow> int \<Rightarrow> string \<Rightarrow> string \<Rightarrow> 'r daemon \<Rightarrow> 'r daemon" where
  "announce_invitee env now inviteeName hostConfig d =
     (case Parse hostConfig of
        Inl _ \<Rightarrow> d
      | Inr es \<Rightarrow>
          (case GetFirst es ''Ed25519PublicKey'' of
             None \<Rightarrow> d
           | Some pubStr \<Rightarrow>
               (case ParseEd25519PublicBase64 (TrimSpace pubStr) of
                  Inl _ \<Rightarrow> d
                | Inr pub \<Rightarrow>
                    fst (plane_call env (AnnounceHello (de_crypto env) (de_berr env) now
                      \<lparr>h_Name = inviteeName, h_Ed25519Public = pub, h_WGPublic = [], h_Endpoint = [], h_InnerAddr = [],
                       h_UnderlayAddr = []\<rparr>) d))))"

definition handleInviteJoin ::
    "'r denv \<Rightarrow> int \<Rightarrow> string \<Rightarrow> string \<Rightarrow> string \<Rightarrow> 'r daemon \<Rightarrow> 'r daemon \<times> (join_error, string) result" where
  "handleInviteJoin env now cookie inviteeName hostConfig d =
     (let p = invitation_path d cookie
      in case os_ReadFile (d_fs d) p of
           Inl _ \<Rightarrow> (d, Inl UnknownInvitation)
         | Inr body \<Rightarrow>
             (case ParseFile body of
                Inl e \<Rightarrow> (d, Inl (CorruptInvitation e))
              | Inr parsed \<Rightarrow>
                  if b_Name (f_Invitee parsed) \<noteq> inviteeName then (d, Inl (NameMismatch (b_Name (f_Invitee parsed))))
                  else (case os_MkdirAll (HostsDir (d_Paths d)) 448 (d_fs d) of
                          (fs1, Some e) \<Rightarrow> (d\<lparr>d_fs := fs1\<rparr>, Inl (JoinOS e))
                        | (fs1, None) \<Rightarrow>
                            (case os_WriteFile (HostFile (d_Paths d) inviteeName) hostConfig 420 fs1 of
                               (fs2, Some e) \<Rightarrow> (d\<lparr>d_fs := fs2\<rparr>, Inl (JoinOS e))
                             | (fs2, None) \<Rightarrow>
                                 let fs3 = fst (os_Remove p fs2)
                                 in (announce_invitee env now inviteeName hostConfig (d\<lparr>d_fs := fs3\<rparr>), Inr body)))))"

text \<open>The two handlers as the callbacks of the transport.\<close>

definition daemon_server :: "'r denv \<Rightarrow> int \<Rightarrow> (join_error \<Rightarrow> string) \<Rightarrow> 'r daemon \<Rightarrow> 'r daemon tserver" where
  "daemon_server env now jtext d =
     (let answer = (\<lambda>(d', r). (d', case r of Inl e \<Rightarrow> Inl (jtext e) | Inr b \<Rightarrow> Inr (str_bytes b)))
      in \<lparr>ts_EdPriv = l_EdPriv (d_loaded d), ts_OnGossip = True,
          ts_InviteGet = Some (\<lambda>cookie d. answer (handleInviteGet cookie d)),
          ts_InviteJoin = Some (\<lambda>cookie name cfg d. answer (handleInviteJoin env now cookie name (bytes_str cfg) d))\<rparr>)"

section \<open>What the operations leave alone\<close>

lemma applyReconcile_keeps [simp]:
  "d_fs (fst (applyReconcile env d)) = d_fs d" "d_loaded (fst (applyReconcile env d)) = d_loaded d"
  "d_Paths (fst (applyReconcile env d)) = d_Paths d" "d_plane (fst (applyReconcile env d)) = d_plane d"
  by (simp_all add: applyReconcile_def split: option.split prod.split)

lemma plane_call_keeps [simp]:
  "d_fs (fst (plane_call env f d)) = d_fs d" "d_loaded (fst (plane_call env f d)) = d_loaded d"
  "d_Paths (fst (plane_call env f d)) = d_Paths d"
  by (simp_all add: plane_call_def Let_def split: prod.split)

lemma announce_invitee_keeps [simp]:
  "d_fs (announce_invitee env now n h d) = d_fs d" "d_loaded (announce_invitee env now n h d) = d_loaded d"
  "d_Paths (announce_invitee env now n h d) = d_Paths d"
  by (simp_all add: announce_invitee_def split: sum.split option.split)

lemma mkdirs_reads:
  "ok_of (os_ReadFile (fst (mkdirs m ps fs)) q) = ok_of (os_ReadFile fs q) \<and>
   fs_noread (fst (mkdirs m ps fs)) = fs_noread fs \<and> fs_nowrite (fst (mkdirs m ps fs)) = fs_nowrite fs"
proof (induction m ps fs rule: mkdirs.induct)
  case (2 m p ps fs)
  show ?case
  proof (cases "node_at fs p")
    case None
    then have p: "snd p \<noteq> []" by (auto simp: node_at_def)
    with None have "ok_of (os_ReadFile (fs_put p (Directory w) fs) q) = ok_of (os_ReadFile fs q)" for w
      by (simp add: ReadFile_ok node_at_put split: option.split node.split)
    with 2 None show ?thesis by simp
  next
    case (Some k)
    with 2 show ?thesis by (cases k) simp_all
  qed
qed simp

section \<open>Redeeming an invitation\<close>

text \<open>The steps of a join that succeeds.\<close>

lemma join_steps:
  assumes "handleInviteJoin env now cookie name cfg d = (d', Inr body)"
  obtains f fs1 fs2 where "os_ReadFile (d_fs d) (invitation_path d cookie) = Inr body"
    "ParseFile body = Inr f" "b_Name (f_Invitee f) = name"
    "os_MkdirAll (HostsDir (d_Paths d)) 448 (d_fs d) = (fs1, None)"
    "os_WriteFile (HostFile (d_Paths d) name) cfg 420 fs1 = (fs2, None)"
    "d' = announce_invitee env now name cfg (d\<lparr>d_fs := fst (os_Remove (invitation_path d cookie) fs2)\<rparr>)"
  using assms by (auto simp: handleInviteJoin_def Let_def split: sum.splits if_splits prod.splits option.splits)

lemma Remove_ok:
  "ok_of (os_ReadFile fs p) \<noteq> None \<Longrightarrow> \<not> fs_nowrite fs p \<Longrightarrow> snd (os_Remove p fs) = None"
  by (auto simp: ReadFile_ok os_Remove_def is_directory_def node_at_def split: option.splits node.splits if_splits)

lemma WriteFile_fields:
  assumes "os_WriteFile p data m fs = (fs', e)"
  shows "fs_nowrite fs' = fs_nowrite fs" "fs_noread fs' = fs_noread fs"
  using assms by (auto elim!: WriteFile_cases)

lemma join_files:
  assumes "handleInviteJoin env now cookie name cfg d = (d', Inr body)" and "quiet (d_fs d)"
    and "invitation_path d cookie \<noteq> HostFile (d_Paths d) name"
  shows "os_ReadFile (d_fs d') (HostFile (d_Paths d) name) = Inr cfg"
    and "ok_of (os_ReadFile (d_fs d') (invitation_path d cookie)) = None"
    and "q \<noteq> HostFile (d_Paths d) name \<Longrightarrow> q \<noteq> invitation_path d cookie \<Longrightarrow>
           ok_of (os_ReadFile (d_fs d') q) = ok_of (os_ReadFile (d_fs d) q)"
    and "d_Paths d' = d_Paths d" and "d_loaded d' = d_loaded d"
proof -
  obtain f fs1 fs2 where st: "os_ReadFile (d_fs d) (invitation_path d cookie) = Inr body"
    "os_MkdirAll (HostsDir (d_Paths d)) 448 (d_fs d) = (fs1, None)"
    "os_WriteFile (HostFile (d_Paths d) name) cfg 420 fs1 = (fs2, None)"
    "d' = announce_invitee env now name cfg (d\<lparr>d_fs := fst (os_Remove (invitation_path d cookie) fs2)\<rparr>)"
    using assms(1) by (rule join_steps)
  have fs1: "ok_of (os_ReadFile fs1 q) = ok_of (os_ReadFile (d_fs d) q)" "fs_noread fs1 = fs_noread (d_fs d)"
    "fs_nowrite fs1 = fs_nowrite (d_fs d)" for q
    using mkdirs_reads [of 448 "path_prefixes (HostsDir (d_Paths d))" "d_fs d"] st(2) by (simp_all add: os_MkdirAll_def)
  have "ok_of (os_ReadFile fs2 (invitation_path d cookie)) = Some body"
    using osf.store_other [OF st(3) assms(3)] fs1(1) st(1) by simp
  moreover have "\<not> fs_nowrite fs2 (invitation_path d cookie)"
    using WriteFile_fields [OF st(3)] fs1(3) assms(2) by (simp add: quiet_def)
  ultimately obtain fs3 where fs3: "os_Remove (invitation_path d cookie) fs2 = (fs3, None)"
    using Remove_ok [of fs2 "invitation_path d cookie"] by (cases "os_Remove (invitation_path d cookie) fs2") auto
  have fs: "d_fs d' = fs3" using st(4) fs3 by simp
  note r = osf.store_then_remove [OF st(3) _ fs3 assms(3)]
  have rd: "\<not> fs_noread fs1 (HostFile (d_Paths d) name)" using fs1(2) assms(2) by (simp add: quiet_def)
  from r(1) [OF rd] show "os_ReadFile (d_fs d') (HostFile (d_Paths d) name) = Inr cfg" by (simp add: fs)
  from r(2) [OF rd] show "ok_of (os_ReadFile (d_fs d') (invitation_path d cookie)) = None" by (simp add: fs)
  from r(3) [OF rd] fs1(1) show "q \<noteq> HostFile (d_Paths d) name \<Longrightarrow> q \<noteq> invitation_path d cookie \<Longrightarrow>
      ok_of (os_ReadFile (d_fs d') q) = ok_of (os_ReadFile (d_fs d) q)" by (simp add: fs)
  show "d_Paths d' = d_Paths d" "d_loaded d' = d_loaded d" using st(4) by simp_all
qed

lemma join_unknown:
  "ok_of (os_ReadFile (d_fs d) (invitation_path d cookie)) = None \<Longrightarrow>
     handleInviteGet cookie d = (d, Inl UnknownInvitation) \<and> handleInviteJoin env now cookie n h d = (d, Inl UnknownInvitation)"
  by (cases "os_ReadFile (d_fs d) (invitation_path d cookie)") (simp_all add: handleInviteGet_def handleInviteJoin_def Let_def)

text \<open>A message is verified with the key of its sender's host file, once there is one.\<close>

lemma onGossip_verifies:
  assumes "lookupPubKey (de_crypto env) d (env_Origin e) = Some pub" and "pub \<noteq> []"
  shows "snd (onGossip env e d) = Some (VerifyFailed (env_Kind e) (env_Origin e)) \<longleftrightarrow>
    \<not> Verify (de_crypto env) pub (SigningBytes e) (env_Signature e)"
  using assms by (auto simp: onGossip_def plane_call_def Receive_def verify_env_def bcast_result_def Let_def
      split: prod.splits bool.splits)

lemma invitation_not_host:
  "plain cookie \<Longrightarrow> plain name \<Longrightarrow> invitation_path d cookie \<noteq> HostFile (d_Paths d) name"
  by (simp add: invitation_path_def layout_simps)


text \<open>
  C13: the cookie is not checked to name an invitation. Whoever can reach the gossip port and asks for the
  invitation \<open>../ed25519_key.priv\<close> is answered with the daemon's private key, encrypted for the asker: the reply
  is the sealed content of the key file, and the asker's session key opens it.
\<close>

theorem cookie_discloses_private_key:
  assumes "session_correct sc" and "NewEphemeral sc ra = Some a" and "NewEphemeral sc rb = Some b"
    and "os_ReadFile (d_fs d) (Ed25519Private (d_Paths d)) = Inr pem"
  shows "\<exists>key ct. DeriveKey sc a (eph_Pub b) ''../ed25519_key.priv'' = Some key \<and> Open sc key ct = Some (str_bytes pem) \<and>
    se_reply (handleInbound (de_crypto env) sc etext rb (daemon_server env now jtext d)
      (get_command ''../ed25519_key.priv'' (eph_Pub a)) d) =
      ''OK '' @ EphemeralPubToBase64 (eph_Pub b) @ [SP] @
      StdEncode (Sign (de_crypto env) (l_EdPriv (d_loaded d)) (sigPayload (eph_Pub b) ''../ed25519_key.priv'')) @ [NL] @
      StdEncode ct @ [NL]"
proof -
  let ?ck = "''../ed25519_key.priv''"
  have "invitation_path d ?ck = Ed25519Private (d_Paths d)"
    using path_Join_up [of "''ed25519_key.priv''" "''invitations''" "NetDir (d_Paths d)"]
    by (simp add: invitation_path_def InvitationsDir_def Ed25519Private_def plain_layout)
  then have get: "handleInviteGet ?ck d = (d, Inr pem)" using assms(4) by (simp add: handleInviteGet_def)
  obtain key where key: "DeriveKey sc a (eph_Pub b) ?ck = Some key" "DeriveKey sc b (eph_Pub a) ?ck = Some key"
    "length key = 32" and len: "length (eph_Pub a) = 32"
    using session_key_agree [OF assms(1-3)] by metis
  obtain ct where ct: "Seal sc key (str_bytes pem) = Some ct" "Open sc key ct = Some (str_bytes pem)"
    by (rule Open_Seal [OF assms(1) key(3)])
  have tok: "token ?ck" by (rule token_ascii; simp add: ascii_def space_encs_def)
  let ?get = "\<lambda>cookie d. (\<lambda>(d', r). (d', case r of Inl e \<Rightarrow> Inl (jtext e) | Inr b \<Rightarrow> Inr (str_bytes b))) (handleInviteGet cookie d)"
  have cb: "ts_InviteGet (daemon_server env now jtext d) = Some ?get" "ts_EdPriv (daemon_server env now jtext d) = l_EdPriv (d_loaded d)"
    by (simp_all add: daemon_server_def Let_def)
  have "?get ?ck d = (d, Inr (str_bytes pem))" by (simp add: get)
  from inbound_get [OF tok len cb(1) this] have "se_reply (handleInbound (de_crypto env) sc etext rb (daemon_server env now jtext d)
      (get_command ?ck (eph_Pub a)) d) =
    encryptAndReply (de_crypto env) sc etext (l_EdPriv (d_loaded d)) rb ?ck (eph_Pub a) (str_bytes pem)"
    by (simp add: cb(2))
  then show ?thesis
    using key(1) ct by (intro exI [of _ key] exI [of _ ct]) (simp add: encryptAndReply_def assms(3) key ct)
qed

section \<open>The desired peers\<close>

definition known_key :: "crypto \<Rightarrow> 'r daemon \<Rightarrow> string \<Rightarrow> bytes option" where
  "known_key c d n =
     (case config_ParseFile (d_fs d) (HostFile (d_Paths d) n) of
        Inl _ \<Rightarrow> None
      | Inr es \<Rightarrow> (case GetFirst es ''WGPublicKey'' of None \<Rightarrow> None | Some v \<Rightarrow> wg_parse c v))"

lemma host_peer_Some:
  assumes "host_peer c d n = Some p"
  shows "pe_Name p = n" "n \<noteq> l_NodeName (d_loaded d)" "known_key c d n = Some (pe_WGPublic p)"
    "pe_AllowedIPs p = allowedIPsFor d (l_Mode (d_loaded d)) n (pe_UnderlayAddr p)"
    "IsValid (InnerAddrOf (d_plane d) n) \<Longrightarrow> pe_InnerAddr p = InnerAddrOf (d_plane d) n"
    "IsValid (UnderlayAddrOf (d_plane d) n) \<Longrightarrow> pe_UnderlayAddr p = UnderlayAddrOf (d_plane d) n"
    "ParseAddrPort (EndpointOf (d_plane d) n) = Some ap \<Longrightarrow> EndpointOf (d_plane d) n \<noteq> [] \<Longrightarrow> IsValid (ap_addr ap) \<Longrightarrow>
       pe_Endpoint p = ap"
  using assms
  by (auto simp: host_peer_def known_key_def peer_endpoint_def Let_def split: if_splits sum.splits option.splits)

lemma host_peer_None: "host_peer c d n = None \<longleftrightarrow> n = l_NodeName (d_loaded d) \<or> known_key c d n = None"
  by (auto simp: host_peer_def known_key_def Let_def split: sum.splits option.splits)

lemma set_map_filter: "set (List.map_filter f xs) = {y. \<exists>x \<in> set xs. f x = Some y}"
  by (induction xs) (auto simp: map_filter_simps split: option.splits)

lemma ip_prefix_Some: "ip_prefix s = Some x \<longleftrightarrow> (\<exists>sub. subnet_Parse s = Inr sub \<and> sn_MAC sub = None \<and> x = sn_Prefix sub)"
  by (cases "subnet_Parse s") (auto simp: ip_prefix_def)

lemma map_filter_names: "map pe_Name (List.map_filter (host_peer c d) ns) = filter (\<lambda>n. host_peer c d n \<noteq> None) ns"
  by (induction ns) (auto simp: map_filter_simps host_peer_Some(1) split: option.split)

text \<open>
  C14: the data plane is asked for the right peers. \<open>buildState\<close> lists every other node of the gossip graph whose
  host file has a valid WireGuard key, each once, with that key, and nobody else. What a peer announced (end
  point, inner and underlay address) takes precedence over its host file. In switch and hub mode WireGuard
  accepts from a peer its underlay address only; in router mode exactly the IP prefixes the peer has announced.
\<close>

theorem desired_peers:
  assumes "graph_inv (p_G (d_plane d))"
  shows "distinct (map pe_Name (ds_Peers (buildState c d))) \<and>
    set (map pe_Name (ds_Peers (buildState c d))) =
      {n. HasNode (p_G (d_plane d)) n \<and> n \<noteq> l_NodeName (d_loaded d) \<and> known_key c d n \<noteq> None} \<and>
    (p \<in> set (ds_Peers (buildState c d)) \<longrightarrow>
       known_key c d (pe_Name p) = Some (pe_WGPublic p) \<and>
       (\<forall>ap. ParseAddrPort (EndpointOf (d_plane d) (pe_Name p)) = Some ap \<and> EndpointOf (d_plane d) (pe_Name p) \<noteq> [] \<and>
          IsValid (ap_addr ap) \<longrightarrow> pe_Endpoint p = ap) \<and>
       (IsValid (InnerAddrOf (d_plane d) (pe_Name p)) \<longrightarrow> pe_InnerAddr p = InnerAddrOf (d_plane d) (pe_Name p)) \<and>
       (IsValid (UnderlayAddrOf (d_plane d) (pe_Name p)) \<longrightarrow> pe_UnderlayAddr p = UnderlayAddrOf (d_plane d) (pe_Name p)) \<and>
       (if l_Mode (d_loaded d) = ModeRouter
        then set (pe_AllowedIPs p) = {sn_Prefix sub | s sub. s \<in> set (NodeSubnets (p_G (d_plane d)) (pe_Name p)) \<and>
               subnet_Parse s = Inr sub \<and> sn_MAC sub = None}
        else pe_AllowedIPs p = (if IsValid (pe_UnderlayAddr p) then [PrefixFrom (pe_UnderlayAddr p) (BitLen (pe_UnderlayAddr p))] else [])))"
proof (intro conjI impI)
  let ?g = "p_G (d_plane d)"
  have ps: "ds_Peers (buildState c d) = List.map_filter (host_peer c d) (Nodes ?g)" by (simp add: buildState_def Let_def)
  have "distinct (Nodes ?g)" using assms by (simp add: graph_inv_def mwf_def Nodes_def)
  then show "distinct (map pe_Name (ds_Peers (buildState c d)))" by (simp add: ps map_filter_names)
  show "set (map pe_Name (ds_Peers (buildState c d))) =
      {n. HasNode ?g n \<and> n \<noteq> l_NodeName (d_loaded d) \<and> known_key c d n \<noteq> None}"
    unfolding ps map_filter_names by (auto simp: host_peer_None HasNode_def Nodes_def gm.keys_get)
  assume "p \<in> set (ds_Peers (buildState c d))"
  then obtain n where "host_peer c d n = Some p" by (auto simp: ps set_map_filter)
  with host_peer_Some [OF this] have p: "host_peer c d (pe_Name p) = Some p" by simp
  note f = host_peer_Some [OF p]
  show "known_key c d (pe_Name p) = Some (pe_WGPublic p)" by (rule f(3))
  show "\<forall>ap. ParseAddrPort (EndpointOf (d_plane d) (pe_Name p)) = Some ap \<and> EndpointOf (d_plane d) (pe_Name p) \<noteq> [] \<and>
      IsValid (ap_addr ap) \<longrightarrow> pe_Endpoint p = ap" using f(7) by blast
  show "pe_InnerAddr p = InnerAddrOf (d_plane d) (pe_Name p)" if "IsValid (InnerAddrOf (d_plane d) (pe_Name p))"
    using that by (rule f(5))
  show "pe_UnderlayAddr p = UnderlayAddrOf (d_plane d) (pe_Name p)" if "IsValid (UnderlayAddrOf (d_plane d) (pe_Name p))"
    using that by (rule f(6))
  show "if l_Mode (d_loaded d) = ModeRouter
        then set (pe_AllowedIPs p) = {sn_Prefix sub | s sub. s \<in> set (NodeSubnets ?g (pe_Name p)) \<and>
               subnet_Parse s = Inr sub \<and> sn_MAC sub = None}
        else pe_AllowedIPs p = (if IsValid (pe_UnderlayAddr p) then [PrefixFrom (pe_UnderlayAddr p) (BitLen (pe_UnderlayAddr p))] else [])"
    unfolding f(4) by (auto simp: allowedIPsFor_def set_map_filter ip_prefix_Some)
qed

section \<open>Purging unreachable nodes\<close>

lemma purge_steps:
  assumes "graph_inv g"
  shows "graph_inv (fold (\<lambda>n g. if n \<in> R then g else clear_edges n g) ns g) \<and>
    g_nodes (fold (\<lambda>n g. if n \<in> R then g else clear_edges n g) ns g) = g_nodes g \<and>
    adj_get (fold (\<lambda>n g. if n \<in> R then g else clear_edges n g) ns g) a b =
      (if a \<in> set ns - R \<or> b \<in> set ns - R then None else adj_get g a b)"
  using assms
proof (induction ns arbitrary: g)
  case (Cons n ns)
  show ?case
  proof (cases "n \<in> R")
    case True
    with Cons show ?thesis by auto
  next
    case False
    from Cons.IH [OF inv_clear_edges [OF Cons.prems, of n]] False show ?thesis
      by (auto simp: clear_edges_get [OF Cons.prems])
  qed
qed simp

lemma adj_node: "graph_inv g \<Longrightarrow> adj_get g a b \<noteq> None \<Longrightarrow> a \<in> set (Nodes g) \<and> b \<in> set (Nodes g)"
proof -
  assume inv: "graph_inv g" and ab: "adj_get g a b \<noteq> None"
  have "x \<in> set (Nodes g)" if "adj_get g x y \<noteq> None" for x y
  proof -
    have "mget (g_adj g) x \<noteq> None" using that by (auto simp: adj_get_def split: option.splits)
    then show ?thesis using inv by (simp add: graph_inv_def Nodes_def gm.keys_get set_eq_iff)
  qed
  with ab inv_both [OF inv ab] show ?thesis by blast
qed


section \<open>Fsck and load agree\<close>

abbreviation no_error :: "finding list \<Rightarrow> bool" where
  "no_error \<equiv> list_all (\<lambda>f. ff_Level f \<noteq> FsckError)"

definition entry_or_empty :: "entries \<Rightarrow> string \<Rightarrow> string" where
  "entry_or_empty es k = (case GetFirst es k of Some v \<Rightarrow> v | None \<Rightarrow> [])"

lemma Fsck_parts:
  assumes "no_error (Fsck c p fs)"
  obtains es name where "LoadDirectory fs (ConfFile p) = Inr es" "GetFirst es ''Name'' = Some name" "Validate name = None"
    "\<forall>s \<in> set (GetAll es ''Subnet''). is_ok (subnet_Parse s)"
    "no_error (checkPrivateKey fs (Ed25519Private p) ''Ed25519'' (\<lambda>b. err_of (ParseEd25519PrivatePEM c b)))"
    "no_error (checkPrivateKey fs (WGPrivate p) ''WireGuard'' (\<lambda>b. err_of (ParseWireGuardPrivate c (TrimSpace b))))"
    "no_error (check_host c fs p name)"
    "\<forall>t \<in> set (GetAll es ''ConnectTo''). no_error (check_connect fs p t)"
proof -
  have ld: "is_ok (LoadDirectory fs (ConfFile p))"
    using assms by (cases "LoadDirectory fs (ConfFile p)") (auto simp: Fsck_def Let_def split: sum.splits node.splits)
  then obtain es where es: "LoadDirectory fs (ConfFile p) = Inr es" by (cases "LoadDirectory fs (ConfFile p)") auto
  obtain name where n: "GetFirst es ''Name'' = Some name"
    using assms es by (cases "GetFirst es ''Name''") (auto simp: Fsck_def Let_def split: sum.splits node.splits)
  have v: "Validate name = None"
    using assms es n by (cases "Validate name") (auto simp: Fsck_def Let_def split: sum.splits node.splits)
  then have ne: "name \<noteq> []" by (auto simp: Validate_def)
  have parts: "no_error (concat (map (\<lambda>s. case subnet_Parse s of
        Inl e \<Rightarrow> [\<lparr>ff_Level = FsckError, ff_Path = ConfFile p, ff_Message = SubnetInvalid s e\<rparr>] | Inr _ \<Rightarrow> []) (GetAll es ''Subnet'')))"
    "no_error (checkPrivateKey fs (Ed25519Private p) ''Ed25519'' (\<lambda>b. err_of (ParseEd25519PrivatePEM c b)))"
    "no_error (checkPrivateKey fs (WGPrivate p) ''WireGuard'' (\<lambda>b. err_of (ParseWireGuardPrivate c (TrimSpace b))))"
    "no_error (check_host c fs p name)" "no_error (concat (map (check_connect fs p) (GetAll es ''ConnectTo'')))"
    using assms es n v ne by (auto simp: Fsck_def Let_def split: sum.splits node.splits)
  have "is_ok (subnet_Parse s)" if s: "s \<in> set (GetAll es ''Subnet'')" for s
    using parts(1) s by (cases "subnet_Parse s") (force simp: list_all_iff)+
  moreover have "no_error (check_connect fs p t)" if t: "t \<in> set (GetAll es ''ConnectTo'')" for t
    using parts(5) t by (auto simp: list_all_iff)
  ultimately show ?thesis using that es n v parts(2-4) by blast
qed

lemma err_of_None: "err_of r = None \<longleftrightarrow> (\<exists>x. r = Inr x)"
  by (cases r) (simp_all add: err_of_def)

lemma private_key_readable:
  assumes "no_error (checkPrivateKey fs q label parse)"
  obtains b where "os_ReadFile fs q = Inr b" "parse b = None"
proof (cases "os_ReadFile fs q")
  case (Inl e)
  with assms show ?thesis by (auto simp: checkPrivateKey_def Let_def split: sum.splits)
next
  case (Inr b)
  with assms have "parse b = None" by (cases "parse b") (auto simp: checkPrivateKey_def Let_def split: sum.splits)
  with Inr that show ?thesis by blast
qed

lemma load_subnets_ok: "(\<And>s. s \<in> set ss \<Longrightarrow> is_ok (subnet_Parse s)) \<Longrightarrow> \<exists>subs. load_subnets ss = Inr subs"
proof (induction ss)
  case (Cons s ss)
  then obtain sub subs where "subnet_Parse s = Inr sub" "load_subnets ss = Inr subs"
    by (cases "subnet_Parse s") (force)+
  then show ?case by simp
qed simp

text \<open>
  C20: what \<open>Fsck\<close> passes, the daemon can run. If \<open>Fsck\<close> reports no error, loading the configuration succeeds,
  unless the mode or one of the two addresses is malformed, which \<open>Fsck\<close> does not look at. The node that is
  loaded has a valid name, its host file carries the public halves of its two private keys, and every peer it
  is told to connect to has a valid name and a host file.
\<close>

theorem fsck_predicts_load:
  assumes "no_error (Fsck c p fs)"
  shows "case load_config c p fs of
    Inl e \<Rightarrow> (\<exists>v. e = UnknownMode v) \<or> (\<exists>k v. e = BadAddress k v)
  | Inr l \<Rightarrow> Validate (l_NodeName l) = None \<and>
      (\<exists>es. config_ParseFile fs (HostFile p (l_NodeName l)) = Inr es \<and>
         TrimSpace (entry_or_empty es ''Ed25519PublicKey'') = Ed_String (Ed_Public c (l_EdPriv l)) \<and>
         TrimSpace (entry_or_empty es ''WGPublicKey'') = WG_String c (WG_Public c (l_WGPriv l))) \<and>
      (\<forall>t \<in> set (GetAll (l_Conf l) ''ConnectTo''). Validate t = None \<and> is_ok (os_Stat fs (HostFile p t)))"
proof -
  obtain es name where es: "LoadDirectory fs (ConfFile p) = Inr es" "GetFirst es ''Name'' = Some name" "Validate name = None"
      "\<forall>s \<in> set (GetAll es ''Subnet''). is_ok (subnet_Parse s)"
    and ed: "no_error (checkPrivateKey fs (Ed25519Private p) ''Ed25519'' (\<lambda>b. err_of (ParseEd25519PrivatePEM c b)))"
    and wg: "no_error (checkPrivateKey fs (WGPrivate p) ''WireGuard'' (\<lambda>b. err_of (ParseWireGuardPrivate c (TrimSpace b))))"
    and host: "no_error (check_host c fs p name)"
    and peers: "\<forall>t \<in> set (GetAll es ''ConnectTo''). no_error (check_connect fs p t)"
    using assms by (rule Fsck_parts)
  obtain eb edPriv where ek: "os_ReadFile fs (Ed25519Private p) = Inr eb" "ParseEd25519PrivatePEM c eb = Inr edPriv"
    using ed by (rule private_key_readable) (auto simp: err_of_None)
  obtain wb wgPriv where wk: "os_ReadFile fs (WGPrivate p) = Inr wb" "ParseWireGuardPrivate c (TrimSpace wb) = Inr wgPriv"
    using wg by (rule private_key_readable) (auto simp: err_of_None)
  obtain subs where subs: "load_subnets (GetAll es ''Subnet'') = Inr subs" using load_subnets_ok es(4) by blast
  obtain hb hs where h: "os_ReadFile fs (HostFile p name) = Inr hb" "Parse hb = Inr hs"
    and m: "no_error (checkHostMatchesPrivate c fs (HostFile p name) hs (Ed25519Private p) (WGPrivate p))"
    using host by (auto simp: check_host_def Let_def split: sum.splits)
  have keys: "TrimSpace (entry_or_empty hs ''Ed25519PublicKey'') = Ed_String (Ed_Public c edPriv)"
    "TrimSpace (entry_or_empty hs ''WGPublicKey'') = WG_String c (WG_Public c wgPriv)"
    using m ek wk by (auto simp: entry_or_empty_def checkHostMatchesPrivate_def key_mismatch_def split: if_splits)
  have conn: "Validate t = None \<and> is_ok (os_Stat fs (HostFile p t))" if t: "t \<in> set (GetAll es ''ConnectTo'')" for t
    using bspec [OF peers t] by (cases "Validate t"; cases "os_Stat fs (HostFile p t)") (simp_all add: check_connect_def HostFile_def)
  have load: "load_keys c p fs = Inr (edPriv, wgPriv)" by (simp add: load_keys_def ek wk)
  have addr: "\<exists>k v. e = BadAddress k v" if "load_address es k = Inl e" for k e
    using that by (auto simp: load_address_def split: option.splits)
  have md: "\<exists>v. e = UnknownMode v" if "load_mode es = Inl e" for e
    using that by (auto simp: load_mode_def Let_def split: option.splits if_splits)
  show ?thesis
    using md addr keys conn es(3) h
    by (auto simp: load_config_def es load subs config_ParseFile_def Let_def split: sum.splits)
qed

section \<open>A concrete network\<close>

text \<open>\<open>alice\<close> has invited \<open>bob\<close> with the cookie \<open>ck\<close> and knows \<open>carol\<close> from a host file.\<close>

definition carol_host :: string where
  "carol_host = Render (host_entries toy_crypto [3] [4])"

definition alice_fs :: fsys where
  "alice_fs = \<lparr>fs_nodes =
       [((True, [''etc'']), Directory 493), ((True, [''etc'', ''gsnet'']), Directory 448),
        ((True, [''etc'', ''gsnet'', ''vpn'']), Directory 448),
        ((True, [''etc'', ''gsnet'', ''vpn'', ''hosts'']), Directory 448),
        ((True, [''etc'', ''gsnet'', ''vpn'', ''invitations'']), Directory 448),
        ((True, [''etc'', ''gsnet'', ''vpn'', ''ed25519_key.priv'']), Regular 384 ''secret''),
        ((True, [''etc'', ''gsnet'', ''vpn'', ''invitations'', ''ck'']), Regular 384 (file_Render inviter_file)),
        ((True, [''etc'', ''gsnet'', ''vpn'', ''hosts'', ''carol'']), Regular 420 carol_host)],
     fs_umask = 18, fs_noread = (\<lambda>_. False), fs_nowrite = (\<lambda>_. False), fs_full = (\<lambda>_. False)\<rparr>"

definition alice_loaded :: loaded where
  "alice_loaded = \<lparr>l_NodeName = ''alice'', l_Conf = [], l_EdPriv = [1], l_WGPriv = [2], l_Mode = ModeSwitch, l_WGInterface = ''wg0'',
     l_WGListenPort = 51820, l_VXLANIface = ''vx0'', l_VXLANID = 42, l_VXLANPort = 4789, l_MTU = 1420, l_InnerAddr = NoPrefix,
     l_UnderlayAddr = NoPrefix, l_Subnets = []\<rparr>"

definition alice_daemon :: "unit daemon" where
  "alice_daemon = \<lparr>d_Paths = etc_gsnet, d_fs = alice_fs, d_loaded = alice_loaded,
     d_plane = NewPlane ''alice'' (AddNode ''dave'' (AddNode ''carol'' (AddNode ''alice'' New))), d_endpoint = NoAddrPort,
     d_rec = (), d_sent = [], d_exited = False\<rparr>"

definition alice_env :: "unit denv" where
  "alice_env = \<lparr>de_crypto = toy_crypto, de_berr = (\<lambda>_. None), de_reconcile = None, de_stats = None, de_etext = (\<lambda>_. [])\<rparr>"

lemma alice_paths:
  "InvitationsDir etc_gsnet = (True, [''etc'', ''gsnet'', ''vpn'', ''invitations''])"
  "HostsDir etc_gsnet = (True, [''etc'', ''gsnet'', ''vpn'', ''hosts''])"
  "Ed25519Private etc_gsnet = (True, [''etc'', ''gsnet'', ''vpn'', ''ed25519_key.priv''])"
  "plain n \<Longrightarrow> HostFile etc_gsnet n = (True, [''etc'', ''gsnet'', ''vpn'', ''hosts'', n])"
  "plain n \<Longrightarrow> invitation_path alice_daemon n = (True, [''etc'', ''gsnet'', ''vpn'', ''invitations'', n])"
  by (simp_all add: layout_simps etc_gsnet_dir invitation_path_def alice_daemon_def)

lemma plain_names: "plain ''ck''" "plain ''bob''" "plain ''carol''" "plain ''dave''" "plain ''alice''"
  by (simp_all add: plain_def)

lemma alice_join:
  "\<exists>d'. handleInviteJoin alice_env 5 ''ck'' ''bob'' cfg alice_daemon = (d', Inr (file_Render inviter_file))"
proof -
  let ?hosts = "(True, [''etc'', ''gsnet'', ''vpn'', ''hosts''])"
  have body: "os_ReadFile alice_fs (invitation_path alice_daemon ''ck'') = Inr (file_Render inviter_file)"
    by (simp add: alice_paths plain_names os_ReadFile_def node_at_def alice_fs_def mget_def)
  have "\<forall>q \<in> set (path_prefixes ?hosts). is_directory alice_fs q"
    by (simp add: path_prefixes_def upt_rec is_directory_def node_at_def alice_fs_def mget_def)
  then have mk: "os_MkdirAll (HostsDir etc_gsnet) 448 alice_fs = (alice_fs, None)"
    by (simp add: os_MkdirAll_def mkdirs_noop alice_paths)
  obtain fs2 where wr: "os_WriteFile (HostFile etc_gsnet ''bob'') cfg 420 alice_fs = (fs2, None)"
    by (simp add: alice_paths plain_names os_WriteFile_def fs_create_def fs_store_def path_Dir_def is_directory_def node_at_def
        alice_fs_def mget_def)
  have "ok_of (ParseFile (file_Render inviter_file)) = Some inviter_file" by (rule ifile.dec_enc [OF inviter_file_ok])
  then have "ParseFile (file_Render inviter_file) = Inr inviter_file" by simp
  moreover have "b_Name (f_Invitee inviter_file) = ''bob''" by (simp add: inviter_file_def)
  moreover have "d_fs alice_daemon = alice_fs" "d_Paths alice_daemon = etc_gsnet" by (simp_all add: alice_daemon_def)
  ultimately show ?thesis using body mk wr by (simp add: handleInviteJoin_def Let_def)
qed


theorem cookie_discloses_private_key_witness:
  "\<exists>key ct. DeriveKey toy_session \<lparr>eph_Pub = pad32 [3], eph_priv = [3]\<rparr> (pad32 [4]) ''../ed25519_key.priv'' = Some key \<and>
     Open toy_session key ct = Some (str_bytes ''secret'')"
proof -
  have "os_ReadFile (d_fs alice_daemon) (Ed25519Private (d_Paths alice_daemon)) = Inr ''secret''"
    by (simp add: alice_daemon_def alice_paths os_ReadFile_def node_at_def alice_fs_def mget_def)
  from cookie_discloses_private_key [OF toy_session_correct toy_ephemeral toy_ephemeral this, of "[3]" "[4]"]
  show ?thesis by fastforce
qed

theorem desired_peers_witness:
  "distinct (map pe_Name (ds_Peers (buildState toy_crypto alice_daemon))) \<and>
   set (map pe_Name (ds_Peers (buildState toy_crypto alice_daemon))) = {''carol''}"
proof -
  have g: "p_G (d_plane alice_daemon) = AddNode ''dave'' (AddNode ''carol'' (AddNode ''alice'' New))"
    by (simp add: alice_daemon_def NewPlane_def)
  have "graph_inv (p_G (d_plane alice_daemon))" unfolding g by (simp add: AddNode_def inv_ensureNode inv_New)
  note d = desired_peers [OF this, of toy_crypto]
  have nodes: "HasNode (p_G (d_plane alice_daemon)) n \<longleftrightarrow> n \<in> {''alice'', ''carol'', ''dave''}" for n
    unfolding g by (auto simp: HasNode_def AddNode_def ensureNode_def New_def)
  have rd: "os_ReadFile alice_fs (HostFile etc_gsnet ''dave'') = Inl (unresolved alice_fs (HostFile etc_gsnet ''dave''))"
    "os_ReadFile alice_fs (HostFile etc_gsnet ''carol'') = Inr carol_host"
    by (simp_all add: alice_paths plain_names os_ReadFile_def node_at_def alice_fs_def mget_def)
  have f: "d_fs alice_daemon = alice_fs" "d_Paths alice_daemon = etc_gsnet" "l_NodeName (d_loaded alice_daemon) = ''alice''"
    by (simp_all add: alice_daemon_def alice_loaded_def)
  have "known_key toy_crypto alice_daemon ''dave'' = None" by (simp add: known_key_def f config_ParseFile_def rd)
  moreover have "wg_parse toy_crypto (WG_String toy_crypto (WG_Public toy_crypto [4])) \<noteq> None"
    using toy_correct(4) by (simp add: wg_correct_def WG_String_def WG_Public_def)
  then have "known_key toy_crypto alice_daemon ''carol'' \<noteq> None"
    by (simp add: known_key_def f config_ParseFile_def rd carol_host_def Parse_Render host_entries_ok [OF toy_correct(1,4)])
  ultimately have "{n. HasNode (p_G (d_plane alice_daemon)) n \<and> n \<noteq> l_NodeName (d_loaded alice_daemon) \<and>
      known_key toy_crypto alice_daemon n \<noteq> None} = {''carol''}" by (auto simp: nodes f(3))
  with d show ?thesis by metis
qed


theorem fsck_predicts_load_witness:
  "\<exists>fs'. Init toy_crypto (Some [1]) (Some (replicate 32 2)) etc_gsnet ''alice'' new_machine = (fs', None) \<and>
     (case load_config toy_crypto etc_gsnet fs' of
        Inl e \<Rightarrow> (\<exists>v. e = UnknownMode v) \<or> (\<exists>k v. e = BadAddress k v)
      | Inr l \<Rightarrow> Validate (l_NodeName l) = None)"
proof -
  have "Validate ''alice'' = None" by code_simp
  then obtain fs' where i: "Init toy_crypto (Some [1]) (Some (replicate 32 2)) etc_gsnet ''alice'' new_machine = (fs', None)"
    and f: "Fsck toy_crypto etc_gsnet fs' = []"
    using Init_sound [of "''alice''" new_machine etc_gsnet toy_crypto "replicate 32 2" "[1]"] new_machine_ok toy_correct by auto
  have "no_error (Fsck toy_crypto etc_gsnet fs')" by (simp add: f)
  from fsck_predicts_load [OF this] i show ?thesis by (auto split: sum.splits)
qed

end
