(* ===== verification/Sandbox.thy ===== *)
theory Sandbox
  imports Daemon
begin

text \<open>
  Package \<open>sandbox\<close> and the daemon's use of it, \<open>applySandbox\<close> of \<open>daemon.go\<close>: the levels, the order in which
  privileges are dropped (\<open>sandbox_linux.go\<close>) and the Landlock rules (\<open>landlock_linux.go\<close>).

  A system call is a value of \<open>syscall\<close>; what the kernel answers is the argument \<open>fails\<close>. An operation yields the
  calls it made, in order, and its error. The Landlock rights are those of the kernel's interface; \<open>confine\<close> is
  the documented effect of a ruleset on the files of the process.
\<close>

unbundle bit_operations_syntax

section \<open>Levels\<close>

datatype sandbox_level = LevelOff | LevelNormal | LevelHigh

definition ParseLevel :: "string \<Rightarrow> (string, sandbox_level) result" where
  "ParseLevel s =
     (if s = [] \<or> s = ''off'' then Inr LevelOff
      else if s = ''normal'' then Inr LevelNormal
      else if s = ''high'' then Inr LevelHigh
      else Inl s)"

record options =
  op_Level :: sandbox_level
  op_User :: string
  op_ConfDir :: "path option"     \<comment> \<open>\<open>None\<close>: the empty string\<close>
  op_WritePaths :: "path list"

section \<open>System calls\<close>

datatype syscall =
    CreateRuleset "64 word"
  | OpenPath path
  | AddRule path "64 word"
  | NoNewPrivs
  | RestrictSelf
  | Chdir path
  | LookupUser string
  | Setgid int
  | Setuid int

datatype sandbox_error = UnknownLevel string | NoLandlock | CallFailed syscall | BadUserId string

fun run_calls :: "(syscall \<Rightarrow> bool) \<Rightarrow> syscall list \<Rightarrow> syscall list \<times> sandbox_error option" where
  "run_calls fails [] = ([], None)"
| "run_calls fails (c # cs) =
     (if fails c then ([c], Some (CallFailed c))
      else (case run_calls fails cs of (tr, e) \<Rightarrow> (c # tr, e)))"

definition then_calls ::
    "syscall list \<times> sandbox_error option \<Rightarrow> syscall list \<times> sandbox_error option \<Rightarrow> syscall list \<times> sandbox_error option" where
  "then_calls r s = (case r of (tr, Some e) \<Rightarrow> (tr, Some e) | (tr, None) \<Rightarrow> (case s of (tr', e) \<Rightarrow> (tr @ tr', e)))"

section \<open>Landlock\<close>

definition FS_EXECUTE :: "64 word" where "FS_EXECUTE = 1"
definition FS_WRITE_FILE :: "64 word" where "FS_WRITE_FILE = 2"
definition FS_READ_FILE :: "64 word" where "FS_READ_FILE = 4"
definition FS_READ_DIR :: "64 word" where "FS_READ_DIR = 8"
definition FS_REMOVE_DIR :: "64 word" where "FS_REMOVE_DIR = 16"
definition FS_REMOVE_FILE :: "64 word" where "FS_REMOVE_FILE = 32"
definition FS_MAKE_CHAR :: "64 word" where "FS_MAKE_CHAR = 64"
definition FS_MAKE_DIR :: "64 word" where "FS_MAKE_DIR = 128"
definition FS_MAKE_REG :: "64 word" where "FS_MAKE_REG = 256"
definition FS_MAKE_SOCK :: "64 word" where "FS_MAKE_SOCK = 512"
definition FS_MAKE_FIFO :: "64 word" where "FS_MAKE_FIFO = 1024"
definition FS_MAKE_BLOCK :: "64 word" where "FS_MAKE_BLOCK = 2048"
definition FS_MAKE_SYM :: "64 word" where "FS_MAKE_SYM = 4096"
definition FS_REFER :: "64 word" where "FS_REFER = 8192"
definition FS_TRUNCATE :: "64 word" where "FS_TRUNCATE = 16384"

lemmas fs_rights = FS_EXECUTE_def FS_WRITE_FILE_def FS_READ_FILE_def FS_READ_DIR_def FS_REMOVE_DIR_def FS_REMOVE_FILE_def
  FS_MAKE_CHAR_def FS_MAKE_DIR_def FS_MAKE_REG_def FS_MAKE_SOCK_def FS_MAKE_FIFO_def FS_MAKE_BLOCK_def FS_MAKE_SYM_def
  FS_REFER_def FS_TRUNCATE_def

text \<open>The rights a ruleset handles, by the version of the kernel interface.\<close>

definition handled_access :: "int \<Rightarrow> 64 word" where
  "handled_access abi =
     (let access = FS_EXECUTE OR FS_WRITE_FILE OR FS_READ_FILE OR FS_READ_DIR OR FS_REMOVE_DIR OR FS_REMOVE_FILE OR
            FS_MAKE_CHAR OR FS_MAKE_DIR OR FS_MAKE_REG OR FS_MAKE_SOCK OR FS_MAKE_FIFO OR FS_MAKE_BLOCK OR FS_MAKE_SYM;
          access = (if abi \<ge> 2 then access OR FS_REFER else access)
      in if abi \<ge> 3 then access OR FS_TRUNCATE else access)"

definition readAccess :: "64 word" where
  "readAccess = FS_READ_FILE OR FS_READ_DIR"

definition writeAccess :: "int \<Rightarrow> 64 word" where
  "writeAccess abi =
     (let w = readAccess OR FS_WRITE_FILE OR FS_MAKE_REG OR FS_REMOVE_FILE
      in if abi \<ge> 3 then w OR FS_TRUNCATE else w)"

definition addRule :: "path \<Rightarrow> 64 word \<Rightarrow> syscall list" where
  "addRule p m = [OpenPath p, AddRule p m]"

text \<open>\<open>present p\<close>: the path exists, as far as \<open>os.Stat\<close> can tell.\<close>

definition applyLandlock ::
    "int \<Rightarrow> (syscall \<Rightarrow> bool) \<Rightarrow> (path \<Rightarrow> bool) \<Rightarrow> path option \<Rightarrow> path list \<Rightarrow> syscall list \<times> sandbox_error option" where
  "applyLandlock abi fails present confDir writePaths =
     (if abi = 0 then ([], Some NoLandlock)
      else run_calls fails
        ([CreateRuleset (handled_access abi)] @ (case confDir of Some p \<Rightarrow> addRule p readAccess | None \<Rightarrow> []) @
         concat (map (\<lambda>p. addRule p (writeAccess abi)) (filter present writePaths)) @
         [NoNewPrivs, RestrictSelf]))"

section \<open>Dropping privileges\<close>

text \<open>\<open>userDB\<close>: the numeric user and group of a name, as text.\<close>

definition setuidTo ::
    "(syscall \<Rightarrow> bool) \<Rightarrow> (string \<Rightarrow> (string \<times> string) option) \<Rightarrow> string \<Rightarrow> syscall list \<times> sandbox_error option" where
  "setuidTo fails userDB name =
     (case userDB name of
        None \<Rightarrow> ([LookupUser name], Some (CallFailed (LookupUser name)))
      | Some (u, g) \<Rightarrow>
          (case Atoi u of
             None \<Rightarrow> ([LookupUser name], Some (BadUserId u))
           | Some uid \<Rightarrow>
               (case Atoi g of
                  None \<Rightarrow> ([LookupUser name], Some (BadUserId g))
                | Some gid \<Rightarrow> then_calls ([LookupUser name], None) (run_calls fails [Setgid gid, Setuid uid]))))"

definition sandbox_Apply ::
    "int \<Rightarrow> (syscall \<Rightarrow> bool) \<Rightarrow> (path \<Rightarrow> bool) \<Rightarrow> (string \<Rightarrow> (string \<times> string) option) \<Rightarrow> options \<Rightarrow>
       syscall list \<times> sandbox_error option" where
  "sandbox_Apply abi fails present userDB opts =
     (if op_Level opts = LevelOff then ([], None)
      else
        then_calls
          (if op_Level opts = LevelHigh then applyLandlock abi fails present (op_ConfDir opts) (op_WritePaths opts) else ([], None))
        (then_calls
          (run_calls fails (case op_ConfDir opts of Some p \<Rightarrow> [Chdir p] | None \<Rightarrow> []))
          (if op_User opts \<noteq> [] then setuidTo fails userDB (op_User opts) else ([], None))))"

text \<open>On other systems (\<open>sandbox_other.go\<close>).\<close>

definition sandbox_Apply_other :: "options \<Rightarrow> string option" where
  "sandbox_Apply_other opts =
     (if op_Level opts \<noteq> LevelOff then Some ''sandbox: Linux only; set Sandbox=off on this platform'' else None)"

definition conf_dir :: "paths \<Rightarrow> path option" where
  "conf_dir p = (if pa_ConfRoot p = [] \<and> pa_Netname p = [] then None else Some (NetDir p))"

definition present_in :: "fsys \<Rightarrow> path \<Rightarrow> bool" where
  "present_in fs p = (case os_Stat fs p of Inl e \<Rightarrow> \<not> IsNotExist e | Inr _ \<Rightarrow> True)"

definition sandbox_options :: "string \<Rightarrow> 'r daemon \<Rightarrow> (sandbox_error, options) result" where
  "sandbox_options runDir d =
     (let conf = l_Conf (d_loaded d)
      in case ParseLevel (ToLower (entry_or_empty conf ''Sandbox'')) of
           Inl s \<Rightarrow> Inl (UnknownLevel s)
         | Inr level \<Rightarrow>
             Inr \<lparr>op_Level = level, op_User = entry_or_empty conf ''User'', op_ConfDir = conf_dir (d_Paths d),
                  op_WritePaths = (if runDir = [] then [] else [path_Clean runDir]) @ [InvitationsDir (d_Paths d)]\<rparr>)"

definition applySandbox ::
    "int \<Rightarrow> (syscall \<Rightarrow> bool) \<Rightarrow> (string \<Rightarrow> (string \<times> string) option) \<Rightarrow> string \<Rightarrow> 'r daemon \<Rightarrow> syscall list \<times> sandbox_error option" where
  "applySandbox abi fails userDB runDir d =
     (case sandbox_options runDir d of
        Inl e \<Rightarrow> ([], Some e)
      | Inr opts \<Rightarrow> sandbox_Apply abi fails (present_in (d_fs d)) userDB opts)"

section \<open>What a ruleset allows\<close>

definition rules_of :: "syscall list \<Rightarrow> (path \<times> 64 word) list" where
  "rules_of tr = List.map_filter (\<lambda>c. case c of AddRule p m \<Rightarrow> Some (p, m) | _ \<Rightarrow> None) tr"

definition granted :: "(path \<times> 64 word) list \<Rightarrow> path \<Rightarrow> 64 word" where
  "granted rules p = foldr (\<lambda>(q, m) acc. if q = p \<or> beneath q p then m OR acc else acc) rules 0"

text \<open>The file system as the confined process sees it: reading needs the right to read, every change one of the rights to write.\<close>

definition confine :: "syscall list \<Rightarrow> fsys \<Rightarrow> fsys" where
  "confine tr fs =
     (if RestrictSelf \<in> set tr then
        fs\<lparr>fs_noread := (\<lambda>p. fs_noread fs p \<or> granted (rules_of tr) p AND FS_READ_FILE = 0),
           fs_nowrite := (\<lambda>p. fs_nowrite fs p \<or>
             granted (rules_of tr) p AND (FS_WRITE_FILE OR FS_MAKE_REG OR FS_REMOVE_FILE) = 0)\<rparr>
      else fs)"

section \<open>Properties\<close>

lemma run_calls_ok: "run_calls fails cs = (tr, None) \<Longrightarrow> tr = cs \<and> (\<forall>c \<in> set cs. \<not> fails c)"
  by (induction cs arbitrary: tr) (auto split: if_splits prod.splits)

lemma then_calls_ok:
  "snd (then_calls r s) = None \<longleftrightarrow> snd r = None \<and> snd s = None"
  "snd r = None \<Longrightarrow> fst (then_calls r s) = fst r @ fst s"
  by (cases r; cases "snd r"; cases s; simp add: then_calls_def)+

definition rule_calls :: "int \<Rightarrow> path option \<Rightarrow> path list \<Rightarrow> syscall list" where
  "rule_calls abi confDir ws =
     [CreateRuleset (handled_access abi)] @ (case confDir of Some p \<Rightarrow> addRule p readAccess | None \<Rightarrow> []) @
     concat (map (\<lambda>p. addRule p (writeAccess abi)) ws) @ [NoNewPrivs, RestrictSelf]"

definition user_calls :: "string \<Rightarrow> syscall list \<Rightarrow> bool" where
  "user_calls u tr \<longleftrightarrow> (if u = [] then tr = [] else \<exists>uid gid. tr = [LookupUser u, Setgid gid, Setuid uid])"

text \<open>The calls of a successful \<open>Apply\<close> at the level high.\<close>

lemma Apply_high:
  assumes "sandbox_Apply abi fails present userDB opts = (tr, None)" and "op_Level opts = LevelHigh"
  obtains us where "tr = rule_calls abi (op_ConfDir opts) (filter present (op_WritePaths opts)) @
      (case op_ConfDir opts of Some p \<Rightarrow> [Chdir p] | None \<Rightarrow> []) @ us" "user_calls (op_User opts) us"
proof -
  let ?land = "applyLandlock abi fails present (op_ConfDir opts) (op_WritePaths opts)"
  let ?cd = "run_calls fails (case op_ConfDir opts of Some p \<Rightarrow> [Chdir p] | None \<Rightarrow> [])"
  let ?us = "if op_User opts \<noteq> [] then setuidTo fails userDB (op_User opts) else ([], None)"
  have ok: "snd ?land = None" "snd ?cd = None" "snd ?us = None" and tr: "tr = fst ?land @ fst ?cd @ fst ?us"
  proof -
    have ap: "sandbox_Apply abi fails present userDB opts = then_calls ?land (then_calls ?cd ?us)"
      unfolding sandbox_Apply_def using assms(2) by (simp only: sandbox_level.distinct if_True if_False simp_thms)
    have "snd (then_calls ?land (then_calls ?cd ?us)) = None" "tr = fst (then_calls ?land (then_calls ?cd ?us))"
      using assms(1) unfolding ap by (metis snd_conv, metis fst_conv)
    then show "snd ?land = None" "snd ?cd = None" "snd ?us = None" "tr = fst ?land @ fst ?cd @ fst ?us"
      by (simp_all only: then_calls_ok)
  qed
  have "fst ?land = rule_calls abi (op_ConfDir opts) (filter present (op_WritePaths opts))"
  proof (cases "abi = 0")
    case False
    then have "?land = run_calls fails (rule_calls abi (op_ConfDir opts) (filter present (op_WritePaths opts)))"
      by (simp add: applyLandlock_def rule_calls_def)
    with ok(1) run_calls_ok show ?thesis by (metis prod.collapse)
  qed (use ok(1) in \<open>simp add: applyLandlock_def\<close>)
  moreover have "fst ?cd = (case op_ConfDir opts of Some p \<Rightarrow> [Chdir p] | None \<Rightarrow> [])"
    using ok(2) run_calls_ok by (metis prod.collapse)
  moreover have "user_calls (op_User opts) (fst ?us)"
    using ok(3) by (auto simp: user_calls_def setuidTo_def then_calls_def split: option.splits prod.splits if_splits)
  ultimately show ?thesis using tr that by metis
qed

lemma rules_of_append [simp]: "rules_of (a @ b) = rules_of a @ rules_of b"
  by (induction a) (auto simp: rules_of_def map_filter_simps split: syscall.split)

lemma rules_of_simps [simp]:
  "rules_of [] = []" "rules_of (AddRule p m # cs) = (p, m) # rules_of cs" "rules_of (CreateRuleset w # cs) = rules_of cs"
  "rules_of (OpenPath p # cs) = rules_of cs" "rules_of (NoNewPrivs # cs) = rules_of cs" "rules_of (RestrictSelf # cs) = rules_of cs"
  "rules_of (Chdir p # cs) = rules_of cs" "rules_of (LookupUser u # cs) = rules_of cs" "rules_of (Setgid g # cs) = rules_of cs"
  "rules_of (Setuid i # cs) = rules_of cs"
  by (simp_all add: rules_of_def map_filter_simps)

lemma rules_of_writes: "rules_of (concat (map (\<lambda>p. addRule p m) ws)) = map (\<lambda>p. (p, m)) ws"
  by (induction ws) (simp_all add: addRule_def)

lemma rules_of_high:
  assumes "user_calls u us"
  shows "rules_of (rule_calls abi conf ws @ (case conf of Some p \<Rightarrow> [Chdir p] | None \<Rightarrow> []) @ us) =
    (case conf of Some p \<Rightarrow> [(p, readAccess)] | None \<Rightarrow> []) @ map (\<lambda>p. (p, writeAccess abi)) ws"
proof -
  have "rules_of us = []" using assms by (auto simp: user_calls_def split: if_splits)
  then show ?thesis by (cases conf) (simp_all add: rule_calls_def rules_of_writes, simp add: addRule_def)
qed

lemma granted_subset:
  "(\<And>q m. (q, m) \<in> set rules \<Longrightarrow> q = p \<or> beneath q p \<Longrightarrow> m AND w = 0) \<Longrightarrow> granted rules p AND w = 0"
proof (induction rules)
  case (Cons r rules)
  obtain q m where r: "r = (q, m)" by (cases r)
  have "granted rules p AND w = 0" using Cons by auto
  moreover have "m AND w = 0" if "q = p \<or> beneath q p" using that Cons.prems [of q m] by (simp add: r)
  moreover have "granted (r # rules) p = (if q = p \<or> beneath q p then m OR granted rules p else granted rules p)"
    by (simp add: granted_def r)
  ultimately show ?case by (simp add: bit.conj_disj_distrib2)
qed (simp add: granted_def)

definition writeBits :: "64 word" where
  "writeBits = FS_WRITE_FILE OR FS_MAKE_REG OR FS_REMOVE_FILE"

lemma access_masks:
  "readAccess AND writeBits = 0" "readAccess AND FS_EXECUTE = 0" "writeAccess abi AND FS_EXECUTE = 0"
  "readAccess AND NOT (handled_access abi) = 0" "writeAccess abi AND NOT (handled_access abi) = 0"
  by (simp_all add: readAccess_def writeAccess_def writeBits_def handled_access_def fs_rights Let_def)

lemma options_fields:
  assumes "sandbox_options runDir d = Inr opts"
  shows "op_ConfDir opts = conf_dir (d_Paths d)" "op_User opts = entry_or_empty (l_Conf (d_loaded d)) ''User''"
    "set (op_WritePaths opts) \<subseteq> {path_Clean runDir, InvitationsDir (d_Paths d)}"
    "ParseLevel (ToLower (entry_or_empty (l_Conf (d_loaded d)) ''Sandbox'')) = Inr (op_Level opts)"
  using assms by (auto simp: sandbox_options_def Let_def split: sum.splits if_splits)

lemma high_calls:
  assumes "applySandbox abi fails userDB runDir d = (tr, None)"
    and "ParseLevel (ToLower (entry_or_empty (l_Conf (d_loaded d)) ''Sandbox'')) = Inr LevelHigh"
  obtains pre us where "tr = pre @ us" "RestrictSelf \<in> set pre" "user_calls (entry_or_empty (l_Conf (d_loaded d)) ''User'') us"
    "set (rules_of tr) \<subseteq> {(NetDir (d_Paths d), readAccess), (path_Clean runDir, writeAccess abi),
      (InvitationsDir (d_Paths d), writeAccess abi)}"
proof -
  obtain opts where o: "sandbox_options runDir d = Inr opts"
    and ap: "sandbox_Apply abi fails (present_in (d_fs d)) userDB opts = (tr, None)"
    using assms(1) by (auto simp: applySandbox_def split: sum.splits)
  note f = options_fields [OF o]
  have "op_Level opts = LevelHigh" using f(4) assms(2) by simp
  from Apply_high [OF ap this] obtain us
    where tr: "tr = rule_calls abi (op_ConfDir opts) (filter (present_in (d_fs d)) (op_WritePaths opts)) @
      (case op_ConfDir opts of Some p \<Rightarrow> [Chdir p] | None \<Rightarrow> []) @ us" and us: "user_calls (op_User opts) us" by blast
  have "RestrictSelf \<in> set (rule_calls abi conf ws)" for conf ws by (simp add: rule_calls_def)
  moreover have "set (rules_of tr) \<subseteq> {(NetDir (d_Paths d), readAccess), (path_Clean runDir, writeAccess abi),
      (InvitationsDir (d_Paths d), writeAccess abi)}"
    unfolding tr rules_of_high [OF us] using f(1,3) by (auto simp: conf_dir_def split: option.splits if_splits)
  ultimately show ?thesis using that us f(2) tr by (metis append_assoc in_set_conv_decomp_first append_Cons set_append UnI1)
qed


lemma WriteFile_denied: "fs_nowrite fs p \<Longrightarrow> snd (os_WriteFile p data m fs) \<noteq> None"
  by (simp add: os_WriteFile_def fs_create_def split: option.split node.split)

lemma join_denied:
  assumes "fs_nowrite (d_fs d) (HostFile (d_Paths d) name)"
  shows "\<not> is_ok (snd (handleInviteJoin env now cookie name cfg d))"
proof
  assume "is_ok (snd (handleInviteJoin env now cookie name cfg d))"
  then obtain d' body where "handleInviteJoin env now cookie name cfg d = (d', Inr body)"
    by (cases "handleInviteJoin env now cookie name cfg d"; cases "snd (handleInviteJoin env now cookie name cfg d)") auto
  then obtain fs1 fs2 where mk: "os_MkdirAll (HostsDir (d_Paths d)) 448 (d_fs d) = (fs1, None)"
    and wr: "os_WriteFile (HostFile (d_Paths d) name) cfg 420 fs1 = (fs2, None)" by (rule join_steps)
  have "fs_nowrite fs1 = fs_nowrite (d_fs d)"
    using mkdirs_reads [of 448 "path_prefixes (HostsDir (d_Paths d))" "d_fs d"] mk by (simp add: os_MkdirAll_def)
  with assms wr WriteFile_denied [of fs1 "HostFile (d_Paths d) name" cfg 420] show False by simp
qed


text \<open>\<open>alice\<close> with \<open>Sandbox = High\<close> and a user, on a kernel with the third version of Landlock.\<close>

definition confined_alice :: "unit daemon" where
  "confined_alice = alice_daemon\<lparr>d_loaded := alice_loaded\<lparr>l_Conf :=
     [\<lparr>Key = ''Sandbox'', Value = ''High''\<rparr>, \<lparr>Key = ''User'', Value = ''gsnet''\<rparr>]\<rparr>\<rparr>"

definition confined_calls :: "syscall list" where
  "confined_calls = fst (applySandbox 3 (\<lambda>_. False) (\<lambda>_. Some (''999'', ''998'')) ''/run'' confined_alice)"

lemma confined_ok:
  "applySandbox 3 (\<lambda>_. False) (\<lambda>_. Some (''999'', ''998'')) ''/run'' confined_alice = (confined_calls, None)"
  "ParseLevel (ToLower (entry_or_empty (l_Conf (d_loaded confined_alice)) ''Sandbox'')) = Inr LevelHigh"
proof -
  have "snd (applySandbox 3 (\<lambda>_. False) (\<lambda>_. Some (''999'', ''998'')) ''/run'' confined_alice) = None" by code_simp
  then show "applySandbox 3 (\<lambda>_. False) (\<lambda>_. Some (''999'', ''998'')) ''/run'' confined_alice = (confined_calls, None)"
    by (simp add: confined_calls_def prod_eq_iff)
  show "ParseLevel (ToLower (entry_or_empty (l_Conf (d_loaded confined_alice)) ''Sandbox'')) = Inr LevelHigh" by code_simp
qed



end
