(* ===== verification/Cli.thy ===== *)
theory Cli
  imports Daemon
begin

text \<open>
  The command line tool, \<open>cmd/gsnet/main.go\<close>. A command works on the file system and returns what it prints or an
  error; the network is a function from the request of a connection to the bytes received. The commands that talk
  to a running daemon are in \<open>ControlClient\<close>, the properties of inviting and joining in \<open>Join\<close>.
\<close>

unbundle bit_operations_syntax

datatype cli_error =
    Usage string
  | CliLoad load_error
  | CliOS os_error
  | CliKey key_error
  | CliName name_error
  | CliURL url_error
  | CliFile file_error
  | CliNet client_error
  | NoLocalName
  | NoInviterBlock
  | NoInviterPub
  | HashMismatch
  | FsckErrors nat
  | CliControl control_error
  | ControlEOF
  | ControlRefused
  | AuthRejected string
  | BadAck string
  | UnknownKind string
  | CliRandom
  | NoInterface
  | CliNumber string

section \<open>Editing the configuration\<close>

definition cmdGet :: "paths \<Rightarrow> string list \<Rightarrow> fsys \<Rightarrow> (cli_error, string list) result" where
  "cmdGet p args fs =
     (case args of
        [k] \<Rightarrow> (case LoadDirectory fs (ConfFile p) of Inl e \<Rightarrow> Inl (CliLoad e) | Inr es \<Rightarrow> Inr (GetAll es k))
      | _ \<Rightarrow> Inl (Usage ''get <key>''))"

definition cli_write :: "path \<Rightarrow> string \<Rightarrow> 32 word \<Rightarrow> fsys \<Rightarrow> fsys \<times> cli_error option" where
  "cli_write p data m fs = (case os_WriteFile p data m fs of (fs', e) \<Rightarrow> (fs', map_option CliOS e))"

definition mutateConf :: "paths \<Rightarrow> string \<Rightarrow> string \<Rightarrow> bool \<Rightarrow> fsys \<Rightarrow> fsys \<times> cli_error option" where
  "mutateConf p key val replace fs =
     (let edit = (\<lambda>entries.
        let kept = (if replace then filter (\<lambda>e. \<not> EqualFold (Key e) key) entries else entries)
        in cli_write (ConfFile p) (Render (kept @ [\<lparr>Key = key, Value = val\<rparr>])) 420 fs)
      in case config_ParseFile fs (ConfFile p) of
           Inl (OsFault e) \<Rightarrow> if IsNotExist e then edit [] else (fs, Some (CliLoad (OsFault e)))
         | Inl e \<Rightarrow> (fs, Some (CliLoad e))
         | Inr entries \<Rightarrow> edit entries)"

definition cmdSet :: "paths \<Rightarrow> string list \<Rightarrow> fsys \<Rightarrow> fsys \<times> cli_error option" where
  "cmdSet p args fs = (case args of [k, v] \<Rightarrow> mutateConf p k v True fs | _ \<Rightarrow> (fs, Some (Usage ''set <key> <value>'')))"

definition cmdAdd :: "paths \<Rightarrow> string list \<Rightarrow> fsys \<Rightarrow> fsys \<times> cli_error option" where
  "cmdAdd p args fs = (case args of [k, v] \<Rightarrow> mutateConf p k v False fs | _ \<Rightarrow> (fs, Some (Usage ''add <key> <value>'')))"

definition cmdDel :: "paths \<Rightarrow> string list \<Rightarrow> fsys \<Rightarrow> fsys \<times> cli_error option" where
  "cmdDel p args fs =
     (if length args < 1 \<or> length args > 2 then (fs, Some (Usage ''del <key> [value]''))
      else
        let key = args ! 0; val = (if length args = 2 then args ! 1 else [])
        in case config_ParseFile fs (ConfFile p) of
             Inl e \<Rightarrow> (fs, Some (CliLoad e))
           | Inr entries \<Rightarrow>
               cli_write (ConfFile p)
                 (Render (filter (\<lambda>e. \<not> (EqualFold (Key e) key \<and> (val = [] \<or> Value e = val))) entries)) 420 fs)"

section \<open>Exchanging host files by hand\<close>

definition cmdExport :: "paths \<Rightarrow> fsys \<Rightarrow> (cli_error, string) result" where
  "cmdExport p fs =
     (case LoadDirectory fs (ConfFile p) of
        Inl e \<Rightarrow> Inl (CliLoad e)
      | Inr es \<Rightarrow>
          (case GetFirst es ''Name'' of
             None \<Rightarrow> Inl NoLocalName
           | Some name \<Rightarrow>
               (case os_ReadFile fs (HostFile p name) of
                  Inl e \<Rightarrow> Inl (CliOS e)
                | Inr host \<Rightarrow> Inr (''Name = '' @ name @ [NL] @ host))))"

definition writeHost :: "paths \<Rightarrow> string \<Rightarrow> string list \<Rightarrow> fsys \<Rightarrow> fsys \<times> cli_error option" where
  "writeHost p name lines fs =
     (case os_MkdirAll (HostsDir p) 448 fs of
        (fs1, Some e) \<Rightarrow> (fs1, Some (CliOS e))
      | (fs1, None) \<Rightarrow> cli_write (HostFile p name) (concat lines) 420 fs1)"

text \<open>The lines of the input with their line ends; the last one may lack its own.\<close>

function input_lines :: "string \<Rightarrow> string list" where
  "input_lines s =
     (if s = [] then []
      else (case cut_first NL s of None \<Rightarrow> [s] | Some (l, r) \<Rightarrow> (l @ [NL]) # input_lines r))"
  by pat_completeness auto
termination
proof (relation "measure length")
  fix s l r and x :: "string \<times> string"
  assume "cut_first NL s = Some x" "(l, r) = x"
  then have r: "r = tl (dropWhile (\<lambda>d. d \<noteq> NL) s)" and "NL \<in> set s"
    by (auto simp: cut_first_def split: if_splits)
  then have "dropWhile (\<lambda>d. d \<noteq> NL) s \<noteq> []" by (auto simp: dropWhile_eq_Nil_conv)
  then have "length r < length (dropWhile (\<lambda>d. d \<noteq> NL) s)" using r by simp
  then show "(r, s) \<in> measure length" using length_dropWhile_le [of "\<lambda>d. d \<noteq> NL" s] by simp
qed simp

declare input_lines.simps [simp del]

definition name_line :: "string \<Rightarrow> string option" where
  "name_line line =
     (let t = TrimSpace line
      in if t \<noteq> [] \<and> \<not> HasPrefix t ''#'' then
           (case cut_first (CHR ''='') t of
              Some (k, v) \<Rightarrow> if EqualFold (TrimSpace k) ''Name'' then Some (TrimSpace v) else None
            | None \<Rightarrow> None)
         else None)"

fun import_lines :: "paths \<Rightarrow> string list \<Rightarrow> string \<Rightarrow> string list \<Rightarrow> fsys \<Rightarrow> fsys \<times> cli_error option" where
  "import_lines p [] name lines fs = (if name \<noteq> [] then writeHost p name lines fs else (fs, None))"
| "import_lines p (l # ls) name lines fs =
     (case name_line l of
        None \<Rightarrow> import_lines p ls name (lines @ [l]) fs
      | Some n \<Rightarrow>
          if name \<noteq> [] then
            (case writeHost p name lines fs of
               (fs1, Some e) \<Rightarrow> (fs1, Some e)
             | (fs1, None) \<Rightarrow> import_lines p ls n [] fs1)
          else import_lines p ls n lines fs)"

definition cmdImport :: "paths \<Rightarrow> string \<Rightarrow> fsys \<Rightarrow> fsys \<times> cli_error option" where
  "cmdImport p input fs = import_lines p (input_lines input) [] [] fs"

section \<open>Inviting\<close>

text \<open>
  \<open>fmt.Sscanf\<close>: the verb \<open>%d\<close> skips spaces and takes a sign and digits; a space of the format needs a space of the
  input, or its end.
\<close>

definition scan_d :: "string \<Rightarrow> (int \<times> string) option" where
  "scan_d v =
     (let s = trim_with space_encs v;
          sgn = (case s of c # _ \<Rightarrow> if c = CHR ''-'' \<or> c = CHR ''+'' then [c] else [] | [] \<Rightarrow> []);
          ds = takeWhile is_digit (drop (length sgn) s)
      in case Atoi (sgn @ ds) of None \<Rightarrow> None | Some n \<Rightarrow> Some (n, drop (length (sgn @ ds)) s))"

text \<open>\<open>fmt.Sscanf(v, "%d", &port)\<close> with its error ignored: the default stays if there is no number.\<close>

definition Sscanf_d :: "string \<Rightarrow> int \<Rightarrow> int" where
  "Sscanf_d v def = (case scan_d v of Some (n, _) \<Rightarrow> n | None \<Rightarrow> def)"

definition invitation_for :: "paths \<Rightarrow> string \<Rightarrow> string \<Rightarrow> string \<Rightarrow> string \<Rightarrow> invfile" where
  "invitation_for p invitee selfName addr selfHost =
     \<lparr>f_Netname = pa_Netname p,
      f_Invitee = no_block\<lparr>b_Name := invitee, b_ConnectTo := [selfName]\<rparr>,
      f_Hosts = [no_block\<lparr>b_Name := selfName, b_Address := addr,
        b_Other := (if selfHost \<noteq> [] then (case Parse selfHost of Inl _ \<Rightarrow> [] | Inr es \<Rightarrow> es) else [])\<rparr>]\<rparr>"

definition cmdInvite :: "crypto \<Rightarrow> bytes option \<Rightarrow> paths \<Rightarrow> string list \<Rightarrow> fsys \<Rightarrow> fsys \<times> (cli_error, string) result" where
  "cmdInvite c rnd p args fs =
     (case args of
        [invitee] \<Rightarrow>
     (case Validate invitee of
        Some e \<Rightarrow> (fs, Inl (CliName e))
      | None \<Rightarrow>
     (case LoadDirectory fs (ConfFile p) of
        Inl e \<Rightarrow> (fs, Inl (CliLoad e))
      | Inr entries \<Rightarrow>
     (case GetFirst entries ''Name'' of
        None \<Rightarrow> (fs, Inl NoLocalName)
      | Some selfName \<Rightarrow>
          let addr = entry_or_empty entries ''Address'';
              port = (case GetFirst entries ''Port'' of Some v \<Rightarrow> Sscanf_d v 51820 | None \<Rightarrow> 51820)
          in
     (case os_ReadFile fs (Ed25519Private p) of
        Inl e \<Rightarrow> (fs, Inl (CliOS e))
      | Inr edBytes \<Rightarrow>
     (case ParseEd25519PrivatePEM c edBytes of
        Inl e \<Rightarrow> (fs, Inl (CliKey e))
      | Inr edPriv \<Rightarrow>
     (case rnd of
        None \<Rightarrow> (fs, Inl CliRandom)
      | Some buf \<Rightarrow>
          let cookie = invite_NewCookie buf; url = BuildURL c addr port (Ed_Public c edPriv) cookie
          in
     (case os_MkdirAll (InvitationsDir p) 448 fs of
        (fs1, Some e) \<Rightarrow> (fs1, Inl (CliOS e))
      | (fs1, None) \<Rightarrow>
          let selfHost = (case os_ReadFile fs1 (HostFile p selfName) of Inr b \<Rightarrow> b | Inl _ \<Rightarrow> [])
          in
     (case os_WriteFile (path_Join (InvitationsDir p) cookie) (file_Render (invitation_for p invitee selfName addr selfHost)) 384 fs1 of
        (fs2, Some e) \<Rightarrow> (fs2, Inl (CliOS e))
      | (fs2, None) \<Rightarrow> (fs2, Inr (url_String url))))))))))
      | _ \<Rightarrow> (fs, Inl (Usage ''invite <name>'')))"

section \<open>Joining\<close>

definition fs_step :: "fsys \<times> os_error option \<Rightarrow> (fsys \<Rightarrow> fsys \<times> (cli_error, 'a) result) \<Rightarrow> fsys \<times> (cli_error, 'a) result" where
  "fs_step r k = (case r of (fs, Some e) \<Rightarrow> (fs, Inl (CliOS e)) | (fs, None) \<Rightarrow> k fs)"

text \<open>Writing the local configuration tree from an accepted invitation.\<close>

definition write_tree ::
    "crypto \<Rightarrow> bytes \<Rightarrow> bytes \<Rightarrow> paths \<Rightarrow> invfile \<Rightarrow> block \<Rightarrow> fsys \<Rightarrow> fsys \<times> (cli_error, string) result" where
  "write_tree c edPriv wgPriv p f inviter fs0 =
     (let conf = \<lparr>Key = ''Name'', Value = b_Name (f_Invitee f)\<rparr> # map (\<lambda>ct. \<lparr>Key = ''ConnectTo'', Value = ct\<rparr>) (b_ConnectTo (f_Invitee f));
          inviterHost = (if b_Address inviter \<noteq> [] then [\<lparr>Key = ''Address'', Value = b_Address inviter\<rparr>] else []) @ b_Other inviter
      in fs_step (os_MkdirAll (HostsDir p) 448 fs0) (\<lambda>fs.
         fs_step (os_MkdirAll (InvitationsDir p) 448 fs) (\<lambda>fs.
         fs_step (os_WriteFile (Ed25519Private p) (Private_MarshalPEM c edPriv) 384 fs) (\<lambda>fs.
         fs_step (os_WriteFile (WGPrivate p) (WG_String c wgPriv @ [NL]) 384 fs) (\<lambda>fs.
         fs_step (os_WriteFile (ConfFile p) (Render conf) 420 fs) (\<lambda>fs.
         fs_step (os_WriteFile (HostFile p (b_Name (f_Invitee f))) (Render (host_entries c edPriv wgPriv)) 420 fs) (\<lambda>fs.
         fs_step (os_WriteFile (HostFile p (b_Name inviter)) (Render inviterHost) 420 fs) (\<lambda>fs.
         (fs, Inr (b_Name (f_Invitee f)))))))))))"

text \<open>
  \<open>rnd1\<close> and \<open>rnd2\<close> are the ephemeral secrets of the two connections, \<open>get\<close> and \<open>join\<close> what the network answers on
  them when it is asked to connect to an address.
\<close>

definition cmdJoin ::
    "crypto \<Rightarrow> session_crypto \<Rightarrow> bytes option \<Rightarrow> bytes option \<Rightarrow> bytes \<Rightarrow> bytes \<Rightarrow> (string \<Rightarrow> string \<Rightarrow> string option) \<Rightarrow>
       (string \<Rightarrow> string \<Rightarrow> string option) \<Rightarrow> paths \<Rightarrow> string list \<Rightarrow> fsys \<Rightarrow> fsys \<times> (cli_error, string) result" where
  "cmdJoin c sc newEd newWG rnd1 rnd2 get join p args fs =
     (case args of
        [s] \<Rightarrow>
     (case ParseURL s of
        Inl e \<Rightarrow> (fs, Inl (CliURL e))
      | Inr u \<Rightarrow>
          let addr = u_Host u @ '':'' @ Itoa (u_Port u)
          in
     (case (newEd, newWG) of
        (Some edPriv, Some wgPriv) \<Rightarrow>
     (case client_InviteGet c sc rnd1 (get addr) (u_Cookie u) (u_KeyHash u) of
        Inl e \<Rightarrow> (fs, Inl (CliNet e))
      | Inr body \<Rightarrow>
     (case ParseFile (bytes_str body) of
        Inl e \<Rightarrow> (fs, Inl (CliFile e))
      | Inr f \<Rightarrow>
     (case f_Hosts f of
        [] \<Rightarrow> (fs, Inl NoInviterBlock)
      | inviter # _ \<Rightarrow>
          let pubStr = TrimSpace (entry_or_empty (b_Other inviter) ''Ed25519PublicKey'')
          in if pubStr = [] then (fs, Inl NoInviterPub)
             else
     (case ParseEd25519PublicBase64 pubStr of
        Inl e \<Rightarrow> (fs, Inl (CliKey e))
      | Inr inviterPub \<Rightarrow>
          if Hash c inviterPub \<noteq> u_KeyHash u then (fs, Inl HashMismatch)
          else
     (case client_InviteJoin c sc rnd2 (join addr) (u_Cookie u) (b_Name (f_Invitee f))
             (str_bytes (Render (host_entries c edPriv wgPriv))) (u_KeyHash u) of
        Inl e \<Rightarrow> (fs, Inl (CliNet e))
      | Inr _ \<Rightarrow>
          write_tree c edPriv wgPriv \<lparr>pa_ConfRoot = pa_ConfRoot p, pa_Netname = (if f_Netname f = [] then pa_Netname p else f_Netname f)\<rparr>
            f inviter fs)))))
      | _ \<Rightarrow> (fs, Inl CliRandom)))
      | _ \<Rightarrow> (fs, Inl (Usage ''join <url>'')))"

section \<open>Other commands\<close>

definition cmdInit :: "crypto \<Rightarrow> bytes option \<Rightarrow> bytes option \<Rightarrow> paths \<Rightarrow> string list \<Rightarrow> fsys \<Rightarrow> fsys \<times> (cli_error, init_error option) result" where
  "cmdInit c newEd newWG p args fs =
     (case args of
        [name] \<Rightarrow> (case Init c newEd newWG p name fs of (fs', e) \<Rightarrow> (fs', Inr e))
      | _ \<Rightarrow> (fs, Inl (Usage ''init <name>'')))"

definition cmdFsck :: "crypto \<Rightarrow> (diag \<Rightarrow> string) \<Rightarrow> paths \<Rightarrow> fsys \<Rightarrow> string list \<times> cli_error option" where
  "cmdFsck c text p fs =
     (let findings = Fsck c p fs; errors = length (filter (\<lambda>f. ff_Level f = FsckError) findings)
      in (map (finding_String text) findings, if errors > 0 then Some (FsckErrors errors) else None))"

text \<open>The options of \<open>pcap\<close> and the interface it captures on.\<close>

definition ParseUint32 :: "string \<Rightarrow> 32 word option" where
  "ParseUint32 s =
     (if s = [] then None
      else (case parse_digits 0 s of Some n \<Rightarrow> if n < 2 ^ 32 then Some (of_nat n) else None | None \<Rightarrow> None))"

fun pcap_args :: "string list \<Rightarrow> 32 word \<Rightarrow> string \<Rightarrow> (cli_error, 32 word \<times> string) result" where
  "pcap_args [] snaplen iface = Inr (snaplen, iface)"
| "pcap_args (a # as) snaplen iface =
     (if a = ''-s'' then
        (case as of
           [] \<Rightarrow> Inl (Usage ''pcap: -s needs a value'')
         | v # rest \<Rightarrow> (case ParseUint32 v of None \<Rightarrow> Inl (CliNumber v) | Some n \<Rightarrow> pcap_args rest n iface))
      else if a = ''-i'' then
        (case as of [] \<Rightarrow> Inl (Usage ''pcap: -i needs an interface'') | v # rest \<Rightarrow> pcap_args rest snaplen v)
      else Inl (Usage a))"

definition cmdPcap :: "paths \<Rightarrow> string list \<Rightarrow> fsys \<Rightarrow> (cli_error, 32 word \<times> string) result" where
  "cmdPcap p args fs =
     (case pcap_args args 65535 [] of
        Inl e \<Rightarrow> Inl e
      | Inr (snaplen, iface) \<Rightarrow>
          (if iface \<noteq> [] then Inr (snaplen, iface)
           else (case LoadDirectory fs (ConfFile p) of
                   Inl e \<Rightarrow> Inl (CliLoad e)
                 | Inr es \<Rightarrow>
                     let i = (case GetFirst es ''VXLANInterface'' of Some v \<Rightarrow> v
                              | None \<Rightarrow> (case GetFirst es ''Interface'' of Some v \<Rightarrow> v
                              | None \<Rightarrow> entry_or_empty es ''Name''))
                     in if i = [] then Inl NoInterface else Inr (snaplen, i))))"

section \<open>Editing the configuration is sound\<close>

lemma WriteFile_existing:
  assumes "quiet fs" and "os_ReadFile fs q = Inr b"
  obtains m' where "os_WriteFile q data m fs = (fs_put q (Regular m' data) fs, None)" "snd q \<noteq> []"
proof -
  obtain m' where n: "node_at fs q = Some (Regular m' b)"
    using assms(2) by (auto simp: os_ReadFile_def split: option.splits node.splits if_splits)
  then have "snd q \<noteq> []" by (auto simp: node_at_def)
  with that n assms(1) show ?thesis by (simp add: os_WriteFile_def fs_store_def quiet_def)
qed

lemma LoadDirectory_after_put:
  assumes "directories fs (NetDir p)" and "node_at fs (path_Join (NetDir p) ''conf.d'') = None"
    and "snd (ConfFile p) \<noteq> []" and "Parse data = Inr es" and "quiet fs"
    and "node_at fs (ConfFile p) = Some (Regular m b)"
  shows "LoadDirectory (fs_put (ConfFile p) (Regular m' data) fs) (ConfFile p) = Inr es"
proof -
  obtain r cs where D: "NetDir p = (r, cs)" by (cases "NetDir p")
  show ?thesis
  proof (rule LoadDirectory_alone)
    have "\<not> is_directory fs (ConfFile p)" using assms(6) by (simp add: is_directory_def)
    then have "ConfFile p \<notin> set (path_prefixes (NetDir p))" using assms(1) by (auto simp: directories_def)
    then show "directories (fs_put (ConfFile p) (Regular m' data) fs) (NetDir p)"
      using assms(1,3) by (auto simp: directories_def is_directory_def node_at_put)
    show "node_at (fs_put (ConfFile p) (Regular m' data) fs) (path_Join (NetDir p) ''conf.d'') = None"
      using assms(2,3) by (simp add: node_at_put layout_simps)
    show "config_ParseFile (fs_put (ConfFile p) (Regular m' data) fs) (ConfFile p) = Inr es"
      using assms(3,4,5) by (simp add: config_ParseFile_def os_ReadFile_def node_at_put quiet_def)
  qed
qed

lemma edit_conf:
  assumes "config_ParseFile fs (ConfFile p) = Inr es" and "list_all entry_ok new" and "quiet fs"
    and "directories fs (NetDir p)" and "node_at fs (path_Join (NetDir p) ''conf.d'') = None"
  obtains fs1 where "cli_write (ConfFile p) (Render new) 420 fs = (fs1, None)"
    "LoadDirectory fs1 (ConfFile p) = Inr new" "\<forall>q. q \<noteq> ConfFile p \<longrightarrow> node_at fs1 q = node_at fs q"
proof -
  obtain b where b: "os_ReadFile fs (ConfFile p) = Inr b" using assms(1) by (auto simp: config_ParseFile_def split: sum.splits)
  then obtain m where n: "node_at fs (ConfFile p) = Some (Regular m b)"
    by (auto simp: os_ReadFile_def split: option.splits node.splits if_splits)
  obtain m' where w: "os_WriteFile (ConfFile p) (Render new) 420 fs = (fs_put (ConfFile p) (Regular m' (Render new)) fs, None)"
    and c: "snd (ConfFile p) \<noteq> []" by (rule WriteFile_existing [OF assms(3) b])
  show ?thesis
    by (rule that [OF _ LoadDirectory_after_put [OF assms(4,5) c Parse_Render [OF assms(2)] assms(3) n]])
      (simp_all add: cli_write_def w node_at_put c)
qed

lemma EqualFold_equiv: "EqualFold a b \<Longrightarrow> EqualFold a c \<longleftrightarrow> EqualFold b c" "EqualFold a a" "EqualFold a b = EqualFold b a"
  by (auto simp: EqualFold_def)

lemma GetAll_filter_key:
  "GetAll (filter (\<lambda>e. \<not> EqualFold (Key e) k) es) k' = (if EqualFold k k' then [] else GetAll es k')"
  by (induction es) (auto simp: EqualFold_def)

lemma GetAll_filter_value:
  "GetAll (filter (\<lambda>e. EqualFold (Key e) k \<longrightarrow> Value e \<noteq> v) es) k' =
     (if EqualFold k k' then filter (\<lambda>x. x \<noteq> v) (GetAll es k') else GetAll es k')"
  by (induction es) (auto simp: EqualFold_def)

lemma GetAll_snoc: "GetAll (es @ [\<lparr>Key = k, Value = v\<rparr>]) k' = (if EqualFold k k' then GetAll es k' @ [v] else GetAll es k')"
  by (simp add: GetAll_append)


text \<open>The machine of \<open>alice\<close> with a configuration.\<close>

definition alice_conf :: entries where
  "alice_conf = [\<lparr>Key = ''Name'', Value = ''alice''\<rparr>, \<lparr>Key = ''Address'', Value = ''192.0.2.1''\<rparr>]"

definition alice_machine :: fsys where
  "alice_machine = fs_put (True, [''etc'', ''gsnet'', ''vpn'', ''gsnet.conf'']) (Regular 420 (Render alice_conf)) alice_fs"

lemma alice_machine_node:
  "node_at alice_machine q =
     (if q = (True, [''etc'', ''gsnet'', ''vpn'', ''gsnet.conf'']) then Some (Regular 420 (Render alice_conf)) else node_at alice_fs q)"
  by (simp add: alice_machine_def node_at_put)

lemma alice_conf_ok: "list_all entry_ok alice_conf"
proof -
  have c: "clean ''Name''" "clean ''alice''" "clean ''Address''" "clean ''192.0.2.1''"
    by (rule ascii_cleanI; simp add: ascii_def space_encs_def)+
  have "canonicalKey ''Name'' = ''Name''" "canonicalKey ''Address'' = ''Address''"
    by (simp_all add: canonicalKey_known canonical_def)
  with c show ?thesis by (simp add: alice_conf_def entry_ok_def NL_def MaxScanTokenSize_def)
qed

lemma alice_machine_ok:
  "quiet alice_machine" "directories alice_machine (NetDir etc_gsnet)" 
  "node_at alice_machine (path_Join (NetDir etc_gsnet) ''conf.d'') = None"
  "config_ParseFile alice_machine (ConfFile etc_gsnet) = Inr alice_conf"
proof -
  show "quiet alice_machine" by (simp add: quiet_def alice_machine_def alice_fs_def)
  show "directories alice_machine (NetDir etc_gsnet)"
    by (simp add: etc_gsnet_dir directories_def path_prefixes_def upt_rec is_directory_def alice_machine_node)
      (simp add: node_at_def alice_fs_def mget_def)
  show "node_at alice_machine (path_Join (NetDir etc_gsnet) ''conf.d'') = None"
    by (simp add: etc_gsnet_dir layout_simps alice_machine_node) (simp add: node_at_def alice_fs_def mget_def)
  have "fs_noread alice_machine = (\<lambda>_. False)" by (simp add: alice_machine_def alice_fs_def)
  then show "config_ParseFile alice_machine (ConfFile etc_gsnet) = Inr alice_conf"
    by (simp add: config_ParseFile_def os_ReadFile_def etc_gsnet_dir layout_simps alice_machine_node Parse_Render alice_conf_ok)
qed


section \<open>Exporting and importing host files\<close>

lemma cut_first_Some: "cut_first c s = Some (a, b) \<Longrightarrow> s = a @ c # b \<and> c \<notin> set a"
proof -
  assume cf: "cut_first c s = Some (a, b)"
  then have "c \<in> set s" by (auto simp: cut_first_def split: if_splits)
  then obtain x y where s: "s = x @ c # y" "c \<notin> set x" by (auto dest: split_list_first)
  then show ?thesis using cf cut_first_append [OF s(2), of y] by simp
qed

lemma input_lines_append: "NL \<notin> set l \<Longrightarrow> input_lines (l @ NL # r) = (l @ [NL]) # input_lines r"
  by (simp add: input_lines.simps [of "l @ NL # r"])

lemma concat_input_lines: "concat (input_lines s) = s"
proof (induction s rule: input_lines.induct)
  case (1 s)
  show ?case
  proof (cases "s = []")
    case False
    show ?thesis
    proof (cases "cut_first NL s")
      case None
      with False show ?thesis by (simp add: input_lines.simps [of s])
    next
      case (Some x)
      obtain l r where x: "x = (l, r)" by (cases x)
      then have "concat (input_lines r) = r" using 1 False Some by simp
      with False Some x cut_first_Some [of NL s l r] show ?thesis by (simp add: input_lines_append)
    qed
  qed (simp add: input_lines.simps)
qed

lemma input_lines_block: "s = [] \<or> last s = NL \<Longrightarrow> input_lines (s @ t) = input_lines s @ input_lines t"
proof (induction s rule: input_lines.induct)
  case (1 s)
  show ?case
  proof (cases "s = []")
    case False
    then have "NL \<in> set s" using 1(2) by (metis last_in_set)
    then obtain l r where s: "s = l @ NL # r" "NL \<notin> set l" by (auto dest: split_list_first)
    then have cf: "cut_first NL s = Some (l, r)" by simp
    have "r = [] \<or> last r = NL" using 1(2) s by (auto split: if_splits)
    then have "input_lines (r @ t) = input_lines r @ input_lines t" using 1(1) [OF False cf refl] by simp
    with s show ?thesis by (simp add: input_lines_append)
  qed (simp add: input_lines.simps)
qed

text \<open>A host file that \<open>export\<close> may precede with a name line: no line of it is one.\<close>

definition host_text :: "string \<Rightarrow> bool" where
  "host_text h \<longleftrightarrow> (h = [] \<or> last h = NL) \<and> list_all (\<lambda>l. name_line l = None) (input_lines h)"

definition name_text :: "string \<Rightarrow> string" where
  "name_text name = ''Name = '' @ name @ [NL]"

definition exported :: "string \<Rightarrow> string \<Rightarrow> string" where
  "exported name host = name_text name @ host"

lemma name_line_exported:
  assumes "clean name" and "NL \<notin> set name"
  shows "input_lines (exported name host @ t) = name_text name # input_lines (host @ t)"
    and "name_line (name_text name) = Some name"
proof -
  have "NL \<notin> set (''Name = '' @ name)" using assms(2) by (simp add: NL_def)
  from input_lines_append [OF this, of "host @ t"]
  show "input_lines (exported name host @ t) = name_text name # input_lines (host @ t)"
    by (simp add: exported_def name_text_def)
  have n: "clean ''Name''" by (rule ascii_cleanI; simp add: ascii_def space_encs_def)
  have c: "clean (''Name'' @ '' = '' @ name)" by (rule clean_append [OF n assms(1)]) (simp_all add: ascii_def)
  have eq: "''Name = '' @ name @ [NL] = (''Name'' @ '' = '' @ name) @ [NL]" by simp
  have trim: "TrimSpace (''Name = '' @ name @ [NL]) = ''Name'' @ '' = '' @ name" unfolding eq by (rule TrimSpace_NL_right [OF c])
  have cut: "cut_first (CHR ''='') (''Name'' @ '' = '' @ name) = Some (''Name '', CHR '' '' # name)"
    using cut_first_append [of "CHR ''=''" "''Name ''" "CHR '' '' # name"] by simp
  have "TrimSpace ''Name '' = ''Name''" "TrimSpace (CHR '' '' # name) = name"
    using TrimSpace_SP_right [OF n] TrimSpace_SP_left [OF assms(1)] by (simp_all add: SP_def)
  then show "name_line (name_text name) = Some name"
    unfolding name_text_def name_line_def trim cut Let_def by (simp add: HasPrefix_def EqualFold_def)
qed

lemma import_body:
  "list_all (\<lambda>l. name_line l = None) ls \<Longrightarrow> import_lines p (ls @ r) name acc fs = import_lines p r name (acc @ ls) fs"
  by (induction ls arbitrary: acc) auto

text \<open>Writing one host file after another.\<close>

fun write_hosts :: "paths \<Rightarrow> (string \<times> string) list \<Rightarrow> fsys \<Rightarrow> fsys \<times> cli_error option" where
  "write_hosts p [] fs = (fs, None)"
| "write_hosts p ((n, h) # hs) fs =
     (case writeHost p n (input_lines h) fs of (fs1, Some e) \<Rightarrow> (fs1, Some e) | (fs1, None) \<Rightarrow> write_hosts p hs fs1)"

lemma import_exports:
  assumes "list_all (\<lambda>(n, h). clean n \<and> NL \<notin> set n \<and> host_text h) ((n, h) # hs)"
  shows "import_lines p (input_lines (concat (map (\<lambda>(n, h). exported n h) hs))) n (input_lines h) fs = write_hosts p ((n, h) # hs) fs"
  using assms
proof (induction hs arbitrary: n h fs)
  case Nil
  then have "n \<noteq> []" by (auto simp: clean_def)
  then show ?case by (simp add: input_lines.simps [of "[]"] split: option.split prod.split)
next
  case (Cons x hs)
  obtain m k where x: "x = (m, k)" by (cases x)
  let ?t = "concat (map (\<lambda>(n, h). exported n h) hs)"
  have m: "clean m" "NL \<notin> set m" "host_text k" and n: "n \<noteq> []" using Cons.prems x by (auto simp: clean_def)
  have k: "input_lines (k @ ?t) = input_lines k @ input_lines ?t" "list_all (\<lambda>l. name_line l = None) (input_lines k)"
    using m(3) by (auto simp: host_text_def intro: input_lines_block)
  have IH: "import_lines p (input_lines ?t) m (input_lines k) fs1 = write_hosts p ((m, k) # hs) fs1" for fs1
    using Cons.prems x by (intro Cons.IH) simp
  show ?case
    using n IH by (simp add: x name_line_exported [OF m(1,2)] k(1) import_body [OF k(2)] split: option.split prod.split)
qed

lemma WriteFile_quiet:
  assumes "quiet fs" and "\<not> is_directory fs (r, cs @ [c])" and "is_directory fs (r, cs)"
  obtains m' where "os_WriteFile (r, cs @ [c]) data m fs = (fs_put (r, cs @ [c]) (Regular m' data) fs, None)"
  using assms that
  by (cases "node_at fs (r, cs @ [c])"; (cases "the (node_at fs (r, cs @ [c]))")?)
    (auto simp: os_WriteFile_def fs_create_def fs_store_def quiet_def is_directory_def split: option.splits node.splits)

text \<open>A machine on which host files can be written: the directory is there and no directory stands where a host file goes.\<close>

definition hosts_writable :: "paths \<Rightarrow> fsys \<Rightarrow> bool" where
  "hosts_writable p fs \<longleftrightarrow> quiet fs \<and> directories fs (HostsDir p) \<and> (\<forall>n. plain n \<longrightarrow> \<not> is_directory fs (HostFile p n))"

lemma hosts_writable_put_other:
  assumes "hosts_writable p fs" and "q \<notin> set (path_prefixes (HostsDir p))" and "snd q \<noteq> []"
  shows "hosts_writable p (fs_put q (Regular m h) fs)"
  using assms by (auto simp: hosts_writable_def quiet_def directories_def is_directory_def node_at_put split: option.splits)

lemma hosts_writable_put:
  assumes "hosts_writable p fs" and "plain n"
  shows "hosts_writable p (fs_put (HostFile p n) (Regular m h) fs)"
proof (rule hosts_writable_put_other [OF assms(1)])
  obtain r cs where D: "NetDir p = (r, cs)" by (cases "NetDir p")
  show "HostFile p n \<notin> set (path_prefixes (HostsDir p))"
    using assms not_prefix [of r "cs @ [''hosts'']" n "[]"] by (simp add: layout_simps D)
  show "snd (HostFile p n) \<noteq> []" using assms(2) by (simp add: layout_simps D)
qed

lemma writeHost_ok:
  assumes "hosts_writable p fs" and "plain n"
  obtains m where "writeHost p n ls fs = (fs_put (HostFile p n) (Regular m (concat ls)) fs, None)" "snd (HostFile p n) \<noteq> []"
proof -
  obtain r cs where D: "NetDir p = (r, cs)" by (cases "NetDir p")
  have h: "HostsDir p = (r, cs @ [''hosts''])" "HostFile p n = (r, (cs @ [''hosts'']) @ [n])"
    using assms(2) by (simp_all add: layout_simps D)
  have q: "quiet fs" "directories fs (HostsDir p)" "\<not> is_directory fs (HostFile p n)"
    using assms by (auto simp: hosts_writable_def)
  have "os_MkdirAll (HostsDir p) 448 fs = (fs, None)"
    using q(2) unfolding os_MkdirAll_def directories_def by (rule mkdirs_noop)
  moreover obtain m where "os_WriteFile (HostFile p n) (concat ls) 420 fs = (fs_put (HostFile p n) (Regular m (concat ls)) fs, None)"
    using WriteFile_quiet [of fs r "cs @ [''hosts'']" n "concat ls" 420] q directories_parent [of fs r "cs @ [''hosts'']"]
    unfolding h by blast
  ultimately show ?thesis using that h(2) by (simp add: writeHost_def cli_write_def)
qed

lemma write_hosts_ok:
  assumes "hosts_writable p fs" and "list_all plain (map fst hs)" and "distinct (map fst hs)"
  shows "\<exists>fs1. write_hosts p hs fs = (fs1, None) \<and> list_all (\<lambda>(n, h). os_ReadFile fs1 (HostFile p n) = Inr h) hs \<and>
    (\<forall>q. (\<forall>n \<in> set (map fst hs). q \<noteq> HostFile p n) \<longrightarrow> node_at fs1 q = node_at fs q) \<and> hosts_writable p fs1"
  using assms
proof (induction hs arbitrary: fs)
  case (Cons x hs)
  obtain n h where x: "x = (n, h)" by (cases x)
  have n: "plain n" using Cons.prems(2) x by simp
  obtain m where w: "writeHost p n (input_lines h) fs = (fs_put (HostFile p n) (Regular m h) fs, None)"
    and ne: "snd (HostFile p n) \<noteq> []"
    using writeHost_ok [OF Cons.prems(1) n, of "input_lines h"] by (auto simp: concat_input_lines)
  let ?fs = "fs_put (HostFile p n) (Regular m h) fs"
  obtain fs1 where fs1: "write_hosts p hs ?fs = (fs1, None)" "list_all (\<lambda>(n, h). os_ReadFile fs1 (HostFile p n) = Inr h) hs"
    "\<forall>q. (\<forall>n \<in> set (map fst hs). q \<noteq> HostFile p n) \<longrightarrow> node_at fs1 q = node_at ?fs q" "hosts_writable p fs1"
    using Cons.IH [OF hosts_writable_put [OF Cons.prems(1) n, of m h]] Cons.prems(2,3)
    unfolding x list.map fst_conv list.pred_inject(2) distinct.simps by blast
  have "HostFile p n \<noteq> HostFile p k" if "k \<in> set (map fst hs)" for k
  proof -
    have "plain k" "k \<noteq> n" using that Cons.prems(2,3) x by (auto simp: list_all_iff)
    then show ?thesis using n by (simp add: layout_simps)
  qed
  then have "node_at fs1 (HostFile p n) = node_at ?fs (HostFile p n)" using fs1(3) by blast
  then have "node_at fs1 (HostFile p n) = Some (Regular m h)" using ne by (simp add: node_at_put)
  then have "os_ReadFile fs1 (HostFile p n) = Inr h" using fs1(4) by (simp add: os_ReadFile_def hosts_writable_def quiet_def)
  moreover have "node_at fs1 q = node_at fs q" if "\<forall>k \<in> set (map fst (x # hs)). q \<noteq> HostFile p k" for q
  proof -
    have "\<forall>k \<in> set (map fst hs). q \<noteq> HostFile p k" using that by simp
    then have "node_at fs1 q = node_at ?fs q" using fs1(3) by blast
    then show ?thesis using that ne x by (simp add: node_at_put)
  qed
  ultimately show ?case using fs1(1,2,4) w x by simp
qed simp

lemma concat_empty_import: "cmdImport p [] fs = (fs, None)"
  by (simp add: cmdImport_def input_lines.simps)

text \<open>A configured machine: the name of its node and the text of its own host file.\<close>

definition own_host :: "paths \<times> fsys \<Rightarrow> string \<times> string \<Rightarrow> bool" where
  "own_host = (\<lambda>(q, gs) (n, h). (\<exists>es. LoadDirectory gs (ConfFile q) = Inr es \<and> GetFirst es ''Name'' = Some n) \<and>
     os_ReadFile gs (HostFile q n) = Inr h)"

lemma cmdExport_own: "own_host (q, gs) (n, h) \<Longrightarrow> cmdExport q gs = Inr (exported n h)"
  by (auto simp: own_host_def cmdExport_def exported_def name_text_def)


text \<open>Host files as \<open>Init\<close> and \<open>join\<close> write them can be exported.\<close>

lemma name_line_entry:
  assumes "entry_ok e" and "\<not> EqualFold (Key e) ''Name''"
  shows "name_line (render_entry e @ [NL]) = None"
proof -
  have k: "clean (Key e)" "CHR ''='' \<notin> set (Key e @ [SP])" using assms(1) by (auto simp: entry_ok_def SP_def)
  have "render_entry e = (Key e @ [SP]) @ CHR ''='' # (SP # Value e)" by (simp add: render_entry_def SP_def)
  then have "cut_first (CHR ''='') (render_entry e) = Some (Key e @ [SP], SP # Value e)" using k(2) by (metis cut_first_append)
  then show ?thesis
    using assms(2) by (simp add: name_line_def Let_def TrimSpace_NL_right clean_render [OF assms(1)] TrimSpace_SP_right [OF k(1)])
qed

lemma host_text_Render:
  assumes "list_all entry_ok es" and "list_all (\<lambda>e. \<not> EqualFold (Key e) ''Name'') es"
  shows "host_text (Render es)"
proof -
  have "input_lines (Render es) = map (\<lambda>e. render_entry e @ [NL]) es"
    using assms(1)
  proof (induction es)
    case (Cons e es)
    then have "NL \<notin> set (render_entry e)" using plain_render [of e] by (simp add: plain_line_def)
    then show ?case using Cons input_lines_append [of "render_entry e" "Render es"] by (simp add: Render_def)
  qed (simp add: Render_def input_lines.simps)
  moreover have "Render es = [] \<or> last (Render es) = NL"
    by (cases es rule: rev_cases) (simp_all add: Render_def)
  ultimately show ?thesis using assms name_line_entry by (auto simp: host_text_def list_all_iff)
qed

text \<open>The machine of \<open>alice\<close> with its own host file.\<close>

definition alice_host :: entries where
  "alice_host = host_entries toy_crypto (str_bytes ''secret'') [2]"

definition alice_home :: fsys where
  "alice_home = fs_put (True, [''etc'', ''gsnet'', ''vpn'', ''hosts'', ''alice'']) (Regular 420 (Render alice_host)) alice_machine"

lemma alice_home_node: "node_at alice_home q =
    (if q = (True, [''etc'', ''gsnet'', ''vpn'', ''hosts'', ''alice'']) then Some (Regular 420 (Render alice_host)) else node_at alice_machine q)"
  by (simp add: alice_home_def node_at_put)

lemma alice_home_ok:
  "quiet alice_home" "LoadDirectory alice_home (ConfFile etc_gsnet) = Inr alice_conf" "GetFirst alice_conf ''Name'' = Some ''alice''"
  "os_ReadFile alice_home (HostFile etc_gsnet ''alice'') = Inr (Render alice_host)"
proof -
  show q: "quiet alice_home" by (simp add: quiet_def alice_home_def alice_machine_def alice_fs_def)
  show "LoadDirectory alice_home (ConfFile etc_gsnet) = Inr alice_conf"
  proof (rule LoadDirectory_alone)
    show "directories alice_home (NetDir etc_gsnet)"
      using alice_machine_ok(2) by (simp add: directories_def is_directory_def alice_home_node etc_gsnet_dir path_prefixes_def upt_rec)
    show "node_at alice_home (path_Join (NetDir etc_gsnet) ''conf.d'') = None"
      using alice_machine_ok(3) by (simp add: alice_home_node etc_gsnet_dir layout_simps)
    show "config_ParseFile alice_home (ConfFile etc_gsnet) = Inr alice_conf"
      using q by (simp add: config_ParseFile_def os_ReadFile_def etc_gsnet_dir layout_simps alice_home_node alice_machine_node
          Parse_Render alice_conf_ok quiet_def)
  qed
  show "GetFirst alice_conf ''Name'' = Some ''alice''" by code_simp
  show "os_ReadFile alice_home (HostFile etc_gsnet ''alice'') = Inr (Render alice_host)"
    using q by (simp add: os_ReadFile_def alice_paths plain_names alice_home_node quiet_def)
qed

lemma alice_hosts_writable: "hosts_writable etc_gsnet alice_fs"
proof -
  have "\<not> is_directory alice_fs (HostFile etc_gsnet n)" if "plain n" for n
    using that by (simp add: alice_paths is_directory_def node_at_def alice_fs_def mget_def)
  moreover have "directories alice_fs (HostsDir etc_gsnet)"
    by (simp add: alice_paths directories_def path_prefixes_def upt_rec is_directory_def node_at_def alice_fs_def mget_def)
  ultimately show ?thesis by (simp add: hosts_writable_def quiet_def alice_fs_def)
qed


end
