(* ===== verification/ControlClient.thy ===== *)
theory ControlClient
  imports Cli
begin

text \<open>
  The client of the control socket (\<open>Dial\<close>, \<open>Send\<close>, \<open>ReadLine\<close> of \<open>control/server.go\<close>) and the commands of
  \<open>cmd/gsnet/main.go\<close> that use it, and what they print when the daemon of theory \<open>Daemon\<close> is at the other end.
\<close>

section \<open>The client of the control socket\<close>

text \<open>
  The other end of a connection is a function from everything sent so far to everything received so far and
  whether the connection has been closed. An operation of the client fails, gets its result, or waits.
\<close>

type_synonym socket = "string \<Rightarrow> string \<times> bool"

datatype 'a wait = Waits | Fails cli_error | Gets 'a

record client =
  cl_sent :: string
  cl_read :: nat
  cl_ServerName :: string
  cl_ServerPID :: int

definition ReadLine :: "socket \<Rightarrow> client \<Rightarrow> (string \<times> client) wait" where
  "ReadLine sock cl =
     (case sock (cl_sent cl) of
        (out, closed) \<Rightarrow>
          let ls = complete_lines out
          in if cl_read cl < length ls then Gets (ls ! cl_read cl @ [NL], cl\<lparr>cl_read := Suc (cl_read cl)\<rparr>)
             else if closed then Fails ControlEOF else Waits)"

definition Send :: "socket \<Rightarrow> int \<Rightarrow> string list \<Rightarrow> client \<Rightarrow> (string \<times> client) wait" where
  "Send sock t args cl = ReadLine sock (cl\<lparr>cl_sent := cl_sent cl @ EncodeMessage t args\<rparr>)"

text \<open>Several numbers, separated by spaces.\<close>

fun scan_ints :: "nat \<Rightarrow> string \<Rightarrow> int list option" where
  "scan_ints 0 s = Some []"
| "scan_ints (Suc k) s =
     (case scan_d s of
        None \<Rightarrow> None
      | Some (n, r) \<Rightarrow>
          if k \<noteq> 0 \<and> r \<noteq> [] \<and> space_len r = 0 then None
          else map_option ((#) n) (scan_ints k r))"

definition control_Dial :: "socket option \<Rightarrow> string \<Rightarrow> (socket \<times> client) wait" where
  "control_Dial conn cookie =
     (case conn of
        None \<Rightarrow> Fails ControlRefused
      | Some sock \<Rightarrow>
     (case ReadLine sock \<lparr>cl_sent = [], cl_read = 0, cl_ServerName = [], cl_ServerPID = 0\<rparr> of
        Waits \<Rightarrow> Waits
      | Fails e \<Rightarrow> Fails e
      | Gets (greet, cl) \<Rightarrow>
     (case ParseGreeting (TrimSpace greet) of
        Inl e \<Rightarrow> Fails (CliControl e)
      | Inr g \<Rightarrow>
     (case ReadLine sock (cl\<lparr>cl_ServerName := gr_Name g, cl_sent := auth_line cookie\<rparr>) of
        Waits \<Rightarrow> Waits
      | Fails e \<Rightarrow> Fails e
      | Gets (ack, cl) \<Rightarrow>
     (case scan_ints 3 (TrimSpace ack) of
        Some [class, code, pid] \<Rightarrow>
          if code \<noteq> 0 then Fails (AuthRejected ack) else Gets (sock, cl\<lparr>cl_ServerPID := pid\<rparr>)
      | _ \<Rightarrow> Fails (BadAck ack))))))"

section \<open>Commands on the control socket\<close>

text \<open>\<open>net\<close> is what is listening at a path.\<close>

definition dialControl :: "(path \<Rightarrow> socket option) \<Rightarrow> paths \<Rightarrow> string \<Rightarrow> fsys \<Rightarrow> (socket \<times> client) wait" where
  "dialControl net p runDir fs =
     (case os_ReadFile fs (PIDFile p runDir) of
        Inl e \<Rightarrow> Fails (CliOS e)
      | Inr b \<Rightarrow>
          (case ParsePIDFile b of
             Inl e \<Rightarrow> Fails (CliControl e)
           | Inr pf \<Rightarrow> control_Dial (net (ControlSocket p runDir)) (pf_Cookie pf)))"

definition dump_kind :: "string \<Rightarrow> int option" where
  "dump_kind k = map_of
     [(''nodes'', 4), (''reachable'', 4), (''edges'', 5), (''subnets'', 6), (''connections'', 7), (''graph'', 8),
      (''invitations'', 17)] k"

text \<open>The loop of \<open>runControlDump\<close> from a line on: the lines it prints and how it ends.\<close>

function dump_loop :: "socket \<Rightarrow> string \<Rightarrow> string \<Rightarrow> client \<Rightarrow> string list \<times> unit wait" where
  "dump_loop sock terminator line cl =
     (if line = terminator then ([], Gets ())
      else (case ReadLine sock cl of
              Waits \<Rightarrow> ([line], Waits)
            | Fails e \<Rightarrow> ([line], Fails e)
            | Gets (nxt, cl') \<Rightarrow>
                (case dump_loop sock terminator (TrimRight nxt [CR, NL]) cl' of (out, r) \<Rightarrow> (line # out, r))))"
  by pat_completeness auto
termination
  by (relation "measure (\<lambda>(sock, _, _, cl). length (complete_lines (fst (sock (cl_sent cl)))) - cl_read cl)")
    (auto simp: ReadLine_def Let_def split: prod.splits if_splits)

declare dump_loop.simps [simp del]

definition dump_terminator :: "int \<Rightarrow> string" where
  "dump_terminator req = Itoa ClassRequest @ [SP] @ Itoa req"

definition runControlDump :: "(path \<Rightarrow> socket option) \<Rightarrow> paths \<Rightarrow> string \<Rightarrow> int \<Rightarrow> fsys \<Rightarrow> string list \<times> unit wait" where
  "runControlDump net p runDir req fs =
     (case dialControl net p runDir fs of
        Waits \<Rightarrow> ([], Waits)
      | Fails e \<Rightarrow> ([], Fails e)
      | Gets (sock, cl) \<Rightarrow>
          (case Send sock req [] cl of
             Waits \<Rightarrow> ([], Waits)
           | Fails e \<Rightarrow> ([], Fails e)
           | Gets (first, cl) \<Rightarrow> dump_loop sock (dump_terminator req) (TrimRight first [CR, NL]) cl))"

definition cmdDump :: "(path \<Rightarrow> socket option) \<Rightarrow> paths \<Rightarrow> string \<Rightarrow> string list \<Rightarrow> fsys \<Rightarrow> string list \<times> unit wait" where
  "cmdDump net p runDir args fs =
     (case args of
        [k] \<Rightarrow> (case dump_kind k of None \<Rightarrow> ([], Fails (UnknownKind k)) | Some req \<Rightarrow> runControlDump net p runDir req fs)
      | _ \<Rightarrow> ([], Fails (Usage ''dump nodes|edges|subnets|connections|graph|invitations'')))"

definition simple_request :: "string \<Rightarrow> int option" where
  "simple_request name = map_of [(''stop'', 1), (''reload'', 2), (''retry'', 10), (''purge'', 16)] name"

definition cmdPid :: "paths \<Rightarrow> string \<Rightarrow> fsys \<Rightarrow> string list \<times> unit wait" where
  "cmdPid p runDir fs =
     (case os_ReadFile fs (PIDFile p runDir) of
        Inl e \<Rightarrow> ([], Fails (CliOS e))
      | Inr b \<Rightarrow> (case ParsePIDFile b of Inl e \<Rightarrow> ([], Fails (CliControl e)) | Inr pf \<Rightarrow> ([Itoa (pf_PID pf)], Gets ())))"

definition cmdSimple :: "(path \<Rightarrow> socket option) \<Rightarrow> paths \<Rightarrow> string \<Rightarrow> string \<Rightarrow> fsys \<Rightarrow> string list \<times> unit wait" where
  "cmdSimple net p runDir name fs =
     (if name = ''pid'' then cmdPid p runDir fs
      else (case simple_request name of
              None \<Rightarrow> ([], Fails (UnknownKind name))
            | Some req \<Rightarrow>
                (case dialControl net p runDir fs of
                   Waits \<Rightarrow> ([], Waits)
                 | Fails e \<Rightarrow> ([], Fails e)
                 | Gets (sock, cl) \<Rightarrow>
                     (case Send sock req [] cl of Waits \<Rightarrow> ([], Waits) | Fails e \<Rightarrow> ([], Fails e) | Gets _ \<Rightarrow> ([], Gets ())))))"

section \<open>Dumps end, or do not\<close>

text \<open>The daemon's end of the control socket: the session is over when the server reports anything but the end of its input.\<close>

definition control_socket :: "string \<Rightarrow> string \<Rightarrow> int \<Rightarrow> (control_error \<Rightarrow> string) \<Rightarrow> 'd handler \<Rightarrow> 'd \<Rightarrow> socket" where
  "control_socket name cookie pid text h d sent =
     (case handle name cookie pid text (Some h) sent d of (_, out, e) \<Rightarrow> (out, e \<noteq> EOF))"

fun until_line :: "string \<Rightarrow> string list \<Rightarrow> string list \<times> unit wait" where
  "until_line t [] = ([], Waits)"
| "until_line t (l # ls) = (if l = t then ([], Gets ()) else (l # fst (until_line t ls), snd (until_line t ls)))"

lemma until_line_found: "t \<notin> set ls \<Longrightarrow> until_line t (ls @ t # r) = (ls, Gets ())"
  by (induction ls) auto

lemma until_line_missing: "t \<notin> set ls \<Longrightarrow> until_line t ls = (ls, Waits)"
  by (induction ls) auto

lemma dump_loop_lines:
  assumes "sock (cl_sent cl) = (out, False)" and "complete_lines out = pre @ ls" and "cl_read cl = length pre"
  shows "dump_loop sock t line cl = until_line t (line # map (\<lambda>l. TrimRight (l @ [NL]) [CR, NL]) ls)"
  using assms
proof (induction ls arbitrary: pre line cl)
  case Nil
  then show ?case by (subst dump_loop.simps) (simp add: ReadLine_def)
next
  case (Cons l ls)
  let ?cl = "cl\<lparr>cl_read := Suc (length pre)\<rparr>"
  have "dump_loop sock t (TrimRight (l @ [NL]) [CR, NL]) ?cl =
      until_line t (TrimRight (l @ [NL]) [CR, NL] # map (\<lambda>l. TrimRight (l @ [NL]) [CR, NL]) ls)"
    using Cons.prems by (intro Cons.IH [where pre = "pre @ [l]"]) auto
  then show ?case using Cons.prems by (subst dump_loop.simps) (simp add: ReadLine_def)
qed

lemma complete_lines_items: "list_all (\<lambda>l. NL \<notin> set l) ls \<Longrightarrow> complete_lines (concat (map (\<lambda>l. l @ [NL]) ls)) = ls"
  by (induction ls) (simp_all add: complete_lines_line)

lemma auth_lines: "token cookie \<Longrightarrow> complete_lines (auth_line cookie @ r) = butlast (auth_line cookie) # complete_lines r"
  using complete_lines_line [OF authenticate_spec(2)] auth_line_split [of cookie]
  by (metis append_Cons append_Nil append_assoc)

abbreviation greeting_of :: "string \<Rightarrow> string" where
  "greeting_of name \<equiv> Greeting_Encode \<lparr>gr_Name = name, gr_Major = 1, gr_Minor = 0\<rparr>"

lemma session_open:
  "control_socket name cookie pid text h d [] = (greeting_of name, False)"
  "token cookie \<Longrightarrow> control_socket name cookie pid text h d (auth_line cookie) =
     (greeting_of name @ ''4 0 '' @ Itoa pid @ [NL], False)"
  using auth_lines [of cookie "[]"] authenticate_spec(1) [of cookie cookie]
  by (simp_all add: control_socket_def handle_def)

lemma session_request:
  assumes "token cookie" and "int64_range t"
    and "h \<lparr>m_Class = ClassRequest, m_Type = t, m_Args = []\<rparr> d = (d', out, None)"
  shows "control_socket name cookie pid text h d (auth_line cookie @ EncodeMessage t []) =
    (greeting_of name @ ''4 0 '' @ Itoa pid @ [NL] @ out, False)"
proof -
  have ok: "msg_ok (t, [])" using assms(2) by (simp add: msg_ok_def)
  have req: "complete_lines (EncodeMessage t []) = [join_sp [Itoa ClassRequest, Itoa t]]"
    using complete_lines_msgs [of "[(t, [])]"] ok by simp
  have ne: "join_sp [Itoa ClassRequest, Itoa t] \<noteq> []" by (simp add: join_sp_Cons)
  have serve: "serve_line text (Some h) (join_sp [Itoa ClassRequest, Itoa t]) d = (d', out)"
    using line_clean [OF tokens_msg [OF ok]] DecodeMessage_join [OF ok] assms(3) ne
    by (simp add: serve_line_def Let_def del: join_sp.simps)
  show ?thesis
    using auth_lines [OF assms(1)] authenticate_spec(1) [OF assms(1), of cookie] req serve
    by (simp add: control_socket_def handle_def del: join_sp.simps)
qed

lemma scan_d_number:
  assumes "int64_range n" and "r = [] \<or> \<not> is_digit (hd r)"
  shows "scan_d (Itoa n @ r) = Some (n, r)"
proof -
  have trim: "trim_with space_encs (Itoa n @ r) = Itoa n @ r"
  proof (rule trim_with_clean)
    obtain c cs where c: "Itoa n = c # cs" by (cases "Itoa n") simp_all
    then have "is_digit c \<or> c = CHR ''-''" using Itoa_chars [of c n] by simp
    then have "list_all (\<lambda>e. e \<noteq> [] \<and> hd e \<noteq> c) space_encs" by (auto simp: space_encs_def is_digit_def)
    then have "take (length e) (Itoa n @ r) \<noteq> e" if "e \<in> set space_encs" for e
      using that by (cases e) (auto simp: list_all_iff c)
    then show "lead_len space_encs (Itoa n @ r) = 0" using space_encs_bytes by (auto simp: lead_len_0_iff)
  qed
  have tw: "takeWhile is_digit (nat_str k @ r) = nat_str k" for k
    using assms(2) by (subst takeWhile_append2) (auto simp: nat_str_digits takeWhile_eq_Nil_iff)
  have at: "Atoi (Itoa n) = Some n" by (rule Atoi_Itoa [OF assms(1)])
  show ?thesis
  proof (cases "n < 0")
    case True
    then have i: "Itoa n = CHR ''-'' # nat_str (nat (- n))" by (simp add: Itoa_def)
    show ?thesis using trim at unfolding i by (simp add: scan_d_def Let_def tw)
  next
    case False
    then have i: "Itoa n = nat_str (nat n)" by (simp add: Itoa_def)
    obtain c cs where c: "nat_str (nat n) = c # cs" by (cases "nat_str (nat n)") simp_all
    then have "c \<noteq> CHR ''-''" "c \<noteq> CHR ''+''" using nat_str_digits [of c "nat n"] by (auto simp: is_digit_def)
    then show ?thesis using trim at tw [of "nat n"] unfolding i c by (simp add: scan_d_def Let_def)
  qed
qed

lemma scan_d_space: "scan_d (SP # s) = scan_d s"
  by (simp add: scan_d_def trim_with.simps [of _ "SP # s"])

lemma scan_ack: "int64_range pid \<Longrightarrow> scan_ints 3 (''4 0 '' @ Itoa pid) = Some [4, 0, pid]"
proof -
  assume p: "int64_range pid"
  have lit: "Itoa 4 = ''4''" "Itoa 0 = ''0''" by code_simp+
  have sp: "\<not> is_digit SP" by (simp add: is_digit_def SP_def)
  have "scan_d (''4'' @ SP # ''0'' @ SP # Itoa pid) = Some (4, SP # ''0'' @ SP # Itoa pid)"
    unfolding lit [symmetric] by (rule scan_d_number) (simp_all add: sp int64_range_def)
  moreover have "scan_d (SP # ''0'' @ SP # Itoa pid) = Some (0, SP # Itoa pid)"
    unfolding lit [symmetric] scan_d_space by (rule scan_d_number) (simp_all add: sp int64_range_def)
  moreover have "scan_d (SP # Itoa pid) = Some (pid, [])"
    using scan_d_number [OF p, of "[]"] by (simp add: scan_d_space)
  moreover have "''4 0 '' @ Itoa pid = ''4'' @ SP # ''0'' @ SP # Itoa pid" by (simp add: SP_def)
  ultimately show ?thesis by (simp add: numeral_3_eq_3)
qed

lemma digits_0_1: "Itoa 0 = ''0''" "Itoa 1 = ''1''"
  by code_simp+

lemma greeting_line:
  assumes "token name"
  obtains l where "Greeting_Encode \<lparr>gr_Name = name, gr_Major = 1, gr_Minor = 0\<rparr> = l @ [NL]" "NL \<notin> set l"
    "ParseGreeting (TrimSpace (l @ [NL])) = Inr \<lparr>gr_Name = name, gr_Major = 1, gr_Minor = 0\<rparr>"
proof -
  let ?g = "\<lparr>gr_Name = name, gr_Major = 1, gr_Minor = 0\<rparr>"
  let ?l = "''0'' @ [SP] @ name @ [SP] @ ''1.0''"
  have g: "Greeting_Encode ?g = ?l @ [NL]" by (simp add: Greeting_Encode_def ClassGreeting_def digits_0_1)
  have "clean ?l" by (rule ascii_cleanI) (simp_all add: ascii_def space_encs_def)
  then have "TrimSpace (?l @ [NL]) = ?l" "TrimSpace ?l = ?l" by (simp_all only: TrimSpace_NL_right TrimSpace_clean)
  moreover have "butlast (Greeting_Encode ?g) = ?l" unfolding g by (simp only: butlast_snoc)
  ultimately have "ParseGreeting (TrimSpace (?l @ [NL])) = Inr ?g"
    using greeting_roundtrip [of ?g] assms by (simp only: int64_range_def greeting.simps) simp
  moreover have "NL \<notin> set ?l" using token_no_NL [OF assms] by (simp add: NL_def SP_def)
  ultimately show ?thesis using that g by blast
qed

lemma ack_line:
  assumes "int64_range pid"
  obtains l where "''4 0 '' @ Itoa pid @ [NL] = l @ [NL]" "NL \<notin> set l" "scan_ints 3 (TrimSpace (l @ [NL])) = Some [4, 0, pid]"
proof -
  let ?l = "''4 0 '' @ Itoa pid"
  have d: "is_digit (last (Itoa pid)) \<or> last (Itoa pid) = CHR ''-''" by (rule Itoa_chars [of _ pid]) simp
  then have "ascii (last ?l) \<and> [last ?l] \<notin> set space_encs"
    using is_digit_ascii by (auto simp: ascii_def space_encs_def)
  then have "clean ?l" by (intro ascii_cleanI) (simp_all add: ascii_def space_encs_def)
  then have "TrimSpace (?l @ [NL]) = ?l" by (rule TrimSpace_NL_right)
  moreover have "NL \<notin> set (Itoa pid)" by (rule Itoa_notin) (simp_all add: is_digit_def NL_def)
  then have "NL \<notin> set ?l" by (simp add: NL_def)
  ultimately show ?thesis using that [of ?l] scan_ack [OF assms] by simp
qed

lemma ParsePIDFile_trim: "TrimSpace s = TrimSpace t \<Longrightarrow> ParsePIDFile t = Inr x \<Longrightarrow> ParsePIDFile s = Inr x"
  by (auto simp: ParsePIDFile_def Let_def split: list.splits)

lemma pidfile_parsed:
  assumes "int64_range pid" and "token cookie"
  shows "ParsePIDFile (PIDFile_Encode \<lparr>pf_PID = pid, pf_Cookie = cookie\<rparr>) = Inr \<lparr>pf_PID = pid, pf_Cookie = cookie\<rparr>"
proof (rule ParsePIDFile_trim)
  let ?p = "\<lparr>pf_PID = pid, pf_Cookie = cookie\<rparr>"
  let ?l = "join_sp [Itoa pid, cookie]"
  have l: "PIDFile_Encode ?p = ?l @ [NL]" by (simp add: PIDFile_Encode_def)
  have "clean ?l" using assms by (intro join_sp_clean) (simp_all add: Itoa_token)
  then show "TrimSpace (PIDFile_Encode ?p) = TrimSpace (butlast (PIDFile_Encode ?p))"
    unfolding l by (simp only: TrimSpace_NL_right TrimSpace_clean butlast_snoc)
  show "ParsePIDFile (butlast (PIDFile_Encode ?p)) = Inr ?p" using pidfile_roundtrip [of ?p] assms by simp
qed

text \<open>A client that dials a running daemon is connected and has read the greeting and the acknowledgement.\<close>

definition serves :: "(path \<Rightarrow> socket option) \<Rightarrow> paths \<Rightarrow> string \<Rightarrow> fsys \<Rightarrow> int \<Rightarrow> string \<Rightarrow> socket \<Rightarrow> bool" where
  "serves net p runDir fs pid cookie sock \<longleftrightarrow>
     os_ReadFile fs (PIDFile p runDir) = Inr (PIDFile_Encode \<lparr>pf_PID = pid, pf_Cookie = cookie\<rparr>) \<and>
     net (ControlSocket p runDir) = Some sock \<and> int64_range pid \<and> token cookie"

lemma dial_daemon:
  assumes "serves net p runDir fs pid cookie (control_socket name cookie pid text h d)" and "token name"
  shows "dialControl net p runDir fs = Gets (control_socket name cookie pid text h d,
    \<lparr>cl_sent = auth_line cookie, cl_read = 2, cl_ServerName = name, cl_ServerPID = pid\<rparr>)"
proof -
  let ?s = "control_socket name cookie pid text h d"
  have pid: "int64_range pid" and ck: "token cookie" using assms(1) by (auto simp: serves_def)
  obtain g where g: "greeting_of name = g @ [NL]" "NL \<notin> set g"
    "ParseGreeting (TrimSpace (g @ [NL])) = Inr \<lparr>gr_Name = name, gr_Major = 1, gr_Minor = 0\<rparr>"
    by (rule greeting_line [OF assms(2)])
  obtain a where a: "''4 0 '' @ Itoa pid @ [NL] = a @ [NL]" "NL \<notin> set a" "scan_ints 3 (TrimSpace (a @ [NL])) = Some [4, 0, pid]"
    by (rule ack_line [OF pid])
  have "?s [] = (g @ [NL], False)" by (simp only: session_open g)
  moreover have "?s (auth_line cookie) = (g @ NL # a @ [NL], False)"
    using a(1) by (simp add: session_open(2) [OF ck] g(1))
  moreover have "complete_lines (g @ [NL]) = [g]" "complete_lines (g @ NL # a @ [NL]) = [g, a]"
    using g(2) a(2) by (simp_all add: complete_lines_line)
  ultimately show ?thesis
    using assms(1) g(3) a(3) pidfile_parsed [OF pid ck]
    by (simp add: serves_def dialControl_def control_Dial_def ReadLine_def)
qed

lemma dump_daemon:
  assumes "serves net p runDir fs pid cookie (control_socket name cookie pid text h d)" and "token name"
    and "int64_range t" and "h \<lparr>m_Class = ClassRequest, m_Type = t, m_Args = []\<rparr> d = (d', concat (map (\<lambda>l. l @ [NL]) ls), None)"
    and "list_all (\<lambda>l. NL \<notin> set l \<and> l \<noteq> [] \<and> last l \<noteq> CR) ls"
  shows "runControlDump net p runDir t fs = until_line (dump_terminator t) ls"
proof -
  let ?s = "control_socket name cookie pid text h d"
  let ?cl = "\<lparr>cl_sent = auth_line cookie @ EncodeMessage t [], cl_read = 2, cl_ServerName = name, cl_ServerPID = pid\<rparr>"
  have pid: "int64_range pid" and ck: "token cookie" using assms(1) by (auto simp: serves_def)
  obtain g where g: "greeting_of name = g @ [NL]" "NL \<notin> set g" by (rule greeting_line [OF assms(2)])
  obtain a where a: "''4 0 '' @ Itoa pid @ [NL] = a @ [NL]" "NL \<notin> set a" by (rule ack_line [OF pid])
  let ?out = "g @ NL # a @ NL # concat (map (\<lambda>l. l @ [NL]) ls)"
  have sock: "?s (cl_sent ?cl) = (?out, False)"
    using a(1) by (simp add: session_request [where h = h, OF ck assms(3,4)] g(1))
  have lines: "complete_lines ?out = g # a # ls"
    using g(2) a(2) complete_lines_items [of ls] assms(5) by (simp add: complete_lines_line list_all_iff)
  have trim: "TrimRight (l @ [NL]) [CR, NL] = l" if "l \<in> set ls" for l
    using that assms(5) by (intro TrimRight_line) (simp add: list_all_iff, metis last_in_set)
  show ?thesis
  proof (cases ls)
    case Nil
    then show ?thesis using sock lines
      by (simp add: runControlDump_def dial_daemon [OF assms(1,2)] Send_def ReadLine_def)
  next
    case (Cons l ls')
    have "dump_loop ?s (dump_terminator t) (TrimRight (l @ [NL]) [CR, NL]) (?cl\<lparr>cl_read := 3\<rparr>) =
        until_line (dump_terminator t) (TrimRight (l @ [NL]) [CR, NL] # map (\<lambda>l. TrimRight (l @ [NL]) [CR, NL]) ls')"
      using sock lines Cons by (intro dump_loop_lines [where pre = "[g, a, l]" and out = ?out]) simp_all
    also have "map (\<lambda>l. TrimRight (l @ [NL]) [CR, NL]) ls' = ls'" using trim Cons by (intro map_idI) simp
    finally show ?thesis using sock lines trim [of l] Cons
      by (simp add: runControlDump_def dial_daemon [OF assms(1,2)] Send_def ReadLine_def eval_nat_numeral)
  qed
qed

definition dump_line :: "int \<Rightarrow> string list \<Rightarrow> string" where
  "dump_line t args = join_sp (Itoa ClassRequest # Itoa t # args)"

lemma reply_dump_line: "reply_line t args = dump_line t args @ [NL]"
  by (simp add: reply_line_def dump_line_def join_sp_Cons)

lemma dump_line_terminator: "dump_terminator t = dump_line t []" "dump_line t args = dump_line t [] \<longleftrightarrow> args = []"
  by (auto simp: dump_terminator_def dump_line_def join_sp_Cons)

lemma dump_line_ok: "list_all token args \<Longrightarrow> NL \<notin> set (dump_line t args) \<and> dump_line t args \<noteq> [] \<and> last (dump_line t args) \<noteq> CR"
proof -
  assume "list_all token args"
  then have ts: "list_all token (Itoa ClassRequest # Itoa t # args)" by (simp add: Itoa_token)
  then have "clean (dump_line t args)" unfolding dump_line_def by (rule join_sp_clean) simp
  then show ?thesis
    using join_sp_no_NL [OF ts] clean_last_CR [of "dump_line t args"] by (simp add: dump_line_def clean_def del: join_sp.simps)
qed

lemma dump_rows:
  assumes "serves net p runDir fs pid cookie (control_socket name cookie pid text h d)" and "token name" and "int64_range t"
    and "h \<lparr>m_Class = ClassRequest, m_Type = t, m_Args = []\<rparr> d =
      (d', concat (map (\<lambda>a. reply_line t a) rows) @ reply_line t [], None)"
    and "list_all (list_all token) rows" and "[] \<notin> set rows"
  shows "runControlDump net p runDir t fs = (map (dump_line t) rows, Gets ())"
proof -
  have "runControlDump net p runDir t fs = until_line (dump_terminator t) (map (dump_line t) rows @ [dump_terminator t])"
  proof (rule dump_daemon [OF assms(1-3)])
    show "h \<lparr>m_Class = ClassRequest, m_Type = t, m_Args = []\<rparr> d =
        (d', concat (map (\<lambda>l. l @ [NL]) (map (dump_line t) rows @ [dump_terminator t])), None)"
      using assms(4) by (simp add: reply_dump_line dump_line_terminator(1) comp_def)
    show "list_all (\<lambda>l. NL \<notin> set l \<and> l \<noteq> [] \<and> last l \<noteq> CR) (map (dump_line t) rows @ [dump_terminator t])"
      using assms(5) dump_line_ok [of _ t] by (simp add: list_all_iff dump_line_terminator(1))
  qed
  moreover have "dump_terminator t \<notin> set (map (dump_line t) rows)"
    unfolding set_map image_iff dump_line_terminator(1) using assms(6) dump_line_terminator(2) by metis
  ultimately show ?thesis using until_line_found [of "dump_terminator t" _ "[]"] by simp
qed


text \<open>\<open>alice\<close> runs a daemon with process 77 and control cookie \<open>ck\<close>.\<close>

definition alice_running :: fsys where
  "alice_running = fs_put (True, [''run'', ''gsnet.vpn.pid'']) (Regular 384 (PIDFile_Encode \<lparr>pf_PID = 77, pf_Cookie = ''ck''\<rparr>)) alice_fs"

definition alice_net :: "path \<Rightarrow> socket option" where
  "alice_net q = (if q = (True, [''run'', ''gsnet.vpn.socket''])
     then Some (control_socket ''alice'' ''ck'' 77 (\<lambda>_. []) (controlHandler alice_env (\<lambda>_. 0)) alice_daemon) else None)"


end
