(* ===== verification/Join.thy ===== *)
theory Join
  imports Cli
begin

text \<open>
  Inviting and joining end to end: the URL and the file that \<open>gsnet invite\<close> produces, the daemon of theory \<open>Daemon\<close>
  behind the transport of theory \<open>Transport\<close>, \<open>gsnet join\<close> on a new machine, and the configuration the new node loads.
\<close>

unbundle bit_operations_syntax

text \<open>Without a configured address the printed URL has no host, and \<open>gsnet join\<close> rejects it.\<close>

lemma invite_without_address: "ParseURL (url_String (BuildURL c [] port pub cookie)) = Inl EmptyHost"
proof -
  have sl: "CHR ''/'' \<notin> set ('':'' @ Itoa port)" by (simp add: Itoa_notin is_digit_def)
  have "url_String (BuildURL c [] port pub cookie) = ('':'' @ Itoa port) @ CHR ''/'' # (Hash c pub @ cookie)"
    by (simp add: url_String_def BuildURL_def)
  then have "cut_first (CHR ''/'') (url_String (BuildURL c [] port pub cookie)) = Some ('':'' @ Itoa port, Hash c pub @ cookie)"
    using cut_first_append [OF sl] by simp
  moreover have "cut_last (CHR '':'') ([] @ CHR '':'' # Itoa port) = Some ([], Itoa port)"
    by (rule cut_last_append) (simp add: Itoa_notin is_digit_def)
  ultimately show ?thesis by (simp add: ParseURL_def)
qed

section \<open>The inviter\<close>

text \<open>The invitation file that \<open>cmdInvite\<close> writes, from the entries of the inviter's own host file.\<close>

definition inv_file :: "paths \<Rightarrow> string \<Rightarrow> string \<Rightarrow> string \<Rightarrow> entries \<Rightarrow> invfile" where
  "inv_file p invitee self addr hs =
     \<lparr>f_Netname = pa_Netname p, f_Invitee = no_block\<lparr>b_Name := invitee, b_ConnectTo := [self]\<rparr>,
      f_Hosts = [no_block\<lparr>b_Name := self, b_Address := addr, b_Other := hs\<rparr>]\<rparr>"

text \<open>A node that can invite: it is configured and reachable, its keys match, and its directories are there.\<close>

definition node_name :: "string \<Rightarrow> bool" where
  "node_name n \<longleftrightarrow> Validate n = None \<and> length n < 60000"

definition inviter_ready :: "crypto \<Rightarrow> paths \<Rightarrow> fsys \<Rightarrow> string \<Rightarrow> string \<Rightarrow> int \<Rightarrow> bytes \<Rightarrow> entries \<Rightarrow> bool" where
  "inviter_ready c p fs self addr port edPriv hs \<longleftrightarrow>
     (\<exists>es. LoadDirectory fs (ConfFile p) = Inr es \<and> GetFirst es ''Name'' = Some self \<and> entry_or_empty es ''Address'' = addr \<and>
        (case GetFirst es ''Port'' of Some v \<Rightarrow> Sscanf_d v 51820 | None \<Rightarrow> 51820) = port) \<and>
     node_name self \<and> value_ok addr \<and> CHR ''/'' \<notin> set addr \<and> 0 < port \<and> port \<le> 65535 \<and>
     (pa_Netname p = [] \<or> value_ok (pa_Netname p)) \<and>
     (\<exists>pem. os_ReadFile fs (Ed25519Private p) = Inr pem \<and> ParseEd25519PrivatePEM c pem = Inr edPriv) \<and>
     (\<exists>hb. os_ReadFile fs (HostFile p self) = Inr hb \<and> Parse hb = Inr hs) \<and>
     list_all entry_ok hs \<and> list_all (\<lambda>e. \<not> special (Key e)) hs \<and>
     GetFirst hs ''Ed25519PublicKey'' = Some (Ed_String (Ed_Public c edPriv)) \<and>
     hosts_writable p fs \<and> directories fs (InvitationsDir p)"

lemma name_value_ok: "node_name n \<Longrightarrow> value_ok n" and name_plain: "node_name n \<Longrightarrow> plain n" and name_token: "node_name n \<Longrightarrow> token n"
proof -
  assume n: "node_name n"
  then have v: "n \<noteq> []" "\<And>c. c \<in> set n \<Longrightarrow> isNameRune c" and l: "length n < 60000" by (auto simp: node_name_def Validate_None)
  then have a: "\<And>c. c \<in> set n \<Longrightarrow> ascii c \<and> [c] \<notin> set space_encs" using isNameRune_ascii by auto
  then show "token n" using v(1) by (simp add: token_def nospace_ascii)
  then have "clean n" "NL \<notin> set n" by (simp_all add: token_clean token_no_NL)
  then show "value_ok n" using l by (simp add: value_ok_def MaxScanTokenSize_def)
  show "plain n" using n isNameRune_plain by (simp add: node_name_def)
qed

lemma inv_file_ok:
  assumes "inviter_ready c p fs self addr port edPriv hs" and "node_name invitee"
  shows "file_ok (inv_file p invitee self addr hs)"
  using assms name_value_ok [OF assms(2)] name_value_ok [of self]
  by (auto simp: inviter_ready_def file_ok_def inv_file_def block_ok_def no_block_def)

lemma cookie_ok:
  assumes "length buf = cookieBytes"
  shows "token (invite_NewCookie buf)" "plain (invite_NewCookie buf)" "invite_NewCookie buf \<noteq> []"
proof -
  have b: "buf \<noteq> []" using assms by (auto simp: cookieBytes_def)
  then show t: "token (invite_NewCookie buf)" by (simp add: invite_NewCookie_def url_token)
  have l: "length (invite_NewCookie buf) = 32" using assms by (simp add: invite_NewCookie_def length_RawURLEncode cookieBytes_def)
  then show "invite_NewCookie buf \<noteq> []" by auto
  have "CHR ''/'' \<notin> set (RawURLEncode buf)"
    using url_chars [of buf] by (auto simp: url_alphabet_def)
  then show "plain (invite_NewCookie buf)" using l by (auto simp: plain_def invite_NewCookie_def)
qed

lemma invite_ok:
  assumes "inviter_ready c p fs self addr port edPriv hs" and "node_name invitee" and "length buf = cookieBytes"
    and "\<not> is_directory fs (path_Join (InvitationsDir p) (invite_NewCookie buf))"
  obtains m where "cmdInvite c (Some buf) p [invitee] fs =
    (fs_put (path_Join (InvitationsDir p) (invite_NewCookie buf)) (Regular m (file_Render (inv_file p invitee self addr hs))) fs,
     Inr (url_String (BuildURL c addr port (Ed_Public c edPriv) (invite_NewCookie buf))))"
proof -
  let ?ck = "invite_NewCookie buf" and ?f = "inv_file p invitee self addr hs"
  obtain r cs where D: "NetDir p = (r, cs)" by (cases "NetDir p")
  have I: "InvitationsDir p = (r, cs @ [''invitations''])" "path_Join (InvitationsDir p) ?ck = (r, (cs @ [''invitations'']) @ [?ck])"
    using cookie_ok(2) [OF assms(3)] by (simp_all add: layout_simps D)
  obtain es pem hb where i: "LoadDirectory fs (ConfFile p) = Inr es" "GetFirst es ''Name'' = Some self"
      "entry_or_empty es ''Address'' = addr" "(case GetFirst es ''Port'' of Some v \<Rightarrow> Sscanf_d v 51820 | None \<Rightarrow> 51820) = port"
    and key: "os_ReadFile fs (Ed25519Private p) = Inr pem" "ParseEd25519PrivatePEM c pem = Inr edPriv"
    and host: "os_ReadFile fs (HostFile p self) = Inr hb" "Parse hb = Inr hs"
    and q: "quiet fs" "directories fs (InvitationsDir p)"
    using assms(1) unfolding inviter_ready_def hosts_writable_def by blast
  have "hs \<noteq> []" using assms(1) by (auto simp: inviter_ready_def)
  moreover have "Parse [] = Inr []" using Parse_Render [of "[]"] by (simp add: Render_def)
  ultimately have "hb \<noteq> []" using host(2) by auto
  then have f: "invitation_for p invitee self addr hb = ?f" using host(2) by (simp add: invitation_for_def inv_file_def)
  have mk: "os_MkdirAll (InvitationsDir p) 448 fs = (fs, None)"
    using q(2) unfolding os_MkdirAll_def directories_def by (rule mkdirs_noop)
  obtain m where w: "os_WriteFile (path_Join (InvitationsDir p) ?ck) (file_Render ?f) 384 fs =
      (fs_put (path_Join (InvitationsDir p) ?ck) (Regular m (file_Render ?f)) fs, None)"
  proof -
    have "directories fs (r, cs @ [''invitations''])" "\<not> is_directory fs (r, (cs @ [''invitations'']) @ [?ck])"
      using q(2) assms(4) I by simp_all
    then show ?thesis using that WriteFile_quiet [OF q(1) _ directories_parent] unfolding I(2) by blast
  qed
  have "Validate invitee = None" using assms(2) by (simp add: node_name_def)
  then have "cmdInvite c (Some buf) p [invitee] fs =
      (fs_put (path_Join (InvitationsDir p) ?ck) (Regular m (file_Render ?f)) fs,
       Inr (url_String (BuildURL c addr port (Ed_Public c edPriv) ?ck)))"
    by (simp add: cmdInvite_def Let_def i key host(1) mk f w)
  then show ?thesis by (rule that)
qed

section \<open>The daemon of the inviter\<close>

text \<open>A daemon that runs on the inviter's files, with the invitation in place.\<close>

definition holds_invitation :: "crypto \<Rightarrow> 'r daemon \<Rightarrow> string \<Rightarrow> bytes \<Rightarrow> string \<Rightarrow> string \<Rightarrow> string \<Rightarrow> entries \<Rightarrow> bool" where
  "holds_invitation c d cookie edPriv invitee self addr hs \<longleftrightarrow>
     l_NodeName (d_loaded d) = self \<and> l_EdPriv (d_loaded d) = edPriv \<and> hosts_writable (d_Paths d) (d_fs d) \<and>
     file_ok (inv_file (d_Paths d) invitee self addr hs) \<and>
     os_ReadFile (d_fs d) (invitation_path d cookie) = Inr (file_Render (inv_file (d_Paths d) invitee self addr hs))"

lemma parse_inv_file: "file_ok f \<Longrightarrow> ParseFile (file_Render f) = Inr f"
  using ifile.dec_enc by auto

lemma handle_join_ok:
  assumes "holds_invitation c d cookie edPriv invitee self addr hs" and "plain invitee"
  shows "\<exists>d'. handleInviteJoin env now cookie invitee cfg d = (d', Inr (file_Render (inv_file (d_Paths d) invitee self addr hs)))"
proof -
  let ?f = "inv_file (d_Paths d) invitee self addr hs"
  have h: "hosts_writable (d_Paths d) (d_fs d)" "file_ok ?f"
    "os_ReadFile (d_fs d) (invitation_path d cookie) = Inr (file_Render ?f)"
    using assms(1) by (auto simp: holds_invitation_def)
  have mk: "os_MkdirAll (HostsDir (d_Paths d)) 448 (d_fs d) = (d_fs d, None)"
    using h(1) unfolding os_MkdirAll_def hosts_writable_def directories_def by (blast intro: mkdirs_noop)
  obtain m where "writeHost (d_Paths d) invitee [cfg] (d_fs d) =
      (fs_put (HostFile (d_Paths d) invitee) (Regular m (concat [cfg])) (d_fs d), None)"
    using writeHost_ok [OF h(1) assms(2)] by blast
  then have "os_WriteFile (HostFile (d_Paths d) invitee) cfg 420 (d_fs d) =
      (fs_put (HostFile (d_Paths d) invitee) (Regular m cfg) (d_fs d), None)"
    by (simp add: writeHost_def cli_write_def mk split: prod.splits)
  moreover have "b_Name (f_Invitee ?f) = invitee" by (simp add: inv_file_def)
  ultimately show ?thesis using h(3) parse_inv_file [OF h(2)] by (simp add: handleInviteJoin_def Let_def mk)
qed

text \<open>The two requests of the invitee, answered by that daemon.\<close>

lemma client_answers:
  fixes now :: int and jtext :: "join_error \<Rightarrow> string"
  assumes "holds_invitation c d cookie edPriv invitee self addr hs" and "c = de_crypto env" and "session_correct sc" and "ed25519_correct c"
    and "\<forall>msg. Sign c edPriv msg \<noteq> []" and "GetFirst hs ''Ed25519PublicKey'' = Some (Ed_String (Ed_Public c edPriv))"
    and "token cookie" and "node_name invitee"
    and "NewEphemeral sc ra = Some a" and "NewEphemeral sc rb = Some b"
  defines "body \<equiv> str_bytes (file_Render (inv_file (d_Paths d) invitee self addr hs))"
    and "srv \<equiv> daemon_server env now jtext d"
  shows "client_InviteGet c sc ra (\<lambda>cmd. Some (se_reply (handleInbound c sc etext rb srv cmd d))) cookie
      (Hash c (Ed_Public c edPriv)) = Inr body"
    and "client_InviteJoin c sc ra (\<lambda>cmd. Some (se_reply (handleInbound c sc etext rb srv cmd d))) cookie invitee
      (str_bytes cfg) (Hash c (Ed_Public c edPriv)) = Inr body"
    and "handleInviteJoin env now cookie invitee cfg d = (d', r) \<Longrightarrow>
      se_state (handleInbound c sc etext rb srv (join_command cookie invitee (eph_Pub a) (str_bytes cfg)) d) = d'"
proof -
  let ?f = "inv_file (d_Paths d) invitee self addr hs"
  have h: "l_EdPriv (d_loaded d) = edPriv" "file_ok ?f" "os_ReadFile (d_fs d) (invitation_path d cookie) = Inr (file_Render ?f)"
    using assms(1) by (auto simp: holds_invitation_def)
  have len: "length (eph_Pub a) = 32" using session_key_agree [OF assms(3,9,10)] by metis
  have key: "ts_EdPriv srv = edPriv" using h(1) by (simp add: srv_def daemon_server_def Let_def)
  let ?ans = "\<lambda>(d', r). (d', case r of Inl e \<Rightarrow> Inl (jtext e) | Inr b \<Rightarrow> Inr (str_bytes b))"
  have cb: "ts_InviteGet srv = Some (\<lambda>cookie d. ?ans (handleInviteGet cookie d))"
    "ts_InviteJoin srv = Some (\<lambda>cookie name cfg d. ?ans (handleInviteJoin env now cookie name (bytes_str cfg) d))"
    by (simp_all add: srv_def daemon_server_def Let_def)
  have get: "?ans (handleInviteGet cookie d) = (d, Inr body)" by (simp add: handleInviteGet_def h(3) body_def)
  obtain d2 where d2: "handleInviteJoin env now cookie invitee cfg d = (d2, Inr (file_Render ?f))"
    using handle_join_ok [OF assms(1) name_plain [OF assms(8)]] by blast
  then have join: "?ans (handleInviteJoin env now cookie invitee (bytes_str (str_bytes cfg)) d) = (d2, Inr body)" by (simp add: body_def)
  have pub: "length (Ed_Public c edPriv) = PublicKeySize" using assms(4) by (simp add: ed25519_correct_def Ed_Public_def)
  have "findInviterEd25519Pub body = Some (Ed_Public c edPriv)"
    unfolding body_def by (rule findInviter_rendered [OF h(2) _ _ pub, where h = "no_block\<lparr>b_Name := self, b_Address := addr, b_Other := hs\<rparr>" and hs = "[]"]) (use assms(6) in \<open>simp_all add: inv_file_def no_block_def\<close>)
  note reply = honest_reply [OF assms(3) Verify_Sign [OF assms(4)] spec [OF assms(5)] assms(9,10) this, of "Hash c (Ed_Public c edPriv)"]
  note ig = inbound_get [where inviteGet = "\<lambda>cookie d. ?ans (handleInviteGet cookie d)", OF assms(7) len cb(1) get]
  note ij = inbound_join [where inviteJoin = "\<lambda>cookie name cfg d. ?ans (handleInviteJoin env now cookie name (bytes_str cfg) d)",
      OF assms(7) name_token [OF assms(8)] len cb(2) join]
  show "client_InviteGet c sc ra (\<lambda>cmd. Some (se_reply (handleInbound c sc etext rb srv cmd d))) cookie
      (Hash c (Ed_Public c edPriv)) = Inr body"
    by (simp add: client_InviteGet_def assms(9)) (rule reply, simp, simp add: ig key)
  show "client_InviteJoin c sc ra (\<lambda>cmd. Some (se_reply (handleInbound c sc etext rb srv cmd d))) cookie invitee
      (str_bytes cfg) (Hash c (Ed_Public c edPriv)) = Inr body"
    by (simp add: client_InviteJoin_def assms(9)) (rule reply, simp, simp add: ij key)
  show "handleInviteJoin env now cookie invitee cfg d = (d', r) \<Longrightarrow>
      se_state (handleInbound c sc etext rb srv (join_command cookie invitee (eph_Pub a) (str_bytes cfg)) d) = d'"
    using d2 by (simp add: ij)
qed

section \<open>The machine of the invitee\<close>

lemma WriteFile_new:
  assumes "directories fs (r, cs)" and "node_at fs (r, cs @ [c]) = None" and "quiet fs"
  shows "os_WriteFile (r, cs @ [c]) data m fs = (fs_put (r, cs @ [c]) (Regular (m AND NOT (fs_umask fs)) data) fs, None)"
  using assms directories_parent [OF assms(1)] by (simp add: os_WriteFile_def fs_create_def fs_store_def quiet_def)

lemma quiet_put [simp]: "quiet (fs_put q n fs) = quiet fs"
  by (simp add: quiet_def)

definition tree_conf :: "invfile \<Rightarrow> entries" where
  "tree_conf f = \<lparr>Key = ''Name'', Value = b_Name (f_Invitee f)\<rparr> #
     map (\<lambda>ct. \<lparr>Key = ''ConnectTo'', Value = ct\<rparr>) (b_ConnectTo (f_Invitee f))"

definition tree_inviter :: "block \<Rightarrow> entries" where
  "tree_inviter b = (if b_Address b \<noteq> [] then [\<lparr>Key = ''Address'', Value = b_Address b\<rparr>] else []) @ b_Other b"

lemma fs_step_simps [simp]: "fs_step (fs, None) k = k fs" "fs_step (fs, Some e) k = (fs, Inl (CliOS e))"
  by (simp_all add: fs_step_def)

lemma tree_files:
  assumes "quiet fs" and "fresh fs (NetDir p)" and "plain (b_Name (f_Invitee f))" and "plain (b_Name b)"
    and "b_Name (f_Invitee f) \<noteq> b_Name b"
  obtains fs' where "write_tree c edPriv wgPriv p f b fs = (fs', Inr (b_Name (f_Invitee f)))"
    "directories fs' (NetDir p)" "node_at fs' (path_Join (NetDir p) ''conf.d'') = None" "quiet fs'"
    "os_ReadFile fs' (Ed25519Private p) = Inr (Private_MarshalPEM c edPriv)"
    "os_ReadFile fs' (WGPrivate p) = Inr (WG_String c wgPriv @ [NL])"
    "os_ReadFile fs' (ConfFile p) = Inr (Render (tree_conf f))"
    "os_ReadFile fs' (HostFile p (b_Name (f_Invitee f))) = Inr (Render (host_entries c edPriv wgPriv))"
    "os_ReadFile fs' (HostFile p (b_Name b)) = Inr (Render (tree_inviter b))"
proof -
  let ?n = "b_Name (f_Invitee f)" and ?k = "b_Name b"
  obtain r cs where D: "NetDir p = (r, cs)" by (cases "NetDir p")
  have paths: "HostsDir p = (r, cs @ [''hosts''])" "InvitationsDir p = (r, cs @ [''invitations''])"
    "Ed25519Private p = (r, cs @ [''ed25519_key.priv''])" "WGPrivate p = (r, cs @ [''wg.priv''])"
    "ConfFile p = (r, cs @ [''gsnet.conf''])" "HostFile p ?n = (r, (cs @ [''hosts'']) @ [?n])" "HostFile p ?k = (r, (cs @ [''hosts'']) @ [?k])"
    using assms(3,4) by (simp_all add: layout_simps D)
  obtain fs1 fs2 where dirs: "os_MkdirAll (HostsDir p) 448 fs = (fs1, None)"
    "os_MkdirAll (InvitationsDir p) 448 fs1 = (fs2, None)" "quiet fs2" "fs_umask fs2 = fs_umask fs"
    "directories fs2 (r, cs @ [''hosts''])" "directories fs2 (r, cs)"
    and none: "\<And>x xs. x \<noteq> ''hosts'' \<and> x \<noteq> ''invitations'' \<or> xs \<noteq> [] \<Longrightarrow> node_at fs2 (r, cs @ x # xs) = None"
    using Init_dirs [OF assms(1) assms(2) [unfolded D]] unfolding paths by blast
  let ?E = "fs_put (r, cs @ [''ed25519_key.priv'']) (Regular (384 AND NOT (fs_umask fs)) (Private_MarshalPEM c edPriv)) fs2"
  let ?W = "fs_put (r, cs @ [''wg.priv'']) (Regular (384 AND NOT (fs_umask fs)) (WG_String c wgPriv @ [NL])) ?E"
  let ?C = "fs_put (r, cs @ [''gsnet.conf'']) (Regular (420 AND NOT (fs_umask fs)) (Render (tree_conf f))) ?W"
  let ?H = "fs_put (r, (cs @ [''hosts'']) @ [?n]) (Regular (420 AND NOT (fs_umask fs)) (Render (host_entries c edPriv wgPriv))) ?C"
  let ?F = "fs_put (r, (cs @ [''hosts'']) @ [?k]) (Regular (420 AND NOT (fs_umask fs)) (Render (tree_inviter b))) ?H"
  have "os_WriteFile (Ed25519Private p) (Private_MarshalPEM c edPriv) 384 fs2 = (?E, None)"
    "os_WriteFile (WGPrivate p) (WG_String c wgPriv @ [NL]) 384 ?E = (?W, None)"
    "os_WriteFile (ConfFile p) (Render (tree_conf f)) 420 ?W = (?C, None)"
    "os_WriteFile (HostFile p ?n) (Render (host_entries c edPriv wgPriv)) 420 ?C = (?H, None)"
    "os_WriteFile (HostFile p ?k) (Render (tree_inviter b)) 420 ?H = (?F, None)"
    unfolding paths using dirs(3-6) none assms(5)
    by (subst WriteFile_new; simp add: directories_put node_at_put)+
  then have "write_tree c edPriv wgPriv p f b fs = (?F, Inr ?n)"
    using dirs(1,2) by (simp add: write_tree_def Let_def flip: tree_conf_def tree_inviter_def)
  moreover have "directories ?F (NetDir p)" using dirs(6) none assms(5) by (simp add: D directories_put node_at_put)
  moreover have "node_at ?F (path_Join (NetDir p) ''conf.d'') = None"
    using none by (simp add: D path_Join_plain plain_layout node_at_put)
  moreover have "quiet ?F" using dirs(3) by simp
  moreover have "os_ReadFile ?F (Ed25519Private p) = Inr (Private_MarshalPEM c edPriv)"
    "os_ReadFile ?F (WGPrivate p) = Inr (WG_String c wgPriv @ [NL])"
    "os_ReadFile ?F (ConfFile p) = Inr (Render (tree_conf f))"
    "os_ReadFile ?F (HostFile p ?n) = Inr (Render (host_entries c edPriv wgPriv))"
    "os_ReadFile ?F (HostFile p ?k) = Inr (Render (tree_inviter b))"
    unfolding paths using assms(5) \<open>quiet ?F\<close> by (simp_all add: os_ReadFile_def node_at_put quiet_def)
  ultimately show ?thesis by (rule that)
qed

lemma wg_file_roundtrip:
  assumes "wg_correct c" and "length wgPriv = 32"
  shows "ParseWireGuardPrivate c (TrimSpace (WG_String c wgPriv @ [NL])) = Inr wgPriv"
proof -
  have "clean (WG_String c wgPriv)" using assms by (simp add: wg_correct_def WG_String_def token_clean)
  then show ?thesis using wg_roundtrip(1) [OF assms] by (simp add: TrimSpace_NL_right)
qed

text \<open>What a freshly joined node loads.\<close>

lemma joined_load:
  assumes "directories fs (NetDir p)" and "node_at fs (path_Join (NetDir p) ''conf.d'') = None"
    and "os_ReadFile fs (Ed25519Private p) = Inr (Private_MarshalPEM c edPriv)"
    and "os_ReadFile fs (WGPrivate p) = Inr (WG_String c wgPriv @ [NL])"
    and "os_ReadFile fs (ConfFile p) = Inr (Render [\<lparr>Key = ''Name'', Value = n\<rparr>, \<lparr>Key = ''ConnectTo'', Value = k\<rparr>])"
    and "node_name n" and "node_name k" and "pem_correct c" and "wg_correct c" and "length wgPriv = 32"
  shows "\<exists>l. load_config c p fs = Inr l \<and> l_NodeName l = n \<and> GetAll (l_Conf l) ''ConnectTo'' = [k] \<and> l_EdPriv l = edPriv \<and>
    l_WGPriv l = wgPriv \<and> l_WGListenPort l = 51820"
proof -
  let ?es = "[\<lparr>Key = ''Name'', Value = n\<rparr>, \<lparr>Key = ''ConnectTo'', Value = k\<rparr>]"
  have "entry_ok (ent ''Name'' n)" "entry_ok (ent ''ConnectTo'' k)"
    using assms(6,7) by (auto intro!: ent_ok name_value_ok)
  then have "Parse (Render ?es) = Inr ?es" by (intro Parse_Render) (simp add: ent_def)
  then have ld: "LoadDirectory fs (ConfFile p) = Inr ?es"
    by (intro LoadDirectory_alone [OF assms(1,2)]) (simp add: config_ParseFile_def assms(5))
  have keys: "load_keys c p fs = Inr (edPriv, wgPriv)"
    by (simp add: load_keys_def assms(3,4) private_pem_roundtrip [OF assms(8)] wg_file_roundtrip [OF assms(9,10)])
  have eq: "EqualFold ''Name'' ''Name''" "EqualFold ''ConnectTo'' ''ConnectTo''" "\<not> EqualFold ''Name'' ''ConnectTo''"
    by (simp_all add: EqualFold_known canonical_def)
  have ne: "list_all (\<lambda>x. \<not> EqualFold ''Name'' x \<and> \<not> EqualFold ''ConnectTo'' x)
      [''Mode'', ''Port'', ''InnerAddress'', ''UnderlayAddress'', ''Subnet'', ''WGInterface'', ''Interface'', ''VXLANInterface'', ''VXLAN'',
       ''VXLANID'', ''VXLANPort'', ''MTU'']"
    by (simp add: EqualFold_def lower_char_def char_of_def bit_Suc_0_iff)
  show ?thesis
    using eq ne by (simp add: load_config_def ld keys load_mode_def load_address_def entry_int_def Let_def)
qed

text \<open>Where it dials the inviter, and with which key it verifies the inviter's messages.\<close>

lemma joined_knows_inviter:
  assumes "os_ReadFile (d_fs d) (HostFile (d_Paths d) k) = Inr (Render (\<lparr>Key = ''Address'', Value = addr\<rparr> # hs))"
    and "value_ok addr" and "list_all entry_ok hs" and "GetFirst hs ''Ed25519PublicKey'' = Some (Ed_String pub)"
    and "length pub = PublicKeySize" and "l_NodeName (d_loaded d) \<noteq> k"
  shows "lookupPubKey c d k = Some pub"
    and "dial_target d k = Some (addr @ '':'' @ Itoa (case entry_int hs ''Port'' of Some n \<Rightarrow> n | None \<Rightarrow> l_WGListenPort (d_loaded d)))"
proof -
  let ?es = "\<lparr>Key = ''Address'', Value = addr\<rparr> # hs"
  have "entry_ok (ent ''Address'' addr)" using assms(2) by (intro ent_ok) simp_all
  then have p: "config_ParseFile (d_fs d) (HostFile (d_Paths d) k) = Inr ?es"
    using assms(1,3) Parse_Render [of ?es] by (simp add: config_ParseFile_def ent_def)
  have eq: "EqualFold ''Address'' ''Address''" "\<not> EqualFold ''Address'' ''Ed25519PublicKey''" "\<not> EqualFold ''Address'' ''Port''"
    by (simp_all add: EqualFold_known canonical_def)
  have "pub \<noteq> []" using assms(5) by (auto simp: PublicKeySize_def)
  then have "clean (Ed_String pub)" by (simp add: Ed_String_def std_enc_token token_clean)
  then show "lookupPubKey c d k = Some pub"
    using assms(4,6) eq public_base64_roundtrip [OF assms(5)] by (auto simp: lookupPubKey_def p TrimSpace_clean)
  show "dial_target d k = Some (addr @ '':'' @ Itoa (case entry_int hs ''Port'' of Some n \<Rightarrow> n | None \<Rightarrow> l_WGListenPort (d_loaded d)))"
    using eq by (simp add: dial_target_def p entry_int_def)
qed

section \<open>From the invitation to the joined node\<close>

text \<open>The network between them: a connection to the inviter's address reaches its daemon, which draws \<open>rb\<close> for the session.\<close>

definition daemon_net ::
    "'r denv \<Rightarrow> session_crypto \<Rightarrow> (fault \<Rightarrow> string) \<Rightarrow> int \<Rightarrow> (join_error \<Rightarrow> string) \<Rightarrow> bytes \<Rightarrow> string \<Rightarrow> 'r daemon \<Rightarrow>
       string \<Rightarrow> string \<Rightarrow> string option" where
  "daemon_net env sc etext now jtext rb listen d a cmd =
     (if a = listen then Some (se_reply (handleInbound (de_crypto env) sc etext rb (daemon_server env now jtext d) cmd d)) else None)"

definition joined_paths :: "paths \<Rightarrow> string \<Rightarrow> paths" where
  "joined_paths q netname = \<lparr>pa_ConfRoot = pa_ConfRoot q, pa_Netname = (if netname = [] then pa_Netname q else netname)\<rparr>"

lemma cmdJoin_ok:
  assumes "holds_invitation c d cookie edPriv invitee self addr hs" and "c = de_crypto env"
    and "session_correct sc" and "ed25519_correct c" and "sha256_length c" and "\<forall>msg. Sign c edPriv msg \<noteq> []"
    and "GetFirst hs ''Ed25519PublicKey'' = Some (Ed_String (Ed_Public c edPriv))" and "token cookie" and "node_name invitee"
    and "NewEphemeral sc ra1 = Some a1" and "NewEphemeral sc rb1 = Some b1"
    and "NewEphemeral sc ra2 = Some a2" and "NewEphemeral sc rb2 = Some b2"
    and "addr \<noteq> []" and "CHR ''/'' \<notin> set addr" and "0 < port" and "port \<le> 65535"
  shows "cmdJoin c sc (Some newEd) (Some newWG) ra1 ra2 (daemon_net env sc etext now jtext rb1 (addr @ '':'' @ Itoa port) d)
      (daemon_net env sc etext now jtext rb2 (addr @ '':'' @ Itoa port) d) q
      [url_String (BuildURL c addr port (Ed_Public c edPriv) cookie)] fs =
    write_tree c newEd newWG (joined_paths q (pa_Netname (d_Paths d))) (inv_file (d_Paths d) invitee self addr hs)
      (no_block\<lparr>b_Name := self, b_Address := addr, b_Other := hs\<rparr>) fs"
proof -
  let ?f = "inv_file (d_Paths d) invitee self addr hs" and ?pub = "Ed_Public c edPriv"
  let ?u = "BuildURL c addr port ?pub cookie" and ?listen = "addr @ '':'' @ Itoa port"
  have "cookie \<noteq> []" using assms(8) by (auto simp: token_def)
  then have "url_ok ?u" using assms(14-17) Hash_length [OF assms(5)] by (simp add: url_ok_def BuildURL_def keyHashLen_def)
  from iurl.dec_enc [OF this] have u: "ParseURL (url_String ?u) = Inr ?u" by simp
  have net: "daemon_net env sc etext now jtext rb ?listen d ?listen =
      (\<lambda>cmd. Some (se_reply (handleInbound c sc etext rb (daemon_server env now jtext d) cmd d)))" for rb
    by (rule ext) (simp add: daemon_net_def assms(2))
  have get: "client_InviteGet c sc ra1 (daemon_net env sc etext now jtext rb1 ?listen d ?listen) cookie (Hash c ?pub) =
      Inr (str_bytes (file_Render ?f))"
    unfolding net by (rule client_answers(1) [OF assms(1-4,6-9,10,11)])
  have join: "client_InviteJoin c sc ra2 (daemon_net env sc etext now jtext rb2 ?listen d ?listen) cookie invitee
      (str_bytes (Render (host_entries c newEd newWG))) (Hash c ?pub) = Inr (str_bytes (file_Render ?f))"
    unfolding net by (rule client_answers(2) [OF assms(1-4,6-9,12,13)])
  have len: "length ?pub = PublicKeySize" using assms(4) by (simp add: ed25519_correct_def Ed_Public_def)
  then have "clean (Ed_String ?pub)" by (auto simp: Ed_String_def PublicKeySize_def intro!: token_clean std_enc_token)
  then have pub: "TrimSpace (Ed_String ?pub) = Ed_String ?pub" "Ed_String ?pub \<noteq> []" by (simp_all add: TrimSpace_clean clean_def)
  have parsed: "ParseFile (file_Render ?f) = Inr ?f" "f_Hosts ?f = [no_block\<lparr>b_Name := self, b_Address := addr, b_Other := hs\<rparr>]"
    "b_Name (f_Invitee ?f) = invitee" "f_Netname ?f = pa_Netname (d_Paths d)"
    using assms(1) parse_inv_file by (auto simp: holds_invitation_def inv_file_def)
  have url: "u_Host ?u @ '':'' @ Itoa (u_Port ?u) = ?listen" "u_Cookie ?u = cookie" "u_KeyHash ?u = Hash c ?pub"
    by (simp_all add: BuildURL_def)
  show ?thesis
    unfolding cmdJoin_def list.case u sum.case Let_def url prod.case option.case get bytes_str_str_bytes parsed join
    using pub assms(7) public_base64_roundtrip [OF len] by (simp add: entry_or_empty_def joined_paths_def)
qed

lemma holds_invitationI:
  assumes "inviter_ready c p fs self addr port edPriv hs" and "node_name invitee" and "plain cookie"
    and "d_Paths d = p" and "l_NodeName (d_loaded d) = self" and "l_EdPriv (d_loaded d) = edPriv"
    and "d_fs d = fs_put (path_Join (InvitationsDir p) cookie) (Regular m (file_Render (inv_file p invitee self addr hs))) fs"
  shows "holds_invitation c d cookie edPriv invitee self addr hs"
proof -
  obtain r cs where D: "NetDir p = (r, cs)" by (cases "NetDir p")
  let ?q = "path_Join (InvitationsDir p) cookie"
  have q: "?q = (r, cs @ [''invitations'', cookie])" "HostsDir p = (r, cs @ [''hosts''])"
    using assms(3) by (simp_all add: layout_simps D)
  have hw: "hosts_writable p fs" using assms(1) by (simp add: inviter_ready_def)
  have "?q \<notin> set (path_prefixes (HostsDir p))"
    unfolding q using prefixes_shorter [of "(r, cs @ [''invitations'', cookie])" r "cs @ [''hosts'']"] by auto
  then have "hosts_writable p (d_fs d)" using hw assms(7) q(1) by (simp add: hosts_writable_put_other)
  moreover have "os_ReadFile (d_fs d) (invitation_path d cookie) = Inr (file_Render (inv_file p invitee self addr hs))"
    using hw assms(4,7) q(1) by (simp add: os_ReadFile_def node_at_put invitation_path_def hosts_writable_def quiet_def)
  ultimately show ?thesis using inv_file_ok [OF assms(1,2)] assms(4-6) by (simp add: holds_invitation_def)
qed

text \<open>The two machines after the exchange: the inviter's daemon, and the invitee's tree.\<close>

lemma inviter_after_join:
  assumes "holds_invitation c d ck edPriv invitee self addr hs" and "c = de_crypto env" and "session_correct sc" and "ed25519_correct c"
    and "wg_correct c" and "\<forall>msg. Sign c edPriv msg \<noteq> []"
    and "GetFirst hs ''Ed25519PublicKey'' = Some (Ed_String (Ed_Public c edPriv))" and "token ck" and "plain ck"
    and "node_name invitee" and "invitee \<noteq> self" and "l_NodeName (d_loaded d) = self"
    and "NewEphemeral sc ra2 = Some a2" and "NewEphemeral sc rb2 = Some b2"
  shows "\<exists>d2. se_state (handleInbound c sc etext rb2 (daemon_server env now jtext d)
      (join_command ck invitee (eph_Pub a2) (str_bytes (Render (host_entries c newEd newWG)))) d) = d2 \<and>
    lookupPubKey c d2 invitee = Some (Ed_Public c newEd) \<and> handleInviteGet ck d2 = (d2, Inl UnknownInvitation)"
proof -
  let ?cfg = "Render (host_entries c newEd newWG)" and ?f = "inv_file (d_Paths d) invitee self addr hs"
  obtain d2 where d2: "handleInviteJoin env now ck invitee ?cfg d = (d2, Inr (file_Render ?f))"
    using handle_join_ok [OF assms(1) name_plain [OF assms(10)]] by blast
  have state: "se_state (handleInbound c sc etext rb2 (daemon_server env now jtext d)
      (join_command ck invitee (eph_Pub a2) (str_bytes ?cfg)) d) = d2"
    using client_answers(3) [OF assms(1-4,6-8,10,13,14) d2] .
  have quiet: "quiet (d_fs d)" using assms(1) by (simp add: holds_invitation_def hosts_writable_def)
  note files = join_files [OF d2 quiet invitation_not_host [OF assms(9) name_plain [OF assms(10)]]]
  have pub: "length (Ed_Public c newEd) = PublicKeySize" using assms(4) by (simp add: ed25519_correct_def Ed_Public_def)
  have "lookupPubKey c d2 invitee = Some (Ed_Public c newEd)"
    using files(1,4,5) assms(11,12)
    by (simp add: lookupPubKey_def config_ParseFile_def Parse_Render host_entries_ok [OF assms(4,5)] TrimSpace_clean
        public_base64_roundtrip [OF pub])
  moreover have "handleInviteGet ck d2 = (d2, Inl UnknownInvitation)"
    using join_unknown [of d2 ck] files(2,4) by (simp add: invitation_path_def)
  ultimately show ?thesis using state by blast
qed

lemma joined_node:
  fixes q :: paths
  assumes "ed25519_correct c" and "pem_correct c" and "wg_correct c" and "quiet gs" and "fresh gs (NetDir q)" and "length newWG = 32"
    and "node_name invitee" and "node_name self" and "invitee \<noteq> self" and "value_ok addr" and "list_all entry_ok hs"
    and "GetFirst hs ''Ed25519PublicKey'' = Some (Ed_String (Ed_Public c edPriv))"
  shows "\<exists>gs1 l. write_tree c newEd newWG q (inv_file p invitee self addr hs) (no_block\<lparr>b_Name := self, b_Address := addr, b_Other := hs\<rparr>) gs =
      (gs1, Inr invitee) \<and>
    load_config c q gs1 = Inr l \<and> l_NodeName l = invitee \<and> GetAll (l_Conf l) ''ConnectTo'' = [self] \<and>
    (\<forall>d3 :: 'r daemon. d_fs d3 = gs1 \<and> d_Paths d3 = q \<and> d_loaded d3 = l \<longrightarrow>
       lookupPubKey c d3 self = Some (Ed_Public c edPriv) \<and>
       dial_target d3 self = Some (addr @ '':'' @ Itoa (case entry_int hs ''Port'' of Some n \<Rightarrow> n | None \<Rightarrow> 51820)))"
proof -
  let ?f = "inv_file p invitee self addr hs" and ?b = "no_block\<lparr>b_Name := self, b_Address := addr, b_Other := hs\<rparr>"
  have "addr \<noteq> []" using assms(10) by (auto simp: value_ok_def clean_def)
  then have f: "b_Name (f_Invitee ?f) = invitee" "b_Name ?b = self"
    "tree_conf ?f = [\<lparr>Key = ''Name'', Value = invitee\<rparr>, \<lparr>Key = ''ConnectTo'', Value = self\<rparr>]"
    "tree_inviter ?b = \<lparr>Key = ''Address'', Value = addr\<rparr> # hs"
    by (simp_all add: inv_file_def no_block_def tree_conf_def tree_inviter_def)
  obtain gs1 where tree: "write_tree c newEd newWG q ?f ?b gs = (gs1, Inr invitee)"
    and gs: "directories gs1 (NetDir q)" "node_at gs1 (path_Join (NetDir q) ''conf.d'') = None"
      "os_ReadFile gs1 (Ed25519Private q) = Inr (Private_MarshalPEM c newEd)"
      "os_ReadFile gs1 (WGPrivate q) = Inr (WG_String c newWG @ [NL])"
      "os_ReadFile gs1 (ConfFile q) = Inr (Render [\<lparr>Key = ''Name'', Value = invitee\<rparr>, \<lparr>Key = ''ConnectTo'', Value = self\<rparr>])"
      "os_ReadFile gs1 (HostFile q self) = Inr (Render (\<lparr>Key = ''Address'', Value = addr\<rparr> # hs))"
    using tree_files [where f = ?f and b = ?b, OF assms(4,5)] name_plain [OF assms(7)] name_plain [OF assms(8)] assms(9)
    unfolding f by blast
  obtain l where l: "load_config c q gs1 = Inr l" "l_NodeName l = invitee" "GetAll (l_Conf l) ''ConnectTo'' = [self]"
    "l_WGListenPort l = 51820"
    using joined_load [OF gs(1-5) assms(7,8,2,3,6)] by blast
  have pub: "length (Ed_Public c edPriv) = PublicKeySize" using assms(1) by (simp add: ed25519_correct_def Ed_Public_def)
  have "lookupPubKey c d3 self = Some (Ed_Public c edPriv) \<and>
       dial_target d3 self = Some (addr @ '':'' @ Itoa (case entry_int hs ''Port'' of Some n \<Rightarrow> n | None \<Rightarrow> 51820))"
    if "d_fs d3 = gs1 \<and> d_Paths d3 = q \<and> d_loaded d3 = l" for d3 :: "'r daemon"
    using joined_knows_inviter [of d3 self addr hs "Ed_Public c edPriv"] that gs(6) assms(9-12) pub l(2,4)
    by (simp cong: option.case_cong)
  with tree l(1-3) show ?thesis by blast
qed


text \<open>\<open>alice\<close>, whose private key is the text of its key file, invites \<open>bob\<close>, who has a machine with nothing on it.\<close>

definition alice_on_line :: "unit daemon" where
  "alice_on_line = alice_daemon\<lparr>d_loaded := alice_loaded\<lparr>l_EdPriv := str_bytes ''secret''\<rparr>\<rparr>"

lemma alice_host_ok:
  "list_all entry_ok alice_host" "list_all (\<lambda>e. \<not> special (Key e)) alice_host"
  "GetFirst alice_host ''Ed25519PublicKey'' = Some (Ed_String (Ed_Public toy_crypto (str_bytes ''secret'')))"
proof -
  have "\<not> special ''Ed25519PublicKey''" "\<not> special ''WGPublicKey''" 
    by (simp_all add: special_def EqualFold_known canonical_def)
  then show "list_all (\<lambda>e. \<not> special (Key e)) alice_host" by (simp add: alice_host_def host_entries_def)
qed (simp_all add: alice_host_def host_entries_ok [OF toy_correct(1,4)])

lemma alice_ready:
  "inviter_ready toy_crypto etc_gsnet alice_home ''alice'' ''192.0.2.1'' 51820 (str_bytes ''secret'') alice_host"
proof -
  have conf: "entry_or_empty alice_conf ''Address'' = ''192.0.2.1''" "GetFirst alice_conf ''Port'' = None" by code_simp+
  have "Validate ''alice'' = None" by code_simp
  then have names: "node_name ''alice''" by (simp add: node_name_def)
  have "clean ''192.0.2.1''" "clean ''vpn''" by (rule ascii_cleanI; simp add: ascii_def space_encs_def)+
  then have vals: "value_ok ''192.0.2.1''" "value_ok ''vpn''" by (simp_all add: value_ok_def NL_def MaxScanTokenSize_def)
  have key: "os_ReadFile alice_home (Ed25519Private etc_gsnet) = Inr ''secret''"
    using alice_home_ok(1) by (simp add: os_ReadFile_def alice_paths alice_home_node alice_machine_node quiet_def)
      (simp add: node_at_def alice_fs_def mget_def)
  have pem: "ParseEd25519PrivatePEM toy_crypto ''secret'' = Inr (str_bytes ''secret'')"
    by (simp add: ParseEd25519PrivatePEM_def toy_crypto_def)
  have hw: "hosts_writable etc_gsnet alice_home"
    unfolding alice_home_def alice_machine_def
    by (intro hosts_writable_put_other alice_hosts_writable) (simp_all add: alice_paths path_prefixes_def upt_rec)
  have "directories alice_home (InvitationsDir etc_gsnet)"
    by (simp add: alice_paths directories_def path_prefixes_def upt_rec is_directory_def alice_home_node alice_machine_node)
      (simp add: node_at_def alice_fs_def mget_def)
  then show ?thesis
    unfolding inviter_ready_def using conf names vals key pem hw alice_home_ok alice_host_ok Parse_Render [OF alice_host_ok(1)]
    by (auto simp: etc_gsnet_def)
qed


end
