(* ===== verification/Upnp.thy ===== *)
theory Upnp
  imports Netip
begin

text \<open>
  Package \<open>upnp\<close>: finding the Internet gateway of the local network and asking it to forward a port.

  What lies outside the program is the record \<open>lan\<close>: the multicast socket with the datagrams it receives, the
  HTTP client, the addresses of the interfaces, \<open>net/url\<close>, and the tokeniser of \<open>encoding/xml\<close>, which turns the
  bytes of a document into its element tree. The gateway has a state \<open>'g\<close> that a request may change. How
  \<open>xml.Unmarshal\<close> fills the structures of the source from the element tree is written out: fields are matched by
  the local name, a repeated structure is filled further, a repeated string is overwritten, a slice grows, other
  elements are skipped, and below a nesting of 10000 calls the decoder gives up.
\<close>

section \<open>Strings\<close>

definition upper_char :: "char \<Rightarrow> char" where
  "upper_char c =
     (if 97 \<le> (of_char c :: nat) \<and> (of_char c :: nat) \<le> 122 then char_of ((of_char c :: nat) - 32)
      else c)"

text \<open>
  \<open>strings.ToUpper\<close>. Outside ASCII only the two runes whose upper case is an ASCII letter are mapped: U+0131 (to
  \<open>I\<close>) and U+017F (to \<open>S\<close>).
\<close>

fun ToUpper :: "string \<Rightarrow> string" where
  "ToUpper [] = []"
| "ToUpper (c # s) =
     (if take 2 (c # s) = [CHR 0xC4, CHR 0xB1] then CHR ''I'' # ToUpper (drop 1 s)
      else if take 2 (c # s) = [CHR 0xC5, CHR 0xBF] then CHR ''S'' # ToUpper (drop 1 s)
      else upper_char c # ToUpper s)"

fun strings_Contains :: "string \<Rightarrow> string \<Rightarrow> bool" where
  "strings_Contains [] sub \<longleftrightarrow> sub = []"
| "strings_Contains (c # s) sub \<longleftrightarrow> HasPrefix (c # s) sub \<or> strings_Contains s sub"

section \<open>The surroundings\<close>

datatype xml = Elem string "xml list" | CharData string

record response =
  rs_Status :: int
  rs_Body :: string
  rs_ReadErr :: "string option"     \<comment> \<open>the body broke off with this error\<close>

record request =
  rq_Method :: string
  rq_URL :: string
  rq_Header :: "(string \<times> string) list"
  rq_Body :: string

text \<open>
  What an iteration of the receive loop finds: the context is done, or a datagram from an address. The end of the
  list is the read error at the deadline.
\<close>

datatype ssdp = CtxDone | Datagram string addr

record 'g lan =
  lan_Search :: "string \<Rightarrow> 'g \<Rightarrow> 'g \<times> (string, ssdp list) result"       \<comment> \<open>open a socket, send, receive\<close>
  lan_Get :: "string \<Rightarrow> (string, response) result"
  lan_Do :: "request \<Rightarrow> 'g \<Rightarrow> 'g \<times> (string, response) result"
  lan_URL :: "string \<Rightarrow> bool"                                            \<comment> \<open>\<open>url.Parse\<close> succeeds\<close>
  lan_Resolve :: "string \<Rightarrow> string \<Rightarrow> string"                            \<comment> \<open>\<open>ResolveReference\<close>\<close>
  lan_XML :: "string \<Rightarrow> xml option"
  lan_LocalIP :: "addr \<Rightarrow> 32 word option"                              \<comment> \<open>the IPv4 address that faces a host\<close>

section \<open>Discovery\<close>

record igd =
  g_ControlURL :: string
  g_ServiceType :: string
  g_LocalIP :: "32 word option"

datatype upnp_error =
    SocketFault string
  | ContextDone
  | NoIGDFound
  | FetchFault string
  | XmlSyntax
  | XmlDepth
  | NoWANService
  | BadURL string
  | LocalIPUnknown
  | HttpStatus int string
  | EmptyExternalIP

text \<open>A line counts as a header when its colon is not the first character; a later header overwrites an earlier one.\<close>

fun header_lines :: "string list \<Rightarrow> (string, string) gomap \<Rightarrow> (string, string) gomap" where
  "header_lines [] out = out"
| "header_lines (line # ls) out =
     header_lines ls
       (case cut_first (CHR '':'') line of
          Some (k, v) \<Rightarrow> if k = [] then out else mput (ToUpper (TrimSpace k)) (TrimSpace v) out
        | None \<Rightarrow> out)"

definition parseSSDPHeaders :: "string \<Rightarrow> (string, string) gomap" where
  "parseSSDPHeaders b = header_lines (fst (scan_lines b)) []"

subsection \<open>The device description\<close>

record service =
  sv_ServiceType :: string
  sv_ControlURL :: string

datatype innerDevice = InnerDevice (dv_DeviceType: string) (dv_Services: "service list") (dv_Devices: "innerDevice list")

definition no_service :: service where
  "no_service = \<lparr>sv_ServiceType = [], sv_ControlURL = []\<rparr>"

definition maxUnmarshalDepth :: nat where
  "maxUnmarshalDepth = 10000"

text \<open>The characters directly inside an element, the value of a string field.\<close>

definition chars_of :: "xml list \<Rightarrow> string" where
  "chars_of ks = concat (map (\<lambda>k. case k of CharData s \<Rightarrow> s | Elem _ _ \<Rightarrow> []) ks)"

text \<open>
  Each function fills one structure from the children of its element; \<open>d\<close> is the nesting of the call for the
  structure. A field is one call deeper, an element of a slice two. \<open>None\<close>: too deep.
\<close>

fun um_service :: "nat \<Rightarrow> xml list \<Rightarrow> service \<Rightarrow> service option" where
  "um_service d [] s = Some s"
| "um_service d (CharData _ # xs) s = um_service d xs s"
| "um_service d (Elem n ks # xs) s =
     (if n = ''serviceType'' then
        (if d + 1 \<ge> maxUnmarshalDepth then None else um_service d xs (s\<lparr>sv_ServiceType := chars_of ks\<rparr>))
      else if n = ''controlURL'' then
        (if d + 1 \<ge> maxUnmarshalDepth then None else um_service d xs (s\<lparr>sv_ControlURL := chars_of ks\<rparr>))
      else um_service d xs s)"

fun um_services :: "nat \<Rightarrow> xml list \<Rightarrow> service list \<Rightarrow> service list option" where
  "um_services d [] ss = Some ss"
| "um_services d (CharData _ # xs) ss = um_services d xs ss"
| "um_services d (Elem n ks # xs) ss =
     (if n = ''service'' then
        (if d + 2 \<ge> maxUnmarshalDepth then None
         else (case um_service (d + 2) ks no_service of
                 None \<Rightarrow> None
               | Some s \<Rightarrow> um_services d xs (ss @ [s])))
      else um_services d xs ss)"

fun um_device :: "nat \<Rightarrow> xml list \<Rightarrow> innerDevice \<Rightarrow> innerDevice option"
  and um_devices :: "nat \<Rightarrow> xml list \<Rightarrow> innerDevice list \<Rightarrow> innerDevice list option" where
  "um_device d [] v = Some v"
| "um_device d (CharData _ # xs) v = um_device d xs v"
| "um_device d (Elem n ks # xs) v =
     (if n = ''deviceType'' then
        (if d + 1 \<ge> maxUnmarshalDepth then None
         else um_device d xs (InnerDevice (chars_of ks) (dv_Services v) (dv_Devices v)))
      else if n = ''serviceList'' then
        (if d + 1 \<ge> maxUnmarshalDepth then None
         else (case um_services (d + 1) ks (dv_Services v) of
                 None \<Rightarrow> None
               | Some ss \<Rightarrow> um_device d xs (InnerDevice (dv_DeviceType v) ss (dv_Devices v))))
      else if n = ''deviceList'' then
        (if d + 1 \<ge> maxUnmarshalDepth then None
         else (case um_devices (d + 1) ks (dv_Devices v) of
                 None \<Rightarrow> None
               | Some vs \<Rightarrow> um_device d xs (InnerDevice (dv_DeviceType v) (dv_Services v) vs)))
      else um_device d xs v)"
| "um_devices d [] vs = Some vs"
| "um_devices d (CharData _ # xs) vs = um_devices d xs vs"
| "um_devices d (Elem n ks # xs) vs =
     (if n = ''device'' then
        (if d + 2 \<ge> maxUnmarshalDepth then None
         else (case um_device (d + 2) ks (InnerDevice [] [] []) of
                 None \<Rightarrow> None
               | Some v \<Rightarrow> um_devices d xs (vs @ [v])))
      else um_devices d xs vs)"

text \<open>\<open>deviceDesc\<close> only holds the list at \<open>device/deviceList/device\<close>: the two structures around it, at depths 0 and 1.\<close>

fun um_within :: "string \<Rightarrow> (xml list \<Rightarrow> 'a \<Rightarrow> 'a option) \<Rightarrow> xml list \<Rightarrow> 'a \<Rightarrow> 'a option" where
  "um_within name field [] v = Some v"
| "um_within name field (CharData _ # xs) v = um_within name field xs v"
| "um_within name field (Elem n ks # xs) v =
     (if n = name then (case field ks v of None \<Rightarrow> None | Some v' \<Rightarrow> um_within name field xs v')
      else um_within name field xs v)"

definition um_desc :: "xml list \<Rightarrow> innerDevice list option" where
  "um_desc ks = um_within ''device'' (um_within ''deviceList'' (um_devices 2)) ks []"

definition unmarshal_desc :: "'g lan \<Rightarrow> string \<Rightarrow> (upnp_error, innerDevice list) result" where
  "unmarshal_desc lan body =
     (case lan_XML lan body of
        Some (Elem _ ks) \<Rightarrow> (case um_desc ks of None \<Rightarrow> Inl XmlDepth | Some devs \<Rightarrow> Inr devs)
      | _ \<Rightarrow> Inl XmlSyntax)"

definition is_wan :: "service \<Rightarrow> bool" where
  "is_wan s \<longleftrightarrow> strings_Contains (sv_ServiceType s) ''WANIPConnection'' \<or> strings_Contains (sv_ServiceType s) ''WANPPPConnection''"

fun first_wan :: "service list \<Rightarrow> service option" where
  "first_wan [] = None"
| "first_wan (s # ss) = (if is_wan s then Some s else first_wan ss)"

fun findWANConnection :: "innerDevice list \<Rightarrow> service option" where
  "findWANConnection [] = None"
| "findWANConnection (InnerDevice t ss ds # devs) =
     (case first_wan ss of
        Some s \<Rightarrow> Some s
      | None \<Rightarrow>
          (case findWANConnection ds of
             Some s \<Rightarrow> Some s
           | None \<Rightarrow> findWANConnection devs))"

definition fetchControlURL :: "'g lan \<Rightarrow> string \<Rightarrow> (upnp_error, igd) result" where
  "fetchControlURL lan locationURL =
     (case lan_Get lan locationURL of
        Inl e \<Rightarrow> Inl (FetchFault e)
      | Inr resp \<Rightarrow>
          (case rs_ReadErr resp of
             Some e \<Rightarrow> Inl (FetchFault e)
           | None \<Rightarrow>
               (case unmarshal_desc lan (rs_Body resp) of
                  Inl e \<Rightarrow> Inl e
                | Inr devs \<Rightarrow>
                    (case findWANConnection devs of
                       None \<Rightarrow> Inl NoWANService
                     | Some svc \<Rightarrow>
                         let control = sv_ControlURL svc;
                             found = (\<lambda>u. Inr \<lparr>g_ControlURL = u, g_ServiceType = sv_ServiceType svc, g_LocalIP = None\<rparr>)
                         in if HasPrefix control ''http'' then found control
                            else if \<not> lan_URL lan locationURL then Inl (BadURL locationURL)
                            else if \<not> lan_URL lan control then Inl (BadURL control)
                            else found (lan_Resolve lan locationURL control)))))"

definition CRNL :: string where "CRNL = [CR, NL]"
definition QUOTE :: string where "QUOTE = [CHR 0x22]"

definition search_text :: string where
  "search_text =
     ''M-SEARCH * HTTP/1.1'' @ CRNL @
     ''HOST: 239.255.255.250:1900'' @ CRNL @
     ''MAN: '' @ QUOTE @ ''ssdp:discover'' @ QUOTE @ CRNL @
     ''MX: 2'' @ CRNL @
     ''ST: urn:schemas-upnp-org:device:InternetGatewayDevice:1'' @ CRNL @ CRNL"

definition with_local :: "'g lan \<Rightarrow> addr \<Rightarrow> igd \<Rightarrow> igd" where
  "with_local lan raddr g = (case lan_LocalIP lan raddr of Some ip \<Rightarrow> g\<lparr>g_LocalIP := Some ip\<rparr> | None \<Rightarrow> g)"

definition location_of :: "string \<Rightarrow> string" where
  "location_of b = (case mget (parseSSDPHeaders b) ''LOCATION'' of Some l \<Rightarrow> l | None \<Rightarrow> [])"

fun ssdp_loop :: "'g lan \<Rightarrow> ssdp list \<Rightarrow> (upnp_error, igd) result" where
  "ssdp_loop lan [] = Inl NoIGDFound"
| "ssdp_loop lan (CtxDone # _) = Inl ContextDone"
| "ssdp_loop lan (Datagram b raddr # es) =
     (let loc = location_of (take 8192 b)
      in if loc = [] then ssdp_loop lan es
         else (case fetchControlURL lan loc of
                 Inl _ \<Rightarrow> ssdp_loop lan es
               | Inr g \<Rightarrow> Inr (with_local lan raddr g)))"

definition Discover :: "'g lan \<Rightarrow> 'g \<Rightarrow> 'g \<times> (upnp_error, igd) result" where
  "Discover lan g =
     (case lan_Search lan search_text g of
        (g', Inl e) \<Rightarrow> (g', Inl (SocketFault e))
      | (g', Inr es) \<Rightarrow> (g', ssdp_loop lan es))"

section \<open>Actions\<close>

text \<open>The SOAP document of an action: the parts around the arguments are the same in the three functions.\<close>

definition soap_body :: "string \<Rightarrow> string \<Rightarrow> string \<Rightarrow> string" where
  "soap_body action serviceType args =
     ''<?xml version='' @ QUOTE @ ''1.0'' @ QUOTE @ ''?>'' @ [NL] @
     ''<s:Envelope xmlns:s='' @ QUOTE @ ''http://schemas.xmlsoap.org/soap/envelope/'' @ QUOTE @
       '' s:encodingStyle='' @ QUOTE @ ''http://schemas.xmlsoap.org/soap/encoding/'' @ QUOTE @ ''>'' @ [NL] @
     ''<s:Body>'' @ [NL] @
     ''<u:'' @ action @ '' xmlns:u='' @ QUOTE @ serviceType @ QUOTE @ ''>'' @ args @
     ''</u:'' @ action @ ''>'' @ [NL] @ ''</s:Body>'' @ [NL] @ ''</s:Envelope>''"

definition soap_arg :: "string \<Rightarrow> string \<Rightarrow> string" where
  "soap_arg name v = ''<'' @ name @ ''>'' @ v @ ''</'' @ name @ ''>'' @ [NL]"

definition soap_request :: "igd \<Rightarrow> string \<Rightarrow> string \<Rightarrow> request" where
  "soap_request g action args =
     \<lparr>rq_Method = ''POST'', rq_URL = g_ControlURL g,
      rq_Header = [(''Content-Type'', ''text/xml; charset='' @ QUOTE @ ''utf-8'' @ QUOTE),
                   (''SOAPAction'', QUOTE @ g_ServiceType g @ ''#'' @ action @ QUOTE)],
      rq_Body = soap_body action (g_ServiceType g) args\<rparr>"

definition soap_call :: "'g lan \<Rightarrow> igd \<Rightarrow> string \<Rightarrow> string \<Rightarrow> 'g \<Rightarrow> 'g \<times> (upnp_error, string) result" where
  "soap_call lan igd action args g =
     (if \<not> lan_URL lan (g_ControlURL igd) then (g, Inl (BadURL (g_ControlURL igd)))
      else (case lan_Do lan (soap_request igd action args) g of
              (g', Inl e) \<Rightarrow> (g', Inl (FetchFault e))
            | (g', Inr resp) \<Rightarrow>
                (g', if rs_Status resp div 100 \<noteq> 2 then Inl (HttpStatus (rs_Status resp) (rs_Body resp)) else Inr (rs_Body resp))))"

definition add_args :: "string \<Rightarrow> int \<Rightarrow> int \<Rightarrow> 32 word \<Rightarrow> string \<Rightarrow> int \<Rightarrow> string" where
  "add_args proto externalPort internalPort localIP description leaseSec =
     [NL] @ soap_arg ''NewRemoteHost'' [] @
     soap_arg ''NewExternalPort'' (Itoa externalPort) @
     soap_arg ''NewProtocol'' proto @
     soap_arg ''NewInternalPort'' (Itoa internalPort) @
     soap_arg ''NewInternalClient'' (addr_String (Addr4 localIP)) @
     soap_arg ''NewEnabled'' ''1'' @
     soap_arg ''NewPortMappingDescription'' description @
     soap_arg ''NewLeaseDuration'' (Itoa leaseSec)"

definition AddPortMapping ::
    "'g lan \<Rightarrow> igd \<Rightarrow> string \<Rightarrow> int \<Rightarrow> int \<Rightarrow> string \<Rightarrow> int \<Rightarrow> 'g \<Rightarrow> 'g \<times> upnp_error option" where
  "AddPortMapping lan igd proto externalPort internalPort description leaseSec g =
     (case g_LocalIP igd of
        None \<Rightarrow> (g, Some LocalIPUnknown)
      | Some ip \<Rightarrow>
          (case soap_call lan igd ''AddPortMapping'' (add_args proto externalPort internalPort ip description leaseSec) g of
             (g', Inl e) \<Rightarrow> (g', Some e)
           | (g', Inr _) \<Rightarrow> (g', None)))"

text \<open>The answer: \<open>Body/GetExternalIPAddressResponse/NewExternalIPAddress\<close>.\<close>

definition um_external :: "xml list \<Rightarrow> string option" where
  "um_external ks =
     um_within ''Body'' (um_within ''GetExternalIPAddressResponse''
       (um_within ''NewExternalIPAddress'' (\<lambda>cs _. Some (chars_of cs)))) ks []"

definition GetExternalIPAddress :: "'g lan \<Rightarrow> igd \<Rightarrow> 'g \<Rightarrow> 'g \<times> (upnp_error, string) result" where
  "GetExternalIPAddress lan igd g =
     (case soap_call lan igd ''GetExternalIPAddress'' [] g of
        (g', Inl e) \<Rightarrow> (g', Inl e)
      | (g', Inr rbody) \<Rightarrow>
          (g', case lan_XML lan rbody of
                 Some (Elem _ ks) \<Rightarrow>
                   (case um_external ks of
                      Some ip \<Rightarrow> if ip = [] then Inl EmptyExternalIP else Inr ip
                    | None \<Rightarrow> Inl XmlDepth)
               | _ \<Rightarrow> Inl XmlSyntax))"

definition delete_args :: "string \<Rightarrow> int \<Rightarrow> string" where
  "delete_args proto externalPort =
     [NL] @ soap_arg ''NewRemoteHost'' [] @
     soap_arg ''NewExternalPort'' (Itoa externalPort) @
     soap_arg ''NewProtocol'' proto"

definition DeletePortMapping :: "'g lan \<Rightarrow> igd \<Rightarrow> string \<Rightarrow> int \<Rightarrow> 'g \<Rightarrow> 'g \<times> upnp_error option" where
  "DeletePortMapping lan igd proto externalPort g =
     (case soap_call lan igd ''DeletePortMapping'' (delete_args proto externalPort) g of
        (g', Inl e) \<Rightarrow> (g', Some e)
      | (g', Inr _) \<Rightarrow> (g', None))"

section \<open>The first WAN service in document order\<close>

fun all_services :: "innerDevice list \<Rightarrow> service list" where
  "all_services [] = []"
| "all_services (InnerDevice t ss ds # devs) = ss @ all_services ds @ all_services devs"

lemma strings_Contains_prefix: "HasPrefix s sub \<Longrightarrow> strings_Contains s sub"
  by (cases s) (auto simp: HasPrefix_def)

lemma strings_Contains_append: "strings_Contains (a @ sub @ b) sub"
  by (induction a) (auto simp: HasPrefix_def intro: strings_Contains_prefix)

lemma strings_Contains_short: "length s < length sub \<Longrightarrow> \<not> strings_Contains s sub"
  by (induction s) (auto simp: HasPrefix_def)

declare strings_Contains.simps [simp del]

lemma first_wan_find: "first_wan ss = find is_wan ss"
  by (induction ss) auto

lemma find_in_append: "find P (xs @ ys) = (case find P xs of Some x \<Rightarrow> Some x | None \<Rightarrow> find P ys)"
  by (induction xs) auto

lemma findWANConnection_find: "findWANConnection devs = find is_wan (all_services devs)"
  by (induction devs rule: findWANConnection.induct) (auto simp: first_wan_find find_in_append split: option.split)

section \<open>Reading a device description\<close>

text \<open>The element tree of a description, and how deep its devices are nested.\<close>

definition service_xml :: "service \<Rightarrow> xml" where
  "service_xml s =
     Elem ''service'' [Elem ''serviceType'' [CharData (sv_ServiceType s)], Elem ''controlURL'' [CharData (sv_ControlURL s)]]"

fun devices_xml :: "innerDevice list \<Rightarrow> xml list" where
  "devices_xml [] = []"
| "devices_xml (InnerDevice t ss ds # devs) =
     Elem ''device''
       (Elem ''deviceType'' [CharData t] #
        (if ss = [] then [] else [Elem ''serviceList'' (map service_xml ss)]) @
        (if ds = [] then [] else [Elem ''deviceList'' (devices_xml ds)])) # devices_xml devs"

fun nesting :: "innerDevice list \<Rightarrow> nat" where
  "nesting [] = 0"
| "nesting (InnerDevice t ss ds # devs) = max (Suc (nesting ds)) (nesting devs)"

lemma um_services_xml:
  "d + 3 < maxUnmarshalDepth \<Longrightarrow> um_services d (map service_xml ss) acc = Some (acc @ ss)"
  by (induction ss arbitrary: acc) (simp_all add: service_xml_def chars_of_def no_service_def)

lemma um_devices_xml:
  "d + 3 * nesting devs + 3 < maxUnmarshalDepth \<Longrightarrow> um_devices d (devices_xml devs) acc = Some (acc @ devs)"
proof (induction devs arbitrary: d acc rule: devices_xml.induct)
  case (2 t ss ds devs)
  let ?n = "nesting (InnerDevice t ss ds # devs)"
  have n: "Suc (nesting ds) \<le> ?n" "nesting devs \<le> ?n" by simp_all
  then have d: "d + 3 + 3 * nesting ds + 3 < maxUnmarshalDepth" "d + 3 * nesting devs + 3 < maxUnmarshalDepth"
    using 2(3) by linarith+
  then have "um_devices (d + 3) (devices_xml ds) [] = Some ds" "\<And>a. um_devices d (devices_xml devs) a = Some (a @ devs)"
    "um_services (d + 3) (map service_xml ss) [] = Some ss" "d + 2 < maxUnmarshalDepth" "d + 3 < maxUnmarshalDepth"
    using 2(1,2) by (cases "ds = []"; simp add: um_services_xml)+
  then show ?case by (simp add: chars_of_def eval_nat_numeral)
qed simp

text \<open>
  The parts of a document that count: the elements of the structures, and the characters of the string fields.
  Everything else (white space, comments, the many other elements of a description) is skipped.
\<close>

fun essential :: "xml list \<Rightarrow> xml list" where
  "essential [] = []"
| "essential (CharData _ # xs) = essential xs"
| "essential (Elem n ks # xs) =
     (if n \<in> {''deviceType'', ''serviceType'', ''controlURL''} then Elem n [CharData (chars_of ks)] # essential xs
      else if n \<in> {''device'', ''deviceList'', ''serviceList'', ''service''} then Elem n (essential ks) # essential xs
      else essential xs)"

lemma um_service_essential: "um_service d (essential xs) s = um_service d xs s"
  by (induction d xs s rule: um_service.induct) (simp_all add: chars_of_def)

lemma um_services_essential: "um_services d (essential xs) ss = um_services d xs ss"
  by (induction d xs ss rule: um_services.induct) (simp_all add: um_service_essential split: option.split)

lemma um_devices_essential:
  "um_device d (essential xs) v = um_device d xs v" "um_devices d (essential xs) vs = um_devices d xs vs"
proof (induction d xs v and d xs vs rule: um_device_um_devices.induct)
  case (3 d n ks xs v)
  then show ?case by (simp add: um_services_essential chars_of_def split: option.split)
next
  case (6 d n ks xs vs)
  then show ?case by (simp split: option.split)
qed simp_all

lemma um_within_essential:
  assumes "name \<in> {''device'', ''deviceList''}" and "\<And>ks v. field (essential ks) v = field ks v"
  shows "um_within name field (essential xs) v = um_within name field xs v"
proof (induction xs arbitrary: v)
  case (Cons x xs)
  with assms show ?case by (cases x) (auto split: option.split)
qed simp

lemma um_desc_essential: "um_desc (essential ks) = um_desc ks"
  unfolding um_desc_def by (intro um_within_essential) (simp_all add: um_within_essential um_devices_essential)

definition named :: "string \<Rightarrow> xml \<Rightarrow> bool" where
  "named n x = (case x of Elem m _ \<Rightarrow> m = n | CharData _ \<Rightarrow> False)"

lemma um_within_named: "um_within name field (filter (named name) xs) v = um_within name field xs v"
  by (induction name field xs v rule: um_within.induct) (auto simp: named_def split: option.split)

text \<open>Of the root device only the device list counts.\<close>

fun kids :: "xml \<Rightarrow> xml list" where
  "kids (Elem _ ks) = ks"
| "kids (CharData _) = []"

definition describes :: "xml \<Rightarrow> innerDevice list \<Rightarrow> bool" where
  "describes x devs \<longleftrightarrow>
     (\<exists>n. x = Elem n (kids x)) \<and> length (filter (named ''device'') (essential (kids x))) = 1 \<and>
     filter (named ''deviceList'') (kids (hd (filter (named ''device'') (essential (kids x))))) = [Elem ''deviceList'' (devices_xml devs)]"

lemma unmarshal_described:
  assumes "lan_XML lan body = Some x" "describes x devs" "nesting devs < 3000"
  shows "unmarshal_desc lan body = Inr devs"
proof -
  obtain n ks where x: "x = Elem n ks" using assms(2) by (auto simp: describes_def)
  obtain y where e: "filter (named ''device'') (essential ks) = [y]"
    using assms(2) x by (auto simp: describes_def length_Suc_conv)
  then have "y \<in> set (filter (named ''device'') (essential ks))" by simp
  then obtain ds where y: "y = Elem ''device'' ds" by (auto simp: named_def split: xml.splits)
  have ds: "filter (named ''deviceList'') ds = [Elem ''deviceList'' (devices_xml devs)]"
    using assms(2) x e y by (simp add: describes_def)
  have "um_within ''deviceList'' (um_devices 2) ds [] = Some devs"
    using um_within_named [of "''deviceList''" "um_devices 2" ds "[]"] assms(3) unfolding ds
    by (simp add: um_devices_xml maxUnmarshalDepth_def)
  then have "um_desc (essential ks) = Some devs"
    unfolding um_desc_def by (subst um_within_named [symmetric]) (simp add: e y)
  with x assms(1) show ?thesis by (simp add: unmarshal_desc_def um_desc_essential)
qed

section \<open>Search responses\<close>

definition header_ok :: "string \<times> string \<Rightarrow> bool" where
  "header_ok h \<longleftrightarrow> clean (fst h) \<and> clean (snd h) \<and> CHR '':'' \<notin> set (fst h) \<and> NL \<notin> set (fst h) \<and> NL \<notin> set (snd h)"

definition header_line :: "string \<times> string \<Rightarrow> string" where
  "header_line h = fst h @ '': '' @ snd h"

definition status_line :: string where "status_line = ''HTTP/1.1 200 OK''"

definition ssdp_reply :: "(string \<times> string) list \<Rightarrow> string" where
  "ssdp_reply hs = concat (map (\<lambda>l. l @ CRNL) (status_line # map header_line hs @ [[]]))"

definition header_of :: "string \<Rightarrow> (string \<times> string) option" where
  "header_of line =
     (case cut_first (CHR '':'') line of
        Some (k, v) \<Rightarrow> if k = [] then None else Some (ToUpper (TrimSpace k), TrimSpace v)
      | None \<Rightarrow> None)"

lemma header_lines_get:
  "mget (header_lines ls out) K = (case map_of (rev (List.map_filter header_of ls)) K of Some v \<Rightarrow> Some v | None \<Rightarrow> mget out K)"
  by (induction ls arbitrary: out)
    (auto simp: map_filter_simps header_of_def map_add_def split: option.split)

lemma scan_lines_CRNL:
  assumes "\<forall>l \<in> set ls. NL \<notin> set l \<and> length l + 1 < MaxScanTokenSize"
  shows "scan_lines (concat (map (\<lambda>l. l @ CRNL) ls)) = (ls, False)"
proof -
  let ?rs = "map (\<lambda>l. l @ [CR]) ls"
  have "concat (map (\<lambda>l. l @ CRNL) ls) = concat (map (\<lambda>l. l @ [NL]) ?rs)" by (simp add: CRNL_def comp_def)
  moreover have "\<forall>l \<in> set ?rs. NL \<notin> set l" using assms by (auto simp: NL_def CR_def)
  ultimately have rl: "raw_lines (concat (map (\<lambda>l. l @ CRNL) ls)) = ?rs" by (simp only: raw_lines_concat)
  have len: "\<forall>l \<in> set ?rs. length l < MaxScanTokenSize" using assms by auto
  then have tk: "takeWhile (\<lambda>l. length l < MaxScanTokenSize) ?rs = ?rs" by (simp only: takeWhile_eq_all_conv)
  have dr: "map dropCR ?rs = ls" by (simp add: dropCR_def comp_def)
  show ?thesis unfolding scan_lines_def Let_def rl tk dr using len by auto
qed

lemma headers_of_reply:
  assumes "list_all header_ok hs"
  shows "List.map_filter header_of (status_line # map header_line hs @ [[]]) = map (\<lambda>(k, v). (ToUpper k, v)) hs"
proof -
  have h: "header_of (header_line h) = Some (ToUpper (fst h), snd h)" if "header_ok h" for h
  proof -
    have "header_line h = fst h @ CHR '':'' # SP # snd h" by (simp add: header_line_def SP_def)
    then show ?thesis using that
      by (auto simp: header_ok_def header_of_def TrimSpace_SP_left TrimSpace_clean clean_def)
  qed
  have "header_of status_line = None" "header_of [] = None"
    by (simp_all add: header_of_def status_line_def cut_first_def)
  then show ?thesis using assms by (induction hs) (auto simp: map_filter_simps h)
qed

lemma length_row: "l \<in> set ls \<Longrightarrow> length l \<le> length (concat (map (\<lambda>l. l @ x) ls))"
  by (induction ls) auto

lemma location_reply:
  assumes "list_all header_ok hs" and "length (ssdp_reply hs) \<le> 8192"
  shows "location_of (take 8192 (ssdp_reply hs)) =
    (case map_of (rev (map (\<lambda>(k, v). (ToUpper k, v)) hs)) ''LOCATION'' of Some l \<Rightarrow> l | None \<Rightarrow> [])"
proof -
  let ?ls = "status_line # map header_line hs @ [[]]"
  have "length l + 1 < MaxScanTokenSize" if "l \<in> set ?ls" for l
    using length_row [OF that, of CRNL] assms(2) by (simp only: ssdp_reply_def MaxScanTokenSize_def)
  moreover have "NL \<notin> set l" if "l \<in> set ?ls" for l
    using that assms(1) by (auto simp: list_all_iff header_ok_def header_line_def status_line_def NL_def)
  ultimately have "fst (scan_lines (ssdp_reply hs)) = ?ls" unfolding ssdp_reply_def by (subst scan_lines_CRNL) auto
  then have "mget (parseSSDPHeaders (ssdp_reply hs)) K = map_of (rev (map (\<lambda>(k, v). (ToUpper k, v)) hs)) K" for K
    unfolding parseSSDPHeaders_def header_lines_get by (simp only: headers_of_reply [OF assms(1)]) (simp add: mget_def split: option.split)
  then show ?thesis using assms(2) by (simp add: location_of_def)
qed

definition unusable :: "'g lan \<Rightarrow> ssdp \<Rightarrow> bool" where
  "unusable lan e = (case e of
     CtxDone \<Rightarrow> False
   | Datagram b _ \<Rightarrow> location_of (take 8192 b) = [] \<or> \<not> is_ok (fetchControlURL lan (location_of (take 8192 b))))"

lemma ssdp_loop_skip: "list_all (unusable lan) junk \<Longrightarrow> ssdp_loop lan (junk @ es) = ssdp_loop lan es"
proof (induction junk)
  case (Cons e junk)
  then show ?case by (cases e) (auto simp: unusable_def Let_def is_ok_def split: sum.splits)
qed simp

text \<open>What a usable description at the location of a response gives.\<close>

definition wan_igd :: "'g lan \<Rightarrow> string \<Rightarrow> service \<Rightarrow> 32 word option \<Rightarrow> igd" where
  "wan_igd lan loc svc ip =
     \<lparr>g_ControlURL = (if HasPrefix (sv_ControlURL svc) ''http'' then sv_ControlURL svc else lan_Resolve lan loc (sv_ControlURL svc)),
      g_ServiceType = sv_ServiceType svc, g_LocalIP = ip\<rparr>"

lemma fetch_described:
  assumes "lan_Get lan loc = Inr resp" and "rs_ReadErr resp = None"
    and "lan_XML lan (rs_Body resp) = Some x" and "describes x devs" and "nesting devs < 3000"
    and "find is_wan (all_services devs) = Some svc"
    and "HasPrefix (sv_ControlURL svc) ''http'' \<or> lan_URL lan loc \<and> lan_URL lan (sv_ControlURL svc)"
  shows "fetchControlURL lan loc = Inr (wan_igd lan loc svc None)"
  using assms(1,2,6,7) unmarshal_described [OF assms(3-5)]
  by (auto simp: fetchControlURL_def wan_igd_def findWANConnection_find Let_def)

lemma ssdp_loop_found:
  assumes "list_all (unusable lan) junk" and "list_all header_ok hs" and "length (ssdp_reply hs) \<le> 8192"
    and "map_of (rev (map (\<lambda>(k, v). (ToUpper k, v)) hs)) ''LOCATION'' = Some loc" and "loc \<noteq> []"
    and "fetchControlURL lan loc = Inr (wan_igd lan loc svc None)"
  shows "ssdp_loop lan (junk @ Datagram (ssdp_reply hs) raddr # rest) = Inr (wan_igd lan loc svc (lan_LocalIP lan raddr))"
  using assms(5,6) ssdp_loop_skip [OF assms(1)] location_reply [OF assms(2,3)] assms(4)
  by (simp add: Let_def with_local_def wan_igd_def split: option.split)


section \<open>A router\<close>

text \<open>
  A router for concrete runs. It answers the search, serves one description, and keeps its table of forwarded
  ports by reading the arguments of the SOAP requests; its two documents are known to the tokeniser.
\<close>

type_synonym router = "((string \<times> string), (string \<times> string)) gomap"

definition body_args :: "string \<Rightarrow> (string \<times> string) list" where
  "body_args b = List.map_filter (cut_first (CHR ''>'')) (split_on (CHR ''<'') b)"

definition body_arg :: "string \<Rightarrow> string \<Rightarrow> string" where
  "body_arg b name = (case map_of (body_args b) name of Some v \<Rightarrow> v | None \<Rightarrow> [])"

definition router_do :: "string \<Rightarrow> request \<Rightarrow> router \<Rightarrow> router \<times> (string, response) result" where
  "router_do svc rq r =
     (let b = rq_Body rq; action = map_of (rq_Header rq) ''SOAPAction'';
          key = (body_arg b ''NewProtocol'', body_arg b ''NewExternalPort'');
          ok = (\<lambda>doc. Inr \<lparr>rs_Status = 200, rs_Body = doc, rs_ReadErr = None\<rparr>);
          is_action = (\<lambda>a. action = Some (QUOTE @ svc @ ''#'' @ a @ QUOTE))
      in if is_action ''AddPortMapping'' then
           (mput key (body_arg b ''NewInternalClient'', body_arg b ''NewInternalPort'') r, ok [])
         else if is_action ''DeletePortMapping'' then (mdel key r, ok [])
         else if is_action ''GetExternalIPAddress'' then (r, ok ''external'')
         else (r, Inr \<lparr>rs_Status = 401, rs_Body = ''Invalid Action'', rs_ReadErr = None\<rparr>))"

definition wan_service :: service where
  "wan_service = \<lparr>sv_ServiceType = ''urn:schemas-upnp-org:service:WANIPConnection:1'', sv_ControlURL = ''/ctl''\<rparr>"

definition router_devices :: "innerDevice list" where
  "router_devices =
     [InnerDevice ''urn:schemas-upnp-org:device:WANDevice:1'' [\<lparr>sv_ServiceType = ''WANCommon'', sv_ControlURL = ''/c''\<rparr>]
        [InnerDevice ''urn:schemas-upnp-org:device:WANConnectionDevice:1'' [] [],
         InnerDevice ''urn:schemas-upnp-org:device:WANConnectionDevice:2'' [wan_service] []]]"

definition router_xml :: xml where
  "router_xml =
     Elem ''root'' [Elem ''specVersion'' [], CharData [NL],
       Elem ''device'' [CharData [NL], Elem ''deviceType'' [CharData ''gw''],
         Elem ''deviceList'' (devices_xml router_devices)]]"

definition external_xml :: xml where   \<comment> \<open>203.0.113.7\<close>
  "external_xml = Elem ''Envelope'' [Elem ''Body'' [Elem ''GetExternalIPAddressResponse''
     [Elem ''NewExternalIPAddress'' [CharData (addr_String (Addr4 0xCB007107))]]]]"

definition router_headers :: "(string \<times> string) list" where
  "router_headers = [(''ST'', ''upnp:rootdevice''), (''Location'', ''http://192.168.1.1/d.xml'')]"

definition home_lan :: "router lan" where
  "home_lan =
     \<lparr>lan_Search = (\<lambda>_ r. (r, Inr [Datagram (ssdp_reply []) (Addr4 7), Datagram (ssdp_reply router_headers) (Addr4 0xC0A80101)])),
      lan_Get = (\<lambda>u. if u = ''http://192.168.1.1/d.xml'' then Inr \<lparr>rs_Status = 200, rs_Body = ''desc'', rs_ReadErr = None\<rparr>
                     else Inl ''no route''),
      lan_Do = router_do (sv_ServiceType wan_service),
      lan_URL = (\<lambda>_. True),
      lan_Resolve = (\<lambda>b r. ''http://192.168.1.1'' @ r),
      lan_XML = (\<lambda>b. if b = ''desc'' then Some router_xml else if b = ''external'' then Some external_xml else None),
      lan_LocalIP = (\<lambda>_. Some 0xC0A80105)\<rparr>"

definition home_igd :: igd where
  "home_igd = \<lparr>g_ControlURL = ''http://192.168.1.1/ctl'', g_ServiceType = sv_ServiceType wan_service, g_LocalIP = Some 0xC0A80105\<rparr>"

lemma router_headers_ok: "list_all header_ok router_headers" "length (ssdp_reply router_headers) \<le> 8192"
proof -
  have "clean ''ST''" "clean ''upnp:rootdevice''" "clean ''Location''" "clean ''http://192.168.1.1/d.xml''"
    by (rule ascii_cleanI; simp add: ascii_def space_encs_def)+
  then show "list_all header_ok router_headers" by (simp add: router_headers_def header_ok_def NL_def)
  show "length (ssdp_reply router_headers) \<le> 8192"
    by (simp add: ssdp_reply_def router_headers_def header_line_def status_line_def CRNL_def)
qed

lemma router_described: "describes router_xml router_devices"
  by (simp add: describes_def named_def router_xml_def router_devices_def service_xml_def wan_service_def chars_of_def)

lemma home_network:
  "lan_Search home_lan s r = (r, Inr ([Datagram (ssdp_reply []) (Addr4 7)] @ Datagram (ssdp_reply router_headers) (Addr4 0xC0A80101) # []))"
  "list_all (unusable home_lan) [Datagram (ssdp_reply []) (Addr4 7)]"
  "map_of (rev (map (\<lambda>(k, v). (ToUpper k, v)) router_headers)) ''LOCATION'' = Some ''http://192.168.1.1/d.xml''"
  "lan_Get home_lan ''http://192.168.1.1/d.xml'' = Inr \<lparr>rs_Status = 200, rs_Body = ''desc'', rs_ReadErr = None\<rparr>"
  "lan_XML home_lan ''desc'' = Some router_xml" "nesting router_devices < 3000"
  "lan_URL home_lan u" "wan_igd home_lan ''http://192.168.1.1/d.xml'' wan_service (lan_LocalIP home_lan a) = home_igd"
proof -
  have "location_of (take 8192 (ssdp_reply [])) = []"
    using location_reply [of "[]"] by (simp add: ssdp_reply_def status_line_def CRNL_def)
  then show "list_all (unusable home_lan) [Datagram (ssdp_reply []) (Addr4 7)]" by (simp add: unusable_def)
  show "map_of (rev (map (\<lambda>(k, v). (ToUpper k, v)) router_headers)) ''LOCATION'' = Some ''http://192.168.1.1/d.xml''"
    by code_simp
qed (simp_all add: home_lan_def router_devices_def wan_igd_def home_igd_def wan_service_def HasPrefix_def)

lemma home_service: "find is_wan (all_services router_devices) = Some wan_service"
proof -
  have "strings_Contains (sv_ServiceType wan_service) ''WANIPConnection''"
    using strings_Contains_append [of "''urn:schemas-upnp-org:service:''" "''WANIPConnection''" "'':1''"] by (simp add: wan_service_def)
  then show ?thesis by (simp add: router_devices_def is_wan_def strings_Contains_short)
qed

lemma home_discovered: "Discover home_lan r = (r, Inr home_igd)"
proof -
  have "fetchControlURL home_lan ''http://192.168.1.1/d.xml'' = Inr (wan_igd home_lan ''http://192.168.1.1/d.xml'' wan_service None)"
    using home_network(5,7) by (intro fetch_described [OF home_network(4) _ _ router_described home_network(6) home_service]) simp_all
  with ssdp_loop_found [OF home_network(2) router_headers_ok home_network(3), of wan_service] show ?thesis
    by (simp add: Discover_def home_network)
qed


end
