(* ===== verification/Discovery.thy ===== *)
theory Discovery
  imports Daemon Stun Upnp
begin

text \<open>
  The discovery loop of the daemon (\<open>discovery.go\<close>): which public end point the node has, learnt from the gateway
  (\<open>Upnp\<close>) or from STUN servers (\<open>Stun\<close>), and how it is announced.

  The loop keeps the gateway it found; the daemon's state, the gateway's state \<open>'g\<close> and what the network does are
  as in the theories of these parts. A round is what happens at one tick; between two rounds the other goroutines
  of the daemon and the world run (\<open>r_other\<close>). A panic of the STUN parser ends the process: \<open>None\<close>.
\<close>

section \<open>Operations\<close>

definition endpoint_Set :: "addr_port \<Rightarrow> 'r daemon \<Rightarrow> 'r daemon \<times> bool" where
  "endpoint_Set ap d = (if d_endpoint d = ap then (d, False) else (d\<lparr>d_endpoint := ap\<rparr>, True))"

datatype external_error = GatewayFault upnp_error | BadExternalIP string

definition getExternalIP :: "'g lan \<Rightarrow> igd \<Rightarrow> 'g \<Rightarrow> 'g \<times> (external_error, addr) result" where
  "getExternalIP lan igd g =
     (case GetExternalIPAddress lan igd g of
        (g', Inl e) \<Rightarrow> (g', Inl (GatewayFault e))
      | (g', Inr ip) \<Rightarrow> (g', case ParseAddr ip of None \<Rightarrow> Inl (BadExternalIP ip) | Some a \<Rightarrow> Inr a))"

text \<open>The second half of \<open>refreshUPnP\<close>, once a gateway is known; a failed mapping forgets the gateway.\<close>

definition upnp_map :: "'g lan \<Rightarrow> int \<Rightarrow> igd \<Rightarrow> 'g \<Rightarrow> 'g \<times> igd option \<times> addr_port" where
  "upnp_map lan wgPort igd g =
     (case AddPortMapping lan igd ''UDP'' wgPort wgPort ''gsnet'' 3600 g of
        (g', Some _) \<Rightarrow> (g', None, NoAddrPort)
      | (g', None) \<Rightarrow>
          (case getExternalIP lan igd g' of
             (g'', Inr ext) \<Rightarrow> (g'', Some igd, if IsValid ext then AddrPortFrom ext (of_int wgPort) else NoAddrPort)
           | (g'', Inl _) \<Rightarrow> (g'', Some igd, NoAddrPort)))"

definition refreshUPnP :: "'g lan \<Rightarrow> int \<Rightarrow> igd option \<Rightarrow> 'g \<Rightarrow> 'g \<times> igd option \<times> addr_port" where
  "refreshUPnP lan wgPort igd g =
     (case igd of
        Some x \<Rightarrow> upnp_map lan wgPort x g
      | None \<Rightarrow>
          (case Discover lan g of
             (g', Inl _) \<Rightarrow> (g', None, NoAddrPort)
           | (g', Inr x) \<Rightarrow> upnp_map lan wgPort x g'))"

text \<open>The first STUN server that answers; its answer gives the address, the port is the local one.\<close>

fun stun_first :: "(string \<Rightarrow> udp_net) \<Rightarrow> 16 word \<Rightarrow> string list \<Rightarrow> addr_port option" where
  "stun_first net port [] = Some NoAddrPort"
| "stun_first net port (srv # srvs) =
     (case QueryOnEphemeralPort (net srv) srv of
        Inr ap \<Rightarrow> Some (AddrPortFrom (ap_addr ap) port)
      | Inl e \<Rightarrow> if e = StunFault SlicePanic then None else stun_first net port srvs)"

definition discoverOnce ::
    "'g lan \<Rightarrow> (string \<Rightarrow> udp_net) \<Rightarrow> string list \<Rightarrow> string \<Rightarrow> 'r daemon \<Rightarrow> igd option \<Rightarrow> 'g \<Rightarrow>
       'g \<times> igd option \<times> addr_port option" where
  "discoverOnce lan net stunServers upnpMode d igd g =
     (let port = (of_int (l_WGListenPort (d_loaded d)) :: 16 word);
          (g', igd', ep) = (if upnpMode = ''yes'' \<or> upnpMode = ''udponly'' then refreshUPnP lan (uint port) igd g
                            else (g, igd, NoAddrPort))
      in (g', igd', if IsValid (ap_addr ep) then Some ep else stun_first net port stunServers))"

section \<open>The loop\<close>

record ('r, 'g) discovery =
  dc_daemon :: "'r daemon"
  dc_igd :: "igd option"
  dc_gw :: 'g

record ('r, 'g) round =
  r_other :: "'r daemon \<times> 'g \<Rightarrow> 'r daemon \<times> 'g"
  r_net :: "string \<Rightarrow> udp_net"
  r_now :: "nat \<Rightarrow> int"

definition discovery_round ::
    "'r denv \<Rightarrow> 'g lan \<Rightarrow> string list \<Rightarrow> string \<Rightarrow> ('r, 'g) round \<Rightarrow> ('r, 'g) discovery \<Rightarrow> ('r, 'g) discovery option" where
  "discovery_round env lan stunServers upnpMode r st =
     (case r_other r (dc_daemon st, dc_gw st) of
        (d, g) \<Rightarrow>
          (case discoverOnce lan (r_net r) stunServers upnpMode d (dc_igd st) g of
             (g', igd', None) \<Rightarrow> None
           | (g', igd', Some newEP) \<Rightarrow>
               let (d', changed) = (if IsValid (ap_addr newEP) then endpoint_Set newEP d else (d, False));
                   d'' = (if changed then fst (announceLocal env (r_now r) d') else d')
               in Some \<lparr>dc_daemon = d'', dc_igd = igd', dc_gw = g'\<rparr>))"

fun discovery_rounds ::
    "'r denv \<Rightarrow> 'g lan \<Rightarrow> string list \<Rightarrow> string \<Rightarrow> ('r, 'g) round list \<Rightarrow> ('r, 'g) discovery \<Rightarrow> ('r, 'g) discovery option" where
  "discovery_rounds env lan stunServers upnpMode [] st = Some st"
| "discovery_rounds env lan stunServers upnpMode (r # rs) st =
     (case discovery_round env lan stunServers upnpMode r st of
        None \<Rightarrow> None
      | Some st' \<Rightarrow> discovery_rounds env lan stunServers upnpMode rs st')"

text \<open>
  What the configuration asks for. The refresh period is a \<open>time.Duration\<close>, nanoseconds in 64 bits: the product
  wraps. \<open>time.NewTicker\<close> panics on a period that is not positive.
\<close>

datatype plan = Idle | TickerPanic | Rounds "string list" string int

definition refresh_period :: "entries \<Rightarrow> int" where
  "refresh_period es =
     (case GetFirst es ''UPnPRefreshPeriod'' of
        None \<Rightarrow> 60 * 1000000000
      | Some v \<Rightarrow>
          (case Atoi v of
             Some n \<Rightarrow> if 0 < n then sint (of_int (n * 1000000000) :: 64 word) else 60 * 1000000000
           | None \<Rightarrow> 60 * 1000000000))"

definition discovery_plan :: "entries \<Rightarrow> plan" where
  "discovery_plan es =
     (let stunServers = GetAll es ''STUN'';
          raw = ToLower (entry_or_empty es ''UPnP'');
          upnpMode = (if raw = [] then ''no'' else raw);
          refresh = refresh_period es
      in if stunServers = [] \<and> upnpMode = ''no'' then Idle
         else if refresh \<le> 0 then TickerPanic
         else Rounds stunServers upnpMode refresh)"

text \<open>The first sweep is immediate, the others follow the ticker. On exit the mapping is torn down, with the port the loop was started with.\<close>

definition discovery_stop :: "'g lan \<Rightarrow> loaded \<Rightarrow> ('r, 'g) discovery \<Rightarrow> ('r, 'g) discovery" where
  "discovery_stop lan l st =
     (case dc_igd st of
        None \<Rightarrow> st
      | Some igd \<Rightarrow> st\<lparr>dc_gw := fst (DeletePortMapping lan igd ''UDP'' (l_WGListenPort l) (dc_gw st))\<rparr>)"

definition runDiscovery ::
    "'r denv \<Rightarrow> 'g lan \<Rightarrow> ('r, 'g) round \<Rightarrow> ('r, 'g) round list \<Rightarrow> 'r daemon \<Rightarrow> 'g \<Rightarrow> ('r, 'g) discovery option" where
  "runDiscovery env lan first ticks d g =
     (let l = d_loaded d; st = \<lparr>dc_daemon = d, dc_igd = None, dc_gw = g\<rparr>
      in case discovery_plan (l_Conf l) of
           Idle \<Rightarrow> Some st
         | TickerPanic \<Rightarrow> None
         | Rounds stunServers upnpMode _ \<Rightarrow>
             (case discovery_rounds env lan stunServers upnpMode (first # ticks) st of
                None \<Rightarrow> None
              | Some st' \<Rightarrow> Some (discovery_stop lan l st')))"

section \<open>Announcing an end point\<close>

lemma envelopes_of_broadcasts: "envelopes_of fx = broadcasts fx"
  by (induction fx) (auto simp: envelopes_of_def map_filter_simps split: effect.split)

lemma plane_call_sent:
  "d_sent (fst (plane_call env f d)) =
     d_sent d @ broadcasts (fst (snd (f ((d_plane d)\<lparr>p_pubKeyFor := Some (lookupPubKey (de_crypto env) d)\<rparr>))))"
  by (simp add: plane_call_def applyReconcile_def envelopes_of_broadcasts Let_def split: prod.split option.split)

lemma plane_call_plane:
  "d_plane (fst (plane_call env f d)) = fst (f ((d_plane d)\<lparr>p_pubKeyFor := Some (lookupPubKey (de_crypto env) d)\<rparr>))"
  by (simp add: plane_call_def applyReconcile_def Let_def split: prod.split option.split)

lemma plane_call_endpoint: "d_endpoint (fst (plane_call env f d)) = d_endpoint d"
  by (simp add: plane_call_def applyReconcile_def Let_def split: prod.split option.split)

lemma announce_subnets_sent:
  "(\<exists>more. d_sent (fst (announce_subnets env now n ss d)) = d_sent d @ more) \<and>
   d_endpoint (fst (announce_subnets env now n ss d)) = d_endpoint d \<and>
   d_loaded (fst (announce_subnets env now n ss d)) = d_loaded d"
proof (induction ss arbitrary: n d)
  case (Cons s ss)
  let ?r = "plane_call env (AnnounceAddSubnet (de_crypto env) (de_berr env) (now n) (subnet_String s)) d"
  obtain d' err where r: "?r = (d', err)" by (cases ?r)
  have d': "\<exists>more. d_sent d' = d_sent d @ more" "d_endpoint d' = d_endpoint d" "d_loaded d' = d_loaded d"
    using plane_call_sent [of env _ d] plane_call_endpoint [of env _ d] plane_call_keeps [of env _ d] r by (metis fst_conv)+
  then show ?case using Cons [of "Suc n" d'] by (cases err) (auto simp: r)
qed simp

lemma announceLocal_sent:
  defines "hello c d env now \<equiv> broadcasts (fst (snd (AnnounceHello c (de_berr env) (now (0::nat)) (local_hello c d)
     ((d_plane d)\<lparr>p_pubKeyFor := Some (lookupPubKey c d)\<rparr>))))"
  shows "\<exists>more. d_sent (fst (announceLocal env now d)) = d_sent d @ hello (de_crypto env) d env now @ more"
    and "d_endpoint (fst (announceLocal env now d)) = d_endpoint d" "d_loaded (fst (announceLocal env now d)) = d_loaded d"
proof -
  let ?r = "plane_call env (AnnounceHello (de_crypto env) (de_berr env) (now 0) (local_hello (de_crypto env) d)) d"
  obtain d' err where r: "?r = (d', err)" by (cases ?r)
  have d': "d_sent d' = d_sent d @ hello (de_crypto env) d env now" "d_endpoint d' = d_endpoint d" "d_loaded d' = d_loaded d"
    using plane_call_sent [of env _ d] plane_call_endpoint [of env _ d] plane_call_keeps [of env _ d] r
    unfolding hello_def by (metis fst_conv)+
  show "\<exists>more. d_sent (fst (announceLocal env now d)) = d_sent d @ hello (de_crypto env) d env now @ more"
    using d'(1) announce_subnets_sent [of env now 1 "l_Subnets (d_loaded d)" d'] r
    by (auto simp: announceLocal_def Let_def split: option.split)
  show "d_endpoint (fst (announceLocal env now d)) = d_endpoint d" "d_loaded (fst (announceLocal env now d)) = d_loaded d"
    using d'(2,3) announce_subnets_sent [of env now 1 "l_Subnets (d_loaded d)" d'] r
    by (auto simp: announceLocal_def Let_def split: option.split)
qed

text \<open>A Hello that a peer receives sets what the peer knows of the end point.\<close>

lemma hello_received:
  assumes "ed25519_correct c" and "trusts c peer a" and "h_Name h = p_NodeName a" and "hello_ok h" and "h_Endpoint h \<noteq> []"
    and "int64_range now" and "newer peer (p_NodeName a @ ''/hello'') now"
  shows "\<exists>e. broadcasts (fst (snd (AnnounceHello c berr now h a))) = [e] \<and>
    EndpointOf (fst (Receive c berr' e peer)) (p_NodeName a) = h_Endpoint h \<and>
    p_G (fst (Receive c berr' e peer)) = AddNode (p_NodeName a) (p_G peer)"
proof -
  let ?i = "p_NodeName a @ ''/hello''"
  have i: "utf8_ok ?i" using assms(2) utf8_ok_consts(3) by (simp only: trusts_def utf8_ok_append)
  have k: "KindAddNode \<noteq> []" by simp
  obtain e where e: "broadcasts (fst (snd (AnnounceHello c berr now h a))) = [e]" "env_Payload e = hello_json h"
    "env_Kind e = KindAddNode" "fst (Receive c berr' e peer) = fst (apply_env e (peer\<lparr>p_seen := mput ?i now (p_seen peer)\<rparr>))"
    using originate_delivered [OF assms(1,2) i utf8_ok_consts(4) k assms(6) payload_ok_json(1) assms(7), of berr h berr']
    unfolding AnnounceHello_def by blast
  have "fst (Receive c berr' e peer) = apply_AddNode h (peer\<lparr>p_seen := mput ?i now (p_seen peer)\<rparr>)"
    by (simp add: e(4) apply_env_def apply_kind_def e(2,3) hello_roundtrip [OF assms(4)])
  with e(1) assms(3,5) show ?thesis
    by (auto simp: EndpointOf_def apply_AddNode_def rememberPubKey_def Let_def split: sum.split)
qed


section \<open>Port mappings\<close>

text \<open>
  A gateway that does what the UPnP service description asks of it: a new mapping is entered in its table
  (\<open>maps\<close>: protocol and external port to client and internal port), a deleted one is removed, and it knows its
  external address.
\<close>

definition gateway_ok :: "'g lan \<Rightarrow> igd \<Rightarrow> ('g \<Rightarrow> string \<times> string \<Rightarrow> (string \<times> string) option) \<Rightarrow> addr \<Rightarrow> bool" where
  "gateway_ok lan x maps ext \<longleftrightarrow> lan_URL lan (g_ControlURL x) \<and>
     (\<forall>g p ip. \<exists>g' r. lan_Do lan (soap_request x ''AddPortMapping'' (add_args ''UDP'' p p ip ''gsnet'' 3600)) g = (g', Inr r) \<and>
        rs_Status r div 100 = 2 \<and> maps g' = (maps g)((''UDP'', Itoa p) \<mapsto> (addr_String (Addr4 ip), Itoa p))) \<and>
     (\<forall>g. \<exists>r n. lan_Do lan (soap_request x ''GetExternalIPAddress'' []) g = (g, Inr r) \<and> rs_Status r div 100 = 2 \<and>
        lan_XML lan (rs_Body r) = Some (Elem n [Elem ''Body'' [Elem ''GetExternalIPAddressResponse''
          [Elem ''NewExternalIPAddress'' [CharData (addr_String ext)]]]])) \<and>
     (\<forall>g p. \<exists>g' r. lan_Do lan (soap_request x ''DeletePortMapping'' (delete_args ''UDP'' p)) g = (g', Inr r) \<and>
        maps g' = (maps g)((''UDP'', Itoa p) := None))"

lemma upnp_map_ok:
  assumes "gateway_ok lan x maps (Addr4 w)" and "g_LocalIP x = Some ip"
  shows "\<exists>g'. upnp_map lan p x g = (g', Some x, AddrPortFrom (Addr4 w) (of_int p)) \<and>
    maps g' = (maps g)((''UDP'', Itoa p) \<mapsto> (addr_String (Addr4 ip), Itoa p))"
proof -
  have url: "lan_URL lan (g_ControlURL x)" using assms(1) by (simp add: gateway_ok_def)
  obtain g' r where a: "lan_Do lan (soap_request x ''AddPortMapping'' (add_args ''UDP'' p p ip ''gsnet'' 3600)) g = (g', Inr r)"
    "rs_Status r div 100 = 2" "maps g' = (maps g)((''UDP'', Itoa p) \<mapsto> (addr_String (Addr4 ip), Itoa p))"
    using assms(1) unfolding gateway_ok_def by blast
  obtain s n where e: "lan_Do lan (soap_request x ''GetExternalIPAddress'' []) g' = (g', Inr s)" "rs_Status s div 100 = 2"
    "lan_XML lan (rs_Body s) = Some (Elem n [Elem ''Body'' [Elem ''GetExternalIPAddressResponse''
       [Elem ''NewExternalIPAddress'' [CharData (addr_String (Addr4 w))]]]])"
    using assms(1) unfolding gateway_ok_def by blast
  have "AddPortMapping lan x ''UDP'' p p ''gsnet'' 3600 g = (g', None)"
    using url a(1,2) by (simp add: AddPortMapping_def assms(2) soap_call_def)
  moreover have "GetExternalIPAddress lan x g' = (g', Inr (addr_String (Addr4 w)))"
    using url e ParseAddr_string4 [of w]
    by (auto simp: GetExternalIPAddress_def soap_call_def um_external_def chars_of_def ParseAddr_def)
  ultimately show ?thesis using a(3) by (simp add: upnp_map_def getExternalIP_def ParseAddr_string4 IsValid_def)
qed

definition finds :: "'g lan \<Rightarrow> igd \<Rightarrow> ('g \<Rightarrow> 'm) \<Rightarrow> bool" where
  "finds lan x maps \<longleftrightarrow> (\<forall>g. \<exists>g'. Discover lan g = (g', Inr x) \<and> maps g' = maps g)"

definition round_port :: "'r daemon \<Rightarrow> 16 word" where
  "round_port d = of_int (l_WGListenPort (d_loaded d))"

text \<open>The state after a round with such a gateway.\<close>

definition mapped :: "igd \<Rightarrow> ('g \<Rightarrow> string \<times> string \<Rightarrow> (string \<times> string) option) \<Rightarrow> 32 word \<Rightarrow> 32 word \<Rightarrow> ('r, 'g) discovery \<Rightarrow> bool" where
  "mapped x maps w ip st \<longleftrightarrow> dc_igd st = Some x \<and>
     d_endpoint (dc_daemon st) = AddrPortFrom (Addr4 w) (round_port (dc_daemon st)) \<and>
     maps (dc_gw st) (''UDP'', Itoa (uint (round_port (dc_daemon st)))) =
       Some (addr_String (Addr4 ip), Itoa (uint (round_port (dc_daemon st))))"

lemma round_mapped:
  assumes "gateway_ok lan x maps (Addr4 w)" and "g_LocalIP x = Some ip" and "finds lan x maps"
    and "upnpMode \<in> {''yes'', ''udponly''}" and "dc_igd st \<in> {None, Some x}"
  shows "\<exists>st'. discovery_round env lan stunServers upnpMode r st = Some st' \<and> mapped x maps w ip st'"
proof -
  obtain d g where o: "r_other r (dc_daemon st, dc_gw st) = (d, g)" by fastforce
  let ?p = "uint (round_port d)" and ?ep = "AddrPortFrom (Addr4 w) (round_port d)"
  have "\<exists>g'. refreshUPnP lan ?p (dc_igd st) g = (g', Some x, ?ep) \<and> maps g' (''UDP'', Itoa ?p) = Some (addr_String (Addr4 ip), Itoa ?p)"
  proof -
    obtain g1 where g1: "Discover lan g = (g1, Inr x)" using assms(3) by (auto simp: finds_def)
    have "refreshUPnP lan ?p (dc_igd st) g = upnp_map lan ?p x (if dc_igd st = None then g1 else g)"
      using assms(5) g1 by (auto simp: refreshUPnP_def)
    with upnp_map_ok [OF assms(1,2), of ?p "if dc_igd st = None then g1 else g"] show ?thesis by auto
  qed
  then obtain g' where g': "refreshUPnP lan ?p (dc_igd st) g = (g', Some x, ?ep)"
    "maps g' (''UDP'', Itoa ?p) = Some (addr_String (Addr4 ip), Itoa ?p)" by blast
  have "discoverOnce lan (r_net r) stunServers upnpMode d (dc_igd st) g = (g', Some x, Some ?ep)"
    using assms(4) g'(1) by (auto simp: discoverOnce_def round_port_def Let_def IsValid_def AddrPortFrom_def)
  then show ?thesis using o g'(2)
    by (auto simp: discovery_round_def endpoint_Set_def mapped_def announceLocal_sent round_port_def Let_def IsValid_def AddrPortFrom_def)
qed

lemma rounds_mapped:
  assumes "gateway_ok lan x maps (Addr4 w)" and "g_LocalIP x = Some ip" and "finds lan x maps"
    and "upnpMode \<in> {''yes'', ''udponly''}" and "mapped x maps w ip st"
  shows "\<exists>st'. discovery_rounds env lan stunServers upnpMode rs st = Some st' \<and> mapped x maps w ip st'"
  using assms(5)
proof (induction rs arbitrary: st)
  case (Cons r rs)
  then have "dc_igd st \<in> {None, Some x}" by (simp add: mapped_def)
  with round_mapped [OF assms(1-4) this, of env stunServers r] Cons.IH show ?case by force
qed simp

text \<open>
  C16: a port mapping lives as long as the daemon, unless the port is changed. With a gateway that serves its
  requests the loop never fails, the node's end point is the gateway's external address with the port of the
  last round, and on exit the mapping of the port the loop was started with is gone. But when a reload has changed
  the port in between, it is the mapping of the new port that is in use then, and this one stays behind.
\<close>

theorem mapping_lifetime:
  assumes "gateway_ok lan x maps (Addr4 w)" and "g_LocalIP x = Some ip" and "finds lan x maps"
    and "discovery_plan (l_Conf (d_loaded d)) = Rounds stunServers upnpMode period" and "upnpMode \<in> {''yes'', ''udponly''}"
    and "0 \<le> l_WGListenPort (d_loaded d)" and "l_WGListenPort (d_loaded d) < 65536"
  shows "\<exists>st port. runDiscovery env lan first ticks d g = Some st \<and> port = round_port (dc_daemon st) \<and>
    d_endpoint (dc_daemon st) = AddrPortFrom (Addr4 w) port \<and>
    maps (dc_gw st) (''UDP'', Itoa (l_WGListenPort (d_loaded d))) = None \<and>
    (uint port \<noteq> l_WGListenPort (d_loaded d) \<longrightarrow>
       maps (dc_gw st) (''UDP'', Itoa (uint port)) = Some (addr_String (Addr4 ip), Itoa (uint port)))"
proof -
  let ?st = "\<lparr>dc_daemon = d, dc_igd = None, dc_gw = g\<rparr>" and ?P = "l_WGListenPort (d_loaded d)"
  obtain st1 where st1: "discovery_round env lan stunServers upnpMode first ?st = Some st1" "mapped x maps w ip st1"
    using round_mapped [OF assms(1-3,5), of ?st env stunServers first] by auto
  obtain st where st: "discovery_rounds env lan stunServers upnpMode ticks st1 = Some st" "mapped x maps w ip st"
    using rounds_mapped [OF assms(1-3,5) st1(2)] by blast
  obtain g' r where del: "lan_Do lan (soap_request x ''DeletePortMapping'' (delete_args ''UDP'' ?P)) (dc_gw st) = (g', Inr r)"
    "maps g' = (maps (dc_gw st))((''UDP'', Itoa ?P) := None)" using assms(1) unfolding gateway_ok_def by blast
  moreover have "lan_URL lan (g_ControlURL x)" using assms(1) by (simp add: gateway_ok_def)
  ultimately have "fst (DeletePortMapping lan x ''UDP'' ?P (dc_gw st)) = g'" by (simp add: DeletePortMapping_def soap_call_def)
  then have run: "runDiscovery env lan first ticks d g = Some (st\<lparr>dc_gw := g'\<rparr>)"
    using assms(4) st1(1) st by (simp add: runDiscovery_def discovery_stop_def mapped_def Let_def)
  have "maps g' (''UDP'', Itoa q) = Some (addr_String (Addr4 ip), Itoa q)"
    if "q = uint (round_port (dc_daemon st))" "q \<noteq> ?P" for q
  proof -
    have "0 \<le> q" "q < 65536" using that(1) uint_bounded [of "round_port (dc_daemon st)"] by simp_all
    then have "int64_range q" "int64_range ?P" using assms(6,7) by (simp_all add: int64_range_def)
    then have "Itoa q \<noteq> Itoa ?P" using that(2) Atoi_Itoa by (metis option.inject)
    then show ?thesis using that(1) st(2) by (simp add: del(2) mapped_def)
  qed
  then show ?thesis using run st(2) del(2) by (auto simp: mapped_def)
qed

section \<open>The router\<close>

definition tagged :: "string list \<Rightarrow> string" where
  "tagged ps = concat (map (\<lambda>p. CHR ''<'' # p) ps)"

lemma split_tagged_from:
  "CHR ''<'' \<notin> set a \<Longrightarrow> list_all (\<lambda>p. CHR ''<'' \<notin> set p) ps \<Longrightarrow> split_on (CHR ''<'') (a @ tagged ps) = a # ps"
  by (induction ps arbitrary: a) (simp_all add: tagged_def split_on_none split_on_append)

definition arg_pieces :: "string \<times> string \<Rightarrow> string list" where
  "arg_pieces a = [fst a @ ''>'' @ snd a, ''/'' @ fst a @ ''>'' @ [NL]]"

definition soap_pieces :: "string \<Rightarrow> string \<Rightarrow> (string \<times> string) list \<Rightarrow> string list" where
  "soap_pieces action svc as =
     [''?xml version='' @ QUOTE @ ''1.0'' @ QUOTE @ ''?>'' @ [NL],
      ''s:Envelope xmlns:s='' @ QUOTE @ ''http://schemas.xmlsoap.org/soap/envelope/'' @ QUOTE @
        '' s:encodingStyle='' @ QUOTE @ ''http://schemas.xmlsoap.org/soap/encoding/'' @ QUOTE @ ''>'' @ [NL],
      ''s:Body>'' @ [NL], (''u:'' @ action @ '' xmlns:u='' @ QUOTE @ svc @ QUOTE) @ ''>'' @ [NL]] @
     concat (map arg_pieces as) @
     [(''/u:'' @ action) @ ''>'' @ [NL], ''/s:Body>'' @ [NL], ''/s:Envelope>'']"

lemma soap_body_tagged: "soap_body action svc ([NL] @ concat (map (\<lambda>(n, v). soap_arg n v) as)) = tagged (soap_pieces action svc as)"
proof -
  have "concat (map (\<lambda>(n, v). soap_arg n v) as) = tagged (concat (map arg_pieces as))"
    by (induction as) (auto simp: tagged_def soap_arg_def arg_pieces_def)
  then show ?thesis by (simp add: soap_body_def soap_pieces_def tagged_def)
qed

definition plain_arg :: "string \<times> string \<Rightarrow> bool" where
  "plain_arg a \<longleftrightarrow> (\<exists>r. fst a = CHR ''N'' # r) \<and> CHR ''<'' \<notin> set (fst a) \<and> CHR ''>'' \<notin> set (fst a) \<and> CHR ''<'' \<notin> set (snd a)"

lemma body_arg_soap:
  assumes "list_all plain_arg as" and "CHR ''<'' \<notin> set action \<union> set svc" "CHR ''>'' \<notin> set action \<union> set svc"
  shows "body_arg (soap_body action svc ([NL] @ concat (map (\<lambda>(n, v). soap_arg n v) as))) (CHR ''N'' # n) =
    (case map_of as (CHR ''N'' # n) of Some v \<Rightarrow> v | None \<Rightarrow> [])"
proof -
  have ok: "list_all (\<lambda>p. CHR ''<'' \<notin> set p) (soap_pieces action svc as)"
    using assms by (auto simp: soap_pieces_def list_all_iff arg_pieces_def plain_arg_def QUOTE_def NL_def)
  have cut: "cut_first (CHR ''>'') ((''u:'' @ action @ '' xmlns:u='' @ QUOTE @ svc @ QUOTE) @ ''>'' @ [NL]) =
      Some (''u:'' @ action @ '' xmlns:u='' @ QUOTE @ svc @ QUOTE, [NL])"
    "cut_first (CHR ''>'') ((''/u:'' @ action) @ ''>'' @ [NL]) = Some (''/u:'' @ action, [NL])"
    using assms(3) cut_first_append [of "CHR ''>''" "''u:'' @ action @ '' xmlns:u='' @ QUOTE @ svc @ QUOTE" "[NL]"]
      cut_first_append [of "CHR ''>''" "''/u:'' @ action" "[NL]"] by (auto simp: QUOTE_def)
  have args: "map_of (List.map_filter (cut_first (CHR ''>'')) (concat (map arg_pieces as) @ ps)) (CHR ''N'' # n) =
      (case map_of as (CHR ''N'' # n) of Some v \<Rightarrow> Some v | None \<Rightarrow> map_of (List.map_filter (cut_first (CHR ''>'')) ps) (CHR ''N'' # n))" for ps
    using assms(1)
  proof (induction as)
    case (Cons a as)
    then have "cut_first (CHR ''>'') (fst a @ ''>'' @ snd a) = Some (fst a, snd a)"
      "cut_first (CHR ''>'') (''/'' @ fst a @ ''>'' @ [NL]) = Some (''/'' @ fst a, [NL])"
      using cut_first_append [of "CHR ''>''" "fst a" "snd a"] cut_first_append [of "CHR ''>''" "''/'' @ fst a" "[NL]"]
      by (auto simp: plain_arg_def)
    with Cons show ?case by (cases a) (auto simp: arg_pieces_def map_filter_simps)
  qed simp
  have head: "map_of (List.map_filter (cut_first (CHR ''>''))
      ([''?xml version='' @ QUOTE @ ''1.0'' @ QUOTE @ ''?>'' @ [NL],
        ''s:Envelope xmlns:s='' @ QUOTE @ ''http://schemas.xmlsoap.org/soap/envelope/'' @ QUOTE @
          '' s:encodingStyle='' @ QUOTE @ ''http://schemas.xmlsoap.org/soap/encoding/'' @ QUOTE @ ''>'' @ [NL],
        ''s:Body>'' @ [NL], (''u:'' @ action @ '' xmlns:u='' @ QUOTE @ svc @ QUOTE) @ ''>'' @ [NL]] @ ps)) (CHR ''N'' # n) =
      map_of (List.map_filter (cut_first (CHR ''>'')) ps) (CHR ''N'' # n)" for ps
    unfolding append_Cons append_Nil map_filter_simps cut by (simp add: cut_first_def QUOTE_def NL_def)
  have tail: "map_of (List.map_filter (cut_first (CHR ''>''))
      [(''/u:'' @ action) @ ''>'' @ [NL], ''/s:Body>'' @ [NL], ''/s:Envelope>'']) (CHR ''N'' # n) = None"
    unfolding map_filter_simps cut by (simp add: cut_first_def NL_def)
  have "split_on (CHR ''<'') (tagged (soap_pieces action svc as)) = [] # soap_pieces action svc as"
    using split_tagged_from [of "[]", OF _ ok] by simp
  moreover have "cut_first (CHR ''>'') [] = None" by (simp add: cut_first_def)
  ultimately have "map_of (body_args (tagged (soap_pieces action svc as))) (CHR ''N'' # n) = map_of as (CHR ''N'' # n)"
    by (simp only: body_args_def map_filter_simps option.case) (simp only: soap_pieces_def head args tail, simp split: option.split)
  then show ?thesis by (simp only: body_arg_def soap_body_tagged)
qed

lemma args_list:
  "add_args proto p q ip desc lease = [NL] @ concat (map (\<lambda>(n, v). soap_arg n v)
     [(''NewRemoteHost'', []), (''NewExternalPort'', Itoa p), (''NewProtocol'', proto), (''NewInternalPort'', Itoa q),
      (''NewInternalClient'', addr_String (Addr4 ip)), (''NewEnabled'', ''1''), (''NewPortMappingDescription'', desc),
      (''NewLeaseDuration'', Itoa lease)])"
  "delete_args proto p = [NL] @ concat (map (\<lambda>(n, v). soap_arg n v)
     [(''NewRemoteHost'', []), (''NewExternalPort'', Itoa p), (''NewProtocol'', proto)])"
  by (simp_all add: add_args_def delete_args_def)

lemma home_gateway: "gateway_ok home_lan home_igd mget (Addr4 0xCB007107)" "finds home_lan home_igd mget"
proof -
  have no: "CHR ''<'' \<notin> set (Itoa v)" "CHR ''<'' \<notin> set (string4 w)" for v w
    using Itoa_chars [of "CHR ''<''" v] string4_chars [of "CHR ''<''" w] by (auto simp: is_digit_def)
  let ?svc = "sv_ServiceType wan_service"
  have svc: "CHR ''<'' \<notin> set ?svc" "CHR ''>'' \<notin> set ?svc" by (simp_all add: wan_service_def)
  have add: "body_arg (soap_body ''AddPortMapping'' ?svc (add_args ''UDP'' p p ip ''gsnet'' 3600)) (CHR ''N'' # n) =
      (case map_of [(''NewRemoteHost'', []), (''NewExternalPort'', Itoa p), (''NewProtocol'', ''UDP''), (''NewInternalPort'', Itoa p),
         (''NewInternalClient'', string4 ip), (''NewEnabled'', ''1''), (''NewPortMappingDescription'', ''gsnet''),
         (''NewLeaseDuration'', Itoa 3600)] (CHR ''N'' # n) of Some v \<Rightarrow> v | None \<Rightarrow> [])" for p ip n
    unfolding args_list(1) addr_String.simps using svc no by (intro body_arg_soap) (auto simp: plain_arg_def)
  have del: "body_arg (soap_body ''DeletePortMapping'' ?svc (delete_args ''UDP'' p)) (CHR ''N'' # n) =
      (case map_of [(''NewRemoteHost'', []), (''NewExternalPort'', Itoa p), (''NewProtocol'', ''UDP'')] (CHR ''N'' # n) of
         Some v \<Rightarrow> v | None \<Rightarrow> [])" for p n
    unfolding args_list(2) using svc no by (intro body_arg_soap) (auto simp: plain_arg_def)
  have "lan_Do home_lan (soap_request home_igd ''AddPortMapping'' (add_args ''UDP'' p p ip ''gsnet'' 3600)) g =
      (mput (''UDP'', Itoa p) (string4 ip, Itoa p) g, Inr \<lparr>rs_Status = 200, rs_Body = [], rs_ReadErr = None\<rparr>)" for g p ip
    by (simp add: home_lan_def router_do_def soap_request_def home_igd_def add Let_def)
  moreover have "lan_Do home_lan (soap_request home_igd ''DeletePortMapping'' (delete_args ''UDP'' p)) g =
      (mdel (''UDP'', Itoa p) g, Inr \<lparr>rs_Status = 200, rs_Body = [], rs_ReadErr = None\<rparr>)" for g p
    by (simp add: home_lan_def router_do_def soap_request_def home_igd_def del Let_def)
  moreover have "lan_Do home_lan (soap_request home_igd ''GetExternalIPAddress'' []) g =
      (g, Inr \<lparr>rs_Status = 200, rs_Body = ''external'', rs_ReadErr = None\<rparr>)" for g
    by (simp add: home_lan_def router_do_def soap_request_def home_igd_def Let_def)
  moreover have "lan_XML home_lan ''external'' = Some external_xml" by (simp add: home_lan_def)
  moreover have "lan_URL home_lan (g_ControlURL home_igd)" by (simp add: home_lan_def)
  ultimately show "gateway_ok home_lan home_igd mget (Addr4 0xCB007107)"
    by (auto simp: gateway_ok_def external_xml_def fun_eq_iff)
  have "Discover home_lan g = (g, Inr home_igd)" for g by (rule home_discovered)
  then show "finds home_lan home_igd mget" by (simp add: finds_def)
qed

text \<open>\<open>alice\<close> behind the router, with the port changed by a reload after the first round.\<close>

definition upnp_alice :: "unit daemon" where
  "upnp_alice = alice_daemon\<lparr>d_loaded := alice_loaded\<lparr>l_Conf := [\<lparr>Key = ''UPnP'', Value = ''yes''\<rparr>]\<rparr>\<rparr>"

definition quiet_round :: "(unit, router) round" where
  "quiet_round = \<lparr>r_other = (\<lambda>x. x),
     r_net = (\<lambda>_. \<lparr>un_Listen = Some ''down'', un_Resolve = (\<lambda>_. None), un_Rand = Inl [], un_Exchange = (\<lambda>_ _. Inl [])\<rparr>),
     r_now = (\<lambda>n. int n + 7)\<rparr>"

definition reload_round :: "(unit, router) round" where
  "reload_round = quiet_round\<lparr>r_other := (\<lambda>(d, g). (d\<lparr>d_loaded := (d_loaded d)\<lparr>l_WGListenPort := 51821\<rparr>\<rparr>, g))\<rparr>"

lemma upnp_alice_plan: "discovery_plan (l_Conf (d_loaded upnp_alice)) = Rounds [] ''yes'' 60000000000"
proof -
  have "EqualFold ''UPnP'' ''UPnP''" "\<not> EqualFold ''UPnP'' ''STUN''" "\<not> EqualFold ''UPnP'' ''UPnPRefreshPeriod''"
    by (simp_all add: EqualFold_def lower_char_def char_of_def bit_Suc_0_iff)
  moreover have "ToLower ''yes'' = ''yes''" by code_simp
  ultimately show ?thesis
    by (simp add: upnp_alice_def discovery_plan_def refresh_period_def entry_or_empty_def Let_def)
qed

lemma round_loaded:
  "discovery_round env lan stunServers upnpMode r st = Some st' \<Longrightarrow>
     d_loaded (dc_daemon st') = d_loaded (fst (r_other r (dc_daemon st, dc_gw st)))"
  by (auto simp: discovery_round_def endpoint_Set_def announceLocal_sent Let_def split: prod.splits option.splits if_splits)

lemma reloaded_port:
  assumes "runDiscovery env home_lan quiet_round [reload_round] upnp_alice [] = Some st"
  shows "l_WGListenPort (d_loaded (dc_daemon st)) = 51821"
proof -
  obtain st1 st2 where "discovery_round env home_lan [] ''yes'' reload_round st1 = Some st2" "dc_daemon st = dc_daemon st2"
    using assms by (auto simp: runDiscovery_def upnp_alice_plan discovery_stop_def Let_def split: option.splits)
  with round_loaded [of env home_lan "[]" "''yes''" reload_round st1 st2] show ?thesis by (simp add: reload_round_def)
qed

theorem mapping_lifetime_witness:
  "\<exists>st. runDiscovery alice_env home_lan quiet_round [reload_round] upnp_alice [] = Some st \<and>
     mget (dc_gw st) (''UDP'', Itoa 51820) = None \<and> mget (dc_gw st) (''UDP'', Itoa 51821) = Some (string4 0xC0A80105, Itoa 51821)"
proof -
  have p: "l_WGListenPort (d_loaded upnp_alice) = 51820" by (simp add: upnp_alice_def alice_loaded_def)
  have ip: "g_LocalIP home_igd = Some 0xC0A80105" by (simp add: home_igd_def)
  obtain st where st: "runDiscovery alice_env home_lan quiet_round [reload_round] upnp_alice [] = Some st"
    "mget (dc_gw st) (''UDP'', Itoa 51820) = None"
    "uint (round_port (dc_daemon st)) \<noteq> 51820 \<longrightarrow> mget (dc_gw st) (''UDP'', Itoa (uint (round_port (dc_daemon st)))) =
       Some (string4 0xC0A80105, Itoa (uint (round_port (dc_daemon st))))"
    using mapping_lifetime [OF home_gateway(1) ip home_gateway(2) upnp_alice_plan, of alice_env quiet_round "[reload_round]" "[]"] p by auto
  then show ?thesis using reloaded_port [OF st(1)] by (simp add: round_port_def)
qed

text \<open>\<open>carol\<close>, behind the same router, is known to \<open>alice\<close> from her host file.\<close>

definition carol_daemon :: "unit daemon" where
  "carol_daemon = alice_daemon\<lparr>d_loaded := alice_loaded\<lparr>l_NodeName := ''carol'', l_EdPriv := [3], l_WGPriv := [4]\<rparr>,
     d_plane := SetSigner [3] (NewPlane ''carol'' New)\<rparr>"

lemma carol_known:
  "lookupPubKey toy_crypto alice_daemon ''carol'' = Some (Ed_Public toy_crypto [3])" "known_key toy_crypto alice_daemon ''carol'' \<noteq> None"
proof -
  note h = host_entries_ok [OF toy_correct(1,4)]
  have "os_ReadFile alice_fs (HostFile etc_gsnet ''carol'') = Inr carol_host"
    by (simp add: alice_paths plain_names os_ReadFile_def node_at_def alice_fs_def mget_def)
  then have rd: "config_ParseFile (d_fs alice_daemon) (HostFile (d_Paths alice_daemon) ''carol'') = Inr (host_entries toy_crypto [3] [4])"
    by (simp add: config_ParseFile_def carol_host_def Parse_Render h(1) alice_daemon_def)
  have "length (Ed_Public toy_crypto [3]) = 32" by (simp add: Ed_Public_def toy_crypto_def toy_pub_def)
  then have "ParseEd25519PublicBase64 (TrimSpace (Ed_String (Ed_Public toy_crypto [3]))) = Inr (Ed_Public toy_crypto [3])"
    by (simp add: TrimSpace_clean h(4) public_base64_roundtrip PublicKeySize_def)
  then show "lookupPubKey toy_crypto alice_daemon ''carol'' = Some (Ed_Public toy_crypto [3])"
    unfolding lookupPubKey_def rd by (simp add: h(2) alice_daemon_def alice_loaded_def)
  have "wg_parse toy_crypto (WG_String toy_crypto (WG_Public toy_crypto [4])) \<noteq> None"
    using toy_correct(4) by (simp add: wg_correct_def WG_String_def WG_Public_def)
  then show "known_key toy_crypto alice_daemon ''carol'' \<noteq> None" unfolding known_key_def rd by (simp add: h(3))
qed

lemma carol_hello: "ap_addr ep = Addr4 w \<Longrightarrow> hello_ok (local_hello toy_crypto (carol_daemon\<lparr>d_endpoint := ep\<rparr>))"
proof -
  assume ep: "ap_addr ep = Addr4 w"
  have "ascii c" if "is_digit c \<or> c = CHR ''.''" for c using that by (auto simp: is_digit_def ascii_def)
  then have "ascii c" if "c \<in> set (string4 w) \<union> set (nat_str n)" for c n
    using string4_chars [of c w] nat_str_digits [of c n] that by blast
  then have "list_all ascii (string4 w)" "list_all ascii (nat_str n)" for n unfolding list_all_iff by blast+
  then have "list_all ascii (addr_port_String ep)" using ep by (simp add: addr_port_String_def ascii_def)
  moreover have "list_all ascii (WG_String toy_crypto (WG_Public toy_crypto [4]))"
    using std_enc_plain by (simp add: WG_String_def toy_crypto_def list_all_iff)
  moreover have "list_all ascii ''carol''" by (simp add: ascii_def)
  ultimately show ?thesis
    using ep by (simp add: hello_ok_def local_hello_def carol_daemon_def alice_loaded_def IsValid_def prefix_valid_def NoPrefix_def utf8_ok_ascii Let_def)
qed


text \<open>A period the parser accepts can still overflow the duration: the ticker panics.\<close>

lemma long_period_panics:
  assumes "GetFirst es ''UPnPRefreshPeriod'' = Some v" and "Atoi v = Some 9300000000" and "GetAll es ''STUN'' \<noteq> []"
  shows "discovery_plan es = TickerPanic"
proof -
  have "refresh_period es < 0" using assms(1,2) by (simp add: refresh_period_def)
  then show ?thesis using assms(3) by (simp add: discovery_plan_def Let_def)
qed

end
