(* ===== verification/Script.thy ===== *)
theory Script
  imports Sandbox
begin

text \<open>
  Package \<open>script\<close> and the hooks of the daemon (\<open>runUp\<close>, \<open>runDown\<close>): which program is started, in which directory
  and with which environment, and the end of \<open>Run\<close>.

  What \<open>os/exec\<close> does before it starts a process is written out: a name without a slash is looked up in \<open>PATH\<close>, of
  repeated variables the last one counts, a NUL byte in a variable is an error. The process itself is a parameter:
  its combined output and how it ended.
\<close>

section \<open>The environment\<close>

record script_env =
  se_Netname :: string
  se_Name :: string
  se_Device :: string
  se_Interface :: string
  se_Node :: string
  se_RemoteAddress :: string
  se_RemotePort :: string
  se_Subnet :: string
  se_Weight :: string
  se_InvitationFile :: string
  se_InvitationURL :: string

definition env_fields :: "script_env \<Rightarrow> (string \<times> string) list" where
  "env_fields e =
     [(''NETNAME'', se_Netname e), (''NAME'', se_Name e), (''DEVICE'', se_Device e), (''INTERFACE'', se_Interface e),
      (''NODE'', se_Node e), (''REMOTEADDRESS'', se_RemoteAddress e), (''REMOTEPORT'', se_RemotePort e),
      (''SUBNET'', se_Subnet e), (''WEIGHT'', se_Weight e), (''INVITATION_FILE'', se_InvitationFile e),
      (''INVITATION_URL'', se_InvitationURL e)]"

definition env_add :: "string list \<Rightarrow> string \<times> string \<Rightarrow> string list" where
  "env_add out kv = (if snd kv \<noteq> [] then out @ [fst kv @ ''='' @ snd kv] else out)"

definition ToOSEnv :: "string list \<Rightarrow> script_env \<Rightarrow> string list" where
  "ToOSEnv environ e = foldl env_add environ (env_fields e)"

text \<open>\<open>dedupEnv\<close> of \<open>os/exec\<close>, from the last entry to the first; a leading equals sign belongs to the key.\<close>

definition env_key :: "string \<Rightarrow> string option" where
  "env_key kv =
     (case cut_first (CHR ''='') kv of
        None \<Rightarrow> None
      | Some (k, r) \<Rightarrow>
          if k \<noteq> [] then Some k
          else (case cut_first (CHR ''='') r of Some (k', _) \<Rightarrow> Some (CHR ''='' # k') | None \<Rightarrow> Some []))"

fun dedup_rev :: "string list \<Rightarrow> string list \<Rightarrow> string list \<times> bool" where
  "dedup_rev [] saw = ([], False)"
| "dedup_rev (kv # es) saw =
     (if CHR 0x00 \<in> set kv then (fst (dedup_rev es saw), True)
      else (case env_key kv of
              None \<Rightarrow> (case dedup_rev es saw of (out, err) \<Rightarrow> (if kv = [] then out else kv # out, err))
            | Some k \<Rightarrow>
                if k \<in> set saw then dedup_rev es saw
                else (case dedup_rev es (k # saw) of (out, err) \<Rightarrow> (kv # out, err))))"

definition dedupEnv :: "string list \<Rightarrow> string list \<times> bool" where
  "dedupEnv env = (case dedup_rev (rev env) [] of (out, err) \<Rightarrow> (rev out, err))"

section \<open>Running a script\<close>

record runner =
  rn_ConfDir :: path
  rn_Extension :: string
  rn_Interpreter :: string

datatype exec_error = NotInPath string | StartFault os_error | EnvNUL | ExitStatus int

datatype script_error = StatFault os_error | ScriptFailed string exec_error string

record process =
  pr_Prog :: path
  pr_Args :: "string list"
  pr_Dir :: path
  pr_Env :: "string list"

record exec =
  ex_LookPath :: "string \<Rightarrow> path option"
  ex_Environ :: "string list"
  ex_Spawn :: "process \<Rightarrow> string \<times> exec_error option"

definition isExecutable :: "node \<Rightarrow> bool" where
  "isExecutable fi \<longleftrightarrow> node_mode fi AND 73 \<noteq> 0"   \<comment> \<open>0111\<close>

definition path_ext :: "path \<Rightarrow> string \<Rightarrow> path" where
  "path_ext p ext = (if ext = [] then p else path_Clean (path_text p @ ext))"

text \<open>\<open>exec.CommandContext\<close>: where the program is. A relative path is taken from the directory of the command.\<close>

definition lookup_program :: "exec \<Rightarrow> string \<Rightarrow> (exec_error, path) result" where
  "lookup_program x name = (case ex_LookPath x name of None \<Rightarrow> Inl (NotInPath name) | Some p \<Rightarrow> Inr p)"

definition path_program :: "exec \<Rightarrow> path \<Rightarrow> (exec_error, path) result" where
  "path_program x p = (if \<not> fst p \<and> length (snd p) = 1 then lookup_program x (hd (snd p)) else Inr p)"

definition text_program :: "exec \<Rightarrow> string \<Rightarrow> (exec_error, path) result" where
  "text_program x name = (if CHR ''/'' \<notin> set name then lookup_program x name else Inr (path_Clean name))"

definition in_dir :: "path \<Rightarrow> path \<Rightarrow> path" where
  "in_dir dir p = (if fst p then p else (fst dir, snd dir @ snd p))"

text \<open>The processes started and the error returned.\<close>

definition script_Run :: "exec \<Rightarrow> fsys \<Rightarrow> runner \<Rightarrow> string \<Rightarrow> script_env \<Rightarrow> process list \<times> script_error option" where
  "script_Run x fs r name env =
     (let path = path_ext (path_Join (rn_ConfDir r) name) (rn_Extension r)
      in case os_Stat fs path of
           Inl e \<Rightarrow> ([], if IsNotExist e then None else Some (StatFault e))
         | Inr st \<Rightarrow>
             if \<not> isExecutable st then ([], None)
             else
               let (prog, args) = (if rn_Interpreter r \<noteq> [] then (text_program x (rn_Interpreter r), [path_text path])
                                   else (path_program x path, []));
                   (env', nul) = dedupEnv (ToOSEnv (ex_Environ x) env)
               in (case prog of
                     Inl e \<Rightarrow> ([], Some (ScriptFailed name e []))
                   | Inr p \<Rightarrow>
                       if nul then ([], Some (ScriptFailed name EnvNUL []))
                       else
                         let pr = \<lparr>pr_Prog = in_dir (rn_ConfDir r) p, pr_Args = args, pr_Dir = rn_ConfDir r, pr_Env = env'\<rparr>
                         in (case ex_Spawn x pr of
                               (out, None) \<Rightarrow> ([pr], None)
                             | (out, Some e) \<Rightarrow> ([pr], Some (ScriptFailed name e (TrimSpace out))))))"

section \<open>The hooks of the daemon\<close>

definition scriptEnv :: "'r daemon \<Rightarrow> script_env" where
  "scriptEnv d =
     \<lparr>se_Netname = pa_Netname (d_Paths d), se_Name = l_NodeName (d_loaded d), se_Device = l_VXLANIface (d_loaded d),
      se_Interface = l_VXLANIface (d_loaded d), se_Node = [], se_RemoteAddress = [], se_RemotePort = [], se_Subnet = [],
      se_Weight = [], se_InvitationFile = [], se_InvitationURL = []\<rparr>"

definition hook_runner :: "'r daemon \<Rightarrow> runner" where
  "hook_runner d = \<lparr>rn_ConfDir = NetDir (d_Paths d), rn_Extension = [], rn_Interpreter = []\<rparr>"

definition runUp :: "exec \<Rightarrow> 'r daemon \<Rightarrow> process list \<times> script_error option" where
  "runUp x d = script_Run x (d_fs d) (hook_runner d) ''gsnet-up'' (scriptEnv d)"

definition runDown :: "exec \<Rightarrow> 'r daemon \<Rightarrow> process list \<times> script_error option" where
  "runDown x d = script_Run x (d_fs d) (hook_runner d) ''gsnet-down'' (scriptEnv d)"

text \<open>
  The end of \<open>Run\<close>, once the control server has returned \<open>err\<close>: the hook, the reconciler and the deferred removals.
  Errors of the hook and of the reconciler are only logged; a cancelled context is no error.
\<close>

datatype serve_error = Canceled | ServeFault string

definition Run_end ::
    "exec \<Rightarrow> ('r \<Rightarrow> 'r) \<Rightarrow> string \<Rightarrow> serve_error option \<Rightarrow> 'r daemon \<Rightarrow> 'r daemon \<times> process list \<times> serve_error option" where
  "Run_end x shutdown runDir err d =
     (let procs = fst (runDown x d);
          fs = fst (os_Remove (ControlSocket (d_Paths d) runDir) (d_fs d));
          fs = fst (os_Remove (PIDFile (d_Paths d) runDir) fs)
      in (d\<lparr>d_rec := shutdown (d_rec d), d_fs := fs, d_exited := True\<rparr>, procs, if err = Some Canceled then None else err))"

section \<open>What a hook sees\<close>

definition getenv :: "string list \<Rightarrow> string \<Rightarrow> string option" where
  "getenv env k = map_of (List.map_filter (cut_first (CHR ''='')) env) k"

text \<open>Before the hook's own variables: the last setting in the daemon's environment.\<close>

definition inherited :: "string list \<Rightarrow> string \<Rightarrow> string option" where
  "inherited environ k = map_of (rev (List.map_filter (cut_first (CHR ''='')) environ)) k"

definition no_NUL :: "string list \<Rightarrow> bool" where
  "no_NUL env \<longleftrightarrow> list_all (\<lambda>kv. CHR 0x00 \<notin> set kv) env"

lemma map_filter_append: "List.map_filter f (xs @ ys) = List.map_filter f xs @ List.map_filter f ys"
  by (induction xs) (auto simp: map_filter_simps split: option.split)

lemma rev_map_filter: "rev (List.map_filter f xs) = List.map_filter f (rev xs)"
  by (induction xs) (auto simp: map_filter_simps map_filter_append split: option.split)

lemma env_key_cut: "env_key kv = Some k \<Longrightarrow> \<exists>k' v. cut_first (CHR ''='') kv = Some (k', v) \<and> (k' = k \<or> k' = [] \<and> (k = [] \<or> hd k = CHR ''=''))"
  by (auto simp: env_key_def split: option.splits if_splits)

lemma dedup_rev_spec:
  assumes "k \<noteq> []" and "CHR ''='' \<notin> set k" and "no_NUL es"
  shows "\<not> snd (dedup_rev es saw) \<and>
    map_of (rev (List.map_filter (cut_first (CHR ''='')) (fst (dedup_rev es saw)))) k =
      (if k \<in> set saw then None else map_of (List.map_filter (cut_first (CHR ''='')) es) k)"
  using assms(3)
proof (induction es saw rule: dedup_rev.induct)
  case (2 kv es saw)
  then have nn: "CHR 0x00 \<notin> set kv" "no_NUL es" by (simp_all add: no_NUL_def)
  show ?case
  proof (cases "env_key kv")
    case None
    then have "cut_first (CHR ''='') kv = None" by (auto simp: env_key_def split: option.splits if_splits)
    with None nn "2.IH"(2) show ?thesis by (auto simp: map_filter_simps split: prod.splits)
  next
    case (Some j)
    then obtain j' v where j: "cut_first (CHR ''='') kv = Some (j', v)" "j' = j \<or> j' = [] \<and> (j = [] \<or> hd j = CHR ''='')"
      using env_key_cut by blast
    have jk: "j' = k \<longleftrightarrow> j = k" using j(2) assms(1,2) by (cases k) auto
    show ?thesis
      using "2.IH"(3,4) [OF nn(1) Some] Some nn j(1) jk
      by (cases "j \<in> set saw") (auto simp: map_filter_simps map_add_def split: prod.splits option.splits)
  qed
qed (simp add: map_filter_simps)

lemma getenv_dedup:
  assumes "k \<noteq> []" and "CHR ''='' \<notin> set k" and "no_NUL env"
  shows "\<not> snd (dedupEnv env)" and "getenv (fst (dedupEnv env)) k = inherited env k"
proof -
  have "no_NUL (rev env)" using assms(3) by (simp add: no_NUL_def list_all_iff)
  from dedup_rev_spec [OF assms(1,2) this, of "[]"]
  show "\<not> snd (dedupEnv env)" "getenv (fst (dedupEnv env)) k = inherited env k"
    by (auto simp: dedupEnv_def getenv_def inherited_def rev_map_filter split: prod.splits)
qed

lemma inherited_add:
  assumes "CHR ''='' \<notin> set (fst kv)"
  shows "inherited (env_add out kv) k = (if fst kv = k \<and> snd kv \<noteq> [] then Some (snd kv) else inherited out k)"
  using assms cut_first_append [of "CHR ''=''" "fst kv" "snd kv"]
  by (auto simp: env_add_def inherited_def map_filter_append map_filter_simps)

lemma inherited_fields:
  assumes "distinct (map fst fs)" and "\<forall>f \<in> set fs. CHR ''='' \<notin> set (fst f)"
  shows "inherited (foldl env_add out fs) k =
    (case map_of fs k of Some v \<Rightarrow> if v \<noteq> [] then Some v else inherited out k | None \<Rightarrow> inherited out k)"
  using assms
proof (induction fs arbitrary: out)
  case (Cons f fs)
  then have "fst f = k \<Longrightarrow> map_of fs k = None" by (auto simp: map_of_eq_None_iff)
  with Cons show ?case by (auto simp: inherited_add split: option.split)
qed simp

lemma env_fields_names: "distinct (map fst (env_fields e))" "\<forall>f \<in> set (env_fields e). CHR ''='' \<notin> set (fst f) \<and> fst f \<noteq> []"
  by (simp_all add: env_fields_def)

lemma hook_variable:
  assumes "no_NUL (ToOSEnv environ e)" and "map_of (env_fields e) k = Some v"
  shows "getenv (fst (dedupEnv (ToOSEnv environ e))) k = (if v \<noteq> [] then Some v else inherited environ k)"
proof -
  have "k \<noteq> []" "CHR ''='' \<notin> set k" using env_fields_names(2) [of e] map_of_SomeD [OF assms(2)] by force+
  from getenv_dedup(2) [OF this assms(1)] inherited_fields [OF env_fields_names(1), of e environ k] env_fields_names(2) [of e] assms(2)
  show ?thesis by (simp add: ToOSEnv_def)
qed

section \<open>Running the hooks\<close>

definition hook_path :: "'r daemon \<Rightarrow> string \<Rightarrow> path" where
  "hook_path d name = path_Join (NetDir (d_Paths d)) name"

definition hook_env :: "exec \<Rightarrow> 'r daemon \<Rightarrow> string list" where
  "hook_env x d = ToOSEnv (ex_Environ x) (scriptEnv d)"

definition hook_process :: "exec \<Rightarrow> 'r daemon \<Rightarrow> path \<Rightarrow> process" where
  "hook_process x d prog =
     \<lparr>pr_Prog = prog, pr_Args = [], pr_Dir = NetDir (d_Paths d), pr_Env = fst (dedupEnv (hook_env x d))\<rparr>"

lemma hook_none:
  assumes "os_Stat (d_fs d) (hook_path d name) = Inl ENOENT \<or> (\<exists>st. os_Stat (d_fs d) (hook_path d name) = Inr st \<and> \<not> isExecutable st)"
  shows "script_Run x (d_fs d) (hook_runner d) name (scriptEnv d) = ([], None)"
  using assms by (auto simp: script_Run_def hook_runner_def hook_path_def path_ext_def IsNotExist_def Let_def)

lemma hook_started:
  assumes "os_Stat (d_fs d) (hook_path d name) = Inr st" and "isExecutable st" and "no_NUL (hook_env x d)"
    and "path_program x (hook_path d name) = Inr p"
  shows "fst (script_Run x (d_fs d) (hook_runner d) name (scriptEnv d)) = [hook_process x d (in_dir (NetDir (d_Paths d)) p)]"
    and "snd (script_Run x (d_fs d) (hook_runner d) name (scriptEnv d)) = None \<longleftrightarrow>
      snd (ex_Spawn x (hook_process x d (in_dir (NetDir (d_Paths d)) p))) = None"
proof -
  have "\<not> snd (dedupEnv (hook_env x d))" using getenv_dedup(1) [of "''NAME''" "hook_env x d"] assms(3) by simp
  then obtain env' where e: "dedupEnv (hook_env x d) = (env', False)" by (cases "dedupEnv (hook_env x d)") auto
  have "script_Run x (d_fs d) (hook_runner d) name (scriptEnv d) =
      (let pr = hook_process x d (in_dir (NetDir (d_Paths d)) p)
       in case ex_Spawn x pr of (out, None) \<Rightarrow> ([pr], None) | (out, Some e) \<Rightarrow> ([pr], Some (ScriptFailed name e (TrimSpace out))))"
    using assms(1,2,4) e
    by (simp add: script_Run_def hook_runner_def hook_path_def path_ext_def hook_process_def hook_env_def Let_def)
  then show "fst (script_Run x (d_fs d) (hook_runner d) name (scriptEnv d)) = [hook_process x d (in_dir (NetDir (d_Paths d)) p)]"
    "snd (script_Run x (d_fs d) (hook_runner d) name (scriptEnv d)) = None \<longleftrightarrow>
      snd (ex_Spawn x (hook_process x d (in_dir (NetDir (d_Paths d)) p))) = None"
    by (auto simp: Let_def split: prod.split option.split)
qed

lemma hook_path_parts: "plain name \<Longrightarrow> hook_path d name = (fst (NetDir (d_Paths d)), snd (NetDir (d_Paths d)) @ [name])"
  by (simp add: hook_path_def path_Join_plain)

lemma hook_names: "plain ''gsnet-up''" "plain ''gsnet-down''"
  by (simp_all add: plain_def)


text \<open>
  With a relative configuration directory the hooks do not run. The file is found and checked relative to the
  working directory of the daemon, but started relative to the directory of the command, which is the
  configuration directory itself: the program asked for is the hook below a second copy of that path.
\<close>

theorem relative_root_breaks_hooks:
  assumes "\<not> fst (NetDir (d_Paths d))" and "snd (NetDir (d_Paths d)) \<noteq> []" and "no_NUL (hook_env x d)"
    and "os_Stat (d_fs d) (hook_path d ''gsnet-up'') = Inr st" and "isExecutable st"
    and "\<forall>pr. node_at (d_fs d) (pr_Prog pr) = None \<longrightarrow> snd (ex_Spawn x pr) \<noteq> None"
    and "node_at (d_fs d) (False, snd (NetDir (d_Paths d)) @ snd (NetDir (d_Paths d)) @ [''gsnet-up'']) = None"
  shows "map pr_Prog (fst (runUp x d)) = [(False, snd (NetDir (d_Paths d)) @ snd (NetDir (d_Paths d)) @ [''gsnet-up''])] \<and>
    snd (runUp x d) \<noteq> None"
proof -
  let ?n = "snd (NetDir (d_Paths d))" and ?hook = "hook_path d ''gsnet-up''"
  have h: "?hook = (False, ?n @ [''gsnet-up''])" using assms(1) by (simp add: hook_path_parts hook_names)
  then have p: "path_program x ?hook = Inr ?hook" "in_dir (NetDir (d_Paths d)) ?hook = (False, ?n @ ?n @ [''gsnet-up''])"
    using assms(1,2) by (simp_all add: path_program_def in_dir_def)
  from hook_started [OF assms(4,5,3) p(1), folded runUp_def, unfolded p(2)] assms(6,7)
  show ?thesis by (simp add: hook_process_def)
qed

text \<open>
  Under the level high \<open>gsnet-down\<close> never runs. The ruleset handles execution and grants it nowhere, so the
  kernel refuses to start the hook once the sandbox is closed, although \<open>gsnet-up\<close> ran before.
\<close>

theorem sandbox_high_blocks_down:
  assumes "applySandbox abi fails userDB runDir d = (tr, None)"
    and "ParseLevel (ToLower (entry_or_empty (l_Conf (d_loaded d)) ''Sandbox'')) = Inr LevelHigh"
    and "\<forall>pr. granted (rules_of tr) (pr_Prog pr) AND FS_EXECUTE = 0 \<longrightarrow> ex_Spawn x pr = ([], Some (StartFault EACCES))"
    and "fst (NetDir (d_Paths d))" and "no_NUL (hook_env x d)"
    and "os_Stat (d_fs d) (hook_path d ''gsnet-down'') = Inr st" and "isExecutable st"
  shows "snd (runDown x d) = Some (ScriptFailed ''gsnet-down'' (StartFault EACCES) [])"
proof -
  let ?hook = "hook_path d ''gsnet-down''"
  have "fst ?hook" using assms(4) by (simp add: hook_path_parts hook_names)
  then have p: "path_program x ?hook = Inr ?hook" "in_dir (NetDir (d_Paths d)) ?hook = ?hook"
    by (simp_all add: path_program_def in_dir_def)
  obtain pre us where rules: "set (rules_of tr) \<subseteq> {(NetDir (d_Paths d), readAccess), (path_Clean runDir, writeAccess abi),
      (InvitationsDir (d_Paths d), writeAccess abi)}"
    using high_calls [OF assms(1,2)] by metis
  have "granted (rules_of tr) q AND FS_EXECUTE = 0" for q
    by (rule granted_subset) (use rules access_masks(2,3) in auto)
  then have sp: "ex_Spawn x pr = ([], Some (StartFault EACCES))" for pr using assms(3) by blast
  show ?thesis
    using assms(5-7) p sp getenv_dedup(1) [of "''NAME''" "hook_env x d"]
    by (auto simp: runDown_def script_Run_def hook_runner_def hook_path_def path_ext_def hook_env_def Let_def split: prod.splits)
qed

lemma Remove_gone:
  assumes "node_at fs p = None \<or> node_at fs p = Some (Regular m b)" and "quiet fs"
  shows "node_at (fst (os_Remove p fs)) p = None"
  using assms by (auto simp: os_Remove_def quiet_def node_at_def is_directory_def split: if_splits)

lemma node_at_Remove:
  assumes "node_at fs p = Some (Regular m b)" and "quiet fs"
  shows "node_at (fst (os_Remove p (fst (os_Remove q fs)))) p = None"
proof -
  obtain fs1 e where r: "os_Remove q fs = (fs1, e)" by (cases "os_Remove q fs")
  from r have "(node_at fs1 p = None \<or> node_at fs1 p = Some (Regular m b)) \<and> quiet fs1"
  proof (cases rule: Remove_cases)
    case 2
    with assms show ?thesis by (cases "p = q") (auto simp: node_at_def quiet_def split: if_splits)
  qed (use assms in simp)
  then show ?thesis using r Remove_gone [of fs1 p m b] by simp
qed

text \<open>
  A signal and \<open>gsnet stop\<close> do not end the daemon alike. When the context is cancelled, \<open>Run\<close> runs the executable
  \<open>gsnet-down\<close>, removes the PID file and returns no error. The control request stops the process at once: the
  answer is sent, but the hook is not run and the PID file stays.
\<close>

theorem stop_skips_shutdown:
  assumes "fst (NetDir (d_Paths d))" and "no_NUL (hook_env x d)"
    and "os_Stat (d_fs d) (hook_path d ''gsnet-down'') = Inr st" and "isExecutable st"
    and "node_at (d_fs d) (PIDFile (d_Paths d) runDir) = Some (Regular m b)" and "quiet (d_fs d)" and "m_Type req = ReqStop"
  shows "(\<exists>d' pr. Run_end x shutdown runDir (Some Canceled) d = (d', [pr], None) \<and> pr_Prog pr = hook_path d ''gsnet-down'' \<and>
      node_at (d_fs d') (PIDFile (d_Paths d) runDir) = None) \<and>
    (\<exists>d'. controlHandler env now req d = (d', reply_line ReqStop [''0''], None) \<and> d_exited d' \<and> d_rec d' = d_rec d \<and>
      node_at (d_fs d') (PIDFile (d_Paths d) runDir) = Some (Regular m b))"
proof -
  let ?hook = "hook_path d ''gsnet-down''"
  have "fst ?hook" using assms(1) by (simp add: hook_path_parts hook_names)
  then have p: "path_program x ?hook = Inr ?hook" "in_dir (NetDir (d_Paths d)) ?hook = ?hook"
    by (simp_all add: path_program_def in_dir_def)
  have "fst (runDown x d) = [hook_process x d ?hook]"
    using hook_started(1) [OF assms(3,4,2) p(1)] p(2) by (simp add: runDown_def)
  then have "Run_end x shutdown runDir (Some Canceled) d =
      (d\<lparr>d_rec := shutdown (d_rec d), d_fs := fst (os_Remove (PIDFile (d_Paths d) runDir)
         (fst (os_Remove (ControlSocket (d_Paths d) runDir) (d_fs d)))), d_exited := True\<rparr>, [hook_process x d ?hook], None)"
    by (simp add: Run_end_def Let_def)
  moreover have "controlHandler env now req d = (d\<lparr>d_exited := True\<rparr>, reply_line ReqStop [''0''], None)"
    using assms(7) by (simp add: controlHandler_def Let_def)
  ultimately show ?thesis using node_at_Remove [OF assms(5,6)] assms(5) by (simp add: hook_process_def)
qed

section \<open>A daemon with hooks\<close>

definition hooked_fs :: fsys where
  "hooked_fs = fs_put (True, [''run'', ''gsnet.vpn.pid'']) (Regular 384 ''7 ck'')
     (fs_put (True, [''etc'', ''gsnet'', ''vpn'', ''gsnet-down'']) (Regular 493 ''true'')
     (fs_put (True, [''etc'', ''gsnet'', ''vpn'', ''gsnet-up'']) (Regular 493 ''true'') alice_fs))"

definition hooked_alice :: "unit daemon" where
  "hooked_alice = confined_alice\<lparr>d_fs := hooked_fs\<rparr>"

definition shell :: exec where
  "shell = \<lparr>ex_LookPath = (\<lambda>_. None), ex_Environ = [''HOME=/root'', ''NAME=x'', ''NODE=inherited''],
     ex_Spawn = (\<lambda>pr. if node_at hooked_fs (pr_Prog pr) = None then ([], Some (StartFault ENOENT)) else (''done'', None))\<rparr>"

lemma hooked_ok:
  "fst (NetDir (d_Paths hooked_alice))" "no_NUL (hook_env shell hooked_alice)"
  "os_Stat (d_fs hooked_alice) (hook_path hooked_alice ''gsnet-up'') = Inr (Regular 493 ''true'')"
  "os_Stat (d_fs hooked_alice) (hook_path hooked_alice ''gsnet-down'') = Inr (Regular 493 ''true'')"
  "isExecutable (Regular 493 ''true'')" "quiet (d_fs hooked_alice)"
proof -
  have d: "d_Paths hooked_alice = etc_gsnet" "d_fs hooked_alice = hooked_fs"
    by (simp_all add: hooked_alice_def confined_alice_def alice_daemon_def)
  show "fst (NetDir (d_Paths hooked_alice))" by (simp add: d etc_gsnet_dir)
  show "no_NUL (hook_env shell hooked_alice)" by code_simp
  show "os_Stat (d_fs hooked_alice) (hook_path hooked_alice ''gsnet-up'') = Inr (Regular 493 ''true'')"
    "os_Stat (d_fs hooked_alice) (hook_path hooked_alice ''gsnet-down'') = Inr (Regular 493 ''true'')"
    by (simp_all add: d hook_path_parts hook_names etc_gsnet_dir os_Stat_def hooked_fs_def node_at_put)
  show "isExecutable (Regular 493 ''true'')" by (simp add: isExecutable_def)
  show "quiet (d_fs hooked_alice)" by (simp add: d quiet_def hooked_fs_def alice_fs_def)
qed


definition relative_alice :: "unit daemon" where
  "relative_alice = alice_daemon\<lparr>d_Paths := \<lparr>pa_ConfRoot = ''conf'', pa_Netname = []\<rparr>,
     d_fs := fs_put (False, [''conf'', ''gsnet-up'']) (Regular 493 ''true'') alice_fs\<rparr>"

definition relative_shell :: exec where
  "relative_shell = shell\<lparr>ex_Spawn :=
     (\<lambda>pr. if node_at (d_fs relative_alice) (pr_Prog pr) = None then ([], Some (StartFault ENOENT)) else (''done'', None))\<rparr>"

theorem relative_root_breaks_hooks_witness:
  "map pr_Prog (fst (runUp relative_shell relative_alice)) = [(False, [''conf'', ''conf'', ''gsnet-up''])] \<and>
   snd (runUp relative_shell relative_alice) \<noteq> None"
proof -
  have n: "NetDir (d_Paths relative_alice) = (False, [''conf''])" by code_simp
  have h: "hook_path relative_alice ''gsnet-up'' = (False, [''conf'', ''gsnet-up''])" by (simp add: hook_path_parts hook_names n)
  have s: "os_Stat (d_fs relative_alice) (hook_path relative_alice ''gsnet-up'') = Inr (Regular 493 ''true'')"
    unfolding h by (simp add: relative_alice_def os_Stat_def node_at_put)
  have e: "no_NUL (hook_env relative_shell relative_alice)" by code_simp
  have "node_at (d_fs relative_alice) (False, [''conf'', ''conf'', ''gsnet-up'']) = None"
    by (simp add: relative_alice_def node_at_put) (simp add: node_at_def alice_fs_def mget_def)
  moreover have "\<forall>pr. node_at (d_fs relative_alice) (pr_Prog pr) = None \<longrightarrow> snd (ex_Spawn relative_shell pr) \<noteq> None"
    by (simp add: relative_shell_def)
  ultimately show ?thesis using relative_root_breaks_hooks [OF _ _ e s hooked_ok(5)] n by simp
qed

definition landlocked_shell :: exec where
  "landlocked_shell = shell\<lparr>ex_Spawn := (\<lambda>pr. ([], Some (StartFault EACCES)))\<rparr>"

theorem sandbox_high_blocks_down_witness:
  "snd (runDown landlocked_shell hooked_alice) = Some (ScriptFailed ''gsnet-down'' (StartFault EACCES) [])"
proof -
  let ?r = "applySandbox 3 (\<lambda>_. False) (\<lambda>_. Some (''999'', ''998'')) ''/run'' hooked_alice"
  have "snd ?r = None" by code_simp
  then have ap: "?r = (fst ?r, None)" by (simp add: prod_eq_iff)
  have lv: "ParseLevel (ToLower (entry_or_empty (l_Conf (d_loaded hooked_alice)) ''Sandbox'')) = Inr LevelHigh"
    using confined_ok(2) by (simp add: hooked_alice_def)
  have nn: "no_NUL (hook_env landlocked_shell hooked_alice)" using hooked_ok(2) by (simp add: landlocked_shell_def hook_env_def)
  show ?thesis
    by (rule sandbox_high_blocks_down [OF ap lv _ hooked_ok(1) nn hooked_ok(4,5)]) (simp add: landlocked_shell_def)
qed

theorem stop_skips_shutdown_witness:
  "(\<exists>d' pr. Run_end shell id ''/run'' (Some Canceled) hooked_alice = (d', [pr], None) \<and>
      node_at (d_fs d') (True, [''run'', ''gsnet.vpn.pid'']) = None) \<and>
   (\<exists>d'. controlHandler alice_env (\<lambda>_. 0) \<lparr>m_Class = ClassRequest, m_Type = ReqStop, m_Args = []\<rparr> hooked_alice =
        (d', reply_line ReqStop [''0''], None) \<and> d_exited d' \<and>
      node_at (d_fs d') (True, [''run'', ''gsnet.vpn.pid'']) = Some (Regular 384 ''7 ck''))"
proof -
  have p: "PIDFile (d_Paths hooked_alice) ''/run'' = (True, [''run'', ''gsnet.vpn.pid''])" by code_simp
  have n: "node_at (d_fs hooked_alice) (PIDFile (d_Paths hooked_alice) ''/run'') = Some (Regular 384 ''7 ck'')"
    unfolding p by (simp add: hooked_alice_def hooked_fs_def node_at_put)
  have "m_Type \<lparr>m_Class = ClassRequest, m_Type = ReqStop, m_Args = []\<rparr> = ReqStop" by simp
  from stop_skips_shutdown [OF hooked_ok(1,2,4,5) n hooked_ok(6) this, of id alice_env "\<lambda>_. 0"] p show ?thesis by auto
qed

end
