(* ===== verification/Top.thy ===== *)
theory Top
  imports ControlClient
begin

text \<open>
  The rest of \<open>src/cmd/gsnet/main.go\<close>: the traffic display \<open>gsnet top\<close>, and the choice of the command with the exit
  status of the program. A pass of \<open>top\<close> runs over a control socket as in \<open>ControlClient\<close>; a run of the command
  without \<open>--once\<close> is the list of its passes up to the signal. What is printed is one text.
\<close>

section \<open>Formatting\<close>

text \<open>The width of \<open>fmt\<close> counts runes.\<close>

function rune_count :: "string \<Rightarrow> nat" where
  "rune_count s = (if s = [] then 0 else Suc (rune_count (drop (rune_width s) s)))"
  by pat_completeness auto
termination
proof (relation "measure length")
  fix s :: string
  assume "s \<noteq> []"
  then have "1 \<le> rune_width s" "0 < length s" using rune_width_bounds [of s] by auto
  then show "(drop (rune_width s) s, s) \<in> measure length" by simp
qed simp

declare rune_count.simps [simp del]

definition pad_right :: "nat \<Rightarrow> string \<Rightarrow> string" where
  "pad_right w s = s @ replicate (w - rune_count s) SP"

definition pad_left :: "nat \<Rightarrow> string \<Rightarrow> string" where
  "pad_left w s = replicate (w - rune_count s) SP @ s"

text \<open>
  \<open>time.Duration\<close>: nanoseconds in 64 bits. \<open>Sub\<close> saturates, \<open>Round\<close> goes to the nearest multiple, half away from
  zero, unless this overflows.
\<close>

definition max_duration :: int where "max_duration = 2 ^ 63 - 1"

definition sub_time :: "int \<Rightarrow> int \<Rightarrow> int" where
  "sub_time t u = max (- (2 ^ 63)) (min max_duration (t - u))"

definition second :: int where "second = 1000000000"

definition round_second :: "int \<Rightarrow> int" where
  "round_second d =
     (let r = \<bar>d\<bar> mod second; down = \<bar>d\<bar> - r; up = \<bar>d\<bar> + second - r
      in if r + r < second then sgn d * down
         else if d < 0 then (if up \<le> 2 ^ 63 then - up else - (2 ^ 63))
         else if up \<le> max_duration then up else max_duration)"

text \<open>\<open>fmtFrac\<close>: the digits behind the point, without trailing zeros.\<close>

definition frac_digits :: "nat \<Rightarrow> nat \<Rightarrow> string" where
  "frac_digits prec v =
     (let ds = replicate (prec - length (nat_str v)) (CHR ''0'') @ nat_str v;
          kept = rev (dropWhile (\<lambda>c. c = CHR ''0'') (rev ds))
      in if v = 0 then [] else CHR ''.'' # kept)"

definition unit_text :: "nat \<Rightarrow> nat \<Rightarrow> string" where
  "unit_text prec u = nat_str (u div 10 ^ prec) @ frac_digits prec (u mod 10 ^ prec)"

definition duration_String :: "int \<Rightarrow> string" where
  "duration_String d =
     (let u = nat \<bar>d\<bar>; secs = u div 10 ^ 9;
          s = nat_str (secs mod 60) @ frac_digits 9 (u mod 10 ^ 9) @ ''s'';
          body = (if u = 0 then ''0s''
                  else if u < 10 ^ 3 then nat_str u @ ''ns''
                  else if u < 10 ^ 6 then unit_text 3 u @ [CHR 0xC2, CHR 0xB5] @ ''s''
                  else if u < 10 ^ 9 then unit_text 6 u @ ''ms''
                  else if secs < 60 then s
                  else if secs < 3600 then nat_str (secs div 60) @ ''m'' @ s
                  else nat_str (secs div 3600) @ ''h'' @ nat_str (secs div 60 mod 60) @ ''m'' @ s)
      in if d < 0 then CHR ''-'' # body else body)"

definition formatHandshake :: "int \<Rightarrow> string \<Rightarrow> string" where
  "formatHandshake now nanos =
     (if nanos = ''0'' \<or> nanos = [] then ''never''
      else (case Atoi nanos of
              None \<Rightarrow> ''never''
            | Some n \<Rightarrow> if n = 0 then ''never'' else duration_String (round_second (sub_time now n)) @ '' ago''))"

section \<open>top\<close>

text \<open>The arguments: the interval in nanoseconds, and whether to stop after one pass. \<open>dur\<close> reads a number of seconds.\<close>

fun top_args :: "(string \<Rightarrow> int option) \<Rightarrow> string list \<Rightarrow> int \<Rightarrow> bool \<Rightarrow> (cli_error, int \<times> bool) result" where
  "top_args dur [] interval once = Inr (interval, once)"
| "top_args dur (a # as) interval once =
     (if a = ''-i'' then
        (case as of
           [] \<Rightarrow> Inl (Usage ''top: -i needs seconds'')
         | v # rest \<Rightarrow> (case dur v of None \<Rightarrow> Inl (CliNumber v) | Some i \<Rightarrow> top_args dur rest i once))
      else if a = ''--once'' then top_args dur as interval True
      else Inl (Usage a))"

definition top_row :: "string \<Rightarrow> string \<Rightarrow> string \<Rightarrow> string \<Rightarrow> string" where
  "top_row peer rx tx hs = pad_right 20 peer @ [SP] @ pad_left 12 rx @ [SP] @ pad_left 12 tx @ [SP] @ hs @ [NL]"

definition top_header :: string where
  "top_header = top_row ''PEER'' ''RX_BYTES'' ''TX_BYTES'' ''LAST_HANDSHAKE''"

definition top_line :: "int \<Rightarrow> string \<Rightarrow> string" where
  "top_line now line =
     (let fields = Fields line
      in if 6 \<le> length fields then top_row (fields ! 2) (fields ! 3) (fields ! 4) (formatHandshake now (fields ! 5)) else [])"

function top_loop :: "int \<Rightarrow> socket \<Rightarrow> string \<Rightarrow> string \<Rightarrow> client \<Rightarrow> string \<times> unit wait" where
  "top_loop now sock terminator line cl =
     (if line = terminator then ([], Gets ())
      else (case ReadLine sock cl of
              Waits \<Rightarrow> (top_line now line, Waits)
            | Fails e \<Rightarrow> (top_line now line, Fails e)
            | Gets (nxt, cl') \<Rightarrow>
                (case top_loop now sock terminator (TrimRight nxt [CR, NL]) cl' of (out, r) \<Rightarrow> (top_line now line @ out, r))))"
  by pat_completeness auto
termination
  by (relation "measure (\<lambda>(_, sock, _, _, cl). length (complete_lines (fst (sock (cl_sent cl)))) - cl_read cl)")
    (auto simp: ReadLine_def Let_def split: prod.splits if_splits)

declare top_loop.simps [simp del]

definition clear_home :: string where
  "clear_home = [CHR 0x1B] @ ''[2J'' @ [CHR 0x1B] @ ''[H''"

record pass =
  ps_net :: "path \<Rightarrow> socket option"
  ps_fs :: fsys
  ps_now :: int

definition top_pass :: "bool \<Rightarrow> paths \<Rightarrow> string \<Rightarrow> pass \<Rightarrow> string \<times> unit wait" where
  "top_pass once p runDir w =
     (case dialControl (ps_net w) p runDir (ps_fs w) of
        Waits \<Rightarrow> ([], Waits)
      | Fails e \<Rightarrow> ([], Fails e)
      | Gets (sock, cl) \<Rightarrow>
          let head = (if once then [] else clear_home) @ top_header
          in (case Send sock ReqDumpTraffic [] cl of
                Waits \<Rightarrow> (head, Waits)
              | Fails e \<Rightarrow> (head, Fails e)
              | Gets (first, cl') \<Rightarrow>
                  (case top_loop (ps_now w) sock (dump_terminator ReqDumpTraffic) (TrimRight first [CR, NL]) cl' of
                     (out, r) \<Rightarrow> (head @ out, r))))"

fun top_passes :: "bool \<Rightarrow> paths \<Rightarrow> string \<Rightarrow> pass list \<Rightarrow> string \<times> unit wait" where
  "top_passes once p runDir [] = ([], Gets ())"
| "top_passes once p runDir (w # ws) =
     (case top_pass once p runDir w of
        (out, Gets _) \<Rightarrow>
          if once then (out, Gets ()) else (case top_passes once p runDir ws of (out', r) \<Rightarrow> (out @ out', r))
      | (out, r) \<Rightarrow> (out, r))"

definition cmdTop :: "(string \<Rightarrow> int option) \<Rightarrow> paths \<Rightarrow> string \<Rightarrow> string list \<Rightarrow> pass \<Rightarrow> pass list \<Rightarrow> string \<times> unit wait" where
  "cmdTop dur p runDir args first ticks =
     (case top_args dur args second False of
        Inl e \<Rightarrow> ([], Fails e)
      | Inr (_, once) \<Rightarrow> top_passes once p runDir (first # ticks))"

section \<open>The command line\<close>

text \<open>
  What the commands get from outside: cryptography with fresh keys and random bytes, the peers they talk to, the
  standard input, the texts of findings and the packet capture. \<open>gm_join\<close> are the two connections of a join.
\<close>

record machine =
  gm_crypto :: crypto
  gm_session :: session_crypto
  gm_newEd :: "bytes option"
  gm_newWG :: "bytes option"
  gm_rand :: "bytes option"
  gm_join :: "(bytes \<times> (string \<Rightarrow> string \<Rightarrow> string option)) \<times> (bytes \<times> (string \<Rightarrow> string \<Rightarrow> string option))"
  gm_stdin :: string
  gm_diag :: "diag \<Rightarrow> string"
  gm_net :: "path \<Rightarrow> socket option"
  gm_dur :: "string \<Rightarrow> int option"
  gm_clock :: int
  gm_passes :: "pass list"
  gm_capture :: "32 word \<Rightarrow> string \<Rightarrow> string \<times> unit wait"

definition text_lines :: "string list \<Rightarrow> string" where
  "text_lines ls = concat (map (\<lambda>l. l @ [NL]) ls)"

definition ended :: "cli_error option \<Rightarrow> unit wait" where
  "ended e = (case e of None \<Rightarrow> Gets () | Some e \<Rightarrow> Fails e)"

text \<open>The file system after the command, what it printed, and how it ended. \<open>Init\<close> has errors of its own type.
  The line in which \<open>join\<close> reports its success is left out.\<close>

definition dispatch ::
    "machine \<Rightarrow> (init_error \<Rightarrow> cli_error) \<Rightarrow> string \<Rightarrow> string list \<Rightarrow> paths \<Rightarrow> string \<Rightarrow> fsys \<Rightarrow> fsys \<times> string \<times> unit wait" where
  "dispatch w ie cmd args p runDir fs =
     (if cmd = ''init'' then
        (case cmdInit (gm_crypto w) (gm_newEd w) (gm_newWG w) p args fs of
           (fs', Inl e) \<Rightarrow> (fs', [], Fails e)
         | (fs', Inr e) \<Rightarrow> (fs', [], ended (map_option ie e)))
      else if cmd = ''get'' then
        (case cmdGet p args fs of Inl e \<Rightarrow> (fs, [], Fails e) | Inr vs \<Rightarrow> (fs, text_lines vs, Gets ()))
      else if cmd = ''set'' then (case cmdSet p args fs of (fs', e) \<Rightarrow> (fs', [], ended e))
      else if cmd = ''add'' then (case cmdAdd p args fs of (fs', e) \<Rightarrow> (fs', [], ended e))
      else if cmd = ''del'' then (case cmdDel p args fs of (fs', e) \<Rightarrow> (fs', [], ended e))
      else if cmd = ''export'' then
        (case cmdExport p fs of Inl e \<Rightarrow> (fs, [], Fails e) | Inr out \<Rightarrow> (fs, out, Gets ()))
      else if cmd = ''import'' then (case cmdImport p (gm_stdin w) fs of (fs', e) \<Rightarrow> (fs', [], ended e))
      else if cmd = ''invite'' then
        (case cmdInvite (gm_crypto w) (gm_rand w) p args fs of
           (fs', Inl e) \<Rightarrow> (fs', [], Fails e)
         | (fs', Inr url) \<Rightarrow> (fs', url @ [NL], Gets ()))
      else if cmd = ''join'' then
        (case gm_join w of
           ((r1, get), (r2, join)) \<Rightarrow>
             (case cmdJoin (gm_crypto w) (gm_session w) (gm_newEd w) (gm_newWG w) r1 r2 get join p args fs of
                (fs', Inl e) \<Rightarrow> (fs', [], Fails e)
              | (fs', Inr _) \<Rightarrow> (fs', [], Gets ())))
      else if cmd = ''dump'' then
        (case cmdDump (gm_net w) p runDir args fs of (out, r) \<Rightarrow> (fs, text_lines out, r))
      else if cmd = ''fsck'' then
        (case cmdFsck (gm_crypto w) (gm_diag w) p fs of (out, e) \<Rightarrow> (fs, text_lines out, ended e))
      else if cmd = ''pcap'' then
        (case cmdPcap p args fs of
           Inl e \<Rightarrow> (fs, [], Fails e)
         | Inr (snaplen, iface) \<Rightarrow> (fs, gm_capture w snaplen iface))
      else if cmd = ''top'' then
        (fs, cmdTop (gm_dur w) p runDir args \<lparr>ps_net = gm_net w, ps_fs = fs, ps_now = gm_clock w\<rparr> (gm_passes w))
      else if cmd \<in> set [''stop'', ''reload'', ''retry'', ''purge'', ''pid''] then
        (case cmdSimple (gm_net w) p runDir cmd fs of (out, r) \<Rightarrow> (fs, text_lines out, r))
      else (fs, [], Fails (UnknownKind cmd)))"

text \<open>\<open>main\<close> with its flags parsed: the exit status, if the program ends.\<close>

definition main_exit ::
    "machine \<Rightarrow> (init_error \<Rightarrow> cli_error) \<Rightarrow> string \<Rightarrow> string \<Rightarrow> string \<Rightarrow> string list \<Rightarrow> fsys \<Rightarrow> fsys \<times> string \<times> nat option" where
  "main_exit w ie conf netname runDir args fs =
     (case args of
        [] \<Rightarrow> (fs, [], Some 2)
      | cmd # rest \<Rightarrow>
          (case dispatch w ie cmd rest \<lparr>pa_ConfRoot = conf, pa_Netname = netname\<rparr> runDir fs of
             (fs', out, r) \<Rightarrow> (fs', out, case r of Waits \<Rightarrow> None | Fails _ \<Rightarrow> Some 1 | Gets _ \<Rightarrow> Some 0)))"

section \<open>The display shows the traffic\<close>

lemma top_loop_dump:
  "top_loop now sock t line cl = (case dump_loop sock t line cl of (ls, r) \<Rightarrow> (concat (map (top_line now) ls), r))"
proof (induction sock t line cl rule: dump_loop.induct)
  case (1 sock t line cl)
  show ?case
  proof (cases "line = t")
    case True
    then show ?thesis by (simp add: top_loop.simps dump_loop.simps)
  next
    case False
    show ?thesis
    proof (cases "ReadLine sock cl")
      case (Gets x)
      then obtain nxt cl' where x: "ReadLine sock cl = Gets (nxt, cl')" by (cases x) simp
      show ?thesis
        by (subst top_loop.simps, subst dump_loop.simps) (use False x "1.IH" [OF False x refl] in \<open>simp split: prod.split\<close>)
    qed (simp_all add: top_loop.simps [of _ _ _ line] dump_loop.simps [of _ _ line] False)
  qed
qed

lemma top_pass_dump:
  assumes "runControlDump (ps_net w) p runDir ReqDumpTraffic (ps_fs w) = (ls, Gets ())"
  shows "top_pass True p runDir w = (top_header @ concat (map (top_line (ps_now w)) ls), Gets ())"
  using assms by (auto simp: runControlDump_def top_pass_def top_loop_dump Let_def split: wait.splits prod.splits)

text \<open>
  \<open>gsnet top --once\<close> shows the traffic of every peer and returns: the header, then one row for each peer the data
  plane reports, in its order, with the bytes received and sent and the age of the last handshake. Without a
  reporting data plane, and when it fails, only the header is shown and the command still succeeds.
\<close>

theorem top_shows_traffic:
  assumes "serves net p runDir fs pid cookie (control_socket name cookie pid etext (controlHandler env now) d)" and "token name"
    and "sts = (case de_stats env of None \<Rightarrow> [] | Some stats \<Rightarrow> (case stats (d_rec d) of Inl _ \<Rightarrow> [] | Inr sts \<Rightarrow> sts))"
    and "list_all (\<lambda>st. token (st_Peer st)) sts"
  shows "cmdTop dur p runDir [''--once''] \<lparr>ps_net = net, ps_fs = fs, ps_now = clock\<rparr> ticks =
    (top_header @ concat (map (\<lambda>st. top_row (st_Peer st) (Itoa (uint (st_RxBytes st))) (Itoa (uint (st_TxBytes st)))
       (formatHandshake clock (Itoa (st_LastHandshake st)))) sts), Gets ())"
proof -
  let ?row = "\<lambda>st. [st_Peer st, Itoa (uint (st_RxBytes st)), Itoa (uint (st_TxBytes st)), Itoa (st_LastHandshake st)]"
  have h: "controlHandler env now \<lparr>m_Class = ClassRequest, m_Type = ReqDumpTraffic, m_Args = []\<rparr> d =
      (d, concat (map (reply_line ReqDumpTraffic) (map ?row sts)) @ reply_line ReqDumpTraffic [], None)"
    unfolding assms(3)
    by (simp add: controlHandler_def Let_def ReqStop_def ReqReload_def ReqDumpNodes_def ReqDumpEdges_def ReqDumpSubnets_def
        ReqDumpTraffic_def comp_def split: option.split sum.split)
  have run: "runControlDump net p runDir ReqDumpTraffic fs = (map (dump_line ReqDumpTraffic) (map ?row sts), Gets ())"
    by (rule dump_rows [OF assms(1,2) _ h]) (use assms(4) in \<open>auto simp: int64_range_def ReqDumpTraffic_def list_all_iff Itoa_token\<close>)
  have line: "top_line clock (dump_line ReqDumpTraffic (?row st)) = top_row (st_Peer st) (Itoa (uint (st_RxBytes st)))
      (Itoa (uint (st_TxBytes st))) (formatHandshake clock (Itoa (st_LastHandshake st)))" if "st \<in> set sts" for st
  proof -
    have "Fields (dump_line ReqDumpTraffic (?row st)) = Itoa ClassRequest # Itoa ReqDumpTraffic # ?row st"
      unfolding dump_line_def using that assms(4) by (intro Fields_join_sp) (auto simp: list_all_iff Itoa_token)
    then show ?thesis by (simp add: top_line_def Let_def eval_nat_numeral)
  qed
  have rows: "map (top_line clock) (map (dump_line ReqDumpTraffic) (map ?row sts)) = map (\<lambda>st. top_row (st_Peer st)
      (Itoa (uint (st_RxBytes st))) (Itoa (uint (st_TxBytes st))) (formatHandshake clock (Itoa (st_LastHandshake st)))) sts"
    using line by simp
  have "top_pass True p runDir \<lparr>ps_net = net, ps_fs = fs, ps_now = clock\<rparr> =
      (top_header @ concat (map (top_line clock) (map (dump_line ReqDumpTraffic) (map ?row sts))), Gets ())"
    using top_pass_dump [of "\<lparr>ps_net = net, ps_fs = fs, ps_now = clock\<rparr>" p runDir] run by simp
  then show ?thesis unfolding rows by (simp add: cmdTop_def)
qed

text \<open>\<open>alice\<close> with a data plane that reports \<open>carol\<close>, whose last handshake was two minutes ago.\<close>

definition carol_traffic :: trafficStats where
  "carol_traffic = \<lparr>st_Peer = ''carol'', st_RxBytes = 5, st_TxBytes = 7, st_LastHandshake = 1000\<rparr>"

definition reporting_env :: "unit denv" where
  "reporting_env = alice_env\<lparr>de_stats := Some (\<lambda>_. Inr [carol_traffic])\<rparr>"

definition reporting_net :: "path \<Rightarrow> socket option" where
  "reporting_net q = (if q = (True, [''run'', ''gsnet.vpn.socket''])
     then Some (control_socket ''alice'' ''ck'' 77 (\<lambda>_. []) (controlHandler reporting_env (\<lambda>_. 0)) alice_daemon) else None)"

theorem top_shows_traffic_witness:
  "cmdTop (\<lambda>_. None) etc_gsnet ''/run'' [''--once''] \<lparr>ps_net = reporting_net, ps_fs = alice_running, ps_now = 120000001000\<rparr> [] =
     (top_header @ top_row ''carol'' (Itoa 5) (Itoa 7) (formatHandshake 120000001000 (Itoa 1000)), Gets ())"
proof -
  have tok: "token ''ck''" "token ''alice''" "token ''carol''" by (rule token_ascii; simp add: ascii_def space_encs_def)+
  have paths: "PIDFile etc_gsnet ''/run'' = (True, [''run'', ''gsnet.vpn.pid''])"
    "ControlSocket etc_gsnet ''/run'' = (True, [''run'', ''gsnet.vpn.socket''])" by code_simp+
  have "fs_noread alice_running = (\<lambda>_. False)" by (simp add: alice_running_def alice_fs_def)
  then have s: "serves reporting_net etc_gsnet ''/run'' alice_running 77 ''ck''
      (control_socket ''alice'' ''ck'' 77 (\<lambda>_. []) (controlHandler reporting_env (\<lambda>_. 0)) alice_daemon)"
    using tok(1) by (simp add: serves_def paths reporting_net_def os_ReadFile_def alice_running_def node_at_put int64_range_def)
  have "[carol_traffic] = (case de_stats reporting_env of None \<Rightarrow> [] | Some stats \<Rightarrow>
      (case stats (d_rec alice_daemon) of Inl _ \<Rightarrow> [] | Inr sts \<Rightarrow> sts))" by (simp add: reporting_env_def)
  from top_shows_traffic [OF s tok(2) this] tok(3) show ?thesis by (simp add: carol_traffic_def)
qed

lemma two_minutes: "formatHandshake 120000001000 (Itoa 1000) = ''2m0s ago''"
proof -
  have "Atoi (Itoa 1000) = Some 1000" by (rule Atoi_Itoa) (simp add: int64_range_def)
  moreover have "Itoa 1000 \<noteq> ''0''" "Itoa 1000 \<noteq> []" by code_simp+
  moreover have "round_second (sub_time 120000001000 1000) = 120000000000"
    by (simp add: round_second_def sub_time_def second_def max_duration_def)
  moreover have "duration_String 120000000000 = ''2m0s''"
  proof -
    have "nat_str 2 = ''2''" "nat_str 0 = ''0''" by code_simp+
    then show ?thesis by (simp add: duration_String_def Let_def frac_digits_def)
  qed
  ultimately show ?thesis by (simp add: formatHandshake_def)
qed

end
