(* ===== verification/Lifecycle.thy ===== *)
theory Lifecycle
  imports Prelude
begin

text \<open>
  What the two servers of the daemon (\<open>control.Server\<close> and \<open>transport.Server\<close>) share: an accept loop, one goroutine for
  each connection, a goroutine that waits for the context to be cancelled, and a wait group. A server is a state with
  two relations: the steps of its own goroutines in any order, and what happens outside of it. The locale \<open>drain\<close> is
  the contract of a server that is shutting down: how runs of its own steps end.
\<close>

section \<open>Goroutines\<close>

text \<open>The goroutine that closes everything after cancellation: before it, with the listener closed, at its end.\<close>

datatype watcher = Watching | ClosingConns | Watched

text \<open>The deferred calls of a connection's goroutine, in the order in which they run.\<close>

datatype deferred = CloseConn | Untrack | WgDone

text \<open>
  The accept loop in \<open>Serve\<close>: in \<open>Accept\<close>, before an accepted connection is registered in the table, before its
  goroutine is added to the wait group and started, at the wait group, returned (\<open>True\<close>: without an error).
\<close>

datatype accept_loop = Accepting | Tracking nat | Adding nat | Draining | ServeReturned bool

text \<open>A call of \<open>Close\<close>: not made, at the connections, at the wait group, returned.\<close>

datatype closer = NotCalled | ClosingTable | Waiting | Closed

section \<open>Sums over the connections\<close>

lemma sum_map_update: "i < length xs \<Longrightarrow> sum_list (map f (xs[i := y])) + f (xs ! i) = sum_list (map f xs) + (f y :: nat)"
proof (induction xs arbitrary: i)
  case (Cons x xs)
  then show ?case
  proof (cases i)
    case (Suc j)
    with Cons have "sum_list (map f (xs[j := y])) + f (xs ! j) = sum_list (map f xs) + f y" by simp
    with Suc show ?thesis by simp
  qed simp
qed simp

lemma sum_map_decrease:
  "i < length xs \<Longrightarrow> f y < (f (xs ! i) :: nat) \<Longrightarrow> sum_list (map f (xs[i := y])) < sum_list (map f xs)"
  using sum_map_update [of i xs f y] by simp

lemma sum_map_keep: "i < length xs \<Longrightarrow> f y = (f (xs ! i) :: nat) \<Longrightarrow> sum_list (map f (xs[i := y])) = sum_list (map f xs)"
  using sum_map_update [of i xs f y] by simp

lemma sum_map_mem: "i < length xs \<Longrightarrow> (f (xs ! i) :: nat) \<le> sum_list (map f xs)"
  by (simp add: member_le_sum_list)

lemma map_enumerate_same: "(\<And>i c. f (g (i, c)) = h c) \<Longrightarrow> map f (map g (enumerate n xs)) = map h xs"
  by (induction xs arbitrary: n) auto

lemma list_all_update: "list_all P xs \<Longrightarrow> i < length xs \<Longrightarrow> (P (xs ! i) \<Longrightarrow> P (f (xs ! i))) \<Longrightarrow> list_all P (xs[i := f (xs ! i)])"
  by (simp add: list_all_length nth_list_update)

section \<open>Shutting down\<close>

text \<open>
  \<open>step\<close> are the server's own steps, \<open>good\<close> an invariant of the states after cancellation, \<open>rank\<close> a bound on what is
  left to do; a good state without a step is finished or blocked by somebody else.
\<close>

locale drain =
  fixes step :: "'s \<Rightarrow> 's \<Rightarrow> bool" and good :: "'s \<Rightarrow> bool" and rank :: "'s \<Rightarrow> nat"
    and finished :: "'s \<Rightarrow> bool" and blocked :: "'s \<Rightarrow> bool"
  assumes keeps: "good s \<Longrightarrow> step s t \<Longrightarrow> good t"
    and decreases: "good s \<Longrightarrow> step s t \<Longrightarrow> rank t < rank s"
    and progress: "good s \<Longrightarrow> \<nexists>t. step s t \<Longrightarrow> finished s \<or> blocked s"
begin

lemma run_good: "(step ^^ n) s t \<Longrightarrow> good s \<Longrightarrow> good t \<and> n + rank t \<le> rank s"
proof (induction n arbitrary: t)
  case (Suc n)
  from Suc.prems(1) obtain u where u: "(step ^^ n) s u" "step u t" by auto
  with Suc have "good u" "n + rank u \<le> rank s" by simp_all
  with keeps [of u t] decreases [of u t] u(2) show ?case by simp
qed simp

text \<open>No run is longer than the rank, and a run that cannot go on is at its end.\<close>

lemma run_ends:
  assumes "good s" and "(step ^^ n) s t"
  shows "n \<le> rank s \<and> ((\<nexists>u. step t u) \<longrightarrow> finished t \<or> blocked t)"
  using run_good [OF assms(2,1)] progress [of t] by auto

text \<open>In particular every good state leads to one that is finished or blocked.\<close>

lemma reaches_end: "good s \<Longrightarrow> \<exists>t. step\<^sup>*\<^sup>* s t \<and> good t \<and> (finished t \<or> blocked t)"
proof (induction "rank s" arbitrary: s rule: less_induct)
  case less
  show ?case
  proof (cases "\<exists>t. step s t")
    case True
    then obtain t where t: "step s t" ..
    with keeps decreases less(2) have "good t" "rank t < rank s" by blast+
    from less(1) [OF this(2,1)] t show ?thesis by (blast intro: converse_rtranclp_into_rtranclp)
  next
    case False
    with progress [OF less(2)] less(2) show ?thesis by blast
  qed
qed

end

end
