(* ===== verification/ControlServer.thy ===== *)
theory ControlServer
  imports Control Lifecycle Files
begin

text \<open>
  The server side of \<open>src/internal/control/server.go\<close> around a session: the socket, the accept loop, the table of
  connections, and how \<open>Serve\<close> ends. What a session answers is \<open>handle\<close> of \<open>Control\<close>; here a connection is the
  lines that arrived and were not read, whether either side is closed, and where its goroutine is. Lines already
  buffered can be read after the connection was closed. Writes do not block. A request that ends the process
  (\<open>stop\<close>) ends every run.
\<close>

section \<open>The socket\<close>

text \<open>
  \<open>Listen\<close> replaces whatever is at the path. The socket is a file without content; closing the listener unlinks it.
  \<open>chmod\<close> is the outcome of changing the mode.
\<close>

definition bind_unix :: "path \<Rightarrow> fsys \<Rightarrow> fsys \<times> os_error option" where
  "bind_unix p fs =
     (if node_at fs p \<noteq> None then (fs, Some EEXIST)
      else if \<not> is_directory fs (path_Dir p) then (fs, Some (unresolved fs p))
      else if fs_nowrite fs p then (fs, Some EACCES)
      else if fs_full fs p then (fs, Some ENOSPC)
      else (fs_put p (Regular (511 AND NOT (fs_umask fs)) []) fs, None))"

definition control_Listen :: "os_error option \<Rightarrow> path \<Rightarrow> fsys \<Rightarrow> fsys \<times> os_error option" where
  "control_Listen chmod p fs =
     (case bind_unix p (fst (os_Remove p fs)) of
        (fs, Some e) \<Rightarrow> (fs, Some e)
      | (fs, None) \<Rightarrow>
          (case chmod of
             Some e \<Rightarrow> (fst (os_Remove p fs), Some e)
           | None \<Rightarrow> (fs_put p (Regular 384 []) fs, None)))"

section \<open>The state\<close>

text \<open>The goroutine of a connection: not started, at the greeting, at the first line, in the request loop, leaving.\<close>

datatype cstage = CFresh | CGreet | CAuth | CRequests | CLeaving "deferred list"

record cconn =
  cc_in :: "string list"
  cc_eof :: bool
  cc_open :: bool
  cc_stage :: cstage

record cserver =
  cs_Cookie :: string
  cs_ctx :: bool                                             \<comment> \<open>the context is cancelled\<close>
  cs_listener :: bool                                        \<comment> \<open>the listener is open\<close>
  cs_backlog :: "cconn list"                                 \<comment> \<open>connected, not accepted\<close>
  cs_watch :: watcher
  cs_serve :: accept_loop
  cs_close :: closer
  cs_conns :: "cconn list"                                   \<comment> \<open>every connection accepted so far\<close>
  cs_table :: "nat list"                                     \<comment> \<open>\<open>conns\<close> of the source\<close>
  cs_wg :: nat

definition cs_init :: "string \<Rightarrow> cserver" where
  "cs_init cookie = \<lparr>cs_Cookie = cookie, cs_ctx = False, cs_listener = True, cs_backlog = [], cs_watch = Watching,
     cs_serve = Accepting, cs_close = NotCalled, cs_conns = [], cs_table = [], cs_wg = 0\<rparr>"

definition new_cconn :: cconn where
  "new_cconn = \<lparr>cc_in = [], cc_eof = False, cc_open = True, cc_stage = CFresh\<rparr>"

definition trackConn :: "nat \<Rightarrow> cserver \<Rightarrow> cserver" where
  "trackConn i s = s\<lparr>cs_table := (if i \<in> set (cs_table s) then cs_table s else cs_table s @ [i])\<rparr>"

definition untrackConn :: "nat \<Rightarrow> cserver \<Rightarrow> cserver" where
  "untrackConn i s = s\<lparr>cs_table := removeAll i (cs_table s)\<rparr>"

definition set_cconn :: "nat \<Rightarrow> (cconn \<Rightarrow> cconn) \<Rightarrow> cserver \<Rightarrow> cserver" where
  "set_cconn i f s = s\<lparr>cs_conns := (cs_conns s)[i := f (cs_conns s ! i)]\<rparr>"

definition closeAllConns :: "cserver \<Rightarrow> cserver" where
  "closeAllConns s =
     s\<lparr>cs_conns := map (\<lambda>(i, c). if i \<in> set (cs_table s) then c\<lparr>cc_open := False\<rparr> else c) (enumerate 0 (cs_conns s))\<rparr>"

text \<open>Connections that were not accepted are lost with the listener.\<close>

definition close_listener :: "cserver \<Rightarrow> cserver" where
  "close_listener s = s\<lparr>cs_listener := False, cs_backlog := []\<rparr>"

definition c_exit :: "deferred list" where
  "c_exit = [CloseConn, Untrack, WgDone]"

definition c_leave :: "nat \<Rightarrow> cserver \<Rightarrow> cserver" where
  "c_leave i = set_cconn i (\<lambda>c. c\<lparr>cc_stage := CLeaving c_exit\<rparr>)"

fun c_deferred :: "deferred \<Rightarrow> nat \<Rightarrow> cserver \<Rightarrow> cserver" where
  "c_deferred CloseConn i s = set_cconn i (\<lambda>c. c\<lparr>cc_open := False\<rparr>) s"
| "c_deferred Untrack i s = untrackConn i s"
| "c_deferred WgDone i s = s\<lparr>cs_wg := cs_wg s - 1\<rparr>"

text \<open>What a failed \<open>Accept\<close> does to the loop.\<close>

definition accept_failed :: "cserver \<Rightarrow> cserver" where
  "accept_failed s = s\<lparr>cs_serve := (if cs_ctx s then Draining else ServeReturned False)\<rparr>"

definition c_read :: "string \<Rightarrow> cconn \<Rightarrow> cconn" where
  "c_read cookie c =
     c\<lparr>cc_in := tl (cc_in c),
       cc_stage := (if cc_stage c = CAuth
                    then if authenticate cookie (TrimSpace (hd (cc_in c))) = None then CRequests else CLeaving c_exit
                    else CRequests)\<rparr>"

section \<open>Steps\<close>

inductive c_step :: "cserver \<Rightarrow> cserver \<Rightarrow> bool" where
  c_watch_listener: "cs_watch s = Watching \<Longrightarrow> cs_ctx s \<Longrightarrow> c_step s ((close_listener s)\<lparr>cs_watch := ClosingConns\<rparr>)"
| c_watch_conns: "cs_watch s = ClosingConns \<Longrightarrow> c_step s ((closeAllConns s)\<lparr>cs_watch := Watched\<rparr>)"
| c_accept: "cs_serve s = Accepting \<Longrightarrow> cs_listener s \<Longrightarrow> cs_backlog s = c # cs \<Longrightarrow>
    c_step s (s\<lparr>cs_backlog := cs, cs_conns := cs_conns s @ [c], cs_serve := Tracking (length (cs_conns s))\<rparr>)"
| c_accept_closed: "cs_serve s = Accepting \<Longrightarrow> \<not> cs_listener s \<Longrightarrow> c_step s (accept_failed s)"
| c_track: "cs_serve s = Tracking i \<Longrightarrow> c_step s ((trackConn i s)\<lparr>cs_serve := Adding i\<rparr>)"
| c_start: "cs_serve s = Adding i \<Longrightarrow>
    c_step s ((set_cconn i (\<lambda>c. c\<lparr>cc_stage := CGreet\<rparr>) s)\<lparr>cs_wg := cs_wg s + 1, cs_serve := Accepting\<rparr>)"
| c_drained: "cs_serve s = Draining \<Longrightarrow> cs_wg s = 0 \<Longrightarrow> c_step s (s\<lparr>cs_serve := ServeReturned True\<rparr>)"
| c_closed: "cs_close s = Waiting \<Longrightarrow> cs_wg s = 0 \<Longrightarrow> c_step s (s\<lparr>cs_close := Closed\<rparr>)"
| c_greet: "i < length (cs_conns s) \<Longrightarrow> cc_stage (cs_conns s ! i) = CGreet \<Longrightarrow> cc_open (cs_conns s ! i) \<Longrightarrow>
    c_step s (set_cconn i (\<lambda>c. c\<lparr>cc_stage := CAuth\<rparr>) s)"
| c_greet_fails: "i < length (cs_conns s) \<Longrightarrow> cc_stage (cs_conns s ! i) = CGreet \<Longrightarrow>
    \<not> cc_open (cs_conns s ! i) \<or> cc_eof (cs_conns s ! i) \<Longrightarrow> c_step s (c_leave i s)"
| c_reads: "i < length (cs_conns s) \<Longrightarrow> cc_stage (cs_conns s ! i) \<in> {CAuth, CRequests} \<Longrightarrow> cc_in (cs_conns s ! i) \<noteq> [] \<Longrightarrow>
    c_step s (set_cconn i (c_read (cs_Cookie s)) s)"
| c_read_fails: "i < length (cs_conns s) \<Longrightarrow> cc_stage (cs_conns s ! i) \<in> {CAuth, CRequests} \<Longrightarrow>
    \<not> cc_open (cs_conns s ! i) \<or> cc_in (cs_conns s ! i) = [] \<and> cc_eof (cs_conns s ! i) \<Longrightarrow> c_step s (c_leave i s)"
| c_defer: "i < length (cs_conns s) \<Longrightarrow> cc_stage (cs_conns s ! i) = CLeaving (a # as) \<Longrightarrow>
    c_step s (set_cconn i (\<lambda>c. c\<lparr>cc_stage := CLeaving as\<rparr>) (c_deferred a i s))"

text \<open>
  What happens outside: cancellation, clients that connect, send and hang up, failures of \<open>Accept\<close> for lack of
  resources, and a call of \<open>Close\<close>. The label is the accepted connection whose client acts.
\<close>

inductive c_outside :: "nat option \<Rightarrow> cserver \<Rightarrow> cserver \<Rightarrow> bool" where
  c_cancel: "c_outside None s (s\<lparr>cs_ctx := True\<rparr>)"
| c_connect: "cs_listener s \<Longrightarrow> c_outside None s (s\<lparr>cs_backlog := cs_backlog s @ [new_cconn]\<rparr>)"
| c_queue_send: "j < length (cs_backlog s) \<Longrightarrow> \<not> cc_eof (cs_backlog s ! j) \<Longrightarrow>
    c_outside None s (s\<lparr>cs_backlog := (cs_backlog s)[j := (cs_backlog s ! j)\<lparr>cc_in := cc_in (cs_backlog s ! j) @ [l]\<rparr>]\<rparr>)"
| c_queue_hangup: "j < length (cs_backlog s) \<Longrightarrow>
    c_outside None s (s\<lparr>cs_backlog := (cs_backlog s)[j := (cs_backlog s ! j)\<lparr>cc_eof := True\<rparr>]\<rparr>)"
| c_send: "i < length (cs_conns s) \<Longrightarrow> \<not> cc_eof (cs_conns s ! i) \<Longrightarrow>
    c_outside (Some i) s (set_cconn i (\<lambda>c. c\<lparr>cc_in := cc_in c @ [l]\<rparr>) s)"
| c_hangup: "i < length (cs_conns s) \<Longrightarrow> c_outside (Some i) s (set_cconn i (\<lambda>c. c\<lparr>cc_eof := True\<rparr>) s)"
| c_accept_fault: "cs_serve s = Accepting \<Longrightarrow> c_outside None s (accept_failed s)"
| c_call_close: "cs_close s = NotCalled \<Longrightarrow> c_outside None s ((close_listener s)\<lparr>cs_close := Waiting\<rparr>)"

inductive c_reach :: "cserver \<Rightarrow> bool" where
  c_reach_init: "c_reach (cs_init cookie)"
| c_reach_step: "c_reach s \<Longrightarrow> c_step s t \<Longrightarrow> c_reach t"
| c_reach_outside: "c_reach s \<Longrightarrow> c_outside w s t \<Longrightarrow> c_reach t"

section \<open>Invariant\<close>

text \<open>A goroutine counts in the wait group until its last deferred call, and its connection is in the table until the one before.\<close>

fun c_running :: "cstage \<Rightarrow> bool" where
  "c_running CFresh = False"
| "c_running (CLeaving as) = (WgDone \<in> set as)"
| "c_running _ = True"

fun c_tracked :: "cstage \<Rightarrow> bool" where
  "c_tracked CFresh = False"
| "c_tracked (CLeaving as) = (Untrack \<in> set as)"
| "c_tracked _ = True"

definition c_stage_ok :: "cconn \<Rightarrow> bool" where
  "c_stage_ok c \<longleftrightarrow> (case cc_stage c of
     CLeaving as \<Rightarrow> as = c_exit \<or> as \<in> {[Untrack, WgDone], [WgDone], []} \<and> \<not> cc_open c
   | _ \<Rightarrow> True)"

definition c_handled :: "cserver \<Rightarrow> nat" where
  "c_handled s = sum_list (map (\<lambda>c. of_bool (c_running (cc_stage c))) (cs_conns s))"

definition c_counts :: "cserver \<Rightarrow> bool" where
  "c_counts s \<longleftrightarrow> cs_wg s = c_handled s \<and> (cs_serve s = ServeReturned True \<longrightarrow> cs_wg s = 0)"

definition c_conn_ok :: "accept_loop \<Rightarrow> nat list \<Rightarrow> nat \<Rightarrow> cconn \<Rightarrow> bool" where
  "c_conn_ok v table i c \<longleftrightarrow>
     (i \<in> set table \<longleftrightarrow> c_tracked (cc_stage c) \<or> v = Adding i) \<and> (cc_stage c = CFresh \<longleftrightarrow> v \<in> {Tracking i, Adding i}) \<and> c_stage_ok c"

definition c_table_ok :: "cserver \<Rightarrow> bool" where
  "c_table_ok s \<longleftrightarrow>
     (\<forall>i \<in> set (cs_table s). i < length (cs_conns s)) \<and>
     (\<forall>i. cs_serve s \<in> {Tracking i, Adding i} \<longrightarrow> i < length (cs_conns s)) \<and>
     (\<forall>i < length (cs_conns s). c_conn_ok (cs_serve s) (cs_table s) i (cs_conns s ! i))"

definition c_phase_ok :: "cserver \<Rightarrow> bool" where
  "c_phase_ok s \<longleftrightarrow>
     (\<not> cs_listener s \<longrightarrow> cs_backlog s = []) \<and> (cs_watch s \<noteq> Watching \<longrightarrow> cs_ctx s \<and> \<not> cs_listener s) \<and>
     (cs_serve s \<in> {Draining, ServeReturned True} \<longrightarrow> cs_ctx s) \<and> (\<forall>c \<in> set (cs_backlog s). cc_stage c = CFresh)"

lemmas c_updates = close_listener_def closeAllConns_def trackConn_def untrackConn_def set_cconn_def c_leave_def accept_failed_def
  c_read_def c_exit_def

lemma c_deferred_fields [simp]:
  "cs_serve (c_deferred a i s) = cs_serve s" "cs_ctx (c_deferred a i s) = cs_ctx s" "cs_listener (c_deferred a i s) = cs_listener s"
  "cs_watch (c_deferred a i s) = cs_watch s" "cs_backlog (c_deferred a i s) = cs_backlog s" "cs_close (c_deferred a i s) = cs_close s"
  "length (cs_conns (c_deferred a i s)) = length (cs_conns s)" "cs_Cookie (c_deferred a i s) = cs_Cookie s"
  by (cases a; simp add: c_updates)+

lemma c_step_phase: "c_step s t \<Longrightarrow> c_phase_ok s \<Longrightarrow> c_phase_ok t"
  by (induction rule: c_step.induct) (auto simp: c_phase_ok_def c_updates)

lemma c_outside_phase: "c_outside w s t \<Longrightarrow> c_phase_ok s \<Longrightarrow> c_phase_ok t"
  by (induction rule: c_outside.induct) (auto simp: c_phase_ok_def c_updates new_cconn_def dest!: set_update_subset_insert [THEN subsetD] split: if_splits)

lemma c_handled_set:
  "i < length (cs_conns s) \<Longrightarrow> c_handled (set_cconn i f s) + of_bool (c_running (cc_stage (cs_conns s ! i))) =
     c_handled s + of_bool (c_running (cc_stage (f (cs_conns s ! i))))"
  unfolding c_handled_def set_cconn_def
  using sum_map_update [of i "cs_conns s" "\<lambda>c. of_bool (c_running (cc_stage c))" "f (cs_conns s ! i)"] by simp

lemma c_handled_same:
  "i < length (cs_conns s) \<Longrightarrow> c_running (cc_stage (f (cs_conns s ! i))) = c_running (cc_stage (cs_conns s ! i)) \<Longrightarrow>
     c_handled (set_cconn i f s) = c_handled s"
  using c_handled_set [of i s f] by simp

lemma c_handled_updates [simp]:
  "c_handled (closeAllConns s) = c_handled s" "c_handled (close_listener s) = c_handled s" "c_handled (trackConn i s) = c_handled s"
  "c_handled (untrackConn i s) = c_handled s" "c_handled (accept_failed s) = c_handled s"
  "c_handled (s\<lparr>cs_watch := w\<rparr>) = c_handled s" "c_handled (s\<lparr>cs_serve := v\<rparr>) = c_handled s" "c_handled (s\<lparr>cs_wg := n\<rparr>) = c_handled s"
  "c_handled (s\<lparr>cs_close := k\<rparr>) = c_handled s" "c_handled (s\<lparr>cs_ctx := b\<rparr>) = c_handled s" "c_handled (s\<lparr>cs_backlog := q\<rparr>) = c_handled s"
proof -
  show "c_handled (closeAllConns s) = c_handled s"
  proof -
    have "map (\<lambda>c. of_bool (c_running (cc_stage c))) (map (\<lambda>(i, c). if i \<in> set (cs_table s) then c\<lparr>cc_open := False\<rparr> else c)
        (enumerate 0 (cs_conns s))) = map (\<lambda>c. of_bool (c_running (cc_stage c)) :: nat) (cs_conns s)"
      by (rule map_enumerate_same) simp
    then show ?thesis by (simp add: c_handled_def closeAllConns_def del: map_map)
  qed
qed (simp_all add: c_handled_def c_updates)

lemma c_frame [simp]:
  "cs_wg (closeAllConns s) = cs_wg s" "cs_wg (close_listener s) = cs_wg s" "cs_wg (trackConn i s) = cs_wg s"
  "cs_wg (untrackConn i s) = cs_wg s" "cs_wg (accept_failed s) = cs_wg s" "cs_wg (set_cconn i f s) = cs_wg s"
  "cs_serve (closeAllConns s) = cs_serve s" "cs_serve (close_listener s) = cs_serve s" "cs_serve (trackConn i s) = cs_serve s"
  "cs_serve (untrackConn i s) = cs_serve s" "cs_serve (set_cconn i f s) = cs_serve s"
  "cs_ctx (closeAllConns s) = cs_ctx s" "cs_ctx (close_listener s) = cs_ctx s" "cs_ctx (trackConn i s) = cs_ctx s"
  "cs_ctx (untrackConn i s) = cs_ctx s" "cs_ctx (set_cconn i f s) = cs_ctx s" "cs_ctx (accept_failed s) = cs_ctx s"
  "cs_watch (closeAllConns s) = cs_watch s" "cs_watch (close_listener s) = cs_watch s" "cs_watch (trackConn i s) = cs_watch s"
  "cs_watch (untrackConn i s) = cs_watch s" "cs_watch (set_cconn i f s) = cs_watch s" "cs_watch (accept_failed s) = cs_watch s"
  "cs_table (closeAllConns s) = cs_table s" "cs_table (close_listener s) = cs_table s" "cs_table (set_cconn i f s) = cs_table s"
  "cs_table (accept_failed s) = cs_table s"
  "cs_conns (close_listener s) = cs_conns s" "cs_conns (trackConn i s) = cs_conns s" "cs_conns (untrackConn i s) = cs_conns s"
  "cs_conns (accept_failed s) = cs_conns s" "length (cs_conns (set_cconn i f s)) = length (cs_conns s)"
  "length (cs_conns (closeAllConns s)) = length (cs_conns s)"
  by (simp_all add: c_updates)

lemma set_cconn_wg [simp]: "set_cconn i f (s\<lparr>cs_wg := n\<rparr>) = (set_cconn i f s)\<lparr>cs_wg := n\<rparr>"
  by (simp add: set_cconn_def)

lemma set_cconn_twice: "i < length (cs_conns s) \<Longrightarrow> set_cconn i f (set_cconn i g s) = set_cconn i (\<lambda>c. f (g c)) s"
  by (simp add: set_cconn_def)

lemma c_deferred_next:
  assumes "c_table_ok s" and "i < length (cs_conns s)" and "cc_stage (cs_conns s ! i) = CLeaving (a # as)"
  shows "a = CloseConn \<and> as = [Untrack, WgDone] \<or> \<not> cc_open (cs_conns s ! i) \<and> (a = Untrack \<and> as = [WgDone] \<or> a = WgDone \<and> as = [])"
proof -
  have "c_stage_ok (cs_conns s ! i)" using assms(1,2) by (simp add: c_table_ok_def c_conn_ok_def)
  with assms(3) show ?thesis by (auto simp: c_stage_ok_def c_exit_def)
qed

lemma c_step_counts:
  assumes "c_step s t" and "c_counts s" and "c_table_ok s" and "c_phase_ok s"
  shows "c_counts t"
  using assms
proof (induction rule: c_step.induct)
  case (c_accept s c cs)
  then have "cc_stage c = CFresh" by (simp add: c_phase_ok_def)
  with c_accept show ?case by (simp add: c_counts_def c_handled_def)
next
  case (c_start s i)
  then have "i < length (cs_conns s)" "cc_stage (cs_conns s ! i) = CFresh" by (auto simp: c_table_ok_def c_conn_ok_def)
  with c_handled_set [of i s "\<lambda>c. c\<lparr>cc_stage := CGreet\<rparr>"] c_start show ?case by (simp add: c_counts_def)
next
  case (c_reads i s)
  have "c_handled (set_cconn i (c_read (cs_Cookie s)) s) = c_handled s"
    by (rule c_handled_same) (use c_reads in \<open>auto simp: c_read_def c_exit_def\<close>)
  with c_reads show ?case by (auto simp: c_counts_def)
next
  case (c_defer i s a as)
  have "as = [Untrack, WgDone] \<and> a = CloseConn \<or> as = [WgDone] \<and> a = Untrack \<or> as = [] \<and> a = WgDone"
    using c_deferred_next [OF c_defer(4,1,2)] by auto
  then show ?case
    using c_defer c_handled_set [of i s "\<lambda>c. c\<lparr>cc_stage := CLeaving []\<rparr>"]
    by (auto simp: c_counts_def c_handled_same set_cconn_twice)
qed (auto simp: c_counts_def c_handled_same c_leave_def c_exit_def accept_failed_def)

lemma nth_closeAllConns:
  "i < length (cs_conns s) \<Longrightarrow> cs_conns (closeAllConns s) ! i =
     (if i \<in> set (cs_table s) then (cs_conns s ! i)\<lparr>cc_open := False\<rparr> else cs_conns s ! i)"
  by (simp add: closeAllConns_def nth_enumerate_eq)

lemma nth_set_cconn:
  "k < length (cs_conns s) \<Longrightarrow> cs_conns (set_cconn i f s) ! k = (if k = i then f (cs_conns s ! i) else cs_conns s ! k)"
  by (simp add: set_cconn_def nth_list_update)

text \<open>A step that moves one connection and leaves the table alone.\<close>

lemma c_table_set:
  "c_table_ok s \<Longrightarrow> i < length (cs_conns s) \<Longrightarrow> c_conn_ok (cs_serve s) (cs_table s) i (f (cs_conns s ! i)) \<Longrightarrow> c_table_ok (set_cconn i f s)"
  by (simp add: c_table_ok_def nth_set_cconn)

lemma c_table_conn: "c_table_ok s \<Longrightarrow> i < length (cs_conns s) \<Longrightarrow> c_conn_ok (cs_serve s) (cs_table s) i (cs_conns s ! i)"
  by (simp add: c_table_ok_def)

lemma c_step_table:
  assumes "c_step s t" and "c_table_ok s" and "c_phase_ok s"
  shows "c_table_ok t"
  using assms
proof (induction rule: c_step.induct)
  case (c_accept s c cs)
  then have "cc_stage c = CFresh" by (simp add: c_phase_ok_def)
  with c_accept show ?case by (auto simp: c_table_ok_def c_conn_ok_def c_stage_ok_def nth_append less_Suc_eq)
next
  case (c_watch_conns s)
  have "c_conn_ok v table i (c\<lparr>cc_open := False\<rparr>)" if "c_conn_ok v table i c" for v table i c
    using that by (auto simp: c_conn_ok_def c_stage_ok_def split: cstage.split)
  with c_watch_conns show ?case by (simp add: c_table_ok_def nth_closeAllConns)
next
  case (c_defer i s a as)
  let ?f = "\<lambda>c. c\<lparr>cc_stage := CLeaving as\<rparr>"
  have ok: "c_conn_ok (cs_serve s) (cs_table s) i (cs_conns s ! i)" by (rule c_table_conn) fact+
  from c_deferred_next [OF c_defer(3,1,2)] consider
      "a = CloseConn" "as = [Untrack, WgDone]" | "\<not> cc_open (cs_conns s ! i)" "a = Untrack" "as = [WgDone]"
    | "\<not> cc_open (cs_conns s ! i)" "a = WgDone" "as = []" by blast
  then show ?case
  proof cases
    case 1
    then show ?thesis using c_defer ok by (auto simp: set_cconn_twice c_conn_ok_def c_stage_ok_def intro!: c_table_set)
  next
    case 2
    then have "c_stage_ok (?f (cs_conns s ! i))" by (simp add: c_stage_ok_def)
    with 2 show ?thesis using c_defer by (auto simp: c_table_ok_def nth_set_cconn untrackConn_def c_conn_ok_def)
  next
    case 3
    then have "c_table_ok (set_cconn i ?f s)" using c_defer ok by (intro c_table_set) (auto simp: c_conn_ok_def c_stage_ok_def)
    then show ?thesis using 3 by (simp add: c_table_ok_def)
  qed
next
  case (c_reads i s)
  then show ?case using c_table_conn [of s i]
    by (intro c_table_set) (auto simp: c_read_def c_exit_def c_conn_ok_def c_stage_ok_def)
next
  case (c_track s i)
  then show ?case by (auto simp: c_table_ok_def trackConn_def c_conn_ok_def)
next
  case (c_start s i)
  then show ?case by (auto simp: c_table_ok_def nth_set_cconn c_conn_ok_def c_stage_ok_def)
next
  case (c_greet i s)
  then show ?case using c_table_conn [of s i] by (intro c_table_set) (auto simp: c_conn_ok_def c_stage_ok_def)
next
  case (c_greet_fails i s)
  then show ?case using c_table_conn [of s i]
    unfolding c_leave_def by (intro c_table_set) (auto simp: c_exit_def c_conn_ok_def c_stage_ok_def)
next
  case (c_read_fails i s)
  then show ?case using c_table_conn [of s i]
    unfolding c_leave_def by (intro c_table_set) (auto simp: c_exit_def c_conn_ok_def c_stage_ok_def)
qed (auto simp: c_table_ok_def accept_failed_def c_conn_ok_def)

lemma c_outside_counts: "c_outside w s t \<Longrightarrow> c_counts s \<Longrightarrow> c_counts t"
  by (induction rule: c_outside.induct) (auto simp: c_counts_def c_handled_same accept_failed_def)

lemma c_outside_table:
  assumes "c_outside w s t" and "c_table_ok s"
  shows "c_table_ok t"
  using assms
proof (induction rule: c_outside.induct)
  case (c_send i s l)
  then show ?case using c_table_conn [of s i] by (intro c_table_set) (auto simp: c_conn_ok_def c_stage_ok_def split: cstage.split)
next
  case (c_hangup i s)
  then show ?case using c_table_conn [of s i] by (intro c_table_set) (auto simp: c_conn_ok_def c_stage_ok_def split: cstage.split)
qed (auto simp: c_table_ok_def accept_failed_def c_conn_ok_def close_listener_def)

definition c_inv :: "cserver \<Rightarrow> bool" where
  "c_inv s \<longleftrightarrow> c_counts s \<and> c_table_ok s \<and> c_phase_ok s"

lemma c_step_inv: "c_step s t \<Longrightarrow> c_inv s \<Longrightarrow> c_inv t"
  by (auto simp: c_inv_def intro: c_step_counts c_step_table c_step_phase)

lemma c_outside_inv: "c_outside w s t \<Longrightarrow> c_inv s \<Longrightarrow> c_inv t"
  by (auto simp: c_inv_def intro: c_outside_counts c_outside_table c_outside_phase)

lemma c_reach_inv: "c_reach s \<Longrightarrow> c_inv s"
proof (induction rule: c_reach.induct)
  case (c_reach_init cookie)
  show ?case by (simp add: c_inv_def c_counts_def c_handled_def c_table_ok_def c_phase_ok_def cs_init_def)
qed (blast intro: c_step_inv c_outside_inv)+

text \<open>With the wait group empty every goroutine has run its deferred calls.\<close>

lemma c_running_counted: "c_inv s \<Longrightarrow> i < length (cs_conns s) \<Longrightarrow> c_running (cc_stage (cs_conns s ! i)) \<Longrightarrow> 0 < cs_wg s"
  using sum_map_mem [of i "cs_conns s" "\<lambda>c. of_bool (c_running (cc_stage c))"] by (simp add: c_inv_def c_counts_def c_handled_def)

lemma c_all_gone:
  assumes "c_inv s" and "cs_wg s = 0" and "\<forall>i. cs_serve s \<notin> {Tracking i, Adding i}"
  shows "list_all (\<lambda>c. cc_stage c = CLeaving [] \<and> \<not> cc_open c) (cs_conns s) \<and> cs_table s = []"
proof -
  have gone: "cc_stage (cs_conns s ! i) = CLeaving [] \<and> \<not> cc_open (cs_conns s ! i)" if i: "i < length (cs_conns s)" for i
  proof -
    have "\<not> c_running (cc_stage (cs_conns s ! i))" using c_running_counted [OF assms(1) i] assms(2) by auto
    moreover have "c_conn_ok (cs_serve s) (cs_table s) i (cs_conns s ! i)"
      using c_table_conn [OF _ i] assms(1) by (simp add: c_inv_def)
    ultimately show ?thesis using assms(3)
      by (cases "cc_stage (cs_conns s ! i)") (auto simp: c_conn_ok_def c_stage_ok_def c_exit_def)
  qed
  moreover have "i \<notin> set (cs_table s)" for i
  proof
    assume i: "i \<in> set (cs_table s)"
    with assms(1) have l: "i < length (cs_conns s)" by (simp add: c_inv_def c_table_ok_def)
    with i gone [OF l] c_table_conn [OF _ l] assms(1,3) show False by (auto simp: c_inv_def c_conn_ok_def)
  qed
  then have "cs_table s = []" by (cases "cs_table s") auto
  ultimately show ?thesis by (simp add: list_all_length)
qed

section \<open>Serve ends after cancellation\<close>

fun c_stage_rank :: "cstage \<Rightarrow> nat" where
  "c_stage_rank CFresh = 7"
| "c_stage_rank CGreet = 6"
| "c_stage_rank CAuth = 5"
| "c_stage_rank CRequests = 4"
| "c_stage_rank (CLeaving as) = length as"

definition c_conn_rank :: "cconn \<Rightarrow> nat" where
  "c_conn_rank c = c_stage_rank (cc_stage c) + length (cc_in c)"

definition c_rank :: "cserver \<Rightarrow> nat" where
  "c_rank s = sum_list (map c_conn_rank (cs_conns s)) + sum_list (map (\<lambda>c. 12 + length (cc_in c)) (cs_backlog s)) +
     (case cs_watch s of Watching \<Rightarrow> 2 | ClosingConns \<Rightarrow> 1 | Watched \<Rightarrow> 0) +
     (case cs_serve s of Tracking _ \<Rightarrow> 4 | Adding _ \<Rightarrow> 3 | Accepting \<Rightarrow> 2 | Draining \<Rightarrow> 1 | ServeReturned _ \<Rightarrow> 0) +
     (if cs_close s = Waiting then 1 else 0)"

definition c_drained :: "cserver \<Rightarrow> bool" where
  "c_drained s \<longleftrightarrow> cs_serve s = ServeReturned True \<and> cs_table s = [] \<and>
     list_all (\<lambda>c. cc_stage c = CLeaving [] \<and> \<not> cc_open c) (cs_conns s)"

definition c_good :: "cserver \<Rightarrow> bool" where
  "c_good s \<longleftrightarrow> c_inv s \<and> cs_ctx s \<and> cs_backlog s = [] \<and> cs_serve s \<in> {Accepting, Draining, ServeReturned True} \<and>
     (cs_watch s = Watched \<longrightarrow> list_all (\<lambda>c. cc_stage c \<in> {CGreet, CAuth, CRequests} \<longrightarrow> \<not> cc_open c) (cs_conns s))"

lemma c_rank_set:
  "i < length (cs_conns s) \<Longrightarrow> c_conn_rank (f (cs_conns s ! i)) < c_conn_rank (cs_conns s ! i) \<Longrightarrow> c_rank (set_cconn i f s) < c_rank s"
  using sum_map_decrease [of i "cs_conns s" c_conn_rank "f (cs_conns s ! i)"] by (simp add: c_rank_def set_cconn_def)

lemma c_rank_closeAllConns: "c_rank (closeAllConns s) = c_rank s"
proof -
  have "map c_conn_rank (map (\<lambda>(i, c). if i \<in> set (cs_table s) then c\<lparr>cc_open := False\<rparr> else c) (enumerate 0 (cs_conns s))) =
      map c_conn_rank (cs_conns s)"
    by (rule map_enumerate_same) (simp add: c_conn_rank_def)
  then show ?thesis by (simp add: c_rank_def closeAllConns_def del: map_map)
qed

lemma c_step_rank: "c_step s t \<Longrightarrow> c_inv s \<Longrightarrow> c_rank t < c_rank s"
proof (induction rule: c_step.induct)
  case (c_watch_conns s)
  then show ?case using c_rank_closeAllConns [of s] by (simp add: c_rank_def)
next
  case (c_start s i)
  then have i: "i < length (cs_conns s)" "cc_stage (cs_conns s ! i) = CFresh"
    by (auto simp: c_inv_def c_table_ok_def c_conn_ok_def)
  have "c_rank (set_cconn i (\<lambda>c. c\<lparr>cc_stage := CGreet\<rparr>) s) < c_rank s"
    by (rule c_rank_set) (use i in \<open>simp_all add: c_conn_rank_def\<close>)
  with c_start show ?case by (simp add: c_rank_def set_cconn_def)
next
  case (c_reads i s)
  then show ?case by (intro c_rank_set) (auto simp: c_read_def c_conn_rank_def c_exit_def diff_less)
next
  case (c_defer i s a as)
  have "c_rank (set_cconn i (\<lambda>c. c\<lparr>cc_open := b c, cc_stage := CLeaving as\<rparr>) s) < c_rank s" for b
    by (rule c_rank_set) (use c_defer in \<open>simp_all add: c_conn_rank_def\<close>)
  from this [of "\<lambda>_. False"] this [of cc_open] c_defer show ?case
    by (cases a) (simp_all add: set_cconn_twice c_rank_def set_cconn_def untrackConn_def)
next
  case (c_accept s c cs)
  then show ?case by (simp add: c_rank_def c_conn_rank_def c_inv_def c_phase_ok_def)
next
  case (c_greet i s)
  then show ?case by (intro c_rank_set) (simp_all add: c_conn_rank_def)
next
  case (c_greet_fails i s)
  then show ?case unfolding c_leave_def by (intro c_rank_set) (simp_all add: c_conn_rank_def c_exit_def)
next
  case (c_read_fails i s)
  then show ?case unfolding c_leave_def by (intro c_rank_set) (auto simp: c_conn_rank_def c_exit_def)
qed (simp_all add: c_rank_def accept_failed_def close_listener_def trackConn_def)

lemma c_good_step:
  assumes "c_step s t" and "c_good s"
  shows "c_good t"
proof -
  have inv: "c_inv t" using assms c_step_inv by (simp add: c_good_def)
  have upd: "list_all P (xs[i := f (xs ! i)])" if "list_all P xs" "i < length xs" "P (xs ! i) \<Longrightarrow> P (f (xs ! i))" for P xs f i
    using that by (simp add: list_all_length nth_list_update)
  show ?thesis using assms
  proof (induction rule: c_step.induct)
    case (c_watch_conns s)
    have "\<not> cc_open (cs_conns (closeAllConns s) ! i)"
      if i: "i < length (cs_conns s)" "cc_stage (cs_conns (closeAllConns s) ! i) \<in> {CGreet, CAuth, CRequests}" for i
    proof -
      have "cc_stage (cs_conns s ! i) \<in> {CGreet, CAuth, CRequests}" using i by (simp add: nth_closeAllConns split: if_splits)
      moreover have "c_conn_ok (cs_serve s) (cs_table s) i (cs_conns s ! i)"
        using c_table_conn [OF _ i(1)] c_watch_conns by (simp add: c_good_def c_inv_def)
      ultimately have "i \<in> set (cs_table s)" by (auto simp: c_conn_ok_def)
      with i(1) show ?thesis by (simp add: nth_closeAllConns)
    qed
    moreover have "cs_backlog (closeAllConns s) = cs_backlog s" by (simp add: closeAllConns_def)
    ultimately show ?case using c_watch_conns c_step_inv [OF c_step.c_watch_conns] by (auto simp: c_good_def list_all_length)
  next
    case (c_defer i s a as)
    have "c_inv (set_cconn i (\<lambda>c. c\<lparr>cc_stage := CLeaving as\<rparr>) (c_deferred a i s))"
      using c_step_inv [OF c_step.c_defer] c_defer by (simp add: c_good_def)
    with c_defer show ?case
      by (cases a) (auto simp: c_good_def set_cconn_def untrackConn_def intro!: upd)
  qed (auto simp: c_good_def c_leave_def c_read_def set_cconn_def accept_failed_def close_listener_def intro!: upd
        dest: c_step.intros [THEN c_step_inv])
qed

lemma c_stuck:
  assumes "c_good s" and "\<nexists>t. c_step s t"
  shows "c_drained s"
proof -
  have none: "c_step s t \<Longrightarrow> False" for t using assms(2) by blast
  have w: "cs_watch s = Watched"
    using none [OF c_watch_listener] none [OF c_watch_conns] assms(1) by (cases "cs_watch s") (auto simp: c_good_def)
  then have "\<not> cs_listener s" using assms(1) by (auto simp: c_good_def c_inv_def c_phase_ok_def)
  with none [OF c_accept_closed] have a: "cs_serve s \<noteq> Accepting" by blast
  have idle: "\<not> c_running (cc_stage (cs_conns s ! i))" if i: "i < length (cs_conns s)" for i
  proof
    assume run: "c_running (cc_stage (cs_conns s ! i))"
    have closed: "\<not> cc_open (cs_conns s ! i)" if "cc_stage (cs_conns s ! i) \<in> {CGreet, CAuth, CRequests}"
      using assms(1) w i that by (auto simp: c_good_def list_all_length)
    show False
    proof (cases "cc_stage (cs_conns s ! i)")
      case (CLeaving as)
      with run none [OF c_defer [OF i]] show False by (cases as) auto
    qed (use run closed none [OF c_greet_fails [OF i]] none [OF c_read_fails [OF i]] in auto)
  qed
  have "(\<lambda>c. of_bool (c_running (cc_stage c)) :: nat) c = 0" if "c \<in> set (cs_conns s)" for c
    using that idle by (auto simp: in_set_conv_nth)
  then have "c_handled s = 0" by (simp add: c_handled_def)
  then have z: "cs_wg s = 0" using assms(1) by (simp add: c_good_def c_inv_def c_counts_def)
  with none [OF c_step.c_drained] a assms(1) have "cs_serve s = ServeReturned True" by (auto simp: c_good_def)
  with c_all_gone [of s] z assms(1) show ?thesis by (simp add: c_good_def c_drained_def)
qed

interpretation control: drain c_step c_good c_rank c_drained "\<lambda>_. False"
proof
  show "c_good s \<Longrightarrow> c_step s t \<Longrightarrow> c_rank t < c_rank s" for s t using c_step_rank by (simp add: c_good_def)
qed (use c_good_step c_stuck in blast)+

text \<open>
  The control server ends in order. \<open>Serve\<close> returns without an error only when no handler runs any more, every
  connection is closed and the table is empty. And it does return: when the context is cancelled while the loop
  waits in \<open>Accept\<close> and nobody is queued, every run of the server's own steps, in whatever order the goroutines are
  scheduled and whatever its clients sent before, is at most \<open>c_rank\<close> steps long, and where it can go no further
  \<open>Serve\<close> has returned in this way.
\<close>

theorem control_server_ends:
  assumes "c_reach s"
  shows "(cs_serve s = ServeReturned True \<longrightarrow> c_drained s) \<and>
    (cs_ctx s \<and> cs_watch s = Watching \<and> cs_serve s = Accepting \<and> cs_backlog s = [] \<longrightarrow>
       (\<exists>t. c_step\<^sup>*\<^sup>* s t \<and> c_drained t) \<and>
       (\<forall>n t. (c_step ^^ n) s t \<longrightarrow> n \<le> c_rank s \<and> ((\<nexists>u. c_step t u) \<longrightarrow> c_drained t)))"
proof (intro conjI impI)
  have inv: "c_inv s" by (rule c_reach_inv) fact
  show "c_drained s" if "cs_serve s = ServeReturned True"
    using c_all_gone [OF inv] inv that by (simp add: c_drained_def c_inv_def c_counts_def)
  assume "cs_ctx s \<and> cs_watch s = Watching \<and> cs_serve s = Accepting \<and> cs_backlog s = []"
  with inv have good: "c_good s" by (simp add: c_good_def)
  show "\<exists>t. c_step\<^sup>*\<^sup>* s t \<and> c_drained t" using control.reaches_end [OF good] by blast
  show "\<forall>n t. (c_step ^^ n) s t \<longrightarrow> n \<le> c_rank s \<and> ((\<nexists>u. c_step t u) \<longrightarrow> c_drained t)"
    using control.run_ends [OF good] by blast
qed

text \<open>One client that was just accepted, at the time of cancellation.\<close>

definition one_client :: cserver where
  "one_client = (cs_init ''ck'')\<lparr>cs_ctx := True, cs_conns := [new_cconn\<lparr>cc_stage := CGreet\<rparr>], cs_table := [0], cs_wg := 1\<rparr>"

definition queued_client :: cserver where
  "queued_client = (cs_init ''ck'')\<lparr>cs_backlog := [new_cconn]\<rparr>"

lemma queued_client_reach: "c_reach queued_client"
proof -
  have "c_outside None (cs_init ''ck'') ((cs_init ''ck'')\<lparr>cs_backlog := cs_backlog (cs_init ''ck'') @ [new_cconn]\<rparr>)"
    by (rule c_connect) (simp add: cs_init_def)
  from c_reach_outside [OF c_reach_init this] show ?thesis by (simp add: queued_client_def cs_init_def)
qed

lemma one_client_reach: "c_reach one_client"
proof -
  let ?s1 = "queued_client\<lparr>cs_backlog := [], cs_conns := cs_conns queued_client @ [new_cconn], cs_serve := Tracking (length (cs_conns queued_client))\<rparr>"
  let ?s2 = "(trackConn 0 ?s1)\<lparr>cs_serve := Adding 0\<rparr>"
  let ?s3 = "(set_cconn 0 (\<lambda>c. c\<lparr>cc_stage := CGreet\<rparr>) ?s2)\<lparr>cs_wg := cs_wg ?s2 + 1, cs_serve := Accepting\<rparr>"
  have "c_step queued_client ?s1" by (rule c_accept) (simp_all add: queued_client_def cs_init_def)
  moreover have "c_step ?s1 ?s2" by (rule c_track) (simp add: queued_client_def cs_init_def)
  moreover have "c_step ?s2 ?s3" by (rule c_start) simp
  ultimately have "c_reach ?s3" using queued_client_reach by (blast intro: c_reach_step)
  from c_reach_outside [OF this c_cancel] show ?thesis
    by (simp add: one_client_def queued_client_def cs_init_def trackConn_def set_cconn_def)
qed

theorem control_server_ends_witness: "\<exists>t. c_step\<^sup>*\<^sup>* one_client t \<and> c_drained t"
  using control_server_ends [OF one_client_reach] by (simp add: one_client_def cs_init_def)

section \<open>A connection that is registered too late\<close>

text \<open>The server's own steps and everything outside but the client of connection \<open>i\<close>.\<close>

definition c_without :: "nat \<Rightarrow> cserver \<Rightarrow> cserver \<Rightarrow> bool" where
  "c_without i s t \<longleftrightarrow> c_step s t \<or> (\<exists>w. w \<noteq> Some i \<and> c_outside w s t)"

text \<open>The connection was accepted, all connections of the table were closed without it, and its client is silent.\<close>

definition c_late :: "nat \<Rightarrow> cserver \<Rightarrow> bool" where
  "c_late i s \<longleftrightarrow> c_inv s \<and> cs_watch s = Watched \<and> i < length (cs_conns s) \<and> cc_stage (cs_conns s ! i) \<in> {CFresh, CGreet, CAuth} \<and>
     cc_open (cs_conns s ! i) \<and> cc_in (cs_conns s ! i) = [] \<and> \<not> cc_eof (cs_conns s ! i)"

lemma c_late_step:
  assumes "c_step s t" and "c_late i s"
  shows "c_late i t"
proof -
  have "c_inv t" using assms c_step_inv by (simp add: c_late_def)
  with assms show ?thesis
  proof (induction rule: c_step.induct)
    case (c_defer j s a as)
    then have "j \<noteq> i" by (auto simp: c_late_def)
    moreover have "cs_conns (c_deferred a j s) ! i = cs_conns s ! i" using \<open>j \<noteq> i\<close> by (cases a) (simp_all add: set_cconn_def)
    ultimately show ?case using c_defer by (simp add: c_late_def nth_set_cconn)
  qed (auto simp: c_late_def nth_set_cconn nth_append c_leave_def accept_failed_def close_listener_def)
qed

lemma c_late_outside: "c_outside w s t \<Longrightarrow> w \<noteq> Some i \<Longrightarrow> c_late i s \<Longrightarrow> c_late i t"
proof -
  assume o: "c_outside w s t" and w: "w \<noteq> Some i" and late: "c_late i s"
  have "c_inv t" using c_outside_inv [OF o] late by (simp add: c_late_def)
  with o w late show ?thesis
    by (induction rule: c_outside.induct) (auto simp: c_late_def nth_set_cconn accept_failed_def close_listener_def)
qed

lemma c_late_serving: "c_late i s \<Longrightarrow> cs_serve s \<noteq> ServeReturned True"
  using c_all_gone [of s] by (auto simp: c_late_def c_inv_def c_counts_def list_all_length)

lemma c_late_ctx: "c_late i s \<Longrightarrow> cs_ctx s"
  by (auto simp: c_late_def c_inv_def c_phase_ok_def)

lemma c_late_failed: "c_step s t \<Longrightarrow> c_late i s \<Longrightarrow> cs_serve s \<noteq> ServeReturned False \<Longrightarrow> cs_serve t \<noteq> ServeReturned False"
  by (induction rule: c_step.induct) (auto simp: c_leave_def accept_failed_def dest: c_late_ctx)

lemma c_late_outside_failed:
  "c_outside w s t \<Longrightarrow> c_late i s \<Longrightarrow> cs_serve s \<noteq> ServeReturned False \<Longrightarrow> cs_serve t \<noteq> ServeReturned False"
  by (induction rule: c_outside.induct) (auto simp: accept_failed_def dest: c_late_ctx)

lemma c_late_forever:
  assumes "(c_without i)\<^sup>*\<^sup>* s t" and "c_late i s" and "cs_serve s \<noteq> ServeReturned False"
  shows "c_late i t \<and> cs_serve t \<noteq> ServeReturned False"
  using assms
  by (induction rule: rtranclp_induct)
    (auto simp: c_without_def dest: c_late_step c_late_outside c_late_failed c_late_outside_failed)

text \<open>
  C25: a client can keep the daemon from stopping. If the context is cancelled between \<open>Accept\<close> and \<open>trackConn\<close>, the
  goroutine that closes the connections can come first: the connection is entered into the table after it was
  emptied of open connections, nobody closes it, and \<open>Serve\<close> does not return for as long as its client
  is connected and silent, whatever the rest of the program and all other clients do.
\<close>

theorem late_connection_blocks_serve:
  assumes "c_reach s" and "cs_serve s = Accepting" and "cs_watch s = Watching" and "cs_listener s"
    and "cs_backlog s = new_cconn # cs"
  shows "\<exists>s1 s2 t. c_step s s1 \<and> c_outside None s1 s2 \<and> c_step\<^sup>*\<^sup>* s2 t \<and> cs_ctx t \<and> cs_watch t = Watched \<and>
    (\<forall>u b. (c_without (length (cs_conns s)))\<^sup>*\<^sup>* t u \<longrightarrow> cs_serve u \<noteq> ServeReturned b)"
proof -
  let ?i = "length (cs_conns s)"
  let ?s1 = "s\<lparr>cs_backlog := cs, cs_conns := cs_conns s @ [new_cconn], cs_serve := Tracking ?i\<rparr>"
  let ?s2 = "?s1\<lparr>cs_ctx := True\<rparr>" and ?s3 = "(close_listener (?s1\<lparr>cs_ctx := True\<rparr>))\<lparr>cs_watch := ClosingConns\<rparr>"
  let ?t = "(closeAllConns ?s3)\<lparr>cs_watch := Watched\<rparr>"
  have a: "c_step s ?s1" using assms by (intro c_accept) auto
  have b: "c_outside None ?s1 ?s2" by (rule c_cancel)
  have c: "c_step ?s2 ?s3" by (rule c_watch_listener) (use assms in simp_all)
  have d: "c_step ?s3 ?t" by (rule c_watch_conns) simp
  have inv: "c_inv s" "c_inv ?t"
    using c_reach_inv [OF assms(1)] c_step_inv [OF d] c_step_inv [OF c] c_outside_inv [OF b] c_step_inv [OF a] by blast+
  have "?i \<notin> set (cs_table s)" using inv(1) by (auto simp: c_inv_def c_table_ok_def)
  then have "cs_conns ?t ! ?i = new_cconn"
    using nth_closeAllConns [of ?i ?s3] by (simp add: close_listener_def nth_append)
  then have late: "c_late ?i ?t" using inv(2) by (simp add: c_late_def new_cconn_def close_listener_def)
  have s: "cs_serve ?t = Tracking ?i" "cs_ctx ?t" "cs_watch ?t = Watched" by (simp_all add: close_listener_def)
  have "cs_serve u \<noteq> ServeReturned x" if "(c_without ?i)\<^sup>*\<^sup>* ?t u" for u x
    using c_late_forever [OF that late] s(1) c_late_serving [of ?i u] by (cases x) auto
  moreover have "c_step\<^sup>*\<^sup>* ?s2 ?t" using c d by (meson r_into_rtranclp rtranclp.rtrancl_into_rtrancl)
  ultimately show ?thesis using a b s(2,3) by blast
qed

theorem late_connection_blocks_serve_witness:
  "\<exists>s1 s2 t. c_step queued_client s1 \<and> c_outside None s1 s2 \<and> c_step\<^sup>*\<^sup>* s2 t \<and> cs_ctx t \<and> cs_watch t = Watched \<and>
    cs_serve t \<noteq> ServeReturned True"
proof -
  have "cs_serve queued_client = Accepting" "cs_watch queued_client = Watching" "cs_listener queued_client"
    "cs_backlog queued_client = new_cconn # []" by (simp_all add: queued_client_def cs_init_def)
  from late_connection_blocks_serve [OF queued_client_reach this] show ?thesis by blast
qed

end
