(* ===== verification/TransportServer.thy ===== *)
theory TransportServer
  imports Transport Lifecycle
begin

text \<open>
  The server of \<open>src/internal/transport/transport.go\<close> around its connections: \<open>Serve\<close>, \<open>Dial\<close>, the pool that
  \<open>Broadcast\<close> writes to, and \<open>Close\<close>, as steps of concurrent goroutines. What is read and answered on a connection is
  \<open>handleInbound\<close> of \<open>Transport\<close>; here a link is the lines that arrived and were not read, whether either side is
  closed, and where its goroutine is. Lines already buffered can be read after the link was closed. Writes do not
  block; a write of \<open>Broadcast\<close> that fails closes its link.
\<close>

section \<open>The state\<close>

text \<open>
  The goroutine of a link: accepted but not started, at the first line, before \<open>track\<close>, at the test of the context, at
  the next envelope, at the body of a join; a dialed link before \<open>track\<close> and before its reader starts; leaving.
\<close>

datatype tstage = TFresh | TFirstLine | TJoinPool | TCheckCtx | TReadEnv | TReadBody | TDialed | TDialAdd | TLeaving "deferred list"

record tlink =
  lk_addr :: string                                          \<comment> \<open>\<open>outboundAddr\<close>, empty for accepted connections\<close>
  lk_in :: "string list"
  lk_eof :: bool
  lk_open :: bool
  lk_stage :: tstage

record tpool =
  tp_Join :: bool                                            \<comment> \<open>\<open>InviteJoin\<close> is installed\<close>
  tp_ctx :: bool
  tp_listener :: bool
  tp_backlog :: "tlink list"
  tp_watch :: watcher
  tp_serve :: accept_loop
  tp_close :: closer
  tp_links :: "tlink list"                                   \<comment> \<open>every connection so far\<close>
  tp_conns :: "tconn list"                                   \<comment> \<open>\<open>conns\<close> of the source\<close>
  tp_wg :: nat

text \<open>\<open>Start\<close>, when the address could be bound.\<close>

definition transport_Start :: "bool \<Rightarrow> tpool" where
  "transport_Start join = \<lparr>tp_Join = join, tp_ctx = False, tp_listener = True, tp_backlog = [], tp_watch = Watching,
     tp_serve = Accepting, tp_close = NotCalled, tp_links = [], tp_conns = [], tp_wg = 0\<rparr>"

definition new_tlink :: tlink where
  "new_tlink = \<lparr>lk_addr = [], lk_in = [], lk_eof = False, lk_open = True, lk_stage = TFresh\<rparr>"

definition lk_key :: "nat \<Rightarrow> tlink \<Rightarrow> tconn" where
  "lk_key i l = \<lparr>tc_id = i, tc_outboundAddr = lk_addr l\<rparr>"

definition set_link :: "nat \<Rightarrow> (tlink \<Rightarrow> tlink) \<Rightarrow> tpool \<Rightarrow> tpool" where
  "set_link i f s = s\<lparr>tp_links := (tp_links s)[i := f (tp_links s ! i)]\<rparr>"

definition set_tstage :: "nat \<Rightarrow> tstage \<Rightarrow> tpool \<Rightarrow> tpool" where
  "set_tstage i g = set_link i (\<lambda>l. l\<lparr>lk_stage := g\<rparr>)"

definition track_link :: "nat \<Rightarrow> tpool \<Rightarrow> tpool" where
  "track_link i s = s\<lparr>tp_conns := track (lk_key i (tp_links s ! i)) (tp_conns s)\<rparr>"

definition untrack_link :: "nat \<Rightarrow> tpool \<Rightarrow> tpool" where
  "untrack_link i s = s\<lparr>tp_conns := untrack (lk_key i (tp_links s ! i)) (tp_conns s)\<rparr>"

definition closeAll :: "tpool \<Rightarrow> tpool" where
  "closeAll s =
     s\<lparr>tp_links := map (\<lambda>(i, l). if lk_key i l \<in> set (tp_conns s) then l\<lparr>lk_open := False\<rparr> else l) (enumerate 0 (tp_links s))\<rparr>"

definition t_close_listener :: "tpool \<Rightarrow> tpool" where
  "t_close_listener s = s\<lparr>tp_listener := False, tp_backlog := []\<rparr>"

text \<open>The end of the goroutine in \<open>Serve\<close> and of the one in \<open>Dial\<close>.\<close>

definition t_exit :: "tlink \<Rightarrow> deferred list" where
  "t_exit l = (if lk_addr l = [] then [Untrack, CloseConn, WgDone] else [CloseConn, Untrack, WgDone])"

definition t_leave :: "nat \<Rightarrow> tpool \<Rightarrow> tpool" where
  "t_leave i = set_link i (\<lambda>l. l\<lparr>lk_stage := TLeaving (t_exit l)\<rparr>)"

fun t_deferred :: "deferred \<Rightarrow> nat \<Rightarrow> tpool \<Rightarrow> tpool" where
  "t_deferred CloseConn i s = set_link i (\<lambda>l. l\<lparr>lk_open := False\<rparr>) s"
| "t_deferred Untrack i s = untrack_link i s"
| "t_deferred WgDone i s = s\<lparr>tp_wg := tp_wg s - 1\<rparr>"

definition t_accept_failed :: "tpool \<Rightarrow> tpool" where
  "t_accept_failed s = s\<lparr>tp_serve := (if tp_ctx s then Draining else ServeReturned False)\<rparr>"

text \<open>Whether \<open>handleInvite2Join\<close> reads the body, and where the first line of a connection leads.\<close>

definition join_reads :: "bool \<Rightarrow> string \<Rightarrow> bool" where
  "join_reads join rest =
     (case Fields rest of
        [cookie, inviteeName, clientPubB64] \<Rightarrow>
          join \<and> (case EphemeralPubFromBase64 clientPubB64 of Inl _ \<Rightarrow> False | Inr _ \<Rightarrow> True)
      | _ \<Rightarrow> False)"

definition first_line :: "bool \<Rightarrow> tlink \<Rightarrow> tstage" where
  "first_line join l =
     (let line = TrimRight (hd (lk_in l) @ [NL]) [CR, NL]
      in if line = ''GOSSIP'' then TJoinPool
         else if HasPrefix line ''INVITE2 GET '' then TLeaving (t_exit l)
         else if HasPrefix line ''INVITE2 JOIN '' \<and> join_reads join (TrimPrefix line ''INVITE2 JOIN '') then TReadBody
         else TLeaving (t_exit l))"

definition t_read :: "bool \<Rightarrow> tlink \<Rightarrow> tlink" where
  "t_read join l =
     l\<lparr>lk_in := tl (lk_in l),
       lk_stage := (case lk_stage l of TFirstLine \<Rightarrow> first_line join l | TReadEnv \<Rightarrow> TCheckCtx | _ \<Rightarrow> TLeaving (t_exit l))\<rparr>"

section \<open>Steps\<close>

inductive t_step :: "tpool \<Rightarrow> tpool \<Rightarrow> bool" where
  t_watch_listener: "tp_watch s = Watching \<Longrightarrow> tp_ctx s \<Longrightarrow> t_step s ((t_close_listener s)\<lparr>tp_watch := ClosingConns\<rparr>)"
| t_watch_conns: "tp_watch s = ClosingConns \<Longrightarrow> t_step s ((closeAll s)\<lparr>tp_watch := Watched\<rparr>)"
| t_accept: "tp_serve s = Accepting \<Longrightarrow> tp_listener s \<Longrightarrow> tp_backlog s = l # ls \<Longrightarrow>
    t_step s (s\<lparr>tp_backlog := ls, tp_links := tp_links s @ [l], tp_serve := Adding (length (tp_links s))\<rparr>)"
| t_accept_closed: "tp_serve s = Accepting \<Longrightarrow> \<not> tp_listener s \<Longrightarrow> t_step s (t_accept_failed s)"
| t_start: "tp_serve s = Adding i \<Longrightarrow> t_step s ((set_tstage i TFirstLine s)\<lparr>tp_wg := tp_wg s + 1, tp_serve := Accepting\<rparr>)"
| t_drained: "tp_serve s = Draining \<Longrightarrow> tp_wg s = 0 \<Longrightarrow> t_step s (s\<lparr>tp_serve := ServeReturned True\<rparr>)"
| t_reads: "i < length (tp_links s) \<Longrightarrow> lk_stage (tp_links s ! i) \<in> {TFirstLine, TReadEnv, TReadBody} \<Longrightarrow>
    lk_in (tp_links s ! i) \<noteq> [] \<Longrightarrow> t_step s (set_link i (t_read (tp_Join s)) s)"
| t_read_fails: "i < length (tp_links s) \<Longrightarrow> lk_stage (tp_links s ! i) \<in> {TFirstLine, TReadEnv, TReadBody} \<Longrightarrow>
    \<not> lk_open (tp_links s ! i) \<or> lk_in (tp_links s ! i) = [] \<and> lk_eof (tp_links s ! i) \<Longrightarrow> t_step s (t_leave i s)"
| t_join_pool: "i < length (tp_links s) \<Longrightarrow> lk_stage (tp_links s ! i) = TJoinPool \<Longrightarrow> t_step s (set_tstage i TCheckCtx (track_link i s))"
| t_check_ctx: "i < length (tp_links s) \<Longrightarrow> lk_stage (tp_links s ! i) = TCheckCtx \<Longrightarrow>
    t_step s (if tp_ctx s then t_leave i s else set_tstage i TReadEnv s)"
| t_defer: "i < length (tp_links s) \<Longrightarrow> lk_stage (tp_links s ! i) = TLeaving (a # as) \<Longrightarrow>
    t_step s (set_tstage i (TLeaving as) (t_deferred a i s))"
| t_dial_track: "i < length (tp_links s) \<Longrightarrow> lk_stage (tp_links s ! i) = TDialed \<Longrightarrow> t_step s (set_tstage i TDialAdd (track_link i s))"
| t_dial_fails: "i < length (tp_links s) \<Longrightarrow> lk_stage (tp_links s ! i) = TDialed \<Longrightarrow> lk_eof (tp_links s ! i) \<Longrightarrow>
    t_step s (set_link i (\<lambda>l. l\<lparr>lk_open := False, lk_stage := TLeaving []\<rparr>) s)"
| t_dial_start: "i < length (tp_links s) \<Longrightarrow> lk_stage (tp_links s ! i) = TDialAdd \<Longrightarrow>
    t_step s ((set_tstage i TCheckCtx s)\<lparr>tp_wg := tp_wg s + 1\<rparr>)"
| t_close_conns: "tp_close s = ClosingTable \<Longrightarrow> t_step s ((closeAll s)\<lparr>tp_close := Waiting\<rparr>)"
| t_closed: "tp_close s = Waiting \<Longrightarrow> tp_wg s = 0 \<Longrightarrow> t_step s (s\<lparr>tp_close := Closed\<rparr>)"

text \<open>
  What happens outside: cancellation, peers that connect, send and hang up, connections opened by \<open>Dial\<close> (not after
  cancellation, which makes \<open>DialContext\<close> fail), writes of \<open>Broadcast\<close> that fail, \<open>Accept\<close> failing for lack of
  resources, and the call of \<open>Close\<close>. The label is the link whose peer acts.
\<close>

inductive t_outside :: "nat option \<Rightarrow> tpool \<Rightarrow> tpool \<Rightarrow> bool" where
  t_cancel: "t_outside None s (s\<lparr>tp_ctx := True\<rparr>)"
| t_connect: "tp_listener s \<Longrightarrow> t_outside None s (s\<lparr>tp_backlog := tp_backlog s @ [new_tlink]\<rparr>)"
| t_queue_send: "j < length (tp_backlog s) \<Longrightarrow> \<not> lk_eof (tp_backlog s ! j) \<Longrightarrow>
    t_outside None s (s\<lparr>tp_backlog := (tp_backlog s)[j := (tp_backlog s ! j)\<lparr>lk_in := lk_in (tp_backlog s ! j) @ [x]\<rparr>]\<rparr>)"
| t_queue_hangup: "j < length (tp_backlog s) \<Longrightarrow>
    t_outside None s (s\<lparr>tp_backlog := (tp_backlog s)[j := (tp_backlog s ! j)\<lparr>lk_eof := True\<rparr>]\<rparr>)"
| t_send: "i < length (tp_links s) \<Longrightarrow> \<not> lk_eof (tp_links s ! i) \<Longrightarrow>
    t_outside (Some i) s (set_link i (\<lambda>l. l\<lparr>lk_in := lk_in l @ [x]\<rparr>) s)"
| t_hangup: "i < length (tp_links s) \<Longrightarrow> t_outside (Some i) s (set_link i (\<lambda>l. l\<lparr>lk_eof := True\<rparr>) s)"
| t_dial: "\<not> tp_ctx s \<Longrightarrow> addr \<noteq> [] \<Longrightarrow>
    t_outside None s (s\<lparr>tp_links := tp_links s @ [new_tlink\<lparr>lk_addr := addr, lk_stage := TDialed\<rparr>]\<rparr>)"
| t_write_failed: "i < length (tp_links s) \<Longrightarrow> lk_key i (tp_links s ! i) \<in> set (tp_conns s) \<Longrightarrow>
    t_outside None s (set_link i (\<lambda>l. l\<lparr>lk_open := False\<rparr>) s)"
| t_accept_fault: "tp_serve s = Accepting \<Longrightarrow> t_outside None s (t_accept_failed s)"
| t_call_close: "tp_close s = NotCalled \<Longrightarrow> t_outside None s ((t_close_listener s)\<lparr>tp_close := ClosingTable\<rparr>)"

inductive t_reach :: "tpool \<Rightarrow> bool" where
  t_reach_init: "t_reach (transport_Start join)"
| t_reach_step: "t_reach s \<Longrightarrow> t_step s t \<Longrightarrow> t_reach t"
| t_reach_outside: "t_reach s \<Longrightarrow> t_outside w s t \<Longrightarrow> t_reach t"

section \<open>Invariant\<close>

text \<open>
  Which goroutines count in the wait group, which links must be in the pool, which may be.
\<close>

fun t_running :: "tstage \<Rightarrow> bool" where
  "t_running TFresh = False"
| "t_running TDialed = False"
| "t_running TDialAdd = False"
| "t_running (TLeaving as) = (WgDone \<in> set as)"
| "t_running _ = True"

fun gossiping :: "tstage \<Rightarrow> bool" where
  "gossiping TCheckCtx = True"
| "gossiping TReadEnv = True"
| "gossiping TDialAdd = True"
| "gossiping _ = False"

fun t_poolable :: "tstage \<Rightarrow> bool" where
  "t_poolable (TLeaving as) = (Untrack \<in> set as)"
| "t_poolable g = gossiping g"

definition t_leaving_ok :: "tlink \<Rightarrow> deferred list \<Rightarrow> bool" where
  "t_leaving_ok l as \<longleftrightarrow> (\<exists>bs. t_exit l = bs @ as \<and> (CloseConn \<in> set bs \<longrightarrow> \<not> lk_open l))"

definition t_stage_ok :: "tlink \<Rightarrow> bool" where
  "t_stage_ok l \<longleftrightarrow> (case lk_stage l of
     TLeaving as \<Rightarrow> t_leaving_ok l as
   | TDialed \<Rightarrow> lk_addr l \<noteq> [] | TDialAdd \<Rightarrow> lk_addr l \<noteq> []
   | TCheckCtx \<Rightarrow> True | TReadEnv \<Rightarrow> True | _ \<Rightarrow> lk_addr l = [])"

definition t_link_ok :: "accept_loop \<Rightarrow> tconn list \<Rightarrow> nat \<Rightarrow> tlink \<Rightarrow> bool" where
  "t_link_ok v conns i l \<longleftrightarrow>
     (lk_key i l \<in> set conns \<longrightarrow> t_poolable (lk_stage l)) \<and> (gossiping (lk_stage l) \<longrightarrow> lk_key i l \<in> set conns) \<and>
     (lk_stage l = TFresh \<longleftrightarrow> v = Adding i) \<and> t_stage_ok l"

definition t_handled :: "tpool \<Rightarrow> nat" where
  "t_handled s = sum_list (map (\<lambda>l. of_bool (t_running (lk_stage l))) (tp_links s))"

definition t_table_ok :: "tpool \<Rightarrow> bool" where
  "t_table_ok s \<longleftrightarrow>
     (\<forall>k \<in> set (tp_conns s). tc_id k < length (tp_links s) \<and> k = lk_key (tc_id k) (tp_links s ! tc_id k)) \<and>
     (\<forall>i. tp_serve s = Adding i \<longrightarrow> i < length (tp_links s)) \<and> (\<forall>i. tp_serve s \<noteq> Tracking i) \<and>
     (\<forall>i < length (tp_links s). t_link_ok (tp_serve s) (tp_conns s) i (tp_links s ! i))"

definition t_phase_ok :: "tpool \<Rightarrow> bool" where
  "t_phase_ok s \<longleftrightarrow>
     (\<not> tp_listener s \<longrightarrow> tp_backlog s = []) \<and> (tp_watch s \<noteq> Watching \<longrightarrow> tp_ctx s \<and> \<not> tp_listener s) \<and>
     (tp_serve s \<in> {Draining, ServeReturned True} \<longrightarrow> tp_ctx s) \<and> (tp_close s \<noteq> NotCalled \<longrightarrow> \<not> tp_listener s) \<and>
     (\<forall>l \<in> set (tp_backlog s). lk_stage l = TFresh \<and> lk_addr l = [])"

text \<open>After the sweep of the pool no open link waits for an envelope: whoever joins later sees the cancellation first.\<close>

definition t_swept :: "tpool \<Rightarrow> bool" where
  "t_swept s \<longleftrightarrow> (tp_watch s = Watched \<longrightarrow> list_all (\<lambda>l. lk_stage l = TReadEnv \<longrightarrow> \<not> lk_open l) (tp_links s))"

lemmas t_updates = t_close_listener_def track_link_def untrack_link_def set_link_def set_tstage_def t_leave_def t_accept_failed_def

lemma t_deferred_fields [simp]:
  "tp_serve (t_deferred a i s) = tp_serve s" "tp_ctx (t_deferred a i s) = tp_ctx s" "tp_listener (t_deferred a i s) = tp_listener s"
  "tp_watch (t_deferred a i s) = tp_watch s" "tp_backlog (t_deferred a i s) = tp_backlog s" "tp_close (t_deferred a i s) = tp_close s"
  "length (tp_links (t_deferred a i s)) = length (tp_links s)"
  by (cases a; simp add: t_updates)+

lemma t_frame [simp]:
  "tp_wg (closeAll s) = tp_wg s" "tp_wg (t_close_listener s) = tp_wg s" "tp_wg (track_link i s) = tp_wg s"
  "tp_wg (untrack_link i s) = tp_wg s" "tp_wg (t_accept_failed s) = tp_wg s" "tp_wg (set_link i f s) = tp_wg s"
  "tp_serve (closeAll s) = tp_serve s" "tp_serve (t_close_listener s) = tp_serve s" "tp_serve (track_link i s) = tp_serve s"
  "tp_serve (untrack_link i s) = tp_serve s" "tp_serve (set_link i f s) = tp_serve s"
  "tp_ctx (closeAll s) = tp_ctx s" "tp_ctx (t_close_listener s) = tp_ctx s" "tp_ctx (track_link i s) = tp_ctx s"
  "tp_ctx (untrack_link i s) = tp_ctx s" "tp_ctx (set_link i f s) = tp_ctx s" "tp_ctx (t_accept_failed s) = tp_ctx s"
  "tp_watch (closeAll s) = tp_watch s" "tp_watch (t_close_listener s) = tp_watch s" "tp_watch (track_link i s) = tp_watch s"
  "tp_watch (untrack_link i s) = tp_watch s" "tp_watch (set_link i f s) = tp_watch s" "tp_watch (t_accept_failed s) = tp_watch s"
  "tp_close (closeAll s) = tp_close s" "tp_close (t_close_listener s) = tp_close s" "tp_close (track_link i s) = tp_close s"
  "tp_close (untrack_link i s) = tp_close s" "tp_close (set_link i f s) = tp_close s" "tp_close (t_accept_failed s) = tp_close s"
  "tp_listener (closeAll s) = tp_listener s" "tp_listener (track_link i s) = tp_listener s"
  "tp_listener (untrack_link i s) = tp_listener s" "tp_listener (set_link i f s) = tp_listener s" "tp_listener (t_accept_failed s) = tp_listener s"
  "tp_backlog (closeAll s) = tp_backlog s" "tp_backlog (track_link i s) = tp_backlog s"
  "tp_backlog (untrack_link i s) = tp_backlog s" "tp_backlog (set_link i f s) = tp_backlog s" "tp_backlog (t_accept_failed s) = tp_backlog s"
  "tp_conns (closeAll s) = tp_conns s" "tp_conns (t_close_listener s) = tp_conns s" "tp_conns (set_link i f s) = tp_conns s"
  "tp_conns (t_accept_failed s) = tp_conns s"
  "tp_links (t_close_listener s) = tp_links s" "tp_links (track_link i s) = tp_links s" "tp_links (untrack_link i s) = tp_links s"
  "tp_links (t_accept_failed s) = tp_links s" "length (tp_links (set_link i f s)) = length (tp_links s)"
  "length (tp_links (closeAll s)) = length (tp_links s)"
  by (simp_all add: t_updates closeAll_def)

lemma t_step_phase: "t_step s t \<Longrightarrow> t_phase_ok s \<Longrightarrow> t_phase_ok t"
  by (induction rule: t_step.induct) (auto simp: t_phase_ok_def t_updates closeAll_def)

lemma t_outside_phase: "t_outside w s t \<Longrightarrow> t_phase_ok s \<Longrightarrow> t_phase_ok t"
  by (induction rule: t_outside.induct)
    (auto simp: t_phase_ok_def t_updates new_tlink_def dest!: set_update_subset_insert [THEN subsetD] split: if_splits)

lemma set_link_twice: "i < length (tp_links s) \<Longrightarrow> set_link i f (set_link i g s) = set_link i (\<lambda>l. f (g l)) s"
  by (simp add: set_link_def)

lemma nth_closeAll:
  "i < length (tp_links s) \<Longrightarrow> tp_links (closeAll s) ! i =
     (if lk_key i (tp_links s ! i) \<in> set (tp_conns s) then (tp_links s ! i)\<lparr>lk_open := False\<rparr> else tp_links s ! i)"
  by (simp add: closeAll_def nth_enumerate_eq)

lemma nth_set_link:
  "k < length (tp_links s) \<Longrightarrow> tp_links (set_link i f s) ! k = (if k = i then f (tp_links s ! i) else tp_links s ! k)"
  by (simp add: set_link_def nth_list_update)

lemma t_handled_set:
  "i < length (tp_links s) \<Longrightarrow> t_handled (set_link i f s) + of_bool (t_running (lk_stage (tp_links s ! i))) =
     t_handled s + of_bool (t_running (lk_stage (f (tp_links s ! i))))"
  unfolding t_handled_def set_link_def
  using sum_map_update [of i "tp_links s" "\<lambda>l. of_bool (t_running (lk_stage l))" "f (tp_links s ! i)"] by simp

lemma t_handled_same:
  "i < length (tp_links s) \<Longrightarrow> t_running (lk_stage (f (tp_links s ! i))) = t_running (lk_stage (tp_links s ! i)) \<Longrightarrow>
     t_handled (set_link i f s) = t_handled s"
  using t_handled_set [of i s f] by simp

lemma t_handled_closeAll [simp]: "t_handled (closeAll s) = t_handled s"
proof -
  have "map (\<lambda>l. of_bool (t_running (lk_stage l))) (map (\<lambda>(i, l). if lk_key i l \<in> set (tp_conns s) then l\<lparr>lk_open := False\<rparr> else l)
      (enumerate 0 (tp_links s))) = map (\<lambda>l. of_bool (t_running (lk_stage l)) :: nat) (tp_links s)"
    by (rule map_enumerate_same) simp
  then show ?thesis by (simp add: t_handled_def closeAll_def del: map_map)
qed

lemma t_handled_updates [simp]:
  "t_handled (t_close_listener s) = t_handled s" "t_handled (track_link i s) = t_handled s" "t_handled (untrack_link i s) = t_handled s"
  "t_handled (t_accept_failed s) = t_handled s" "t_handled (s\<lparr>tp_watch := w\<rparr>) = t_handled s" "t_handled (s\<lparr>tp_serve := v\<rparr>) = t_handled s"
  "t_handled (s\<lparr>tp_wg := n\<rparr>) = t_handled s" "t_handled (s\<lparr>tp_close := k\<rparr>) = t_handled s" "t_handled (s\<lparr>tp_ctx := b\<rparr>) = t_handled s"
  "t_handled (s\<lparr>tp_backlog := q\<rparr>) = t_handled s" "set_link i f (s\<lparr>tp_wg := n\<rparr>) = (set_link i f s)\<lparr>tp_wg := n\<rparr>"
  by (simp_all add: t_handled_def t_updates)

lemma t_exit_cases: "t_exit l = [Untrack, CloseConn, WgDone] \<and> lk_addr l = [] \<or> t_exit l = [CloseConn, Untrack, WgDone] \<and> lk_addr l \<noteq> []"
  by (simp add: t_exit_def)

lemma t_leaving_done:
  assumes "t_leaving_ok l (a # as)"
  shows "WgDone \<in> set as \<longleftrightarrow> a \<noteq> WgDone" and "a = Untrack \<Longrightarrow> Untrack \<notin> set as" and "a \<noteq> Untrack \<Longrightarrow> Untrack \<in> set (a # as) \<longleftrightarrow> Untrack \<in> set as"
proof -
  obtain bs where "t_exit l = bs @ a # as" using assms by (auto simp: t_leaving_ok_def)
  with t_exit_cases [of l] show "WgDone \<in> set as \<longleftrightarrow> a \<noteq> WgDone" and "a = Untrack \<Longrightarrow> Untrack \<notin> set as"
    and "a \<noteq> Untrack \<Longrightarrow> Untrack \<in> set (a # as) \<longleftrightarrow> Untrack \<in> set as"
    by (auto simp: append_eq_Cons_conv)
qed

lemma t_table_link: "t_table_ok s \<Longrightarrow> i < length (tp_links s) \<Longrightarrow> t_link_ok (tp_serve s) (tp_conns s) i (tp_links s ! i)"
  by (simp add: t_table_ok_def)

lemma t_running_exit [simp]: "WgDone \<in> set (t_exit l)" "Untrack \<in> set (t_exit l)"
  by (simp_all add: t_exit_def)

lemma t_running_read: "lk_stage l \<in> {TFirstLine, TReadEnv, TReadBody} \<Longrightarrow> t_running (lk_stage (t_read j l))"
  by (auto simp: t_read_def first_line_def Let_def)

lemma t_step_counts:
  assumes "t_step s t" and "tp_wg s = t_handled s" and "t_table_ok s" and "t_phase_ok s"
  shows "tp_wg t = t_handled t"
  using assms
proof (induction rule: t_step.induct)
  case (t_accept s l ls)
  then show ?case by (simp add: t_phase_ok_def t_handled_def)
next
  case (t_start s i)
  then have "i < length (tp_links s)" by (simp add: t_table_ok_def)
  with t_table_link [of s i] t_start have "lk_stage (tp_links s ! i) = TFresh" "i < length (tp_links s)" by (simp_all add: t_link_ok_def)
  with t_handled_set [of i s "\<lambda>l. l\<lparr>lk_stage := TFirstLine\<rparr>"] t_start show ?case by (simp add: set_tstage_def)
next
  case (t_defer i s a as)
  have "t_stage_ok (tp_links s ! i)" using t_table_link [of s i] t_defer by (simp add: t_link_ok_def)
  then have ok: "t_leaving_ok (tp_links s ! i) (a # as)" using t_defer by (simp add: t_stage_ok_def)
  note h = t_handled_set [of i s "\<lambda>l. l\<lparr>lk_stage := TLeaving as\<rparr>"]
  show ?case
  proof (cases a)
    case CloseConn
    with t_defer t_leaving_done(1) [OF ok] show ?thesis by (simp add: set_tstage_def set_link_twice t_handled_same)
  next
    case Untrack
    have "t_handled (set_tstage i (TLeaving as) (untrack_link i s)) = t_handled (set_link i (\<lambda>l. l\<lparr>lk_stage := TLeaving as\<rparr>) s)"
      by (simp add: t_handled_def t_updates)
    with Untrack t_defer t_leaving_done(1) [OF ok] show ?thesis by (simp add: set_tstage_def t_handled_same)
  next
    case WgDone
    with t_defer t_leaving_done(1) [OF ok] h show ?thesis by (simp add: set_tstage_def)
  qed
next
  case (t_reads i s)
  then show ?case using t_running_read [of "tp_links s ! i"] by (subst t_handled_same) auto
next
  case (t_join_pool i s)
  then have "t_handled (set_link i (\<lambda>l. l\<lparr>lk_stage := TCheckCtx\<rparr>) (track_link i s)) = t_handled (track_link i s)"
    by (intro t_handled_same) simp_all
  with t_join_pool show ?case by (simp add: set_tstage_def)
next
  case (t_dial_track i s)
  then have "t_handled (set_link i (\<lambda>l. l\<lparr>lk_stage := TDialAdd\<rparr>) (track_link i s)) = t_handled (track_link i s)"
    by (intro t_handled_same) simp_all
  with t_dial_track show ?case by (simp add: set_tstage_def)
next
  case (t_dial_start i s)
  with t_handled_set [of i s "\<lambda>l. l\<lparr>lk_stage := TCheckCtx\<rparr>"] show ?case by (simp add: set_tstage_def)
qed (auto simp: t_handled_same t_leave_def set_tstage_def)

lemma t_outside_counts: "t_outside w s t \<Longrightarrow> tp_wg s = t_handled s \<Longrightarrow> tp_wg t = t_handled t"
proof (induction rule: t_outside.induct)
  case (t_dial s addr)
  then show ?case by (simp add: t_handled_def)
qed (auto simp: t_handled_same)

lemma lk_key_eq [simp]: "lk_key i l = lk_key j m \<longleftrightarrow> i = j \<and> lk_addr l = lk_addr m" and tc_id_key [simp]: "tc_id (lk_key i l) = i"
  by (simp_all add: lk_key_def)

lemma lk_key_update [simp]:
  "lk_key i (l\<lparr>lk_stage := g\<rparr>) = lk_key i l" "lk_key i (l\<lparr>lk_open := b\<rparr>) = lk_key i l" "lk_key i (l\<lparr>lk_eof := b\<rparr>) = lk_key i l"
  "lk_key i (l\<lparr>lk_in := xs\<rparr>) = lk_key i l"
  by (simp_all add: lk_key_def)

text \<open>A step that changes one link and the entry of this link in the pool.\<close>

lemma t_table_change:
  assumes ok: "t_table_ok s" and i: "i < length (tp_links s)" and addr: "lk_addr l = lk_addr (tp_links s ! i)"
    and sub: "set conns \<subseteq> insert (lk_key i (tp_links s ! i)) (set (tp_conns s))"
    and new: "t_link_ok (tp_serve s) conns i l"
    and old: "\<And>j. j < length (tp_links s) \<Longrightarrow> j \<noteq> i \<Longrightarrow> t_link_ok (tp_serve s) conns j (tp_links s ! j)"
  shows "t_table_ok (s\<lparr>tp_conns := conns, tp_links := (tp_links s)[i := l]\<rparr>)"
proof -
  have "tc_id k < length (tp_links s) \<and> k = lk_key (tc_id k) ((tp_links s)[i := l] ! tc_id k)" if "k \<in> set conns" for k
  proof -
    have k: "tc_id k < length (tp_links s)" "k = lk_key (tc_id k) (tp_links s ! tc_id k)"
      using that sub ok i by (auto simp: t_table_ok_def)
    have "lk_addr ((tp_links s)[i := l] ! tc_id k) = lk_addr (tp_links s ! tc_id k)" using k(1) addr i by (simp add: nth_list_update)
    then have "lk_key (tc_id k) ((tp_links s)[i := l] ! tc_id k) = lk_key (tc_id k) (tp_links s ! tc_id k)" by simp
    with k show ?thesis by simp
  qed
  moreover have "t_link_ok (tp_serve s) conns j ((tp_links s)[i := l] ! j)" if "j < length (tp_links s)" for j
    using that new old [of j] by (cases "j = i") simp_all
  ultimately show ?thesis using ok by (simp add: t_table_ok_def)
qed

lemma t_table_set:
  assumes "t_table_ok s" and "i < length (tp_links s)" and "lk_addr (f (tp_links s ! i)) = lk_addr (tp_links s ! i)"
    and "t_link_ok (tp_serve s) (tp_conns s) i (f (tp_links s ! i))"
  shows "t_table_ok (set_link i f s)"
  using t_table_change [OF assms(1-3) _ assms(4)] t_table_link [OF assms(1)] by (simp add: set_link_def subset_insertI)

lemma t_link_ok_track: "t_link_ok v conns i l \<Longrightarrow> i \<noteq> tc_id k \<Longrightarrow> t_link_ok v (track k conns) i l"
  by (auto simp: t_link_ok_def track_def)

lemma t_link_ok_untrack: "t_link_ok v conns i l \<Longrightarrow> i \<noteq> tc_id k \<Longrightarrow> t_link_ok v (untrack k conns) i l"
  by (auto simp: t_link_ok_def untrack_def)

text \<open>Joining the pool, for accepted and for dialed links.\<close>

lemma t_table_track:
  assumes "t_table_ok s" and "i < length (tp_links s)" and "gossiping g" and "tp_serve s \<noteq> Adding i"
    and "t_stage_ok ((tp_links s ! i)\<lparr>lk_stage := g\<rparr>)"
  shows "t_table_ok (set_tstage i g (track_link i s))"
proof -
  let ?l = "(tp_links s ! i)\<lparr>lk_stage := g\<rparr>" and ?k = "lk_key i (tp_links s ! i)"
  have "t_poolable g" "g \<noteq> TFresh" using assms(3) by (cases g; simp)+
  then have "t_link_ok (tp_serve s) (track ?k (tp_conns s)) i ?l" using assms(3-5) by (simp add: t_link_ok_def track_def)
  moreover have "t_link_ok (tp_serve s) (track ?k (tp_conns s)) j (tp_links s ! j)" if "j < length (tp_links s)" "j \<noteq> i" for j
    by (rule t_link_ok_track) (use t_table_link [OF assms(1) that(1)] that(2) in simp_all)
  moreover have "set (track ?k (tp_conns s)) \<subseteq> insert ?k (set (tp_conns s))" by (auto simp: track_def)
  ultimately have "t_table_ok (s\<lparr>tp_conns := track ?k (tp_conns s), tp_links := (tp_links s)[i := ?l]\<rparr>)"
    by (intro t_table_change assms) simp_all
  then show ?thesis by (simp add: set_tstage_def set_link_def track_link_def)
qed

lemma t_table_untrack:
  assumes "t_table_ok s" and "i < length (tp_links s)" and "lk_stage (tp_links s ! i) = TLeaving (Untrack # as)"
  shows "t_table_ok (set_tstage i (TLeaving as) (untrack_link i s))"
proof -
  let ?l = "(tp_links s ! i)\<lparr>lk_stage := TLeaving as\<rparr>" and ?k = "lk_key i (tp_links s ! i)"
  have ok: "t_link_ok (tp_serve s) (tp_conns s) i (tp_links s ! i)" by (rule t_table_link) fact+
  then have l: "t_leaving_ok (tp_links s ! i) (Untrack # as)" using assms(3) by (simp add: t_link_ok_def t_stage_ok_def)
  then obtain bs where "t_exit (tp_links s ! i) = (bs @ [Untrack]) @ as" "CloseConn \<in> set (bs @ [Untrack]) \<longrightarrow> \<not> lk_open (tp_links s ! i)"
    by (auto simp: t_leaving_ok_def)
  then have "t_stage_ok ?l" unfolding t_stage_ok_def t_leaving_ok_def by (auto simp: t_exit_def)
  then have "t_link_ok (tp_serve s) (untrack ?k (tp_conns s)) i ?l"
    using ok assms(3) by (simp add: t_link_ok_def untrack_def)
  moreover have "t_link_ok (tp_serve s) (untrack ?k (tp_conns s)) j (tp_links s ! j)" if "j < length (tp_links s)" "j \<noteq> i" for j
    by (rule t_link_ok_untrack) (use t_table_link [OF assms(1) that(1)] that(2) in simp_all)
  ultimately have "t_table_ok (s\<lparr>tp_conns := untrack ?k (tp_conns s), tp_links := (tp_links s)[i := ?l]\<rparr>)"
    by (intro t_table_change assms) (auto simp: untrack_def)
  then show ?thesis by (simp add: set_tstage_def set_link_def untrack_link_def)
qed

lemma t_leaving_next:
  assumes "t_link_ok v conns i l" and "lk_stage l = TLeaving (a # as)" and "a \<noteq> Untrack"
  shows "t_link_ok v conns i (l\<lparr>lk_open := lk_open l \<and> a \<noteq> CloseConn, lk_stage := TLeaving as\<rparr>)"
proof -
  have l: "t_leaving_ok l (a # as)" using assms(1,2) by (simp add: t_link_ok_def t_stage_ok_def)
  then obtain bs where bs: "t_exit l = (bs @ [a]) @ as" "CloseConn \<in> set bs \<longrightarrow> \<not> lk_open l" by (auto simp: t_leaving_ok_def)
  have "t_exit (l\<lparr>lk_open := lk_open l \<and> a \<noteq> CloseConn, lk_stage := TLeaving as\<rparr>) = (bs @ [a]) @ as"
    using bs(1) by (simp add: t_exit_def)
  then have "t_stage_ok (l\<lparr>lk_open := lk_open l \<and> a \<noteq> CloseConn, lk_stage := TLeaving as\<rparr>)"
    using bs(2) unfolding t_stage_ok_def t_leaving_ok_def by (auto intro!: exI [where x = "bs @ [a]"])
  with assms show ?thesis using t_leaving_done(3) [OF l assms(3)] by (auto simp: t_link_ok_def)
qed

lemma t_leave_ok: "t_link_ok v conns i l \<Longrightarrow> lk_stage l \<noteq> TFresh \<Longrightarrow> t_link_ok v conns i (l\<lparr>lk_stage := TLeaving (t_exit l)\<rparr>)"
  by (auto simp: t_link_ok_def t_stage_ok_def t_leaving_ok_def t_exit_def)

lemma first_line_cases: "first_line join l \<in> {TJoinPool, TReadBody, TLeaving (t_exit l)}"
  by (simp add: first_line_def Let_def)

lemma t_read_ok:
  assumes "t_link_ok v conns i l" and "lk_stage l \<in> {TFirstLine, TReadEnv, TReadBody}"
  shows "t_link_ok v conns i (t_read join l)"
proof -
  have "lk_key i (t_read join l) = lk_key i l" "t_exit (t_read join l) = t_exit l" by (simp_all add: t_read_def lk_key_def t_exit_def)
  with assms first_line_cases [of join l] show ?thesis
    by (auto simp: t_link_ok_def t_stage_ok_def) (auto simp: t_read_def t_exit_def t_leaving_ok_def)
qed

lemma t_read_addr [simp]: "lk_addr (t_read join l) = lk_addr l"
  by (simp add: t_read_def)

lemma t_link_ok_closed: "t_link_ok v conns i l \<Longrightarrow> t_link_ok v conns i (l\<lparr>lk_open := False\<rparr>)"
  by (auto simp: t_link_ok_def t_stage_ok_def t_leaving_ok_def t_exit_def split: tstage.splits)

lemma t_table_closeAll: "t_table_ok s \<Longrightarrow> t_table_ok (closeAll s)"
  by (auto simp: t_table_ok_def nth_closeAll t_link_ok_closed)

lemma t_not_adding: "t_table_ok s \<Longrightarrow> i < length (tp_links s) \<Longrightarrow> lk_stage (tp_links s ! i) \<noteq> TFresh \<Longrightarrow> tp_serve s \<noteq> Adding i"
  using t_table_link [of s i] by (auto simp: t_link_ok_def)

lemma t_table_leave:
  "t_table_ok s \<Longrightarrow> i < length (tp_links s) \<Longrightarrow> lk_stage (tp_links s ! i) \<noteq> TFresh \<Longrightarrow> t_table_ok (t_leave i s)"
  unfolding t_leave_def by (rule t_table_set) (simp_all add: t_leave_ok t_table_link)

lemma t_table_defer:
  assumes "t_table_ok s" and "i < length (tp_links s)" and "lk_stage (tp_links s ! i) = TLeaving (a # as)" and "a \<noteq> Untrack"
  shows "t_table_ok (set_tstage i (TLeaving as) (t_deferred a i s))"
proof -
  have "t_table_ok (set_link i (\<lambda>l. l\<lparr>lk_open := lk_open l \<and> a \<noteq> CloseConn, lk_stage := TLeaving as\<rparr>) s)" (is "t_table_ok ?t")
    by (rule t_table_set) (use assms t_table_link [OF assms(1,2)] t_leaving_next in simp_all)
  moreover have "set_tstage i (TLeaving as) (t_deferred a i s) = ?t" if "a = CloseConn"
    using that assms(2) by (simp add: set_tstage_def set_link_twice)
  moreover have "set_tstage i (TLeaving as) (t_deferred a i s) = ?t\<lparr>tp_wg := tp_wg s - 1\<rparr>" if "a = WgDone"
    using that by (simp add: set_tstage_def set_link_def)
  ultimately show ?thesis using assms(4) by (cases a) (simp_all add: t_table_ok_def)
qed

lemma t_step_table:
  assumes "t_step s t" and "t_table_ok s" and "t_phase_ok s"
  shows "t_table_ok t"
  using assms
proof (induction rule: t_step.induct)
  case (t_accept s l ls)
  then have l: "lk_stage l = TFresh" "lk_addr l = []" by (simp_all add: t_phase_ok_def)
  have "lk_key (length (tp_links s)) l \<notin> set (tp_conns s)" using t_accept by (auto simp: t_table_ok_def)
  with l t_accept show ?case by (auto simp: t_table_ok_def t_link_ok_def t_stage_ok_def nth_append less_Suc_eq)
next
  case (t_watch_conns s)
  then have "t_table_ok (closeAll s)" by (simp add: t_table_closeAll)
  then show ?case by (simp add: t_table_ok_def)
next
  case (t_close_conns s)
  then have "t_table_ok (closeAll s)" by (simp add: t_table_closeAll)
  then show ?case by (simp add: t_table_ok_def)
next
  case (t_start s i)
  then have i: "i < length (tp_links s)" by (simp add: t_table_ok_def)
  have "t_link_ok Accepting (tp_conns s) j (tp_links (set_tstage i TFirstLine s) ! j)" if "j < length (tp_links s)" for j
    using t_table_link [OF t_start(2) that] t_start(1) that by (auto simp: set_tstage_def nth_set_link t_link_ok_def t_stage_ok_def)
  moreover have "k = lk_key (tc_id k) (tp_links (set_tstage i TFirstLine s) ! tc_id k)" if "k \<in> set (tp_conns s)" for k
    using t_start(2) that by (auto simp: t_table_ok_def set_tstage_def nth_set_link)
  ultimately show ?case using t_start by (auto simp: t_table_ok_def set_tstage_def)
next
  case (t_reads i s)
  then show ?case by (intro t_table_set) (simp_all add: t_read_ok t_table_link)
next
  case (t_join_pool i s)
  then show ?case using t_not_adding [of s i] by (intro t_table_track) (simp_all add: t_stage_ok_def)
next
  case (t_dial_track i s)
  then show ?case using t_not_adding [of s i] t_table_link [of s i]
    by (intro t_table_track) (simp_all add: t_stage_ok_def t_link_ok_def)
next
  case (t_dial_fails i s)
  then show ?case using t_table_link [of s i]
    by (intro t_table_set) (simp_all add: t_link_ok_def t_stage_ok_def t_leaving_ok_def)
next
  case (t_dial_start i s)
  then have "t_table_ok (set_link i (\<lambda>l. l\<lparr>lk_stage := TCheckCtx\<rparr>) s)" using t_table_link [of s i]
    by (intro t_table_set) (auto simp: t_link_ok_def t_stage_ok_def)
  then show ?case by (simp add: set_tstage_def t_table_ok_def)
next
  case (t_check_ctx i s)
  then have "t_table_ok (set_link i (\<lambda>l. l\<lparr>lk_stage := TReadEnv\<rparr>) s)" using t_table_link [of s i]
    by (intro t_table_set) (auto simp: t_link_ok_def t_stage_ok_def)
  with t_check_ctx show ?case by (simp add: set_tstage_def t_table_leave)
next
  case (t_defer i s a as)
  then show ?case using t_table_untrack [of s i as] t_table_defer [of s i a as] by (cases "a = Untrack") simp_all
next
  case (t_read_fails i s)
  then show ?case by (intro t_table_leave) auto
qed (auto simp: t_table_ok_def t_accept_failed_def t_link_ok_def)

lemma t_outside_table:
  assumes "t_outside w s t" and "t_table_ok s"
  shows "t_table_ok t"
  using assms
proof (induction rule: t_outside.induct)
  case (t_send i s x)
  then show ?case using t_table_link [of s i]
    by (intro t_table_set) (auto simp: t_link_ok_def t_stage_ok_def t_leaving_ok_def t_exit_def split: tstage.split)
next
  case (t_hangup i s)
  then show ?case using t_table_link [of s i]
    by (intro t_table_set) (auto simp: t_link_ok_def t_stage_ok_def t_leaving_ok_def t_exit_def split: tstage.split)
next
  case (t_write_failed i s)
  then show ?case by (intro t_table_set) (simp_all add: t_link_ok_closed t_table_link)
next
  case (t_dial s addr)
  then have "\<forall>l. lk_key (length (tp_links s)) l \<notin> set (tp_conns s)" by (auto simp: t_table_ok_def)
  with t_dial show ?case by (auto simp: t_table_ok_def t_link_ok_def t_stage_ok_def nth_append less_Suc_eq)
qed (auto simp: t_table_ok_def t_accept_failed_def t_link_ok_def t_close_listener_def)

lemma t_swept_set:
  "t_swept s \<Longrightarrow> i < length (tp_links s) \<Longrightarrow>
     (lk_stage (f (tp_links s ! i)) = TReadEnv \<Longrightarrow> lk_open (f (tp_links s ! i)) \<Longrightarrow> lk_stage (tp_links s ! i) = TReadEnv \<and> lk_open (tp_links s ! i)) \<Longrightarrow>
     t_swept (set_link i f s)"
  unfolding t_swept_def by (auto simp: set_link_def intro!: list_all_update)

lemma t_step_swept:
  assumes "t_step s t" and "t_swept s" and "t_table_ok s" and "t_phase_ok s"
  shows "t_swept t"
  using assms
proof (induction rule: t_step.induct)
  case (t_watch_conns s)
  have "\<not> lk_open (tp_links (closeAll s) ! i)" if i: "i < length (tp_links s)" "lk_stage (tp_links (closeAll s) ! i) = TReadEnv" for i
    using i t_table_link [OF t_watch_conns(3) i(1)] by (auto simp: nth_closeAll t_link_ok_def split: if_splits)
  then show ?case by (simp add: t_swept_def list_all_length)
next
  case (t_close_conns s)
  then show ?case by (auto simp: t_swept_def list_all_length nth_closeAll)
next
  case (t_accept s l ls)
  then show ?case by (auto simp: t_swept_def t_phase_ok_def)
next
  case (t_start s i)
  then have "t_swept (set_tstage i TFirstLine s)" unfolding set_tstage_def by (intro t_swept_set) (auto simp: t_table_ok_def)
  then show ?case by (simp add: t_swept_def set_tstage_def)
next
  case (t_reads i s)
  then show ?case using first_line_cases [of "tp_Join s" "tp_links s ! i"] by (intro t_swept_set) (auto simp: t_read_def)
next
  case (t_join_pool i s)
  then have "t_swept (track_link i s)" by (simp add: t_swept_def)
  with t_join_pool show ?case unfolding set_tstage_def by (intro t_swept_set) simp_all
next
  case (t_dial_track i s)
  then have "t_swept (track_link i s)" by (simp add: t_swept_def)
  with t_dial_track show ?case unfolding set_tstage_def by (intro t_swept_set) simp_all
next
  case (t_dial_start i s)
  then have "t_swept (set_tstage i TCheckCtx s)" unfolding set_tstage_def by (intro t_swept_set) simp_all
  then show ?case by (simp add: t_swept_def set_tstage_def)
next
  case (t_check_ctx i s)
  show ?case
  proof (cases "tp_ctx s")
    case True
    with t_check_ctx show ?thesis unfolding t_leave_def by (auto intro!: t_swept_set)
  next
    case False
    then have "tp_watch s = Watching" using t_check_ctx by (auto simp: t_phase_ok_def)
    with False show ?thesis by (simp add: t_swept_def set_tstage_def)
  qed
next
  case (t_defer i s a as)
  then have "t_swept (t_deferred a i s)" by (cases a) (auto simp: t_swept_def intro: t_swept_set [unfolded t_swept_def, rule_format])
  with t_defer show ?case unfolding set_tstage_def by (intro t_swept_set) simp_all
next
  case (t_read_fails i s)
  then show ?case unfolding t_leave_def by (intro t_swept_set) auto
next
  case (t_dial_fails i s)
  then show ?case by (intro t_swept_set) auto
qed (auto simp: t_swept_def)

lemma t_outside_swept: "t_outside w s t \<Longrightarrow> t_swept s \<Longrightarrow> t_swept t"
proof (induction rule: t_outside.induct)
  case (t_dial s addr)
  then show ?case by (simp add: t_swept_def)
qed (auto intro: t_swept_set, auto simp: t_swept_def)

definition t_inv :: "tpool \<Rightarrow> bool" where
  "t_inv s \<longleftrightarrow> tp_wg s = t_handled s \<and> t_table_ok s \<and> t_phase_ok s \<and> t_swept s"

lemma t_step_inv: "t_step s t \<Longrightarrow> t_inv s \<Longrightarrow> t_inv t"
  by (auto simp: t_inv_def intro: t_step_counts t_step_table t_step_phase t_step_swept)

lemma t_outside_inv: "t_outside w s t \<Longrightarrow> t_inv s \<Longrightarrow> t_inv t"
  by (auto simp: t_inv_def intro: t_outside_counts t_outside_table t_outside_phase t_outside_swept)

lemma t_reach_inv: "t_reach s \<Longrightarrow> t_inv s"
proof (induction rule: t_reach.induct)
  case (t_reach_init join)
  show ?case by (simp add: t_inv_def t_handled_def t_table_ok_def t_phase_ok_def t_swept_def transport_Start_def)
qed (blast intro: t_step_inv t_outside_inv)+

lemma t_running_counted: "t_inv s \<Longrightarrow> i < length (tp_links s) \<Longrightarrow> t_running (lk_stage (tp_links s ! i)) \<Longrightarrow> 0 < tp_wg s"
  using sum_map_mem [of i "tp_links s" "\<lambda>l. of_bool (t_running (lk_stage l))"] by (simp add: t_inv_def t_handled_def)

lemma t_none_running:
  assumes "t_inv s" and "\<And>i. i < length (tp_links s) \<Longrightarrow> \<not> t_running (lk_stage (tp_links s ! i))"
  shows "tp_wg s = 0"
proof -
  have "\<not> t_running (lk_stage l)" if "l \<in> set (tp_links s)" for l using that assms(2) by (auto simp: in_set_conv_nth)
  then have "t_handled s = 0" by (simp add: t_handled_def)
  with assms(1) show ?thesis by (simp add: t_inv_def)
qed

section \<open>Closing\<close>

fun t_stage_rank :: "tstage \<Rightarrow> nat" where
  "t_stage_rank TFresh = 9"
| "t_stage_rank TFirstLine = 8"
| "t_stage_rank TDialed = 7"
| "t_stage_rank TDialAdd = 6"
| "t_stage_rank TJoinPool = 6"
| "t_stage_rank TCheckCtx = 5"
| "t_stage_rank TReadEnv = 4"
| "t_stage_rank TReadBody = 4"
| "t_stage_rank (TLeaving as) = length as"

definition t_link_rank :: "tlink \<Rightarrow> nat" where
  "t_link_rank l = t_stage_rank (lk_stage l) + 2 * length (lk_in l)"

definition t_rank :: "tpool \<Rightarrow> nat" where
  "t_rank s = sum_list (map t_link_rank (tp_links s)) + sum_list (map (\<lambda>l. 14 + 2 * length (lk_in l)) (tp_backlog s)) +
     (case tp_watch s of Watching \<Rightarrow> 2 | ClosingConns \<Rightarrow> 1 | Watched \<Rightarrow> 0) +
     (case tp_serve s of Tracking _ \<Rightarrow> 4 | Adding _ \<Rightarrow> 3 | Accepting \<Rightarrow> 2 | Draining \<Rightarrow> 1 | ServeReturned _ \<Rightarrow> 0) +
     (case tp_close s of ClosingTable \<Rightarrow> 2 | Waiting \<Rightarrow> 1 | _ \<Rightarrow> 0)"

lemma t_rank_set:
  "i < length (tp_links s) \<Longrightarrow> t_link_rank (f (tp_links s ! i)) < t_link_rank (tp_links s ! i) \<Longrightarrow> t_rank (set_link i f s) < t_rank s"
  using sum_map_decrease [of i "tp_links s" t_link_rank "f (tp_links s ! i)"] by (simp add: t_rank_def set_link_def)

lemma t_rank_fields [simp]:
  "t_rank (track_link i s) = t_rank s" "t_rank (untrack_link i s) = t_rank s" "t_rank (s\<lparr>tp_wg := n\<rparr>) = t_rank s"
  by (simp_all add: t_rank_def track_link_def untrack_link_def)

lemma t_rank_closeAll: "t_rank (closeAll s) = t_rank s"
proof -
  have "map t_link_rank (map (\<lambda>(i, l). if lk_key i l \<in> set (tp_conns s) then l\<lparr>lk_open := False\<rparr> else l) (enumerate 0 (tp_links s))) =
      map t_link_rank (tp_links s)"
    by (rule map_enumerate_same) (simp add: t_link_rank_def)
  then show ?thesis by (simp add: t_rank_def closeAll_def del: map_map)
qed

lemma t_exit_length [simp]: "length (t_exit l) = 3"
  by (simp add: t_exit_def)

lemma t_rank_leave: "i < length (tp_links s) \<Longrightarrow> 3 < t_stage_rank (lk_stage (tp_links s ! i)) \<Longrightarrow> t_rank (t_leave i s) < t_rank s"
  unfolding t_leave_def by (rule t_rank_set) (simp_all add: t_link_rank_def)

lemma t_rank_stage: "i < length (tp_links s) \<Longrightarrow> t_stage_rank g < t_stage_rank (lk_stage (tp_links s ! i)) \<Longrightarrow> t_rank (set_tstage i g s) < t_rank s"
  unfolding set_tstage_def by (rule t_rank_set) (simp_all add: t_link_rank_def)

lemma t_read_rank:
  "lk_stage l \<in> {TFirstLine, TReadEnv, TReadBody} \<Longrightarrow> lk_in l \<noteq> [] \<Longrightarrow> t_link_rank (t_read join l) < t_link_rank l"
  using first_line_cases [of join l] by (cases "lk_in l") (auto simp: t_link_rank_def t_read_def)

lemma t_step_rank: "t_step s t \<Longrightarrow> t_inv s \<Longrightarrow> t_rank t < t_rank s"
proof (induction rule: t_step.induct)
  case (t_watch_conns s)
  then show ?case using t_rank_closeAll [of s] by (simp add: t_rank_def)
next
  case (t_close_conns s)
  then show ?case using t_rank_closeAll [of s] by (simp add: t_rank_def)
next
  case (t_accept s l ls)
  then show ?case by (simp add: t_rank_def t_link_rank_def t_inv_def t_phase_ok_def)
next
  case (t_start s i)
  then have i: "i < length (tp_links s)" "lk_stage (tp_links s ! i) = TFresh"
    using t_table_link [of s i] by (simp_all add: t_inv_def t_table_ok_def t_link_ok_def)
  have "t_rank (set_tstage i TFirstLine s) < t_rank s" by (rule t_rank_stage) (use i in simp_all)
  with t_start show ?case by (simp add: t_rank_def set_tstage_def)
next
  case (t_reads i s)
  then show ?case by (intro t_rank_set t_read_rank)
next
  case (t_join_pool i s)
  then show ?case using t_rank_stage [of i "track_link i s" TCheckCtx] by simp
next
  case (t_dial_track i s)
  then show ?case using t_rank_stage [of i "track_link i s" TDialAdd] by simp
next
  case (t_dial_start i s)
  then show ?case using t_rank_stage [of i s TCheckCtx] by simp
next
  case (t_check_ctx i s)
  then show ?case using t_rank_stage [of i s TReadEnv] t_rank_leave [of i s] by simp
next
  case (t_dial_fails i s)
  then show ?case by (intro t_rank_set) (simp_all add: t_link_rank_def)
next
  case (t_read_fails i s)
  then show ?case by (intro t_rank_leave) auto
next
  case (t_defer i s a as)
  have "t_rank (t_deferred a i s) = t_rank s"
    using t_defer(1) sum_map_keep [of i "tp_links s" t_link_rank "(tp_links s ! i)\<lparr>lk_open := False\<rparr>"]
    by (cases a) (simp_all add: t_rank_def set_link_def t_link_rank_def)
  moreover have "lk_stage (tp_links (t_deferred a i s) ! i) = TLeaving (a # as)"
    using t_defer(1,2) by (cases a) (simp_all add: nth_set_link)
  ultimately show ?case using t_rank_stage [of i "t_deferred a i s" "TLeaving as"] t_defer(1) by simp
qed (simp_all add: t_rank_def t_accept_failed_def t_close_listener_def)

text \<open>A connection whose peer is silent before it has said what it wants, or before the body of a join.\<close>

definition idle_link :: "tlink \<Rightarrow> bool" where
  "idle_link l \<longleftrightarrow> lk_stage l \<in> {TFirstLine, TReadBody} \<and> lk_open l \<and> lk_in l = [] \<and> \<not> lk_eof l"

definition t_good :: "tpool \<Rightarrow> bool" where
  "t_good s \<longleftrightarrow> t_inv s \<and> tp_ctx s \<and> tp_close s \<noteq> NotCalled"

lemma t_step_called: "t_step s t \<Longrightarrow> tp_ctx t = tp_ctx s \<and> (tp_close t = NotCalled \<longrightarrow> tp_close s = NotCalled)"
  by (induction rule: t_step.induct) (auto simp: t_leave_def set_tstage_def)

lemma t_good_step: "t_step s t \<Longrightarrow> t_good s \<Longrightarrow> t_good t"
  using t_step_inv [of s t] t_step_called [of s t] by (auto simp: t_good_def)

lemma t_stuck:
  assumes "t_good s" and "\<nexists>t. t_step s t"
  shows "tp_close s = Closed \<or> list_ex idle_link (tp_links s)"
proof (rule disjCI)
  assume busy: "\<not> list_ex idle_link (tp_links s)"
  have none: "t_step s t \<Longrightarrow> False" for t using assms(2) by blast
  have w: "tp_watch s = Watched"
    using none [OF t_watch_listener] none [OF t_watch_conns] assms(1) by (cases "tp_watch s") (auto simp: t_good_def)
  have "\<not> t_running (lk_stage (tp_links s ! i))" if i: "i < length (tp_links s)" for i
  proof
    assume run: "t_running (lk_stage (tp_links s ! i))"
    have idle: "\<not> idle_link (tp_links s ! i)" using busy i by (auto simp: list_ex_length)
    have swept: "\<not> lk_open (tp_links s ! i)" if "lk_stage (tp_links s ! i) = TReadEnv"
      using assms(1) w i that by (auto simp: t_good_def t_inv_def t_swept_def list_all_length)
    show False
    proof (cases "lk_stage (tp_links s ! i)")
      case (TLeaving as)
      with run none [OF t_defer [OF i]] show False by (cases as) auto
    qed (use run idle swept none [OF t_reads [OF i]] none [OF t_read_fails [OF i]] none [OF t_join_pool [OF i]]
        none [OF t_check_ctx [OF i]] in \<open>auto simp: idle_link_def\<close>)
  qed
  then have z: "tp_wg s = 0" using assms(1) by (intro t_none_running) (auto simp: t_good_def)
  show "tp_close s = Closed"
    using none [OF t_close_conns] none [OF t_closed] z assms(1) by (cases "tp_close s") (auto simp: t_good_def)
qed

interpretation transport: drain t_step t_good t_rank "\<lambda>s. tp_close s = Closed" "\<lambda>s. list_ex idle_link (tp_links s)"
proof
  show "t_good s \<Longrightarrow> t_step s t \<Longrightarrow> t_rank t < t_rank s" for s t using t_step_rank by (simp add: t_good_def)
qed (use t_good_step t_stuck in blast)+

text \<open>
  Closing the transport ends, unless a peer is silent. After the context is cancelled and \<open>Close\<close> is called, every
  run of the server's own steps, however its goroutines are scheduled and whatever the peers sent before, is at most
  \<open>t_rank\<close> steps long; where it can go no further, \<open>Close\<close> has returned or some connection is still waiting for its
  first line or for the body of a join. No gossip link can be the reason, in whichever order a link joins the pool,
  the pool is swept and the context is tested: a link that waits for an envelope after the sweep is closed.
\<close>

theorem transport_close_ends:
  assumes "t_reach s" and "tp_ctx s" and "tp_close s \<noteq> NotCalled"
  shows "(\<exists>t. t_step\<^sup>*\<^sup>* s t \<and> (tp_close t = Closed \<or> list_ex idle_link (tp_links t))) \<and>
    (\<forall>n t. (t_step ^^ n) s t \<longrightarrow> n \<le> t_rank s \<and>
       ((\<nexists>u. t_step t u) \<longrightarrow> tp_close t = Closed \<or> list_ex idle_link (tp_links t))) \<and>
    (tp_watch s = Watched \<longrightarrow> list_all (\<lambda>l. lk_stage l = TReadEnv \<longrightarrow> \<not> lk_open l) (tp_links s))"
proof (intro conjI)
  have inv: "t_inv s" by (rule t_reach_inv) fact
  then have good: "t_good s" using assms by (simp add: t_good_def)
  show "\<exists>t. t_step\<^sup>*\<^sup>* s t \<and> (tp_close t = Closed \<or> list_ex idle_link (tp_links t))" using transport.reaches_end [OF good] by blast
  show "\<forall>n t. (t_step ^^ n) s t \<longrightarrow> n \<le> t_rank s \<and> ((\<nexists>u. t_step t u) \<longrightarrow> tp_close t = Closed \<or> list_ex idle_link (tp_links t))"
    using transport.run_ends [OF good] by blast
  show "tp_watch s = Watched \<longrightarrow> list_all (\<lambda>l. lk_stage l = TReadEnv \<longrightarrow> \<not> lk_open l) (tp_links s)"
    using inv by (simp add: t_inv_def t_swept_def)
qed


text \<open>Joining the pool is what \<open>handleInbound\<close> reports as tracked.\<close>

lemma first_line_tracks:
  assumes "lk_in l = x # xs" and "NL \<notin> set x" and "input = concat (map (\<lambda>x. x @ [NL]) (x # xs))"
  shows "se_tracked (handleInbound c sc etext rnd s input d) \<longleftrightarrow> first_line join l = TJoinPool"
proof -
  have "complete_lines input = x # complete_lines (concat (map (\<lambda>x. x @ [NL]) xs))"
    using assms(2,3) by (simp add: complete_lines_line)
  then show ?thesis using assms(1) by (simp add: handleInbound_def first_line_def Let_def split: prod.splits)
qed

section \<open>A silent peer\<close>

definition t_without :: "nat \<Rightarrow> tpool \<Rightarrow> tpool \<Rightarrow> bool" where
  "t_without i s t \<longleftrightarrow> t_step s t \<or> (\<exists>w. w \<noteq> Some i \<and> t_outside w s t)"

definition t_held :: "nat \<Rightarrow> tpool \<Rightarrow> bool" where
  "t_held i s \<longleftrightarrow> t_inv s \<and> i < length (tp_links s) \<and> idle_link (tp_links s ! i)"

lemma t_held_not_pooled: "t_held i s \<Longrightarrow> lk_key i (tp_links s ! i) \<notin> set (tp_conns s)"
  using t_table_link [of s i] by (auto simp: t_held_def t_inv_def idle_link_def t_link_ok_def)

lemma t_held_wg: "t_held i s \<Longrightarrow> 0 < tp_wg s"
  using t_running_counted [of s i] by (auto simp: t_held_def idle_link_def)

lemma t_held_step:
  assumes "t_step s t" and "t_held i s"
  shows "t_held i t \<and> (tp_close t = Closed \<longrightarrow> tp_close s = Closed) \<and> (tp_serve t = ServeReturned True \<longrightarrow> tp_serve s = ServeReturned True)"
proof -
  have "t_inv t" using assms t_step_inv by (simp add: t_held_def)
  with assms t_held_wg [OF assms(2)] t_held_not_pooled [OF assms(2)] show ?thesis
  proof (induction rule: t_step.induct)
    case (t_defer j s a as)
    then have "j \<noteq> i" by (auto simp: t_held_def idle_link_def)
    moreover have "tp_links (t_deferred a j s) ! i = tp_links s ! i" using \<open>j \<noteq> i\<close> by (cases a) (simp_all add: set_link_def)
    ultimately show ?case using t_defer by (simp add: t_held_def set_tstage_def nth_set_link)
  qed (auto simp: t_held_def idle_link_def nth_set_link nth_append t_leave_def set_tstage_def t_accept_failed_def nth_closeAll)
qed

lemma t_held_outside:
  assumes "t_outside w s t" and "w \<noteq> Some i" and "t_held i s"
  shows "t_held i t \<and> (tp_close t = Closed \<longrightarrow> tp_close s = Closed) \<and> (tp_serve t = ServeReturned True \<longrightarrow> tp_serve s = ServeReturned True)"
proof -
  have "t_inv t" using assms t_outside_inv by (simp add: t_held_def)
  with assms t_held_not_pooled [OF assms(3)] show ?thesis
    by (induction rule: t_outside.induct) (auto simp: t_held_def nth_set_link nth_append t_accept_failed_def split: if_splits)
qed

lemma t_held_forever:
  assumes "(t_without i)\<^sup>*\<^sup>* s t" and "t_held i s"
  shows "t_held i t \<and> (tp_close t = Closed \<longrightarrow> tp_close s = Closed) \<and> (tp_serve t = ServeReturned True \<longrightarrow> tp_serve s = ServeReturned True)"
  using assms by (induction rule: rtranclp_induct) (auto simp: t_without_def dest: t_held_step t_held_outside)

text \<open>
  One silent connection keeps the daemon from stopping. While a peer that connected to the gossip port sends
  nothing, neither \<open>Close\<close> nor \<open>Serve\<close> returns, whatever the server and everybody else do: cancellation and \<open>Close\<close> only
  close the connections of the pool, and this one is not in it.
\<close>

theorem silent_peer_blocks_close:
  assumes "t_reach s" and "i < length (tp_links s)" and "idle_link (tp_links s ! i)"
    and "tp_close s \<noteq> Closed" and "tp_serve s \<noteq> ServeReturned True" and "(t_without i)\<^sup>*\<^sup>* s t"
  shows "tp_close t \<noteq> Closed \<and> tp_serve t \<noteq> ServeReturned True \<and> lk_open (tp_links t ! i)"
proof -
  have "t_held i s" using t_reach_inv [OF assms(1)] assms(2,3) by (simp add: t_held_def)
  from t_held_forever [OF assms(6) this] assms(4,5) show ?thesis by (auto simp: t_held_def idle_link_def)
qed

section \<open>Two connections\<close>

text \<open>A peer that connected and asked for gossip, and one that connected and says nothing; then the daemon is stopped.\<close>

definition gossip_peer :: tlink where
  "gossip_peer = new_tlink\<lparr>lk_in := [''GOSSIP'']\<rparr>"

definition accepted :: "tlink \<Rightarrow> tpool" where
  "accepted l = (transport_Start True)\<lparr>tp_links := [l\<lparr>lk_stage := TFirstLine\<rparr>], tp_wg := 1\<rparr>"

definition stopping :: "tlink \<Rightarrow> tpool" where
  "stopping l = (accepted l)\<lparr>tp_ctx := True, tp_listener := False, tp_close := ClosingTable\<rparr>"

lemma t_reach_steps: "t_step\<^sup>*\<^sup>* s t \<Longrightarrow> t_reach s \<Longrightarrow> t_reach t"
  by (induction rule: rtranclp_induct) (blast intro: t_reach_step)+

lemma accepted_steps: "t_step\<^sup>*\<^sup>* ((transport_Start True)\<lparr>tp_backlog := [l]\<rparr>) (accepted l)"
proof -
  let ?q = "(transport_Start True)\<lparr>tp_backlog := [l]\<rparr>"
  let ?s1 = "?q\<lparr>tp_backlog := [], tp_links := tp_links ?q @ [l], tp_serve := Adding (length (tp_links ?q))\<rparr>"
  let ?s2 = "(set_tstage 0 TFirstLine ?s1)\<lparr>tp_wg := tp_wg ?s1 + 1, tp_serve := Accepting\<rparr>"
  have "t_step ?q ?s1" by (rule t_accept) (simp_all add: transport_Start_def)
  moreover have "t_step ?s1 ?s2" by (rule t_start) (simp add: transport_Start_def)
  moreover have "?s2 = accepted l" by (simp add: accepted_def transport_Start_def set_tstage_def set_link_def)
  ultimately show ?thesis by (metis r_into_rtranclp rtranclp.rtrancl_into_rtrancl)
qed

lemmas accepted_reach = t_reach_steps [OF accepted_steps]

lemma stopping_reach: "t_reach (accepted l) \<Longrightarrow> t_reach (stopping l)"
proof -
  assume a: "t_reach (accepted l)"
  let ?s = "(accepted l)\<lparr>tp_ctx := True\<rparr>"
  have "t_reach ?s" by (rule t_reach_outside [OF a t_cancel])
  moreover have "t_outside None ?s ((t_close_listener ?s)\<lparr>tp_close := ClosingTable\<rparr>)"
    by (rule t_call_close) (simp add: accepted_def transport_Start_def)
  ultimately have "t_reach ((t_close_listener ?s)\<lparr>tp_close := ClosingTable\<rparr>)" by (rule t_reach_outside)
  then show ?thesis by (simp add: stopping_def accepted_def transport_Start_def t_close_listener_def)
qed

lemma queued_reach: "t_reach ((transport_Start True)\<lparr>tp_backlog := [new_tlink]\<rparr>)"
proof -
  have "t_outside None (transport_Start True) ((transport_Start True)\<lparr>tp_backlog := tp_backlog (transport_Start True) @ [new_tlink]\<rparr>)"
    by (rule t_connect) (simp add: transport_Start_def)
  from t_reach_outside [OF t_reach_init this] show ?thesis by (simp add: transport_Start_def)
qed

lemma gossip_peer_reach: "t_reach ((transport_Start True)\<lparr>tp_backlog := [gossip_peer]\<rparr>)"
proof -
  let ?s = "(transport_Start True)\<lparr>tp_backlog := [new_tlink]\<rparr>"
  have "t_outside None ?s (?s\<lparr>tp_backlog := (tp_backlog ?s)[0 := (tp_backlog ?s ! 0)\<lparr>lk_in := lk_in (tp_backlog ?s ! 0) @ [''GOSSIP'']\<rparr>]\<rparr>)"
    by (rule t_queue_send) (simp_all add: new_tlink_def)
  from t_reach_outside [OF queued_reach this] show ?thesis by (simp add: gossip_peer_def new_tlink_def)
qed

theorem transport_close_ends_witness:
  "\<exists>t. t_step\<^sup>*\<^sup>* (stopping gossip_peer) t \<and> (tp_close t = Closed \<or> list_ex idle_link (tp_links t))"
  using transport_close_ends [OF stopping_reach [OF accepted_reach [OF gossip_peer_reach]]] by (simp add: stopping_def)

theorem silent_peer_blocks_close_witness:
  "idle_link (tp_links (stopping new_tlink) ! 0) \<and> tp_close ((closeAll (stopping new_tlink))\<lparr>tp_close := Waiting\<rparr>) \<noteq> Closed \<and>
     lk_open (tp_links ((closeAll (stopping new_tlink))\<lparr>tp_close := Waiting\<rparr>) ! 0)"
proof -
  let ?s = "stopping new_tlink"
  have idle: "0 < length (tp_links ?s)" "idle_link (tp_links ?s ! 0)" "tp_close ?s \<noteq> Closed" "tp_serve ?s \<noteq> ServeReturned True"
    by (simp_all add: stopping_def accepted_def transport_Start_def new_tlink_def idle_link_def)
  have "t_step ?s ((closeAll ?s)\<lparr>tp_close := Waiting\<rparr>)" by (rule t_close_conns) (simp add: stopping_def)
  then have "(t_without 0)\<^sup>*\<^sup>* ?s ((closeAll ?s)\<lparr>tp_close := Waiting\<rparr>)" by (auto simp: t_without_def)
  from silent_peer_blocks_close [OF stopping_reach [OF accepted_reach [OF queued_reach]] idle this] idle(2) show ?thesis by simp
qed

text \<open>The first peer in the pool: its line is read, then it is tracked.\<close>

definition pooled :: tpool where
  "pooled = (accepted gossip_peer)\<lparr>tp_links := [new_tlink\<lparr>lk_stage := TCheckCtx\<rparr>], tp_conns := [lk_key 0 new_tlink]\<rparr>"

lemma pooled_reach: "t_reach pooled"
proof -
  let ?a = "accepted gossip_peer"
  let ?s1 = "set_link 0 (t_read (tp_Join ?a)) ?a"
  have l: "first_line True (gossip_peer\<lparr>lk_stage := TFirstLine\<rparr>) = TJoinPool" by code_simp
  have "t_step ?a ?s1" by (rule t_reads) (simp_all add: accepted_def gossip_peer_def)
  then have r: "t_reach ?s1" using accepted_reach [OF gossip_peer_reach] by (blast intro: t_reach_step)
  have s1: "?s1 = ?a\<lparr>tp_links := [new_tlink\<lparr>lk_stage := TJoinPool\<rparr>]\<rparr>"
    using l by (simp add: accepted_def set_link_def t_read_def transport_Start_def gossip_peer_def new_tlink_def)
  have "t_step ?s1 (set_tstage 0 TCheckCtx (track_link 0 ?s1))" unfolding s1 by (rule t_join_pool) simp_all
  with r have "t_reach (set_tstage 0 TCheckCtx (track_link 0 ?s1))" by (rule t_reach_step)
  then show ?thesis unfolding s1
    by (simp add: pooled_def set_tstage_def set_link_def track_link_def track_def accepted_def transport_Start_def)
qed


end
