(* ===== verification/Run.thy ===== *)
theory Run
  imports ControlServer TransportServer Script ControlClient Join
begin

text \<open>
  \<open>Run\<close> of \<open>src/internal/daemon/daemon.go\<close> as a whole: \<open>Run_begin\<close> is everything up to the start of the goroutines, with
  the deferred removals of each failing path; the two servers then run side by side until the context is cancelled,
  and \<open>Run_end\<close> of \<open>Script\<close> follows when both have ended. The smaller goroutines (signals, dialling) are here too.
\<close>

section \<open>Starting\<close>

text \<open>What \<open>Run\<close> gets from outside: whether the gossip address can be bound, processes, random bytes, its process, the kernel.\<close>

record runenv =
  rw_listens :: bool
  rw_exec :: exec
  rw_rand :: "bytes option"
  rw_pid :: int
  rw_chmod :: "os_error option"
  rw_abi :: int
  rw_fails :: "syscall \<Rightarrow> bool"
  rw_userDB :: "string \<Rightarrow> (string \<times> string) option"

datatype run_error =
    RunLoad daemon_error | RunListen | RunAnnounce gossip_error | RunRandom | RunPIDFile os_error | RunSocket os_error
  | RunSandbox sandbox_error

definition gossipAddr :: "string \<Rightarrow> string" where
  "gossipAddr flag = (if flag \<noteq> [] then flag else '':51820'')"

text \<open>\<open>bound\<close> is the address of the listener, if it was started.\<close>

definition LocalGossipAddr :: "string option \<Rightarrow> string" where
  "LocalGossipAddr bound = (case bound of None \<Rightarrow> [] | Some a \<Rightarrow> a)"

definition Run_begin ::
    "runenv \<Rightarrow> 'r denv \<Rightarrow> (nat \<Rightarrow> int) \<Rightarrow> string \<Rightarrow> 'r daemon \<Rightarrow> 'r daemon \<times> process list \<times> (run_error, string \<times> syscall list) result" where
  "Run_begin w env now runDir d =
     (case d_load env d of
        (d, Some e) \<Rightarrow> (d, [], Inl (RunLoad e))
      | (d, None) \<Rightarrow>
     (if \<not> rw_listens w then (d, [], Inl RunListen)
      else
     (case announceLocal env now (d\<lparr>d_plane := new_plane (de_crypto env) d\<rparr>) of
        (d, Some e) \<Rightarrow> (d, [], Inl (RunAnnounce e))
      | (d, None) \<Rightarrow>
          let d = fst (applyReconcile env d);
              procs = fst (runUp (rw_exec w) d);
              pidPath = PIDFile (d_Paths d) runDir; sockPath = ControlSocket (d_Paths d) runDir
          in
     (case rw_rand w of
        None \<Rightarrow> (d, procs, Inl RunRandom)
      | Some buf \<Rightarrow>
          let cookie = NewCookie buf
          in
     (case os_WriteFile pidPath (PIDFile_Encode \<lparr>pf_PID = rw_pid w, pf_Cookie = cookie\<rparr>) 384 (d_fs d) of
        (fs, Some e) \<Rightarrow> (d\<lparr>d_fs := fs\<rparr>, procs, Inl (RunPIDFile e))
      | (fs, None) \<Rightarrow>
     (case control_Listen (rw_chmod w) sockPath fs of
        (fs, Some e) \<Rightarrow> (d\<lparr>d_fs := fst (os_Remove pidPath fs)\<rparr>, procs, Inl (RunSocket e))
      | (fs, None) \<Rightarrow>
     (case applySandbox (rw_abi w) (rw_fails w) (rw_userDB w) runDir (d\<lparr>d_fs := fs\<rparr>) of
        (calls, Some e) \<Rightarrow>
          (d\<lparr>d_fs := fst (os_Remove pidPath (fst (os_Remove sockPath fs)))\<rparr>, procs, Inl (RunSandbox e))
      | (calls, None) \<Rightarrow> (d\<lparr>d_fs := fs\<rparr>, procs, Inr (cookie, calls)))))))))"

text \<open>The first part is \<open>Run_start\<close> of \<open>Daemon\<close>.\<close>

lemma Run_begin_start:
  assumes "Run_begin w env now runDir d = (d', procs, Inr (cookie, calls))"
  shows "\<exists>d1 fs buf. Run_start env now (rw_pid w) cookie runDir d = (d1, None) \<and> rw_rand w = Some buf \<and> cookie = NewCookie buf \<and>
    control_Listen (rw_chmod w) (ControlSocket (d_Paths d1) runDir) (d_fs d1) = (fs, None) \<and> d' = d1\<lparr>d_fs := fs\<rparr>"
  using assms unfolding Run_begin_def Run_start_def
  by (auto simp: Let_def split: prod.splits option.splits if_splits)

section \<open>Signals and dialling\<close>

datatype signal = SIGHUP | SIGALRM

text \<open>The signals that arrive before cancellation, each with the clock its announcement reads.\<close>

fun signalLoop :: "'r denv \<Rightarrow> (signal \<times> (nat \<Rightarrow> int)) list \<Rightarrow> 'r daemon \<Rightarrow> 'r daemon" where
  "signalLoop env [] d = d"
| "signalLoop env ((sig, now) # rest) d =
     signalLoop env rest (case sig of SIGHUP \<Rightarrow> on_SIGHUP env now d | SIGALRM \<Rightarrow> on_SIGALRM env d)"

text \<open>The peers for which a goroutine dials.\<close>

definition dialConnectTo :: "'r daemon \<Rightarrow> string list" where
  "dialConnectTo d = GetAll (l_Conf (d_loaded d)) ''ConnectTo''"

section \<open>A fresh node starts\<close>

lemma listen_put:
  assumes "control_Listen chmod p fs = (fs', None)" and "snd p \<noteq> []"
  shows "node_at fs' p = Some (Regular 384 [])" and "q \<noteq> p \<Longrightarrow> node_at fs' q = node_at fs q" and "fs_noread fs' = fs_noread fs"
proof -
  have rm: "q \<noteq> p \<Longrightarrow> node_at (fst (os_Remove p fs)) q = node_at fs q" "fs_noread (fst (os_Remove p fs)) = fs_noread fs"
    by (auto simp: os_Remove_def node_at_def split: option.splits)
  obtain m where fs': "fs' = fs_put p (Regular 384 []) (fs_put p (Regular m []) (fst (os_Remove p fs)))"
    using assms(1) by (auto simp: control_Listen_def bind_unix_def split: prod.splits option.splits if_splits)
  show "node_at fs' p = Some (Regular 384 [])" "q \<noteq> p \<Longrightarrow> node_at fs' q = node_at fs q" "fs_noread fs' = fs_noread fs"
    using rm by (simp_all add: fs' node_at_put assms(2))
qed

lemma write_put:
  assumes "os_WriteFile p data m fs = (fs', None)" and "snd p \<noteq> []"
  shows "\<exists>m'. fs' = fs_put p (Regular m' data) fs"
  using assms by (auto simp: os_WriteFile_def fs_create_def fs_store_def split: option.splits node.splits if_splits)

text \<open>What \<open>Init\<close> wrote, as the daemon loads it.\<close>

lemma init_load:
  assumes "node_name name" and "quiet fs" and "fresh fs (NetDir p)" and "pem_correct c" and "wg_correct c" and "length wgPriv = 32"
    and "Init c (Some edPriv) (Some wgPriv) p name fs = (fs1, None)"
  obtains l where "load_config c p fs1 = Inr l" "l_NodeName l = name" "l_Conf l = [\<lparr>Key = ''Name'', Value = name\<rparr>]" "l_Subnets l = []"
    "l_EdPriv l = edPriv" "l_WGPriv l = wgPriv" "l_InnerAddr l = NoPrefix" "l_UnderlayAddr l = NoPrefix"
proof -
  have v: "Validate name = None" "length name < 60000" using assms(1) by (simp_all add: node_name_def)
  have i: "directories fs1 (NetDir p)" "node_at fs1 (path_Join (NetDir p) ''conf.d'') = None" "fs_noread fs1 = (\<lambda>_. False)"
    and nodes: "node_at fs1 (Ed25519Private p) = Some (Regular (384 AND NOT (fs_umask fs)) (Private_MarshalPEM c edPriv))"
      "node_at fs1 (WGPrivate p) = Some (Regular (384 AND NOT (fs_umask fs)) (WG_String c wgPriv @ [NL]))"
      "node_at fs1 (ConfFile p) = Some (Regular (420 AND NOT (fs_umask fs)) (conf_text name))"
    using Init_files [OF v(1) assms(2,3), of c edPriv wgPriv] assms(7) by auto
  have ld: "LoadDirectory fs1 (ConfFile p) = Inr [\<lparr>Key = ''Name'', Value = name\<rparr>]"
    by (rule LoadDirectory_alone [OF i(1,2)]) (simp add: config_ParseFile_def os_ReadFile_def nodes i(3) conf_entries [OF v])
  have keys: "load_keys c p fs1 = Inr (edPriv, wgPriv)"
    by (simp add: load_keys_def os_ReadFile_def nodes i(3) private_pem_roundtrip [OF assms(4)] wg_file_roundtrip [OF assms(5,6)])
  have eq: "EqualFold ''Name'' ''Name''" by (simp add: EqualFold_known canonical_def)
  have ne: "list_all (\<lambda>x. \<not> EqualFold ''Name'' x)
      [''Mode'', ''Port'', ''InnerAddress'', ''UnderlayAddress'', ''Subnet'', ''WGInterface'', ''Interface'', ''VXLANInterface'', ''VXLAN'',
       ''VXLANID'', ''VXLANPort'', ''MTU'']"
    by (simp add: EqualFold_def lower_char_def char_of_def bit_Suc_0_iff)
  have "\<exists>l. load_config c p fs1 = Inr l \<and> l_NodeName l = name \<and> l_Conf l = [\<lparr>Key = ''Name'', Value = name\<rparr>] \<and> l_Subnets l = [] \<and>
      l_EdPriv l = edPriv \<and> l_WGPriv l = wgPriv \<and> l_InnerAddr l = NoPrefix \<and> l_UnderlayAddr l = NoPrefix"
    using eq ne by (simp add: load_config_def ld keys load_mode_def load_address_def entry_int_def Let_def)
  with that show ?thesis by blast
qed

lemma announce_fresh:
  assumes "de_berr env = (\<lambda>_. None)" and "l_Subnets (d_loaded d) = []" and "hello_ok (local_hello (de_crypto env) d)"
  shows "\<exists>d'. announceLocal env now d = (d', None) \<and> d_fs d' = d_fs d \<and> d_Paths d' = d_Paths d \<and> d_loaded d' = d_loaded d \<and>
    p_G (d_plane d') = AddNode (l_NodeName (d_loaded d)) (p_G (d_plane d))"
proof -
  let ?h = "local_hello (de_crypto env) d" and ?p = "(d_plane d)\<lparr>p_pubKeyFor := Some (lookupPubKey (de_crypto env) d)\<rparr>"
  obtain q fx r where o: "AnnounceHello (de_crypto env) (de_berr env) (now 0) ?h ?p = (q, fx, r)" by (metis prod_cases3)
  then obtain e where e: "r = bcast_result (de_berr env) e" "env_Kind e = KindAddNode" "env_Payload e = hello_json ?h"
    "q = fst (apply_env e (?p\<lparr>p_outbox := mput (p_NodeName ?p @ ''/hello'') e (p_outbox ?p), p_seen := mput (p_NodeName ?p @ ''/hello'') (now 0) (p_seen ?p)\<rparr>))"
    unfolding AnnounceHello_def by (elim originate_parts) auto
  have "h_Name ?h = l_NodeName (d_loaded d)" by (simp add: local_hello_def Let_def)
  then have "p_G q = AddNode (l_NodeName (d_loaded d)) (p_G (d_plane d))"
    unfolding e(4) apply_env_def apply_kind_def using e(2,3) hello_roundtrip [OF assms(3)]
    by (simp add: apply_AddNode_def rememberPubKey_def Let_def split: sum.split)
  moreover have "r = None" using e(1) assms(1) by (simp add: bcast_result_def)
  ultimately show ?thesis using o assms(2) by (auto simp: announceLocal_def plane_call_def Let_def)
qed

lemma run_paths:
  assumes "pa_Netname p = [] \<or> plain (pa_Netname p)"
  obtains a b where "PIDFile p runDir = (fst (path_Clean runDir), snd (path_Clean runDir) @ [a])"
    "ControlSocket p runDir = (fst (path_Clean runDir), snd (path_Clean runDir) @ [b])" "a \<noteq> b"
proof -
  let ?n = "\<lambda>ext. if pa_Netname p = [] then ''gsnet'' @ ext else ''gsnet.'' @ pa_Netname p @ ext"
  have "plain (?n ''.pid'')" "plain (?n ''.socket'')" using assms by (auto simp: plain_def)
  moreover have "?n ''.pid'' \<noteq> ?n ''.socket''" by simp
  ultimately show ?thesis using that [of "?n ''.pid''" "?n ''.socket''"]
    by (simp add: PIDFile_def ControlSocket_def path_Join_plain split: if_splits)
qed

text \<open>The two files in a run directory that exists, whatever an earlier daemon left there.\<close>

lemma run_files:
  assumes "quiet fs" and "is_directory fs (r, cs)" and "\<not> is_directory fs (r, cs @ [a])" and "\<not> is_directory fs (r, cs @ [b])" and "a \<noteq> b"
  shows "\<exists>fs1 fs2 m. os_WriteFile (r, cs @ [a]) data 384 fs = (fs1, None) \<and> control_Listen None (r, cs @ [b]) fs1 = (fs2, None) \<and>
    node_at fs2 (r, cs @ [a]) = Some (Regular m data) \<and> node_at fs2 (r, cs @ [b]) = Some (Regular 384 []) \<and> fs_noread fs2 = (\<lambda>_. False)"
proof -
  have q: "fs_nowrite fs = (\<lambda>_. False)" "fs_full fs = (\<lambda>_. False)" "fs_noread fs = (\<lambda>_. False)" using assms(1) by (simp_all add: quiet_def)
  obtain m where w: "os_WriteFile (r, cs @ [a]) data 384 fs = (fs_put (r, cs @ [a]) (Regular m data) fs, None)"
    using assms(2,3) q
    by (cases "node_at fs (r, cs @ [a])") (auto simp: os_WriteFile_def fs_create_def fs_store_def is_directory_def split: node.splits)
  let ?fs1 = "fs_put (r, cs @ [a]) (Regular m data) fs" and ?p = "(r, cs @ [b])"
  have n1: "node_at ?fs1 ?p = node_at fs ?p" using assms(5) by (simp add: node_at_put)
  have rm: "node_at (fst (os_Remove ?p ?fs1)) ?p = None" "node_at (fst (os_Remove ?p ?fs1)) x = node_at ?fs1 x"
    "fs_nowrite (fst (os_Remove ?p ?fs1)) = fs_nowrite fs" "fs_full (fst (os_Remove ?p ?fs1)) = fs_full fs"
    if "x \<noteq> ?p" for x
    using that assms(4) q n1 by (auto simp: os_Remove_def is_directory_def node_at_def split: option.splits)
  have dir: "is_directory (fst (os_Remove ?p ?fs1)) (r, cs)"
    using assms(2) rm(2) [of "(r, cs)"] by (simp add: is_directory_def node_at_put)
  obtain fs2 where l: "control_Listen None ?p ?fs1 = (fs2, None)"
    using rm(1,3,4) [of "(r, cs)"] dir q by (simp add: control_Listen_def bind_unix_def)
  have "node_at fs2 (r, cs @ [a]) = Some (Regular m data)" "node_at fs2 ?p = Some (Regular 384 [])" "fs_noread fs2 = (\<lambda>_. False)"
    using listen_put [OF l] assms(5) q(3) by (simp_all add: node_at_put)
  with w l show ?thesis by blast
qed

text \<open>A daemon that was set up and told about its environment; nothing of what \<open>Run\<close> needs is missing.\<close>

definition startable :: "runenv \<Rightarrow> 'r denv \<Rightarrow> paths \<Rightarrow> string \<Rightarrow> bytes \<Rightarrow> 'r daemon \<Rightarrow> bool" where
  "startable w env p runDir buf d \<longleftrightarrow>
     rw_listens w \<and> rw_rand w = Some buf \<and> buf \<noteq> [] \<and> rw_chmod w = None \<and> int64_range (rw_pid w) \<and> de_berr env = (\<lambda>_. None) \<and>
     d_Paths d = p \<and> d_endpoint d = NoAddrPort \<and> quiet (d_fs d) \<and> (pa_Netname p = [] \<or> plain (pa_Netname p)) \<and>
     is_directory (d_fs d) (path_Clean runDir) \<and> \<not> is_directory (d_fs d) (PIDFile p runDir) \<and> \<not> is_directory (d_fs d) (ControlSocket p runDir)"

lemma fresh_begin:
  assumes "startable w env p runDir buf d" and "load_config (de_crypto env) p (d_fs d) = Inr l" and "node_name (l_NodeName l)"
    and "l_Conf l = [\<lparr>Key = ''Name'', Value = l_NodeName l\<rparr>]" and "l_Subnets l = []" and "l_InnerAddr l = NoPrefix" and "l_UnderlayAddr l = NoPrefix"
    and "utf8_ok (WG_String (de_crypto env) (WG_Public (de_crypto env) (l_WGPriv l)))"
  obtains d' procs m where "Run_begin w env now runDir d = (d', procs, Inr (NewCookie buf, []))"
    "d_Paths d' = p" "d_loaded d' = l" "p_G (d_plane d') = AddNode (l_NodeName l) New"
    "node_at (d_fs d') (PIDFile p runDir) = Some (Regular m (PIDFile_Encode \<lparr>pf_PID = rw_pid w, pf_Cookie = NewCookie buf\<rparr>))"
    "node_at (d_fs d') (ControlSocket p runDir) = Some (Regular 384 [])" "fs_noread (d_fs d') = (\<lambda>_. False)"
proof -
  let ?c = "de_crypto env" and ?d0 = "d\<lparr>d_loaded := l\<rparr>" and ?data = "PIDFile_Encode \<lparr>pf_PID = rw_pid w, pf_Cookie = NewCookie buf\<rparr>"
  let ?d1 = "?d0\<lparr>d_plane := new_plane ?c ?d0\<rparr>"
  note st = assms(1) [unfolded startable_def]
  have load: "d_load env d = (?d0, None)" using assms(2) st by (simp add: d_load_def)
  have "utf8_ok (l_NodeName l)" using assms(3) isNameRune_ascii by (intro utf8_ok_ascii) (auto simp: node_name_def Validate_None list_all_iff)
  moreover have "utf8_ok []" by (rule utf8_ok_ascii) simp
  ultimately have "hello_ok (local_hello ?c ?d1)"
    using assms(6-8) st by (simp add: hello_ok_def local_hello_def IsValid_def NoAddrPort_def prefix_valid_def NoPrefix_def Let_def)
  then obtain d2 where ann: "announceLocal env now ?d1 = (d2, None)" "d_fs d2 = d_fs d" "d_Paths d2 = p" "d_loaded d2 = l"
    "p_G (d_plane d2) = AddNode (l_NodeName l) New"
    using announce_fresh [of env ?d1 now] assms(5) st by (auto simp: new_plane_def OnMessage_def SetVerifier_def SetSigner_def NewPlane_def)
  obtain a b where ab: "PIDFile p runDir = (fst (path_Clean runDir), snd (path_Clean runDir) @ [a])"
    "ControlSocket p runDir = (fst (path_Clean runDir), snd (path_Clean runDir) @ [b])" "a \<noteq> b"
    using run_paths [of p runDir] st by blast
  obtain fs2 fs3 m where f: "os_WriteFile (PIDFile p runDir) ?data 384 (d_fs d) = (fs2, None)"
    "control_Listen None (ControlSocket p runDir) fs2 = (fs3, None)" "node_at fs3 (PIDFile p runDir) = Some (Regular m ?data)"
    "node_at fs3 (ControlSocket p runDir) = Some (Regular 384 [])" "fs_noread fs3 = (\<lambda>_. False)"
    using run_files [OF _ _ _ _ ab(3), of "d_fs d" "fst (path_Clean runDir)" "snd (path_Clean runDir)" ?data] st unfolding ab by auto
  let ?d' = "(fst (applyReconcile env d2))\<lparr>d_fs := fs3\<rparr>"
  have "\<not> EqualFold ''Name'' ''Sandbox''" by (simp add: EqualFold_def lower_char_def char_of_def bit_Suc_0_iff)
  then have "applySandbox (rw_abi w) (rw_fails w) (rw_userDB w) runDir ?d' = ([], None)"
    using ann(4) assms(4) by (simp add: applySandbox_def sandbox_options_def sandbox_Apply_def entry_or_empty_def ParseLevel_def Let_def)
  then have "Run_begin w env now runDir d = (?d', fst (runUp (rw_exec w) (fst (applyReconcile env d2))), Inr (NewCookie buf, []))"
    using load ann(1-3) f(1,2) st by (simp add: Run_begin_def Let_def)
  then show ?thesis by (rule that) (use ann f in simp_all)
qed

text \<open>The control socket of a daemon as its clients find it.\<close>

definition run_net :: "'r denv \<Rightarrow> (nat \<Rightarrow> int) \<Rightarrow> (control_error \<Rightarrow> string) \<Rightarrow> string \<Rightarrow> string \<Rightarrow> int \<Rightarrow> 'r daemon \<Rightarrow> path \<Rightarrow> socket option" where
  "run_net env now etext runDir cookie pid d q =
     (if q = ControlSocket (d_Paths d) runDir
      then Some (control_socket (l_NodeName (d_loaded d)) cookie pid etext (controlHandler env now) d) else None)"

lemma served_clients:
  assumes "node_at (d_fs d) (PIDFile p runDir) = Some (Regular m (PIDFile_Encode \<lparr>pf_PID = pid, pf_Cookie = cookie\<rparr>))"
    and "fs_noread (d_fs d) = (\<lambda>_. False)" and "d_Paths d = p" and "int64_range pid" and "token cookie"
    and "token (l_NodeName (d_loaded d))" and "list_all token (Nodes (p_G (d_plane d)))"
  shows "cmdPid p runDir (d_fs d) = ([Itoa pid], Gets ())"
    and "cmdDump (run_net env now etext runDir cookie pid d) p runDir [''nodes''] (d_fs d) =
      (map (\<lambda>n. ''18 4 '' @ n) (Nodes (p_G (d_plane d))), Gets ())"
proof -
  let ?data = "PIDFile_Encode \<lparr>pf_PID = pid, pf_Cookie = cookie\<rparr>" and ?net = "run_net env now etext runDir cookie pid d"
  have read: "os_ReadFile (d_fs d) (PIDFile p runDir) = Inr ?data" using assms(1,2) by (simp add: os_ReadFile_def)
  then show "cmdPid p runDir (d_fs d) = ([Itoa pid], Gets ())" using pidfile_parsed [OF assms(4,5)] by (simp add: cmdPid_def)
  have s: "serves ?net p runDir (d_fs d) pid cookie (control_socket (l_NodeName (d_loaded d)) cookie pid etext (controlHandler env now) d)"
    using read assms(3-5) by (simp add: serves_def run_net_def)
  have "runControlDump ?net p runDir 4 (d_fs d) = (map (dump_line 4) (map (\<lambda>n. [n]) (Nodes (p_G (d_plane d)))), Gets ())"
    by (rule dump_rows [OF s assms(6), of _ d])
      (use assms(7) in \<open>auto simp: int64_range_def controlHandler_def Let_def ReqStop_def ReqReload_def ReqDumpNodes_def list_all_iff comp_def\<close>)
  moreover have "Itoa 18 = ''18''" "Itoa 4 = ''4''" by code_simp+
  then have "dump_line 4 [n] = ''18 4 '' @ n" for n by (simp add: dump_line_def join_sp_Cons ClassRequest_def SP_def)
  ultimately show "cmdDump ?net p runDir [''nodes''] (d_fs d) = (map (\<lambda>n. ''18 4 '' @ n) (Nodes (p_G (d_plane d))), Gets ())"
    by (simp add: cmdDump_def dump_kind_def comp_def)
qed

text \<open>
  From nothing to a running node. \<open>gsnet init\<close> in an empty configuration directory, then the daemon in a run directory
  that exists and in which a daemon that was killed may have left its files: \<open>Run\<close> gets as far as serving, without
  any privileged call, the socket is only for its owner, and a client finds it: \<open>gsnet pid\<close> prints the process and
  \<open>gsnet dump nodes\<close> the name of the node.
\<close>

theorem init_run_serve:
  fixes d :: "'r daemon"
  assumes "c = de_crypto env" and "node_name name" and "quiet fs" and "fresh fs (NetDir p)" and "pem_correct c" and "wg_correct c"
    and "length wgPriv = 32" and "utf8_ok (WG_String c (WG_Public c wgPriv))"
    and "Init c (Some edPriv) (Some wgPriv) p name fs = (d_fs d, None)" and "startable w env p runDir buf d"
  shows "\<exists>d' procs. Run_begin w env now runDir d = (d', procs, Inr (NewCookie buf, [])) \<and>
    node_at (d_fs d') (ControlSocket p runDir) = Some (Regular 384 []) \<and>
    cmdPid p runDir (d_fs d') = ([Itoa (rw_pid w)], Gets ()) \<and>
    cmdDump (run_net env now' etext runDir (NewCookie buf) (rw_pid w) d') p runDir [''nodes''] (d_fs d') = ([''18 4 '' @ name], Gets ())"
proof -
  obtain l where l: "load_config c p (d_fs d) = Inr l" "l_NodeName l = name" "l_Conf l = [\<lparr>Key = ''Name'', Value = name\<rparr>]" "l_Subnets l = []"
    "l_EdPriv l = edPriv" "l_WGPriv l = wgPriv" "l_InnerAddr l = NoPrefix" "l_UnderlayAddr l = NoPrefix"
    by (rule init_load [OF assms(2-7,9)])
  obtain d' procs m where r: "Run_begin w env now runDir d = (d', procs, Inr (NewCookie buf, []))"
    "d_Paths d' = p" "d_loaded d' = l" "p_G (d_plane d') = AddNode name New"
    "node_at (d_fs d') (PIDFile p runDir) = Some (Regular m (PIDFile_Encode \<lparr>pf_PID = rw_pid w, pf_Cookie = NewCookie buf\<rparr>))"
    "node_at (d_fs d') (ControlSocket p runDir) = Some (Regular 384 [])" "fs_noread (d_fs d') = (\<lambda>_. False)"
    using fresh_begin [OF assms(10), of l] l assms(1,2,8) by metis
  have st: "int64_range (rw_pid w)" "buf \<noteq> []" using assms(10) by (simp_all add: startable_def)
  have "Nodes (p_G (d_plane d')) = [name]" using r(4) by (simp add: Nodes_def AddNode_def New_def ensureNode_def mput_def mget_def mkeys_def)
  moreover have "token (l_NodeName (d_loaded d'))" "token (NewCookie buf)"
    using r(3) l(2) name_token [OF assms(2)] url_token [OF st(2)] by (simp_all add: NewCookie_def)
  ultimately show ?thesis
    using served_clients(1) [OF r(5,7,2) st(1)] served_clients(2) [OF r(5,7,2) st(1), where env = env and now = now' and etext = etext]
      r(1,3,6) l(2) name_token [OF assms(2)] by auto
qed

text \<open>A machine with a run directory.\<close>

definition run_machine :: fsys where
  "run_machine = fs_put (True, [''run'']) (Directory 493) new_machine"

definition alice_init :: "fsys \<times> init_error option" where
  "alice_init = Init toy_crypto (Some [1]) (Some (replicate 32 2)) etc_gsnet ''alice'' run_machine"

definition plain_run :: runenv where
  "plain_run = \<lparr>rw_listens = True, rw_exec = \<lparr>ex_LookPath = (\<lambda>_. None), ex_Environ = [], ex_Spawn = (\<lambda>_. ([], None))\<rparr>,
     rw_rand = Some (replicate 32 7), rw_pid = 77, rw_chmod = None, rw_abi = 0, rw_fails = (\<lambda>_. False), rw_userDB = (\<lambda>_. None)\<rparr>"

text \<open>\<open>Init\<close> creates its files and the directories above them, and nothing else.\<close>

definition unchanged_at :: "path \<Rightarrow> fsys \<Rightarrow> fsys \<Rightarrow> bool" where
  "unchanged_at q fs fs' \<longleftrightarrow> quiet fs' \<and> node_at fs' q = node_at fs q"

lemma mkdirs_unchanged: "q \<notin> set ps \<Longrightarrow> unchanged_at q fs0 fs \<Longrightarrow> unchanged_at q fs0 (fst (mkdirs m ps fs))"
proof (induction m ps fs rule: mkdirs.induct)
  case (2 m p ps fs)
  show ?case
  proof (cases "node_at fs p")
    case None
    then have "snd p \<noteq> []" by (auto simp: node_at_def)
    with 2 None show ?thesis by (simp add: unchanged_at_def quiet_def node_at_put)
  next
    case (Some k)
    with 2 show ?thesis by (cases k) simp_all
  qed
qed simp

lemma writeFileExclusive_unchanged:
  assumes "q \<notin> set (path_prefixes (path_Dir p))" and "q \<noteq> p" and "unchanged_at q fs0 fs"
  shows "unchanged_at q fs0 (fst (writeFileExclusive p data m fs))"
proof -
  obtain fs1 e where mk: "os_MkdirAll (path_Dir p) 448 fs = (fs1, e)" by (cases "os_MkdirAll (path_Dir p) 448 fs")
  have u: "unchanged_at q fs0 fs1" using mkdirs_unchanged [OF assms(1,3), of 448] mk by (simp add: os_MkdirAll_def)
  have "node_at fs1 p = None \<Longrightarrow> snd p \<noteq> []" by (auto simp: node_at_def)
  with u assms(2) show ?thesis
    by (auto simp: writeFileExclusive_def fs_then_def mk os_CreateExclusive_def fs_create_def fs_store_def unchanged_at_def quiet_def node_at_put
        split: option.split)
qed

lemma Init_unchanged:
  assumes "list_all (\<lambda>p. q \<notin> set (path_prefixes (path_Dir p)) \<and> q \<noteq> p) [Ed25519Private p, WGPrivate p, ConfFile p, HostFile p name]"
    and "q \<notin> set (path_prefixes (HostsDir p)) \<union> set (path_prefixes (InvitationsDir p))" and "quiet fs"
  shows "unchanged_at q fs (fst (Init c newEd newWG p name fs))"
proof -
  have step: "unchanged_at q fs (fst r) \<Longrightarrow> (\<And>fs1. unchanged_at q fs fs1 \<Longrightarrow> unchanged_at q fs (fst (k fs1))) \<Longrightarrow> unchanged_at q fs (fst (fs_then r k))"
    for r :: "fsys \<times> init_error option" and k
    by (cases r) (auto simp: fs_then_def split: option.split)
  have "unchanged_at q fs fs" using assms(3) by (simp add: unchanged_at_def)
  then show ?thesis using assms(1,2)
    by (auto simp: Init_def os_call_def os_MkdirAll_def intro!: step mkdirs_unchanged writeFileExclusive_unchanged split: option.split)
qed

lemma prefixes_hd: "q \<in> set (path_prefixes (r, x # cs)) \<Longrightarrow> hd (snd q) = x"
  by (auto simp: path_prefixes_def)

lemma alice_run_files:
  assumes "hd (snd q) = ''run''"
  shows "unchanged_at q run_machine (fst alice_init)"
proof -
  have d: "path_Dir (True, ''etc'' # ''gsnet'' # x # xs) = (True, ''etc'' # butlast (''gsnet'' # x # xs))" for x xs by (simp add: path_Dir_def)
  have p: "Ed25519Private etc_gsnet = (True, [''etc'', ''gsnet'', ''vpn'', ''ed25519_key.priv''])" "WGPrivate etc_gsnet = (True, [''etc'', ''gsnet'', ''vpn'', ''wg.priv''])"
    "ConfFile etc_gsnet = (True, [''etc'', ''gsnet'', ''vpn'', ''gsnet.conf''])" "HostFile etc_gsnet ''alice'' = (True, [''etc'', ''gsnet'', ''vpn'', ''hosts'', ''alice''])"
    "HostsDir etc_gsnet = (True, [''etc'', ''gsnet'', ''vpn'', ''hosts''])" "InvitationsDir etc_gsnet = (True, [''etc'', ''gsnet'', ''vpn'', ''invitations''])"
    by (simp_all add: layout_simps etc_gsnet_dir plain_names)
  have out: "q \<notin> set (path_prefixes (True, ''etc'' # cs))" "q \<noteq> (True, ''etc'' # cs)" for cs using assms prefixes_hd [of q True "''etc''" cs] by auto
  have "quiet run_machine" using new_machine_ok(1) by (simp add: quiet_def run_machine_def)
  then show ?thesis unfolding alice_init_def by (intro Init_unchanged) (simp_all add: p d out del: butlast.simps)
qed

lemma alice_startable:
  assumes "d_Paths d = etc_gsnet" and "d_endpoint d = NoAddrPort" and "d_fs d = fst alice_init"
  shows "startable plain_run alice_env etc_gsnet ''/run'' (replicate 32 7) d"
proof -
  have p: "path_Clean ''/run'' = (True, [''run''])" "PIDFile etc_gsnet ''/run'' = (True, [''run'', ''gsnet.vpn.pid''])"
    "ControlSocket etc_gsnet ''/run'' = (True, [''run'', ''gsnet.vpn.socket''])" by code_simp+
  have n: "node_at (fst alice_init) (True, [''run'']) = Some (Directory 493)" "node_at (fst alice_init) (True, [''run'', ''gsnet.vpn.pid'']) = None"
    "node_at (fst alice_init) (True, [''run'', ''gsnet.vpn.socket'']) = None" "quiet (fst alice_init)"
    using alice_run_files [of "(True, [''run''])"] alice_run_files [of "(True, [''run'', ''gsnet.vpn.pid''])"]
      alice_run_files [of "(True, [''run'', ''gsnet.vpn.socket''])"]
    by (simp_all add: unchanged_at_def run_machine_def node_at_put) (simp_all add: node_at_def new_machine_def mget_def)
  moreover have "plain (pa_Netname etc_gsnet)" by (simp add: etc_gsnet_def plain_def)
  ultimately show ?thesis
    by (simp add: startable_def p plain_run_def alice_env_def assms int64_range_def is_directory_def)
qed

lemma alice_init_ok:
  "node_name ''alice''" "quiet run_machine" "fresh run_machine (NetDir etc_gsnet)" "length (replicate 32 (2::8 word)) = 32"
  "utf8_ok (WG_String toy_crypto (WG_Public toy_crypto (replicate 32 2)))"
  "Init toy_crypto (Some [1]) (Some (replicate 32 2)) etc_gsnet ''alice'' run_machine = (fst alice_init, None)"
proof -
  show m: "quiet run_machine" "fresh run_machine (NetDir etc_gsnet)"
    unfolding etc_gsnet_dir by (simp_all add: quiet_def run_machine_def new_machine_def fresh_def beneath_def path_prefixes_def node_at_def
      fs_put_def mput_def mget_def mkeys_def is_directory_def upt_rec)
  show n: "node_name ''alice''" "length (replicate 32 (2::8 word)) = 32" by (simp_all add: node_name_def, code_simp)
  show "utf8_ok (WG_String toy_crypto (WG_Public toy_crypto (replicate 32 2)))" by code_simp
  have "\<exists>fs'. Init toy_crypto (Some [1]) (Some (replicate 32 2)) etc_gsnet ''alice'' run_machine = (fs', None)"
    using Init_sound [of "''alice''" run_machine etc_gsnet toy_crypto "replicate 32 2" "[1]"] n m toy_correct by (auto simp: node_name_def)
  then show "Init toy_crypto (Some [1]) (Some (replicate 32 2)) etc_gsnet ''alice'' run_machine = (fst alice_init, None)"
    by (auto simp: alice_init_def)
qed

section \<open>Running and stopping\<close>

text \<open>
  While it runs: the two servers, both under the same context, and the goroutine of \<open>Run\<close>, which is in \<open>Serve\<close> of the
  control server, then in \<open>Close\<close> of the transport, then at \<open>Run_end\<close>. The argument is whether \<open>Serve\<close> returned without
  an error.
\<close>

datatype run_phase = RServing | RClosing bool | REnding bool

record running =
  rn_ctl :: cserver
  rn_tp :: tpool
  rn_phase :: run_phase

definition run_init :: "string \<Rightarrow> running" where
  "run_init cookie = \<lparr>rn_ctl = cs_init cookie, rn_tp = transport_Start True, rn_phase = RServing\<rparr>"

inductive run_step :: "running \<Rightarrow> running \<Rightarrow> bool" where
  run_ctl: "c_step (rn_ctl s) c \<Longrightarrow> run_step s (s\<lparr>rn_ctl := c\<rparr>)"
| run_tp: "t_step (rn_tp s) t \<Longrightarrow> run_step s (s\<lparr>rn_tp := t\<rparr>)"
| run_returned: "rn_phase s = RServing \<Longrightarrow> cs_serve (rn_ctl s) = ServeReturned b \<Longrightarrow>
    run_step s (s\<lparr>rn_phase := RClosing b, rn_tp := (t_close_listener (rn_tp s))\<lparr>tp_close := ClosingTable\<rparr>\<rparr>)"
| run_closed: "rn_phase s = RClosing b \<Longrightarrow> tp_close (rn_tp s) = Closed \<Longrightarrow> run_step s (s\<lparr>rn_phase := REnding b\<rparr>)"

text \<open>Outside: a signal cancels the context of both; otherwise what happens to one server, the label telling whose peer acts.\<close>

inductive run_outside :: "nat option + nat option \<Rightarrow> running \<Rightarrow> running \<Rightarrow> bool" where
  run_cancel: "run_outside (Inl None) s (s\<lparr>rn_ctl := (rn_ctl s)\<lparr>cs_ctx := True\<rparr>, rn_tp := (rn_tp s)\<lparr>tp_ctx := True\<rparr>\<rparr>)"
| run_client: "c_outside w (rn_ctl s) c \<Longrightarrow> cs_ctx c = cs_ctx (rn_ctl s) \<Longrightarrow> cs_close c = cs_close (rn_ctl s) \<Longrightarrow>
    run_outside (Inl w) s (s\<lparr>rn_ctl := c\<rparr>)"
| run_peer: "t_outside w (rn_tp s) t \<Longrightarrow> tp_ctx t = tp_ctx (rn_tp s) \<Longrightarrow> tp_close t = tp_close (rn_tp s) \<Longrightarrow>
    run_outside (Inr w) s (s\<lparr>rn_tp := t\<rparr>)"

inductive run_reach :: "running \<Rightarrow> bool" where
  run_reach_init: "run_reach (run_init cookie)"
| run_reach_step: "run_reach s \<Longrightarrow> run_step s t \<Longrightarrow> run_reach t"
| run_reach_outside: "run_reach s \<Longrightarrow> run_outside w s t \<Longrightarrow> run_reach t"

definition run_inv :: "running \<Rightarrow> bool" where
  "run_inv s \<longleftrightarrow> c_inv (rn_ctl s) \<and> t_inv (rn_tp s) \<and> cs_ctx (rn_ctl s) = tp_ctx (rn_tp s) \<and>
     (rn_phase s = RServing \<longleftrightarrow> tp_close (rn_tp s) = NotCalled) \<and>
     (\<forall>b. rn_phase s \<in> {RClosing b, REnding b} \<longrightarrow> cs_serve (rn_ctl s) = ServeReturned b) \<and>
     (\<forall>b. rn_phase s = REnding b \<longrightarrow> tp_close (rn_tp s) = Closed)"

lemma c_step_returned: "c_step s t \<Longrightarrow> cs_serve s = ServeReturned b \<Longrightarrow> cs_serve t = ServeReturned b"
  by (induction rule: c_step.induct) (auto simp: c_leave_def)

lemma c_outside_returned: "c_outside w s t \<Longrightarrow> cs_serve s = ServeReturned b \<Longrightarrow> cs_serve t = ServeReturned b"
  by (induction rule: c_outside.induct) auto

lemma c_step_ctx: "c_step s t \<Longrightarrow> cs_ctx t = cs_ctx s"
  by (induction rule: c_step.induct) (auto simp: c_leave_def)

lemma t_step_close:
  "t_step s t \<Longrightarrow> (tp_close t = NotCalled \<longleftrightarrow> tp_close s = NotCalled) \<and> (tp_close s = Closed \<longrightarrow> tp_close t = Closed)"
  by (induction rule: t_step.induct) (auto simp: t_leave_def set_tstage_def)

lemma run_step_inv: "run_step s t \<Longrightarrow> run_inv s \<Longrightarrow> run_inv t"
proof (induction rule: run_step.induct)
  case (run_ctl s c)
  then show ?case using c_step_inv [of "rn_ctl s" c] c_step_ctx [of "rn_ctl s" c] c_step_returned [of "rn_ctl s" c] by (auto simp: run_inv_def)
next
  case (run_tp s t)
  have "t_inv t" using run_tp t_step_inv by (simp add: run_inv_def)
  moreover have "tp_ctx t = tp_ctx (rn_tp s)" using run_tp(1) t_step_called by simp
  moreover have "tp_close t = NotCalled \<longleftrightarrow> tp_close (rn_tp s) = NotCalled" "tp_close (rn_tp s) = Closed \<Longrightarrow> tp_close t = Closed"
    using t_step_close [OF run_tp(1)] by blast+
  ultimately show ?case using run_tp(2) by (simp add: run_inv_def)
next
  case (run_returned s b)
  then have "t_outside None (rn_tp s) ((t_close_listener (rn_tp s))\<lparr>tp_close := ClosingTable\<rparr>)" by (intro t_call_close) (simp add: run_inv_def)
  then have "t_inv ((t_close_listener (rn_tp s))\<lparr>tp_close := ClosingTable\<rparr>)" by (rule t_outside_inv) (use run_returned in \<open>simp add: run_inv_def\<close>)
  with run_returned show ?case by (auto simp: run_inv_def)
qed (auto simp: run_inv_def)

lemma run_outside_inv: "run_outside w s t \<Longrightarrow> run_inv s \<Longrightarrow> run_inv t"
proof (induction rule: run_outside.induct)
  case (run_cancel s)
  then show ?case using c_outside_inv [OF c_cancel, of "rn_ctl s"] t_outside_inv [OF t_cancel, of "rn_tp s"] by (auto simp: run_inv_def)
next
  case (run_client w s c)
  then show ?case using c_outside_inv [of w "rn_ctl s" c] c_outside_returned [of w "rn_ctl s" c] by (auto simp: run_inv_def)
next
  case (run_peer w s t)
  then show ?case using t_outside_inv [of w "rn_tp s" t] by (auto simp: run_inv_def)
qed

lemma run_reach_inv: "run_reach s \<Longrightarrow> run_inv s"
proof (induction rule: run_reach.induct)
  case (run_reach_init cookie)
  show ?case using c_reach_inv [OF c_reach_init] t_reach_inv [OF t_reach_init]
    by (auto simp: run_inv_def run_init_def cs_init_def transport_Start_def)
qed (blast intro: run_step_inv run_outside_inv)+

definition run_good :: "running \<Rightarrow> bool" where
  "run_good s \<longleftrightarrow> run_inv s \<and> c_good (rn_ctl s)"

definition run_rank :: "running \<Rightarrow> nat" where
  "run_rank s = c_rank (rn_ctl s) + t_rank (rn_tp s) + (case rn_phase s of RServing \<Rightarrow> 4 | RClosing _ \<Rightarrow> 1 | REnding _ \<Rightarrow> 0)"

lemma run_good_step: "run_step s t \<Longrightarrow> run_good s \<Longrightarrow> run_good t \<and> run_rank t < run_rank s"
proof (induction rule: run_step.induct)
  case (run_ctl s c)
  have "c_inv (rn_ctl s)" using run_ctl(2) by (simp add: run_good_def run_inv_def)
  then have "c_good c" "c_rank c < c_rank (rn_ctl s)" using run_ctl c_good_step c_step_rank by (auto simp: run_good_def)
  moreover have "run_inv (s\<lparr>rn_ctl := c\<rparr>)" using run_ctl run_step_inv [OF run_step.run_ctl] by (simp add: run_good_def)
  ultimately show ?case by (simp add: run_good_def run_rank_def)
next
  case (run_tp s t)
  have "t_inv (rn_tp s)" using run_tp(2) by (simp add: run_good_def run_inv_def)
  then have "t_rank t < t_rank (rn_tp s)" using run_tp(1) t_step_rank by blast
  moreover have "run_inv (s\<lparr>rn_tp := t\<rparr>)" using run_tp run_step_inv [OF run_step.run_tp] by (simp add: run_good_def)
  ultimately show ?case using run_tp(2) by (simp add: run_good_def run_rank_def)
next
  case (run_returned s b)
  have "tp_close (rn_tp s) = NotCalled" using run_returned by (simp add: run_good_def run_inv_def)
  then have "t_rank ((t_close_listener (rn_tp s))\<lparr>tp_close := ClosingTable\<rparr>) \<le> t_rank (rn_tp s) + 2"
    by (simp add: t_rank_def t_close_listener_def)
  with run_returned run_step_inv [OF run_step.run_returned [OF run_returned(1,2)]] show ?case
    by (simp add: run_good_def run_rank_def)
next
  case (run_closed s b)
  with run_step_inv [OF run_step.run_closed [OF run_closed(1,2)]] show ?case by (simp add: run_good_def run_rank_def)
qed

lemma run_stuck:
  assumes "run_good s" and "\<nexists>t. run_step s t"
  shows "rn_phase s = REnding True \<and> c_drained (rn_ctl s) \<or> list_ex idle_link (tp_links (rn_tp s))"
proof -
  have none: "run_step s t \<Longrightarrow> False" for t using assms(2) by blast
  have "\<nexists>c. c_step (rn_ctl s) c" using none [OF run_ctl] by blast
  then have d: "c_drained (rn_ctl s)" using c_stuck assms(1) by (simp add: run_good_def)
  then have ret: "cs_serve (rn_ctl s) = ServeReturned True" by (simp add: c_drained_def)
  have ph: "rn_phase s = RClosing True \<or> rn_phase s = REnding True"
    using none [OF run_returned [OF _ ret]] assms(1) ret by (cases "rn_phase s") (auto simp: run_good_def run_inv_def)
  have "t_good (rn_tp s)" using assms(1) ph by (auto simp: t_good_def run_good_def run_inv_def c_good_def)
  moreover have "\<nexists>t. t_step (rn_tp s) t" using none [OF run_tp] by blast
  ultimately have "tp_close (rn_tp s) = Closed \<or> list_ex idle_link (tp_links (rn_tp s))" by (rule t_stuck)
  with d ph none [OF run_closed] show ?thesis by blast
qed

interpretation daemon_run: drain run_step run_good run_rank "\<lambda>s. rn_phase s = REnding True \<and> c_drained (rn_ctl s)"
  "\<lambda>s. list_ex idle_link (tp_links (rn_tp s))"
  by unfold_locales (use run_good_step run_stuck in blast)+

text \<open>
  C23: a signal stops the daemon, if all its peers cooperate. When the context is cancelled while the control server waits
  for a connection and none is queued, then in every order of the goroutines' steps both servers shut down within
  \<open>run_rank\<close> steps: where nothing can move any more, \<open>Run\<close> is at its end (hook, reconciler and removal of the files,
  \<open>Run_end\<close>), with every client of the control socket disconnected, or a connection to the gossip port is still
  waiting for its peer to speak.
\<close>

theorem daemon_stops:
  assumes "run_reach s" and "cs_ctx (rn_ctl s)" and "cs_watch (rn_ctl s) = Watching" and "cs_serve (rn_ctl s) = Accepting"
    and "cs_backlog (rn_ctl s) = []"
  shows "(\<exists>t. run_step\<^sup>*\<^sup>* s t \<and> (rn_phase t = REnding True \<and> c_drained (rn_ctl t) \<or> list_ex idle_link (tp_links (rn_tp t)))) \<and>
    (\<forall>n t. (run_step ^^ n) s t \<longrightarrow> n \<le> run_rank s \<and>
       ((\<nexists>u. run_step t u) \<longrightarrow> rn_phase t = REnding True \<and> c_drained (rn_ctl t) \<or> list_ex idle_link (tp_links (rn_tp t))))"
proof -
  have "run_inv s" by (rule run_reach_inv) fact
  then have "run_good s" using assms(2-5) by (simp add: run_good_def c_good_def run_inv_def)
  from daemon_run.reaches_end [OF this] daemon_run.run_ends [OF this] show ?thesis by blast
qed

section \<open>One silent connection\<close>

definition run_without :: "nat \<Rightarrow> running \<Rightarrow> running \<Rightarrow> bool" where
  "run_without i s t \<longleftrightarrow> run_step s t \<or> (\<exists>w. w \<noteq> Inr (Some i) \<and> run_outside w s t)"

definition run_held :: "nat \<Rightarrow> running \<Rightarrow> bool" where
  "run_held i s \<longleftrightarrow> t_held i (rn_tp s) \<and> tp_close (rn_tp s) \<noteq> Closed \<and> (\<forall>b. rn_phase s \<noteq> REnding b) \<and> (rn_phase s = RServing \<longrightarrow> tp_close (rn_tp s) = NotCalled)"

lemma t_held_call: "t_held i s \<Longrightarrow> tp_close s = NotCalled \<Longrightarrow> t_held i ((t_close_listener s)\<lparr>tp_close := ClosingTable\<rparr>)"
  using t_held_outside [OF t_call_close, of s i] by auto

lemma run_held_step: "run_step s t \<Longrightarrow> run_held i s \<Longrightarrow> run_held i t"
proof (induction rule: run_step.induct)
  case (run_tp s t)
  then show ?case using t_held_step [of "rn_tp s" t i] t_step_close [of "rn_tp s" t] by (auto simp: run_held_def)
next
  case (run_returned s b)
  then show ?case using t_held_call [of i "rn_tp s"] by (auto simp: run_held_def)
qed (auto simp: run_held_def)

lemma run_held_outside: "run_outside w s t \<Longrightarrow> w \<noteq> Inr (Some i) \<Longrightarrow> run_held i s \<Longrightarrow> run_held i t"
proof (induction rule: run_outside.induct)
  case (run_cancel s)
  then show ?case using t_held_outside [OF t_cancel, of i "rn_tp s"] by (auto simp: run_held_def)
next
  case (run_peer w s t)
  then show ?case using t_held_outside [of w "rn_tp s" t i] by (auto simp: run_held_def)
qed (auto simp: run_held_def)


section \<open>A daemon with one visitor\<close>

text \<open>Somebody connected to the gossip port of a daemon that runs; then the daemon is told to stop.\<close>

definition visited :: running where
  "visited = \<lparr>rn_ctl = cs_init ''cookie'', rn_tp = accepted new_tlink, rn_phase = RServing\<rparr>"

definition told_to_stop :: running where
  "told_to_stop = visited\<lparr>rn_ctl := (rn_ctl visited)\<lparr>cs_ctx := True\<rparr>, rn_tp := (rn_tp visited)\<lparr>tp_ctx := True\<rparr>\<rparr>"

lemma run_reach_tp: "t_step\<^sup>*\<^sup>* a b \<Longrightarrow> run_reach (s\<lparr>rn_tp := a\<rparr>) \<Longrightarrow> run_reach (s\<lparr>rn_tp := b\<rparr>)"
proof (induction rule: rtranclp_induct)
  case (step b c)
  then show ?case using run_reach_step [OF _ run_tp [of "s\<lparr>rn_tp := b\<rparr>" c]] by simp
qed

lemma visited_reach: "run_reach visited"
proof -
  let ?s = "run_init ''cookie''"
  have "t_outside None (rn_tp ?s) ((rn_tp ?s)\<lparr>tp_backlog := tp_backlog (rn_tp ?s) @ [new_tlink]\<rparr>)"
    by (rule t_connect) (simp add: run_init_def transport_Start_def)
  from run_reach_outside [OF run_reach_init run_peer [OF this]]
  have "run_reach (?s\<lparr>rn_tp := (transport_Start True)\<lparr>tp_backlog := [new_tlink]\<rparr>\<rparr>)" by (simp add: run_init_def transport_Start_def)
  from run_reach_tp [OF accepted_steps this] show ?thesis by (simp add: visited_def run_init_def)
qed

lemma told_to_stop_reach: "run_reach told_to_stop"
  unfolding told_to_stop_def by (rule run_reach_outside [OF visited_reach run_cancel])

theorem daemon_stops_witness:
  "\<exists>t. run_step\<^sup>*\<^sup>* told_to_stop t \<and>
     (rn_phase t = REnding True \<and> c_drained (rn_ctl t) \<or> list_ex idle_link (tp_links (rn_tp t)))"
proof -
  have "cs_ctx (rn_ctl told_to_stop)" "cs_watch (rn_ctl told_to_stop) = Watching" "cs_serve (rn_ctl told_to_stop) = Accepting"
    "cs_backlog (rn_ctl told_to_stop) = []" by (simp_all add: told_to_stop_def visited_def cs_init_def)
  from daemon_stops [OF told_to_stop_reach this] show ?thesis by blast
qed


end
