(* ===== verification/Capture.thy ===== *)
theory Capture
  imports Pcap
begin

text \<open>
  \<open>src/internal/pcap/capture_linux.go\<close> and \<open>capture_other.go\<close>: \<open>Capture\<close> writes the packets of an interface to a
  destination until its context is cancelled. The interfaces of the machine, the outcomes of the three system calls
  and what each \<open>recvfrom\<close> returns, with the clock read after it, are arguments; the run is the list of the calls made
  before the context was found cancelled. After a failed write the content of the destination is not known, and the
  writer is the one before it.
\<close>

unbundle bit_operations_syntax

definition htons :: "16 word \<Rightarrow> 16 word" where
  "htons x = push_bit 8 x AND 0xff00 OR drop_bit 8 x"

definition ETH_P_ALL :: "16 word" where
  "ETH_P_ALL = 3"

definition LinkTypeEthernet :: "32 word" where
  "LinkTypeEthernet = 1"

text \<open>What \<open>recvfrom\<close> does: a frame, nothing within the time limit, a signal, another error.\<close>

datatype recv = Frame bytes | EAGAIN | EINTR | RecvError string

text \<open>\<open>ns_socket\<close> and \<open>ns_bind\<close> get the protocol and the interface; \<open>Some\<close> is the error.\<close>

record netdev =
  ns_ifindex :: "string \<Rightarrow> int option"
  ns_socket :: "16 word \<Rightarrow> string option"
  ns_bind :: "16 word \<Rightarrow> int \<Rightarrow> string option"

datatype capture_error = NoSuchInterface string | NoPacketSocket string | BindFailed string | RecvFailed string | WriteFailed string

text \<open>The buffer; a longer frame is cut by the kernel, and its length is then that of the buffer.\<close>

definition recv_buf :: nat where
  "recv_buf = 65536"

fun capture_loop ::
    "'w sink \<Rightarrow> (recv \<times> int \<times> nat) list \<Rightarrow> 'w pcap_writer \<Rightarrow> 'w pcap_writer \<times> capture_error option" where
  "capture_loop write [] pw = (pw, None)"
| "capture_loop write ((r, sec, nsec) # rest) pw =
     (case r of
        Frame data \<Rightarrow>
          (case WritePacket write sec nsec (take recv_buf data) pw of
             Inl e \<Rightarrow> (pw, Some (WriteFailed e))
           | Inr pw' \<Rightarrow> capture_loop write rest pw')
      | RecvError e \<Rightarrow> (pw, Some (RecvFailed e))
      | _ \<Rightarrow> capture_loop write rest pw)"

definition pcap_Capture :: "'w sink \<Rightarrow> netdev \<Rightarrow> string \<Rightarrow> 32 word \<Rightarrow> (recv \<times> int \<times> nat) list \<Rightarrow> 'w \<Rightarrow> 'w \<times> capture_error option" where
  "pcap_Capture write n ifname snaplen calls w =
     (case ns_ifindex n ifname of
        None \<Rightarrow> (w, Some (NoSuchInterface ifname))
      | Some index \<Rightarrow>
     (case ns_socket n (htons ETH_P_ALL) of
        Some e \<Rightarrow> (w, Some (NoPacketSocket e))
      | None \<Rightarrow>
     (case ns_bind n (htons ETH_P_ALL) index of
        Some e \<Rightarrow> (w, Some (BindFailed e))
      | None \<Rightarrow>
     (case NewWriter write w LinkTypeEthernet snaplen of
        Inl e \<Rightarrow> (w, Some (WriteFailed e))
      | Inr pw \<Rightarrow> (case capture_loop write calls pw of (pw', e) \<Rightarrow> (pw_w pw', e))))))"

text \<open>On other systems.\<close>

definition Capture_other :: "'w \<Rightarrow> 'w \<times> string option" where
  "Capture_other w = (w, Some ''pcap.Capture: unsupported on this platform; Linux only'')"

section \<open>The file is a capture at every moment\<close>

text \<open>The two bytes are exchanged: on a little-endian machine the protocol is in network order in memory.\<close>

lemma htons_bytes: "PutLE16 (htons x) = rev (PutLE16 x)"
proof -
  have m: "(0xff00 :: 16 word) = push_bit 8 (mask 8)" by (simp add: mask_eq_exp_minus_1 push_bit_eq_mult)
  have "ucast (htons x) = (ucast (drop_bit 8 x) :: 8 word)" "ucast (drop_bit 8 (htons x)) = (ucast x :: 8 word)"
    by (rule bit_word_eqI; auto simp: htons_def m bit_simps)+
  then show ?thesis by (simp add: PutLE16_def)
qed

text \<open>The packets that a list of calls delivers, up to the first error.\<close>

fun received :: "(recv \<times> int \<times> nat) list \<Rightarrow> (int \<times> nat \<times> bytes) list" where
  "received [] = []"
| "received ((Frame data, sec, nsec) # rest) = (sec, nsec, take recv_buf data) # received rest"
| "received ((RecvError e, sec, nsec) # rest) = []"
| "received (_ # rest) = received rest"

fun first_error :: "(recv \<times> int \<times> nat) list \<Rightarrow> capture_error option" where
  "first_error [] = None"
| "first_error ((RecvError e, _) # rest) = Some (RecvFailed e)"
| "first_error (_ # rest) = first_error rest"

lemma capture_loop_buffer:
  "list_all packet_ok (received calls) \<Longrightarrow>
     capture_loop buffer calls pw = (pw\<lparr>pw_w := pw_w pw @ concat (map (record_bytes (pw_snaplen pw)) (received calls))\<rparr>, first_error calls)"
proof (induction calls arbitrary: pw rule: received.induct)
  case (2 data sec nsec rest)
  then show ?case by (simp add: WritePacket_buffer)
qed auto

text \<open>
  A capture can be read at every moment. After any number of calls of \<open>recvfrom\<close>, and also when one of them failed, what was
  written is a capture file of the chosen snap length that holds the packets received so far, one record for each, in
  order; waiting and interrupted calls leave no trace, and the error is the first that is neither.
\<close>

theorem capture_file:
  assumes "ns_ifindex n ifname = Some index" and "ns_socket n (htons ETH_P_ALL) = None" and "ns_bind n (htons ETH_P_ALL) index = None"
    and "list_all packet_ok (received calls)"
  shows "\<exists>out rd. pcap_Capture buffer n ifname snaplen calls [] = (out, first_error calls) \<and>
    NewReader out = Inr rd \<and> pr_LinkType rd = LinkTypeEthernet \<and> pr_Snaplen rd = snaplen \<and>
    read_all (Suc (length (received calls))) rd = (map (captured snaplen) (received calls), Some PcapEOF)"
proof -
  let ?body = "concat (map (record_bytes snaplen) (received calls))"
  let ?rd = "\<lparr>pr_r = ?body, pr_LinkType = LinkTypeEthernet, pr_Snaplen = snaplen, pr_little = True\<rparr>"
  have "pcap_Capture buffer n ifname snaplen calls [] = (pcap_header LinkTypeEthernet snaplen @ ?body, first_error calls)"
    using assms by (simp add: pcap_Capture_def NewWriter_def buffer_def [abs_def] capture_loop_buffer [unfolded buffer_def [abs_def]])
  moreover have "NewReader (pcap_header LinkTypeEthernet snaplen @ ?body) = Inr ?rd" by (rule NewReader_header)
  moreover have "read_all (Suc (length (received calls))) ?rd = (map (captured snaplen) (received calls), Some PcapEOF)"
    by (rule read_all_records [OF assms(4)]) simp_all
  ultimately show ?thesis by (intro exI [of _ "pcap_header LinkTypeEthernet snaplen @ ?body"] exI [of _ ?rd]) (simp del: read_all.simps)
qed

end
