(* ===== verification/Commands.thy ===== *)
theory Commands
  imports Top Run Capture
begin

text \<open>
  The two programs from their command lines: what \<open>src/cmd/gsnet/main.go\<close> and \<open>src/cmd/gsnetd/main.go\<close> use of Go's
  package \<open>flag\<close>, the flags of each, \<open>main\<close> of each, and how they fit together: the daemon and its clients find the
  same files, and from an empty configuration directory three command lines give a node that answers.
\<close>

section \<open>Flags\<close>

datatype flag_val = FString string | FBool bool

datatype flag_error = BadSyntax string | Undefined string | Help | NeedsArgument string | InvalidBool string

definition flag_Bool :: "string \<Rightarrow> bool option" where
  "flag_Bool v =
     (if v \<in> set [''1'', ''t'', ''T'', ''TRUE'', ''true'', ''True''] then Some True
      else if v \<in> set [''0'', ''f'', ''F'', ''FALSE'', ''false'', ''False''] then Some False else None)"

text \<open>An argument \<open>-name\<close>, \<open>--name\<close>, \<open>-name=value\<close> or \<open>--name=value\<close>, without its dashes.\<close>

definition flag_word :: "string \<Rightarrow> string" where
  "flag_word s = (if s ! 1 = CHR ''-'' then drop 2 s else drop 1 s)"

definition flag_value :: "string \<Rightarrow> string \<times> string option" where
  "flag_value w =
     (takeWhile (\<lambda>c. c \<noteq> CHR ''='') w,
      case dropWhile (\<lambda>c. c \<noteq> CHR ''='') w of [] \<Rightarrow> None | _ # v \<Rightarrow> Some v)"

text \<open>The flags of a program with their values so far; the result has the arguments that are left.\<close>

fun flag_Parse :: "string list \<Rightarrow> (string, flag_val) gomap \<Rightarrow> (flag_error, (string, flag_val) gomap \<times> string list) result" where
  "flag_Parse [] vals = Inr (vals, [])"
| "flag_Parse (s # args) vals =
     (if length s < 2 \<or> hd s \<noteq> CHR ''-'' then Inr (vals, s # args)
      else if s = ''--'' then Inr (vals, args)
      else if flag_word s = [] \<or> hd (flag_word s) \<in> {CHR ''-'', CHR ''=''} then Inl (BadSyntax s)
      else
        let (name, value) = flag_value (flag_word s)
        in case mget vals name of
             None \<Rightarrow> Inl (if name \<in> set [''help'', ''h''] then Help else Undefined name)
           | Some (FBool _) \<Rightarrow>
               (case value of
                  None \<Rightarrow> flag_Parse args (mput name (FBool True) vals)
                | Some v \<Rightarrow> (case flag_Bool v of None \<Rightarrow> Inl (InvalidBool name) | Some b \<Rightarrow> flag_Parse args (mput name (FBool b) vals)))
           | Some (FString _) \<Rightarrow>
               (case value of
                  Some v \<Rightarrow> flag_Parse args (mput name (FString v) vals)
                | None \<Rightarrow> (case args of [] \<Rightarrow> Inl (NeedsArgument name) | v # rest \<Rightarrow> flag_Parse rest (mput name (FString v) vals))))"

text \<open>The policy \<open>ExitOnError\<close>.\<close>

definition flag_exit :: "flag_error \<Rightarrow> nat" where
  "flag_exit e = (if e = Help then 0 else 2)"

definition flag_string :: "(string, flag_val) gomap \<Rightarrow> string \<Rightarrow> string" where
  "flag_string vals name = (case mget vals name of Some (FString v) \<Rightarrow> v | _ \<Rightarrow> [])"

definition flag_bool :: "(string, flag_val) gomap \<Rightarrow> string \<Rightarrow> bool" where
  "flag_bool vals name = (case mget vals name of Some (FBool b) \<Rightarrow> b | _ \<Rightarrow> False)"

section \<open>The programs\<close>

text \<open>The flags that both programs have.\<close>

definition common_flags :: "(string, flag_val) gomap" where
  "common_flags = [(''n'', FString []), (''c'', FString ''/etc/gsnet''), (''r'', FString ''/run'')]"

definition gsnet_flags :: "(string, flag_val) gomap" where
  "gsnet_flags = common_flags @ [(''b'', FBool False)]"

definition gsnet_main :: "machine \<Rightarrow> (init_error \<Rightarrow> cli_error) \<Rightarrow> string list \<Rightarrow> fsys \<Rightarrow> fsys \<times> string \<times> nat option" where
  "gsnet_main w ie args fs =
     (case flag_Parse args gsnet_flags of
        Inl e \<Rightarrow> (fs, [], Some (flag_exit e))
      | Inr (v, rest) \<Rightarrow> main_exit w ie (flag_string v ''c'') (flag_string v ''n'') (flag_string v ''r'') rest fs)"

definition gsnetd_flags :: "(string, flag_val) gomap" where
  "gsnetd_flags = common_flags @ [(''l'', FString '':51820''), (''D'', FBool False), (''fake'', FBool False)]"

text \<open>A daemon before \<open>Run\<close>.\<close>

definition new_daemon :: "paths \<Rightarrow> 'r \<Rightarrow> fsys \<Rightarrow> 'r daemon" where
  "new_daemon p rec fs =
     \<lparr>d_Paths = p, d_fs = fs,
      d_loaded = \<lparr>l_NodeName = [], l_Conf = [], l_EdPriv = [], l_WGPriv = [], l_Mode = ModeSwitch, l_WGInterface = [], l_WGListenPort = 0,
        l_VXLANIface = [], l_VXLANID = 0, l_VXLANPort = 0, l_MTU = 0, l_InnerAddr = NoPrefix, l_UnderlayAddr = NoPrefix, l_Subnets = []\<rparr>,
      d_plane = NewPlane [] New, d_endpoint = NoAddrPort, d_rec = rec, d_sent = [], d_exited = False\<rparr>"

text \<open>
  How \<open>gsnetd\<close> gets on: it ends with an exit status before or in the first part of \<open>Run\<close>, or it serves. The machine is
  given for every address to listen on; \<open>lin\<close> is the outcome of \<open>linux.New\<close>, \<open>fk\<close> a new fake reconciler, and the environment
  has the reconciler's operations for either.
\<close>

datatype 'r gsnetd = Exits fsys nat | Serves "'r daemon" string string

definition gsnetd_main ::
    "(string \<Rightarrow> runenv) \<Rightarrow> (bool \<Rightarrow> 'r denv) \<Rightarrow> 'r option \<Rightarrow> 'r \<Rightarrow> (nat \<Rightarrow> int) \<Rightarrow> string list \<Rightarrow> fsys \<Rightarrow> 'r gsnetd \<times> process list" where
  "gsnetd_main w env lin fk now args fs =
     (case flag_Parse args gsnetd_flags of
        Inl e \<Rightarrow> (Exits fs (flag_exit e), [])
      | Inr (v, _) \<Rightarrow>
          let p = \<lparr>pa_ConfRoot = flag_string v ''c'', pa_Netname = flag_string v ''n''\<rparr>;
              runDir = flag_string v ''r''; fake = flag_bool v ''fake''
          in case (if fake then Some fk else lin) of
               None \<Rightarrow> (Exits fs 1, [])
             | Some rec \<Rightarrow>
                 (case Run_begin (w (gossipAddr (flag_string v ''l''))) (env fake) now runDir (new_daemon p rec fs) of
                    (d, procs, Inl e) \<Rightarrow> (Exits (d_fs d) 1, procs)
                  | (d, procs, Inr (cookie, _)) \<Rightarrow> (Serves d runDir cookie, procs)))"

text \<open>The end of a daemon that served, from the result of \<open>Run\<close>.\<close>

definition gsnetd_exit :: "serve_error option \<Rightarrow> nat" where
  "gsnetd_exit err = (case err of None \<Rightarrow> 0 | Some _ \<Rightarrow> 1)"

section \<open>Both programs read their common flags alike\<close>

text \<open>A program with more flags reads the arguments that use only some of them in the same way.\<close>

definition more_flags :: "(string \<Rightarrow> flag_val option) \<Rightarrow> (string, flag_val) gomap \<Rightarrow> (string, flag_val) gomap \<Rightarrow> bool" where
  "more_flags others a b \<longleftrightarrow> (\<forall>k. mget b k = (case mget a k of None \<Rightarrow> others k | Some x \<Rightarrow> Some x))"

lemma more_flags_put: "more_flags others a b \<Longrightarrow> more_flags others (mput k x a) (mput k x b)"
  by (simp add: more_flags_def gomap_simps)

lemma flag_Parse_more:
  "flag_Parse args a = Inr (v, rest) \<Longrightarrow> more_flags others a b \<Longrightarrow>
     \<exists>v'. flag_Parse args b = Inr (v', rest) \<and> more_flags others v v'"
proof (induction args a arbitrary: b rule: flag_Parse.induct)
  case (2 s args vals)
  show ?case
  proof (cases "length s < 2 \<or> hd s \<noteq> CHR ''-'' \<or> s = ''--''")
    case False
    obtain name x0 where nv: "flag_value (flag_word s) = (name, x0)" by (cases "flag_value (flag_word s)")
    with 2(5) False have ok: "\<not> (flag_word s = [] \<or> hd (flag_word s) \<in> {CHR ''-'', CHR ''=''})" by (auto split: if_splits)
    show ?thesis
    proof (cases "mget vals name")
      case (Some x)
      with 2(6) have b: "mget b name = Some x" by (simp add: more_flags_def)
      show ?thesis using 2 False nv ok Some b by (cases x) (auto split: option.splits list.splits simp: more_flags_put)
    qed (use 2(5) False nv ok in auto)
  qed (use 2 in \<open>auto split: if_splits\<close>)
qed simp

lemma flag_Parse_keeps: "flag_Parse args a = Inr (v, rest) \<Longrightarrow> mget v k = None \<longleftrightarrow> mget a k = None"
proof (induction args a rule: flag_Parse.induct)
  case (2 s args vals)
  obtain name x0 where nv: "flag_value (flag_word s) = (name, x0)" by (cases "flag_value (flag_word s)")
  with 2 show ?case by (auto split: if_splits option.splits flag_val.splits list.splits simp: gomap_simps)
qed simp

text \<open>The words after the flags.\<close>

lemma flag_Parse_words:
  "flag_Parse opts a = Inr (v, []) \<Longrightarrow> length w < 2 \<or> hd w \<noteq> CHR ''-'' \<Longrightarrow> flag_Parse (opts @ w # ws) a = Inr (v, w # ws)"
proof (induction opts a rule: flag_Parse.induct)
  case (2 s args vals)
  show ?case
  proof (cases "length s < 2 \<or> hd s \<noteq> CHR ''-'' \<or> s = ''--''")
    case False
    obtain name x0 where nv: "flag_value (flag_word s) = (name, x0)" by (cases "flag_value (flag_word s)")
    with 2(5) False have ok: "\<not> (flag_word s = [] \<or> hd (flag_word s) \<in> {CHR ''-'', CHR ''=''})" by (auto split: if_splits)
    show ?thesis
    proof (cases "mget vals name")
      case (Some x)
      then show ?thesis using 2 False nv ok by (cases x) (auto split: option.splits list.splits)
    qed (use 2(5) False nv ok in auto)
  qed (use 2 in \<open>auto split: if_splits\<close>)
qed simp

text \<open>So a client and a daemon that are given the same flags work on the same network.\<close>

lemma common_values:
  assumes "flag_Parse opts common_flags = Inr (v, [])" and "more_flags others v v'"
  shows "flag_string v' ''c'' = flag_string v ''c''" "flag_string v' ''n'' = flag_string v ''n''" "flag_string v' ''r'' = flag_string v ''r''"
    and "k \<notin> {''c'', ''n'', ''r''} \<Longrightarrow> mget v' k = others k"
proof -
  have k: "mget v k = None \<longleftrightarrow> k \<notin> {''c'', ''n'', ''r''}" for k
    using flag_Parse_keeps [OF assms(1), of k] by (auto simp: common_flags_def mget_def)
  have "mget v' k = mget v k" if "k \<in> {''c'', ''n'', ''r''}" for k
    using assms(2) k [of k] that by (auto simp: more_flags_def split: option.splits)
  then show "flag_string v' ''c'' = flag_string v ''c''" "flag_string v' ''n'' = flag_string v ''n''" "flag_string v' ''r'' = flag_string v ''r''"
    by (simp_all add: flag_string_def)
  show "k \<notin> {''c'', ''n'', ''r''} \<Longrightarrow> mget v' k = others k" using assms(2) k [of k] by (simp add: more_flags_def)
qed

lemma gsnet_words:
  assumes "flag_Parse opts common_flags = Inr (v, [])" and "length cmd < 2 \<or> hd cmd \<noteq> CHR ''-''"
  shows "gsnet_main m ie (opts @ cmd # rest) fs = main_exit m ie (flag_string v ''c'') (flag_string v ''n'') (flag_string v ''r'') (cmd # rest) fs"
proof -
  have "more_flags (mget [(''b'', FBool False)]) common_flags gsnet_flags"
    by (simp add: more_flags_def gsnet_flags_def common_flags_def mget_def)
  from flag_Parse_more [OF flag_Parse_words [OF assms] this] obtain v' where
    "flag_Parse (opts @ cmd # rest) gsnet_flags = Inr (v', cmd # rest)" "more_flags (mget [(''b'', FBool False)]) v v'" by blast
  with common_values(1-3) [OF assms(1)] show ?thesis by (simp add: gsnet_main_def)
qed

lemma gsnetd_words:
  assumes "flag_Parse opts common_flags = Inr (v, [])"
  obtains v' where "flag_Parse opts gsnetd_flags = Inr (v', [])" "flag_string v' ''c'' = flag_string v ''c''" "flag_string v' ''n'' = flag_string v ''n''"
    "flag_string v' ''r'' = flag_string v ''r''" "flag_string v' ''l'' = '':51820''" "\<not> flag_bool v' ''fake''"
proof -
  let ?others = "mget [(''l'', FString '':51820''), (''D'', FBool False), (''fake'', FBool False)]"
  have "more_flags ?others common_flags gsnetd_flags" by (simp add: more_flags_def gsnetd_flags_def common_flags_def mget_def)
  from flag_Parse_more [OF assms this] obtain v' where v': "flag_Parse opts gsnetd_flags = Inr (v', [])" "more_flags ?others v v'" by blast
  note c = common_values [OF assms v'(2)]
  have "?others ''l'' = Some (FString '':51820'')" "?others ''fake'' = Some (FBool False)" by (simp_all add: mget_def)
  then have "mget v' ''l'' = Some (FString '':51820'')" "mget v' ''fake'' = Some (FBool False)" by (simp_all add: c(4))
  then show ?thesis by (intro that [OF v'(1) c(1-3)]) (simp_all add: flag_string_def flag_bool_def)
qed

section \<open>From an empty directory to a node that answers\<close>


text \<open>A new machine, its administrator and the network \<open>vpn\<close>.\<close>

definition admin :: machine where
  "admin = \<lparr>gm_crypto = toy_crypto, gm_session = toy_session, gm_newEd = Some [1], gm_newWG = Some (replicate 32 2), gm_rand = None,
     gm_join = (([], \<lambda>_ _. None), ([], \<lambda>_ _. None)), gm_stdin = [], gm_diag = (\<lambda>_. []), gm_net = (\<lambda>_. None), gm_dur = (\<lambda>_. None),
     gm_clock = 0, gm_passes = [], gm_capture = (\<lambda>_ _. ([], Waits))\<rparr>"

definition vpn_flags :: "(string, flag_val) gomap" where
  "vpn_flags = mput ''n'' (FString ''vpn'') common_flags"

lemma vpn_flags: "flag_Parse [''-n'', ''vpn''] common_flags = Inr (vpn_flags, [])" "flag_string vpn_flags ''r'' = ''/run''"
  "etc_gsnet = \<lparr>pa_ConfRoot = flag_string vpn_flags ''c'', pa_Netname = flag_string vpn_flags ''n''\<rparr>"
  by code_simp+


section \<open>Packet capture\<close>

text \<open>The end of \<open>cmdPcap\<close>: a signal cancels the capture to the standard output.\<close>

definition capture_stdout ::
    "(capture_error \<Rightarrow> cli_error) \<Rightarrow> netdev \<Rightarrow> (recv \<times> int \<times> nat) list \<Rightarrow> 32 word \<Rightarrow> string \<Rightarrow> string \<times> unit wait" where
  "capture_stdout ce n calls snaplen iface =
     (case pcap_Capture buffer n iface snaplen calls [] of (out, e) \<Rightarrow> (bytes_str out, ended (map_option ce e)))"

text \<open>
  C32: \<open>gsnet pcap\<close> prints a capture. When the flags and arguments are good, the interface exists and the process may open a
  packet socket, then whatever is received until the signal, what the command printed is a capture file of the snap
  length asked for, with one record for each packet received, in order, with its time to the microsecond and its bytes up to the snap
  length; the same holds when receiving fails, and the exit status tells the two cases apart.
\<close>

theorem pcap_command:
  assumes "flag_Parse opts common_flags = Inr (v, [])"
    and "cmdPcap \<lparr>pa_ConfRoot = flag_string v ''c'', pa_Netname = flag_string v ''n''\<rparr> args fs = Inr (snaplen, iface)"
    and "ns_ifindex n iface = Some index" and "ns_socket n (htons ETH_P_ALL) = None" and "ns_bind n (htons ETH_P_ALL) index = None"
    and "list_all packet_ok (received calls)"
  shows "\<exists>out rd. gsnet_main (m\<lparr>gm_capture := capture_stdout ce n calls\<rparr>) ie (opts @ ''pcap'' # args) fs =
      (fs, out, Some (if first_error calls = None then 0 else 1)) \<and>
    NewReader (str_bytes out) = Inr rd \<and> pr_LinkType rd = LinkTypeEthernet \<and> pr_Snaplen rd = snaplen \<and>
    read_all (Suc (length (received calls))) rd = (map (captured snaplen) (received calls), Some PcapEOF)"
proof -
  from capture_file [OF assms(3-6), of snaplen] obtain out rd where o: "pcap_Capture buffer n iface snaplen calls [] = (out, first_error calls)"
    "NewReader out = Inr rd" "pr_LinkType rd = LinkTypeEthernet" "pr_Snaplen rd = snaplen"
    "read_all (Suc (length (received calls))) rd = (map (captured snaplen) (received calls), Some PcapEOF)" by blast
  have "gsnet_main (m\<lparr>gm_capture := capture_stdout ce n calls\<rparr>) ie (opts @ ''pcap'' # args) fs =
      (fs, bytes_str out, Some (if first_error calls = None then 0 else 1))"
    using assms(2) o(1) by (subst gsnet_words [OF assms(1)])
      (simp_all add: main_exit_def dispatch_def capture_stdout_def ended_def split: option.split)
  moreover have "NewReader (str_bytes (bytes_str out)) = Inr rd" using o(2) by (simp only: str_bytes_bytes_str)
  ultimately show ?thesis using o(3-5) by blast
qed

theorem pcap_command_witness:
  "\<exists>out rd. gsnet_main (admin\<lparr>gm_capture := capture_stdout (\<lambda>_. NoInterface) \<lparr>ns_ifindex = (\<lambda>_. Some 3), ns_socket = (\<lambda>_. None), ns_bind = (\<lambda>_ _. None)\<rparr>
       [(EAGAIN, 0, 0), (Frame [1, 2, 3], 7, 1500)]\<rparr>) (\<lambda>_. NoLocalName) [''-n'', ''vpn'', ''pcap'', ''-i'', ''eth0'', ''-s'', ''2''] new_machine =
      (new_machine, out, Some 0) \<and> NewReader (str_bytes out) = Inr rd \<and>
     read_all 2 rd = ([\<lparr>pk_Sec = 7, pk_Nsec = 1000, pk_Data = [1, 2]\<rparr>], Some PcapEOF)"
proof -
  let ?n = "\<lparr>ns_ifindex = (\<lambda>_. Some 3), ns_socket = (\<lambda>_. None), ns_bind = (\<lambda>_ _. None)\<rparr> :: netdev"
  let ?calls = "[(EAGAIN, 0, 0), (Frame [1, 2, 3], 7, 1500)]"
  have "parse_digits 0 ''2'' = Some 2" by code_simp
  then have "pcap_args [''-i'', ''eth0'', ''-s'', ''2''] 65535 [] = Inr (2, ''eth0'')" by (simp add: ParseUint32_def)
  then have c: "cmdPcap \<lparr>pa_ConfRoot = flag_string vpn_flags ''c'', pa_Netname = flag_string vpn_flags ''n''\<rparr> [''-i'', ''eth0'', ''-s'', ''2''] new_machine = Inr (2, ''eth0'')"
    by (simp add: cmdPcap_def)
  have ok: "list_all packet_ok (received ?calls)" by (simp add: packet_ok_def recv_buf_def)
  have r: "Suc (length (received ?calls)) = 2" "map (captured 2) (received ?calls) = [\<lparr>pk_Sec = 7, pk_Nsec = 1000, pk_Data = [1, 2]\<rparr>]"
    "first_error ?calls = None" by (simp_all add: captured_def recv_buf_def)
  have n: "ns_ifindex ?n ''eth0'' = Some 3" "ns_socket ?n (htons ETH_P_ALL) = None" "ns_bind ?n (htons ETH_P_ALL) 3 = None" by simp_all
  note w = pcap_command [OF vpn_flags(1) c n ok, of "\<lambda>_. NoInterface" admin "\<lambda>_. NoLocalName", unfolded r append_Cons append_Nil]
  show ?thesis using w by (simp only: refl if_True) blast
qed

end
