(* ===== verification/Spec2Isabelle.thy ===== *)
theory Spec2Isabelle
  imports Nodename Graph Config Keys Netip Json Converge Subnet Stun Control Invite Transport Dataplane Compression Sandbox ControlClient Join Discovery Script Top Run Capture Commands
begin

text \<open>
  \<^bold>\<open>gsnet: a verified model of the VPN daemon and its control plane.\<close>

  \<^bold>\<open>The program.\<close> gsnet builds a mesh VPN from kernel devices: a WireGuard interface carries the traffic, a VXLAN
  device on top of it makes the nodes one Ethernet segment. The daemon decides what these devices contain. Nodes
  flood signed announcements (who exists, who is linked to whom, who owns which subnet) over TCP links; from the
  resulting graph, the local configuration and one host file per peer the daemon computes the state it wants and
  a reconciler makes the kernel match it. New nodes enter by a single-use invitation that is fetched over an
  encrypted exchange. A control socket lets the command line tool ask for dumps, reload and purge.

  \<^bold>\<open>Theories and what they model\<close> (paths below \<open>src/internal\<close>).
  \<^item> \<open>Prelude\<close>: bytes, Go maps as association lists with the contract \<open>go_map\<close>, the contract \<open>codec\<close> of an encoder
    with its decoder, results of fallible functions.
  \<^item> \<open>GoStrings\<close>, \<open>Base64\<close>, \<open>Netip\<close>, \<open>Json\<close>: what the sources use of Go's \<open>strings\<close>, \<open>strconv\<close>, \<open>bufio\<close>,
    \<open>encoding/base64\<close>, \<open>net/netip\<close> and \<open>encoding/json\<close>, on byte strings.
  \<^item> \<open>Nodename\<close> (\<open>nodename\<close>), \<open>Config\<close> (\<open>config\<close>), \<open>Keys\<close> (\<open>keys\<close>), \<open>Subnet\<close> (\<open>subnet\<close>), \<open>Stun\<close> (\<open>stun\<close>),
    \<open>Control\<close> (\<open>control\<close>), \<open>Invite\<close> (\<open>invite\<close>), \<open>Pcap\<close> (\<open>pcap/pcap.go\<close>), \<open>Compression\<close> (\<open>compression\<close>): one
    package each, one definition per function, the records of the source's structs.
  \<^item> \<open>Graph\<close> (\<open>graph\<close>): the topology. The state is the pair of maps of the source; \<open>Reachable\<close> is the breadth-first
    loop with its queue, shown to end by a measure.
  \<^item> \<open>Gossip\<close>, \<open>Relay\<close>, \<open>Plane\<close>, \<open>Converge\<close> (\<open>gossip\<close>): envelopes with their JSON and signed forms; the plane with
    its dedup table, outbox and learned keys; \<open>Relay\<close> states the dedup contract as a locale, \<open>Plane\<close> proves what one
    node does, \<open>Converge\<close> what several nodes and several concurrent receivers do.
  \<^item> \<open>Transport\<close> (\<open>transport\<close>): dispatch of a connection, gossip links, the invitation exchange on both sides, the
    table of connections.
  \<^item> \<open>Lifecycle\<close>, \<open>ControlServer\<close> (\<open>control/server.go\<close>), \<open>TransportServer\<close> (\<open>transport/transport.go\<close>): the two servers around
    their connections. Listener, accept loop, connection table, wait group, the goroutine of every connection and the
    one that waits for cancellation are the state; \<open>c_step\<close> and \<open>t_step\<close> are the steps of the server's own goroutines in any
    order, \<open>c_outside\<close> and \<open>t_outside\<close> what clients, peers and the system do. The locale \<open>drain\<close> of \<open>Lifecycle\<close> is the
    contract of a shutdown: an invariant, a rank that every own step lowers, and progress until finished or blocked.
  \<^item> \<open>Dataplane\<close> (\<open>dataplane\<close>): the desired state, the Linux reconciler over a kernel that is a record of netlink
    and wgctrl operations, and the fake reconciler.
  \<^item> \<open>Files\<close> (file system, \<open>config.LoadDirectory\<close>, \<open>daemon/paths.go\<close>), \<open>Setup\<close> (\<open>daemon/init.go\<close>, \<open>daemon/fsck.go\<close>),
    \<open>Daemon\<close> (\<open>daemon/daemon.go\<close>), \<open>Sandbox\<close> (\<open>sandbox\<close>): the daemon around them. \<open>Daemon\<close> composes the models above:
    the plane's observer reconciles, the plane's verifier reads host files, the transport's callbacks work on the
    invitations directory, the control handler works on the plane's graph.
  \<^item> \<open>Upnp\<close> (\<open>upnp\<close>) and \<open>Discovery\<close> (\<open>daemon/discovery.go\<close>): finding the gateway, mapping the port, and the loop that
    learns the node's end point from the gateway or from STUN and announces it.
  \<^item> \<open>Script\<close> (\<open>script\<close> and the hooks of \<open>daemon/daemon.go\<close>): which program a hook starts, with which environment, and
    how \<open>Run\<close> ends. \<open>Run\<close> (\<open>daemon/daemon.go\<close>): the whole of \<open>Run\<close>, its start with every failing path, and both servers with
    the goroutine of \<open>Run\<close> as one step relation.
  \<^item> \<open>Cli\<close> (\<open>src/cmd/gsnet/main.go\<close>): the commands that work on the configuration, \<open>invite\<close> and \<open>join\<close> included;
    \<open>ControlClient\<close> (\<open>control/server.go\<close>, client side, and the commands that ask the daemon); \<open>Join\<close> composes them
    with the daemon and the transport: from \<open>gsnet invite\<close> on one machine to a running node on another.
    \<open>Top\<close>: the display \<open>gsnet top\<close>, the choice of the command and the exit status.
  \<^item> \<open>Capture\<close> (\<open>pcap/capture_linux.go\<close>), \<open>Commands\<close> (\<open>main\<close> of \<open>src/cmd/gsnet\<close> and \<open>src/cmd/gsnetd\<close>): packet capture, Go's
    flags as the two programs use them, and the programs from their command lines.

  \<^bold>\<open>Parameters.\<close> Cryptography (\<open>crypto\<close>, \<open>session_crypto\<close>), the compressors (\<open>blocks\<close>), the kernel (\<open>host\<close>), the
  local network (\<open>lan\<close>, \<open>udp_net\<close>), packet sockets (\<open>netdev\<close>), started processes (\<open>exec\<close>), the outcome of a broadcast, random bytes and the
  clock are arguments. What the program relies on is a named hypothesis (\<open>ed25519_correct\<close>, \<open>pem_correct\<close>,
  \<open>wg_correct\<close>, \<open>session_correct\<close>, \<open>blocks_correct\<close>, \<open>fdb_laws\<close>, \<open>wg_laws\<close>, \<open>gateway_ok\<close>), each satisfied by a concrete instance in the witnesses. A mutex makes an operation one step; where
  the source releases it in between (\<open>Receive\<close>), \<open>Converge\<close> models the two steps and their interleavings.

  \<^bold>\<open>What is shown.\<close>
  \<^item> Gossip: a message is applied and relayed at most once and only with a valid signature; announcements reach
    every trusting peer; the subnets of all nodes agree once they have heard the same messages. Two scenarios
    where this fails (edges announced from both ends, two receivers racing) are proved as such.
  \<^item> Topology: edges are symmetric, search computes reachability, a purge removes exactly what cannot be reached.
  \<^item> Invitations: both sides of the exchange agree, an accepted reply comes from the inviter, an invitation admits
    one node once; a cookie with a path in it discloses the private key.
  \<^item> Data plane: after a pass, WireGuard peers and forwarding rows are those of the desired state; the desired peers
    are the known nodes with a valid key.
  \<^item> Joining: what \<open>gsnet invite\<close> prints and writes lets \<open>gsnet join\<close> set up a node that loads, knows the inviter's key
    and dials it, and the inviter then knows the new node.
  \<^item> Discovery: the gateway is found in whatever its description contains; a discovered end point becomes the end
    point the peers configure; a port mapping is removed on exit, except after the port was changed.
  \<^item> Configuration: files round trip, and so do exported hosts; \<open>set\<close>, \<open>add\<close> and \<open>del\<close> change what \<open>get\<close> returns for that
    key only; a new configuration passes the checker and what the checker passes can be loaded.
  \<^item> Running: the hooks run with the documented environment, but not below a relative directory, and \<open>gsnet-down\<close>
    neither under the highest sandbox level nor after \<open>gsnet stop\<close>; that level confines the process and in doing so
    also blocks joining nodes. Dumps of nodes, edges and subnets end, the other dumps wait for ever.
  \<^item> Starting and stopping: three command lines lead from an empty directory to a daemon that answers its clients; a
    cancelled daemon reaches the end of \<open>Run\<close> within a bounded number of steps, however its goroutines are scheduled, unless a
    peer on the gossip port stays silent, which blocks it for ever; a control connection accepted at the wrong
    moment blocks the control server; only links that asked for gossip are in the pool that broadcasts go to.
  \<^item> Formats: envelopes, control messages, invitation URLs and files, subnets, capture files and compressed messages
    are read back as written; the STUN parser accepts only answers to its own request, and one datagram crashes it.

  \<^bold>\<open>Bounds.\<close> No definition uses fuel except \<open>read_all\<close> of \<open>Pcap\<close>, which reads at most a given number of packets; its
  theorem takes one more than were written. Integers are words of their Go width where the source can overflow
  (ports, VXLAN identifier, capture lengths, access masks, addresses), integers otherwise.

  \<^bold>\<open>Not modelled.\<close> Time: the limits of single reads and writes and the length of waits (a wait is over, or its loop is the list of
  its rounds). Writes to a connection do not block. Scheduling is modelled for the two servers and \<open>Run\<close> and for concurrent
  receivers of gossip; the other goroutines of the daemon are operations, each one step. How random keys are made, the log,
  and what the kernel does with the devices beyond the operations of \<open>host\<close>.
\<close>

end
